(* ===== verification/Prelude.thy ===== *)
theory Prelude
  imports Complex_Main "HOL-Library.AList"
begin

text \<open>
  What every component shares: results of fallible code, the state-and-exception programs
  the effectful code is written in with their Hoare triples, Python's dictionaries as
  association lists, and the theorem collections the component proofs use.
\<close>

named_theorems prog_defs \<open>definitions of the program combinators\<close>
named_theorems triple_rules \<open>Hoare rules of the program combinators and operations\<close>

section \<open>Results: a raised exception or a value\<close>

type_synonym ('e, 'a) result = "'e + 'a"

fun rbind :: "('e, 'a) result \<Rightarrow> ('a \<Rightarrow> ('e, 'b) result) \<Rightarrow> ('e, 'b) result" where
  "rbind (Inl e) f = Inl e"
| "rbind (Inr a) f = f a"

lemma rbind_Inr_iff: "rbind m f = Inr b \<longleftrightarrow> (\<exists>a. m = Inr a \<and> f a = Inr b)"
  by (cases m) auto

lemma rbind_Inl_iff: "rbind m f = Inl e \<longleftrightarrow> m = Inl e \<or> (\<exists>a. m = Inr a \<and> f a = Inl e)"
  by (cases m) auto

fun rfold :: "('a \<Rightarrow> 'b \<Rightarrow> ('e, 'b) result) \<Rightarrow> 'a list \<Rightarrow> 'b \<Rightarrow> ('e, 'b) result" where
  "rfold f [] b = Inr b"
| "rfold f (x # xs) b = rbind (f x b) (rfold f xs)"

text \<open>A fold over fallible steps keeps whatever every step keeps.\<close>

lemma rfold_invariant:
  assumes "rfold f xs b = Inr c" and "P b"
    and "\<And>x b c. x \<in> set xs \<Longrightarrow> P b \<Longrightarrow> f x b = Inr c \<Longrightarrow> P c"
  shows "P c"
  using assms
proof (induction xs arbitrary: b)
  case Nil
  then show ?case by simp
next
  case (Cons x xs)
  then obtain b' where "f x b = Inr b'" and "rfold f xs b' = Inr c"
    by (auto simp: rbind_Inr_iff)
  with Cons show ?case by (meson list.set_intros)
qed

lemma rfold_total:
  assumes "\<And>x b. x \<in> set xs \<Longrightarrow> \<exists>c. f x b = Inr c"
  shows "\<exists>c. rfold f xs b = Inr c"
  using assms
proof (induction xs arbitrary: b)
  case Nil
  then show ?case by simp
next
  case (Cons x xs)
  obtain b' where "f x b = Inr b'"
    using Cons.prems by (metis list.set_intros(1))
  with Cons show ?case by auto
qed

text \<open>A comprehension over a fallible function: the first error is raised.\<close>

fun rmap :: "('a \<Rightarrow> ('e, 'b) result) \<Rightarrow> 'a list \<Rightarrow> ('e, 'b list) result" where
  "rmap f [] = Inr []"
| "rmap f (x # xs) = rbind (f x) (\<lambda>y. rbind (rmap f xs) (\<lambda>ys. Inr (y # ys)))"

lemma rmap_Inr: "rmap f xs = Inr ys \<longleftrightarrow> list_all2 (\<lambda>x y. f x = Inr y) xs ys"
  by (induction xs arbitrary: ys) (auto simp: rbind_Inr_iff list_all2_Cons1)

lemma rmap_mem: "rmap f xs = Inr ys \<Longrightarrow> y \<in> set ys \<Longrightarrow> \<exists>x \<in> set xs. f x = Inr y"
  by (induction xs arbitrary: ys) (auto simp: rbind_Inr_iff)

lemma rmap_length: "rmap f xs = Inr ys \<Longrightarrow> length ys = length xs"
  by (induction xs arbitrary: ys) (auto simp: rbind_Inr_iff)

lemma rmap_total: "(\<And>x. x \<in> set xs \<Longrightarrow> \<exists>y. f x = Inr y) \<Longrightarrow> \<exists>ys. rmap f xs = Inr ys"
  by (induction xs) (fastforce simp: rbind_Inr_iff)+

lemma rmap_Inl: "rmap f xs = Inl e \<Longrightarrow> \<exists>x \<in> set xs. f x = Inl e"
  by (induction xs) (auto simp: rbind_Inl_iff)

section \<open>Programs: state and exceptions\<close>

text \<open>
  Effectful code is a function from the state before to its result and the state after.
  A raised exception keeps the state reached so far: the effects before it stay.
\<close>

type_synonym ('s, 'e, 'a) prog = "'s \<Rightarrow> ('e, 'a) result \<times> 's"

definition ret :: "'a \<Rightarrow> ('s, 'e, 'a) prog" where
  [prog_defs]: "ret a = (\<lambda>s. (Inr a, s))"

definition throw :: "'e \<Rightarrow> ('s, 'e, 'a) prog" where
  [prog_defs]: "throw e = (\<lambda>s. (Inl e, s))"

definition andThen :: "('s, 'e, 'a) prog \<Rightarrow> ('a \<Rightarrow> ('s, 'e, 'b) prog) \<Rightarrow> ('s, 'e, 'b) prog" where
  [prog_defs]: "andThen m f = (\<lambda>s. case m s of (Inl e, s') \<Rightarrow> (Inl e, s') | (Inr a, s') \<Rightarrow> f a s')"

definition lift_result :: "('e, 'a) result \<Rightarrow> ('s, 'e, 'a) prog" where
  [prog_defs]: "lift_result r = (\<lambda>s. (r, s))"

definition catch :: "('s, 'e, 'a) prog \<Rightarrow> ('e \<Rightarrow> ('s, 'e, 'a) prog) \<Rightarrow> ('s, 'e, 'a) prog" where
  [prog_defs]: "catch m h = (\<lambda>s. case m s of (Inl e, s') \<Rightarrow> h e s' | (Inr a, s') \<Rightarrow> (Inr a, s'))"

definition reads :: "('s \<Rightarrow> 'a) \<Rightarrow> ('s, 'e, 'a) prog" where
  [prog_defs]: "reads f = (\<lambda>s. (Inr (f s), s))"

definition skip :: "('s, 'e, unit) prog" where
  [prog_defs]: "skip = ret ()"

lemma ret_andThen [simp]: "andThen (ret a) f = f a"
  by (simp add: prog_defs)

lemma throw_andThen [simp]: "andThen (throw e) f = throw e"
  by (simp add: prog_defs)

lemma andThen_assoc: "andThen (andThen m f) g = andThen m (\<lambda>a. andThen (f a) g)"
  by (rule ext) (auto simp: prog_defs split: prod.splits sum.splits)

text \<open>
  \<open>triple P m Q E\<close>: from a state satisfying \<open>P\<close>, the program either returns \<open>a\<close> in a
  state with \<open>Q a\<close> or raises \<open>e\<close> in a state with \<open>E e\<close>. Programs are total
  functions, so this is total correctness.
\<close>

definition triple ::
  "('s \<Rightarrow> bool) \<Rightarrow> ('s, 'e, 'a) prog \<Rightarrow> ('a \<Rightarrow> 's \<Rightarrow> bool) \<Rightarrow> ('e \<Rightarrow> 's \<Rightarrow> bool) \<Rightarrow> bool" where
  "triple P m Q E \<longleftrightarrow>
     (\<forall>s. P s \<longrightarrow> (case m s of (Inl e, s') \<Rightarrow> E e s' | (Inr a, s') \<Rightarrow> Q a s'))"

lemma triple_ret: "(\<And>s. P s \<Longrightarrow> Q a s) \<Longrightarrow> triple P (ret a) Q E"
  by (simp add: triple_def ret_def)

lemma triple_throw: "(\<And>s. P s \<Longrightarrow> E e s) \<Longrightarrow> triple P (throw e) Q E"
  by (simp add: triple_def throw_def)

lemma triple_lift:
  "(\<And>a s. r = Inr a \<Longrightarrow> P s \<Longrightarrow> Q a s) \<Longrightarrow> (\<And>e s. r = Inl e \<Longrightarrow> P s \<Longrightarrow> E e s)
   \<Longrightarrow> triple P (lift_result r) Q E"
  by (cases r) (auto simp: triple_def lift_result_def)

lemma triple_reads: "(\<And>s. P s \<Longrightarrow> Q (f s) s) \<Longrightarrow> triple P (reads f) Q E"
  by (simp add: triple_def reads_def)

lemma triple_andThen:
  assumes "triple P m R E" and "\<And>a. triple (R a) (f a) Q E"
  shows "triple P (andThen m f) Q E"
  using assms by (fastforce simp: triple_def andThen_def split: prod.splits sum.splits)

lemma triple_catch:
  assumes "triple P m Q R" and "\<And>e. triple (R e) (h e) Q E"
  shows "triple P (catch m h) Q E"
  using assms by (fastforce simp: triple_def catch_def split: prod.splits sum.splits)

lemma triple_if:
  assumes "b \<Longrightarrow> triple P m Q E" and "\<not> b \<Longrightarrow> triple P n Q E"
  shows "triple P (if b then m else n) Q E"
  using assms by simp

lemma triple_case_option:
  assumes "x = None \<Longrightarrow> triple P m Q E" and "\<And>y. x = Some y \<Longrightarrow> triple P (n y) Q E"
  shows "triple P (case x of None \<Rightarrow> m | Some y \<Rightarrow> n y) Q E"
  using assms by (cases x) auto

lemma triple_case_prod:
  assumes "\<And>x y. p = (x, y) \<Longrightarrow> triple P (m x y) Q E"
  shows "triple P (case p of (x, y) \<Rightarrow> m x y) Q E"
  using assms by (cases p) auto

lemma triple_Let:
  assumes "\<And>x. x = a \<Longrightarrow> triple P (m x) Q E"
  shows "triple P (let x = a in m x) Q E"
  using assms by (simp add: Let_def)

text \<open>A fact the assertion implies may be used to prove the triple.\<close>

lemma triple_pull:
  assumes "A \<Longrightarrow> triple P m Q E"
  shows "triple (\<lambda>s. P s \<and> A) m Q E"
  using assms by (auto simp: triple_def)

lemma triple_conseq:
  assumes "triple P' m Q' E'" and "\<And>s. P s \<Longrightarrow> P' s"
    and "\<And>a s. Q' a s \<Longrightarrow> Q a s" and "\<And>e s. E' e s \<Longrightarrow> E e s"
  shows "triple P m Q E"
  using assms by (fastforce simp: triple_def split: prod.splits sum.splits)

lemma triple_D:
  assumes "triple P m Q E" and "P s" and "m s = (r, s')"
  shows "case r of Inl e \<Rightarrow> E e s' | Inr a \<Rightarrow> Q a s'"
  using assms by (auto simp: triple_def split: sum.splits)

text \<open>
  Python's \<open>for _ in range(n): ... else: ...\<close>: the body says whether to go on (\<open>True\<close>) or
  to break; the \<open>else\<close> part runs when the range is used up.
\<close>

fun for_else ::
  "nat \<Rightarrow> ('a \<Rightarrow> ('s, 'e, bool \<times> 'a) prog) \<Rightarrow> ('a \<Rightarrow> 'a) \<Rightarrow> 'a \<Rightarrow> ('s, 'e, 'a) prog" where
  "for_else 0 step otherwise a = ret (otherwise a)"
| "for_else (Suc n) step otherwise a =
     andThen (step a) (\<lambda>(go, b). if go then for_else n step otherwise b else ret b)"

lemma triple_for_else:
  assumes step: "\<And>n a. triple (I (Suc n) a) (step a) (\<lambda>(go, b). if go then I n b else Q b) E"
    and otherwise: "\<And>a s. I 0 a s \<Longrightarrow> Q (otherwise a) s"
  shows "triple (I n a) (for_else n step otherwise a) Q E"
proof (induction n arbitrary: a)
  case 0
  show ?case by (simp add: triple_ret otherwise)
next
  case (Suc n)
  show ?case
    unfolding for_else.simps
    by (rule triple_andThen [OF step]) (auto intro: Suc triple_ret split: prod.split)
qed

section \<open>Dictionaries\<close>

text \<open>
  A Python dictionary keeps its keys in insertion order; assigning to a key already there
  keeps the key's place. \<open>AList.update\<close> is that assignment and \<open>map_of\<close> the
  lookup.
\<close>

type_synonym ('k, 'v) dict = "('k \<times> 'v) list"

abbreviation dict_set :: "'k \<Rightarrow> 'v \<Rightarrow> ('k, 'v) dict \<Rightarrow> ('k, 'v) dict" where
  "dict_set \<equiv> AList.update"

definition dict_update :: "('k, 'v) dict \<Rightarrow> ('k, 'v) dict \<Rightarrow> ('k, 'v) dict" where
  "dict_update d e = fold (\<lambda>(k, v). dict_set k v) e d"

definition dict_pop :: "'k \<Rightarrow> ('k, 'v) dict \<Rightarrow> ('k, 'v) dict" where
  "dict_pop k d = AList.delete k d"

lemma map_of_dict_set: "map_of (dict_set k v d) = (map_of d)(k \<mapsto> v)"
  by (simp add: update_conv')

lemma map_of_dict_pop: "map_of (dict_pop k d) = (map_of d)(k := None)"
  by (simp add: dict_pop_def delete_conv')

lemma distinct_dict_set: "distinct (map fst d) \<Longrightarrow> distinct (map fst (dict_set k v d))"
  by (rule distinct_update)

lemma dict_set_mem: "(k, v) \<in> set (dict_set a b d) \<Longrightarrow> k = a \<and> v = b \<or> (k, v) \<in> set d"
  by (induction d) (auto split: if_splits)

section \<open>Lists and options\<close>

lemma find_append: "find P (xs @ ys) = (case find P xs of Some x \<Rightarrow> Some x | None \<Rightarrow> find P ys)"
  by (induction xs) auto

lemma find_SomeD: "find P xs = Some x \<Longrightarrow> x \<in> set xs \<and> P x"
  by (auto simp: find_Some_iff)

lemma map_filter_append [simp]: "List.map_filter f (xs @ ys) = List.map_filter f xs @ List.map_filter f ys"
  by (induction xs) (auto split: option.split)

lemma map_filter_Nil: "List.map_filter f xs = [] \<longleftrightarrow> (\<forall>x \<in> set xs. f x = None)"
  by (induction xs) (auto split: option.split)

lemma map_filter_head: "List.map_filter f xs = y # ys \<Longrightarrow> \<exists>x \<in> set xs. f x = Some y"
  by (induction xs) (auto split: option.splits)

text \<open>The maximum and minimum of a list that may be empty.\<close>

definition max_opt :: "'a::linorder list \<Rightarrow> 'a option" where
  "max_opt xs = (case xs of [] \<Rightarrow> None | y # ys \<Rightarrow> Some (fold max ys y))"

definition min_opt :: "'a::linorder list \<Rightarrow> 'a option" where
  "min_opt xs = (case xs of [] \<Rightarrow> None | y # ys \<Rightarrow> Some (fold min ys y))"

lemma max_opt_eq: "max_opt xs = (if xs = [] then None else Some (Max (set xs)))"
  by (cases xs) (simp_all add: max_opt_def Max.set_eq_fold [symmetric])

lemma min_opt_eq: "min_opt xs = (if xs = [] then None else Some (Min (set xs)))"
  by (cases xs) (simp_all add: min_opt_def Min.set_eq_fold [symmetric])

lemma max_opt_Some: "max_opt xs = Some m \<longleftrightarrow> m \<in> set xs \<and> (\<forall>x \<in> set xs. x \<le> m)"
  by (auto simp: max_opt_eq intro: Max_eqI [symmetric] Max_eqI)

lemma min_opt_Some: "min_opt xs = Some m \<longleftrightarrow> m \<in> set xs \<and> (\<forall>x \<in> set xs. m \<le> x)"
  by (auto simp: min_opt_eq intro: Min_eqI)

lemma max_opt_None [simp]: "max_opt xs = None \<longleftrightarrow> xs = []"
  by (simp add: max_opt_eq)

lemma min_opt_None [simp]: "min_opt xs = None \<longleftrightarrow> xs = []"
  by (simp add: min_opt_eq)

end
