(* ===== verification/Py_Value.thy ===== *)
theory Py_Value
  imports Prelude
begin

text \<open>
  The Python values the code receives: decoded JSON, and the parts of the standard library
  the components use on them (string stripping and case, \<open>int\<close>, \<open>float\<close>,
  \<open>Decimal\<close>, \<open>round\<close>, truth values). A \<open>char\<close> is one code point below 256; floats
  are exact rationals with infinities and NaN, so overflow is modelled and rounding is not.
\<close>

section \<open>Values and exceptions\<close>

datatype pyfloat = Fin rat | PosInf | NegInf | NotANumber

datatype json =
    JNone
  | JBool bool
  | JInt int
  | JFloat pyfloat
  | JStr string
  | JList "json list"
  | JDict "(string, json) dict"

datatype py_error = ValueError | OverflowError | KeyError | TypeError | UnicodeError | InvalidOperation | IndexError

text \<open>The fields of a mapping; anything else has none.\<close>

fun fields_of :: "json \<Rightarrow> (string, json) dict option" where
  "fields_of (JDict d) = Some d"
| "fields_of _ = None"

definition get_field :: "(string, json) dict \<Rightarrow> string \<Rightarrow> json" where
  "get_field d k = (case map_of d k of None \<Rightarrow> JNone | Some v \<Rightarrow> v)"

fun truthy :: "json \<Rightarrow> bool" where
  "truthy JNone = False"
| "truthy (JBool b) = b"
| "truthy (JInt i) = (i \<noteq> 0)"
| "truthy (JFloat f) = (f \<noteq> Fin 0)"
| "truthy (JStr s) = (s \<noteq> [])"
| "truthy (JList xs) = (xs \<noteq> [])"
| "truthy (JDict d) = (d \<noteq> [])"

section \<open>Strings\<close>

definition code :: "char \<Rightarrow> nat" where
  "code c = of_char c"

definition is_space :: "char \<Rightarrow> bool" where
  "is_space c = (let n = code c in (9 \<le> n \<and> n \<le> 13) \<or> (28 \<le> n \<and> n \<le> 32) \<or> n = 133 \<or> n = 160)"

definition is_digit :: "char \<Rightarrow> bool" where
  "is_digit c = (let n = code c in 48 \<le> n \<and> n \<le> 57)"

definition lstrip :: "string \<Rightarrow> string" where
  "lstrip s = dropWhile is_space s"

definition strip :: "string \<Rightarrow> string" where
  "strip s = rev (lstrip (rev (lstrip s)))"

definition lower_char :: "char \<Rightarrow> char" where
  "lower_char c = (let n = code c in
     if (65 \<le> n \<and> n \<le> 90) \<or> (192 \<le> n \<and> n \<le> 222 \<and> n \<noteq> 215) then char_of (n + 32) else c)"

text \<open>Three Latin-1 letters have no single upper-case code point below 256; they stay.\<close>

definition upper_char :: "char \<Rightarrow> char" where
  "upper_char c = (let n = code c in
     if (97 \<le> n \<and> n \<le> 122) \<or> (224 \<le> n \<and> n \<le> 254 \<and> n \<noteq> 247) then char_of (n - 32) else c)"

abbreviation lower :: "string \<Rightarrow> string" where
  "lower \<equiv> map lower_char"

abbreviation upper :: "string \<Rightarrow> string" where
  "upper \<equiv> map upper_char"

fun starts_with :: "string \<Rightarrow> string \<Rightarrow> bool" where
  "starts_with [] s = True"
| "starts_with (p # ps) [] = False"
| "starts_with (p # ps) (c # cs) = (p = c \<and> starts_with ps cs)"

lemma starts_with_iff: "starts_with p s \<longleftrightarrow> (\<exists>t. s = p @ t)"
  by (induction p s rule: starts_with.induct) auto

fun split_on :: "char \<Rightarrow> string \<Rightarrow> string list" where
  "split_on c [] = [[]]"
| "split_on c (x # xs) =
     (if x = c then [] # split_on c xs
      else case split_on c xs of [] \<Rightarrow> [[x]] | p # ps \<Rightarrow> (x # p) # ps)"

fun join_with :: "string \<Rightarrow> string list \<Rightarrow> string" where
  "join_with sep [] = []"
| "join_with sep [p] = p"
| "join_with sep (p # q # ps) = p @ sep @ join_with sep (q # ps)"

fun show_nat :: "nat \<Rightarrow> string" where
  "show_nat n = (if n < 10 then [char_of (48 + n)] else show_nat (n div 10) @ [char_of (48 + n mod 10)])"

declare show_nat.simps [simp del]

definition show_int :: "int \<Rightarrow> string" where
  "show_int i = (if i < 0 then ''-'' @ show_nat (nat (- i)) else show_nat (nat i))"

text \<open>
  \<open>str(value)\<close>. The text Python gives a float, list or dictionary only ever reaches error
  descriptions; it is the parameter \<open>render\<close>.
\<close>

fun py_str :: "(json \<Rightarrow> string) \<Rightarrow> json \<Rightarrow> string" where
  "py_str render JNone = ''None''"
| "py_str render (JBool b) = (if b then ''True'' else ''False'')"
| "py_str render (JInt i) = show_int i"
| "py_str render (JStr s) = s"
| "py_str render v = render v"

section \<open>Numbers\<close>

definition digits_value :: "string \<Rightarrow> int" where
  "digits_value ds = foldl (\<lambda>n c. n * 10 + (int (code c) - 48)) 0 ds"

text \<open>Digits with single underscores between them, as \<open>int\<close> and \<open>float\<close> read them.\<close>

fun digit_groups :: "bool \<Rightarrow> string \<Rightarrow> bool" where
  "digit_groups after_digit [] = after_digit"
| "digit_groups after_digit (c # cs) =
     (if is_digit c then digit_groups True cs
      else c = CHR ''_'' \<and> after_digit \<and> digit_groups False cs)"

fun split_sign :: "string \<Rightarrow> int \<times> string" where
  "split_sign [] = (1, [])"
| "split_sign (c # cs) =
     (if c = CHR ''-'' then (-1, cs) else if c = CHR ''+'' then (1, cs) else (1, c # cs))"

text \<open>\<open>int(text)\<close>: \<open>None\<close> is the \<open>ValueError\<close>, raised also past 4300 digits.\<close>

definition int_literal :: "string \<Rightarrow> int option" where
  "int_literal text =
     (let (sign, body) = split_sign (strip text); ds = filter is_digit body
      in if digit_groups False body \<and> length ds \<le> 4300 then Some (sign * digits_value ds) else None)"

text \<open>Digits, an optional fraction and an optional exponent: coefficient and power of ten.\<close>

definition exponent_literal :: "string \<Rightarrow> int option" where
  "exponent_literal t =
     (case t of [] \<Rightarrow> Some 0
      | e # rest \<Rightarrow>
         (let (sign, ds) = split_sign rest
          in if (e = CHR ''e'' \<or> e = CHR ''E'') \<and> ds \<noteq> [] \<and> list_all is_digit ds
             then Some (sign * digits_value ds) else None))"

definition number_literal :: "string \<Rightarrow> (int \<times> int) option" where
  "number_literal t =
     (let whole = takeWhile is_digit t; rest = dropWhile is_digit t;
          point = (rest \<noteq> [] \<and> hd rest = CHR ''.'');
          frac = (if point then takeWhile is_digit (tl rest) else []);
          tail = (if point then dropWhile is_digit (tl rest) else rest)
      in if whole @ frac = [] then None
         else map_option (\<lambda>e. (digits_value (whole @ frac), e - int (length frac)))
                (exponent_literal tail))"

definition scaled :: "int \<Rightarrow> int \<Rightarrow> rat" where
  "scaled c e = (if 0 \<le> e then of_int (c * 10 ^ nat e) else of_int c / of_int (10 ^ nat (- e)))"

datatype decimal = DFin int int | DInf | DNaN

text \<open>
  \<open>Decimal(text)\<close>: underscores anywhere are dropped; \<open>None\<close> is the raised error,
  which an exponent outside the module's range also gives.
\<close>

definition exponent_ok :: "int \<Rightarrow> int \<Rightarrow> bool" where
  "exponent_ok c e \<longleftrightarrow> c = 0 \<or>
     (e + int (length (show_nat (nat \<bar>c\<bar>))) - 1 \<le> 999999999999999999 \<and> -1999999999999999997 \<le> e)"

definition decimal_literal :: "string \<Rightarrow> decimal option" where
  "decimal_literal text =
     (let (sign, body) = split_sign (filter (\<lambda>c. c \<noteq> CHR ''_'') (strip text)); low = lower body
      in if low = ''inf'' \<or> low = ''infinity'' then Some DInf
         else if starts_with ''nan'' low \<and> list_all is_digit (drop 3 low) then Some DNaN
         else if starts_with ''snan'' low \<and> list_all is_digit (drop 4 low) then Some DNaN
         else (case number_literal body of
                 Some (c, e) \<Rightarrow> if exponent_ok c e then Some (DFin (sign * c) e) else None
               | None \<Rightarrow> None))"

definition float_limit :: rat where
  "float_limit = 2 ^ 1024 - 2 ^ 970"

definition float_of_rat :: "rat \<Rightarrow> pyfloat" where
  "float_of_rat q = (if float_limit \<le> q then PosInf else if q \<le> - float_limit then NegInf else Fin q)"

text \<open>Every underscore stands between two digits.\<close>

fun underscores_ok :: "bool \<Rightarrow> string \<Rightarrow> bool" where
  "underscores_ok after_digit [] = True"
| "underscores_ok after_digit (c # cs) =
     (if c = CHR ''_'' then after_digit \<and> cs \<noteq> [] \<and> is_digit (hd cs) \<and> underscores_ok False cs
      else underscores_ok (is_digit c) cs)"

definition float_literal :: "string \<Rightarrow> pyfloat option" where
  "float_literal text =
     (let stripped = strip text; (sign, body) = split_sign stripped; low = lower body
      in if low = ''inf'' \<or> low = ''infinity'' then Some (if sign < 0 then NegInf else PosInf)
         else if low = ''nan'' then Some NotANumber
         else if \<not> underscores_ok False body then None
         else map_option (\<lambda>(c, e). float_of_rat (scaled (sign * c) e))
                (number_literal (filter (\<lambda>c. c \<noteq> CHR ''_'') body)))"

text \<open>\<open>float(i)\<close> raises for an integer beyond the largest float.\<close>

definition float_of_int :: "int \<Rightarrow> (py_error, rat) result" where
  "float_of_int i =
     (if float_limit \<le> of_int \<bar>i\<bar> then Inl OverflowError else Inr (of_int i))"

text \<open>Rounding to the nearest integer, ties to even, and \<open>round(q, 2)\<close>.\<close>

definition round_half_even :: "rat \<Rightarrow> int" where
  "round_half_even q =
     (let f = \<lfloor>q\<rfloor>; d = q - of_int f
      in if d < 1 / 2 then f else if 1 / 2 < d then f + 1 else if even f then f else f + 1)"

definition round2 :: "rat \<Rightarrow> rat" where
  "round2 q = of_int (round_half_even (q * 100)) / 100"

section \<open>Lemmas\<close>

lemma map_of_get_field: "map_of d k = Some v \<Longrightarrow> get_field d k = v"
  by (simp add: get_field_def)

lemma round_half_even_bounds: "\<bar>of_int (round_half_even q) - q\<bar> \<le> 1 / 2"
proof -
  have "of_int \<lfloor>q\<rfloor> \<le> q" and "q < of_int \<lfloor>q\<rfloor> + 1"
    by linarith+
  then show ?thesis
    by (auto simp: round_half_even_def Let_def abs_le_iff)
qed

lemma round2_bounds: "\<bar>round2 q - q\<bar> \<le> 1 / 200"
proof -
  have "\<bar>of_int (round_half_even (q * 100)) - q * 100\<bar> \<le> 1 / 2"
    by (rule round_half_even_bounds)
  then show ?thesis
    by (simp add: round2_def abs_le_iff field_simps)
qed

lemma round_half_even_int [simp]: "round_half_even (of_int n) = n"
  by (simp add: round_half_even_def)

lemma length_split_on: "split_on c s \<noteq> []"
  by (induction c s rule: split_on.induct) (auto split: list.splits)

lemma join_split_on: "join_with [c] (split_on c s) = s"
proof (induction c s rule: split_on.induct)
  case (1 c)
  then show ?case by simp
next
  case (2 c x xs)
  obtain p ps where ps: "split_on c xs = p # ps"
    using length_split_on by (metis list.exhaust)
  with 2 show ?case
    by (cases ps) auto
qed

lemma split_on_no_sep: "p \<in> set (split_on c s) \<Longrightarrow> c \<notin> set p"
  by (induction c s arbitrary: p rule: split_on.induct) (auto split: list.splits if_splits)

text \<open>Decimal digits are read back: no two numbers have the same text.\<close>

lemma digits_value_snoc: "digits_value (ds @ [c]) = digits_value ds * 10 + (int (code c) - 48)"
  by (simp add: digits_value_def)

lemma code_digit [simp]: "n < 10 \<Longrightarrow> code (char_of (48 + n)) = 48 + n"
  by (simp add: code_def)

lemma digits_value_show_nat [simp]: "digits_value (show_nat n) = int n"
proof (induction n rule: show_nat.induct)
  case (1 n)
  show ?case
  proof (cases "n < 10")
    case True
    then show ?thesis
      by (subst show_nat.simps) (simp add: digits_value_def)
  next
    case False
    with 1 show ?thesis
      by (subst show_nat.simps) (simp add: digits_value_snoc zdiv_int zmod_int)
  qed
qed

lemma show_nat_inj [simp]: "show_nat m = show_nat n \<longleftrightarrow> m = n"
  by (metis digits_value_show_nat of_nat_eq_iff)

lemma show_nat_digits: "c \<in> set (show_nat n) \<Longrightarrow> is_digit c"
proof (induction n rule: show_nat.induct)
  case (1 n)
  then show ?case
    by (subst (asm) (2) show_nat.simps) (auto simp: is_digit_def Let_def split: if_splits)
qed

lemma show_nat_not_empty [simp]: "show_nat n \<noteq> []"
  by (subst show_nat.simps) simp

lemma show_int_inj [simp]: "show_int i = show_int j \<longleftrightarrow> i = j"
proof
  have minus: "\<not> is_digit (CHR ''-'')"
    by (simp add: is_digit_def code_def)
  have hd_digit: "is_digit (hd (show_nat n))" for n
    by (rule show_nat_digits [of _ n]) simp
  assume "show_int i = show_int j"
  then show "i = j"
    using minus hd_digit by (auto simp: show_int_def split: if_splits) (metis list.sel(1))+
qed simp

end
