(* ===== verification/Bitrix_Errors.thy ===== *)
theory Bitrix_Errors
  imports Py_Value
begin

text \<open>
  \<open>api/app/bitrix/errors.py\<close>: the exception hierarchy and \<open>classify\<close>, the one place
  where a Bitrix24 error string or an HTTP status becomes a type. Also the exceptions any
  program of the model may raise.
\<close>

section \<open>The hierarchy\<close>

datatype error_class =
    TransportError | ExpiredToken | NoAuthFound | InvalidCredentials | AccessDenied
  | UserAccessError | InsufficientScope | QueryLimitExceeded | OperationTimeLimit
  | MethodNotFound | NotFound | InvalidArgValue | EntityTypeNotSupported
  | IntranetUserOnly | PortalDeleted | PaymentRequired | InvalidGrant | UnknownBitrixError

fun class_name :: "error_class \<Rightarrow> string" where
  "class_name TransportError = ''TransportError''"
| "class_name ExpiredToken = ''ExpiredToken''"
| "class_name NoAuthFound = ''NoAuthFound''"
| "class_name InvalidCredentials = ''InvalidCredentials''"
| "class_name AccessDenied = ''AccessDenied''"
| "class_name UserAccessError = ''UserAccessError''"
| "class_name InsufficientScope = ''InsufficientScope''"
| "class_name QueryLimitExceeded = ''QueryLimitExceeded''"
| "class_name OperationTimeLimit = ''OperationTimeLimit''"
| "class_name MethodNotFound = ''MethodNotFound''"
| "class_name NotFound = ''NotFound''"
| "class_name InvalidArgValue = ''InvalidArgValue''"
| "class_name EntityTypeNotSupported = ''EntityTypeNotSupported''"
| "class_name IntranetUserOnly = ''IntranetUserOnly''"
| "class_name PortalDeleted = ''PortalDeleted''"
| "class_name PaymentRequired = ''PaymentRequired''"
| "class_name InvalidGrant = ''InvalidGrant''"
| "class_name UnknownBitrixError = ''UnknownBitrixError''"

fun default_code :: "error_class \<Rightarrow> string" where
  "default_code TransportError = ''transport_error''"
| "default_code ExpiredToken = ''expired_token''"
| "default_code NoAuthFound = ''NO_AUTH_FOUND''"
| "default_code InvalidCredentials = ''INVALID_CREDENTIALS''"
| "default_code AccessDenied = ''ACCESS_DENIED''"
| "default_code UserAccessError = ''user_access_error''"
| "default_code InsufficientScope = ''insufficient_scope''"
| "default_code QueryLimitExceeded = ''QUERY_LIMIT_EXCEEDED''"
| "default_code OperationTimeLimit = ''OPERATION_TIME_LIMIT''"
| "default_code MethodNotFound = ''ERROR_METHOD_NOT_FOUND''"
| "default_code NotFound = ''NOT_FOUND''"
| "default_code InvalidArgValue = ''INVALID_ARG_VALUE''"
| "default_code EntityTypeNotSupported = ''ENTITY_TYPE_NOT_SUPPORTED''"
| "default_code IntranetUserOnly = ''allowed_only_intranet_user''"
| "default_code PortalDeleted = ''PORTAL_DELETED''"
| "default_code PaymentRequired = ''PAYMENT_REQUIRED''"
| "default_code InvalidGrant = ''invalid_grant''"
| "default_code UnknownBitrixError = []"

record bitrix_error =
  err_class :: error_class
  err_code :: string
  err_description :: string
  err_status :: "int option"
  err_payload :: "(string, json) dict"

text \<open>The constructor: an empty code becomes the class's own.\<close>

definition bitrix_error_init ::
  "error_class \<Rightarrow> string \<Rightarrow> string \<Rightarrow> int option \<Rightarrow> (string, json) dict \<Rightarrow> bitrix_error" where
  "bitrix_error_init cls cod description http_status payload =
     \<lparr>err_class = cls, err_code = (if cod = [] then default_code cls else cod),
      err_description = description, err_status = http_status, err_payload = payload\<rparr>"

text \<open>\<open>str(error)\<close>: code, status and description, never the payload.\<close>

definition error_str :: "bitrix_error \<Rightarrow> string" where
  "error_str e =
     (let detail = (if err_code e = [] then ''unknown'' else err_code e);
          with_status = (case err_status e of None \<Rightarrow> detail
                         | Some n \<Rightarrow> detail @ '' (HTTP '' @ show_int n @ '')'')
      in if err_description e = [] then with_status else with_status @ '': '' @ err_description e)"

datatype exn = Bitrix bitrix_error | FenceLost | Py py_error | DatabaseError

section \<open>Classification\<close>

definition by_error_code :: "(string, error_class) dict" where
  "by_error_code =
    [(''expired_token'', ExpiredToken), (''no_auth_found'', NoAuthFound),
     (''invalid_credentials'', InvalidCredentials), (''access_denied'', AccessDenied),
     (''user_access_error'', UserAccessError), (''insufficient_scope'', InsufficientScope),
     (''invalid_scope'', InsufficientScope), (''query_limit_exceeded'', QueryLimitExceeded),
     (''overload_limit'', QueryLimitExceeded), (''operation_time_limit'', OperationTimeLimit),
     (''error_method_not_found'', MethodNotFound), (''not_found'', NotFound),
     (''invalid_arg_value'', InvalidArgValue),
     (''entity_type_not_supported'', EntityTypeNotSupported),
     (''allowed_only_intranet_user'', IntranetUserOnly), (''portal_deleted'', PortalDeleted),
     (''payment_required'', PaymentRequired), (''invalid_grant'', InvalidGrant)]"

definition by_http_status :: "(int, error_class) dict" where
  "by_http_status =
    [(401, NoAuthFound), (402, PaymentRequired), (403, InvalidCredentials),
     (429, OperationTimeLimit), (503, QueryLimitExceeded)]"

definition classify ::
  "string option \<Rightarrow> int option \<Rightarrow> string \<Rightarrow> (string, json) dict \<Rightarrow> bitrix_error" where
  "classify error_code http_status description payload =
     (let raw = (case error_code of None \<Rightarrow> [] | Some s \<Rightarrow> s);
          key = lower (strip raw);
          by_status = (case http_status of None \<Rightarrow> None | Some n \<Rightarrow> map_of by_http_status n);
          cls = (case map_of by_error_code key of
                   Some c \<Rightarrow> c
                 | None \<Rightarrow> (case by_status of Some c \<Rightarrow> c | None \<Rightarrow> UnknownBitrixError))
      in bitrix_error_init cls (strip raw) description http_status payload)"

lemmas classify_defs = classify_def bitrix_error_init_def by_error_code_def by_http_status_def

text \<open>A code of the table decides alone: the status is only the fallback.\<close>

lemma classify_known_code:
  "map_of by_error_code (lower (strip c)) = Some cls \<Longrightarrow>
   err_class (classify (Some c) st desc pl) = cls"
  by (simp add: classify_def bitrix_error_init_def Let_def)

lemma by_error_code_empty [simp]: "map_of by_error_code [] = None"
  by (simp add: by_error_code_def)

text \<open>What a class of the tables says of the key it was found under.\<close>

lemma by_error_code_D: "map_of by_error_code k = Some cls \<Longrightarrow> (k, cls) \<in> set by_error_code"
  by (rule map_of_SomeD)

lemma by_http_status_D: "map_of by_http_status n = Some cls \<Longrightarrow> (n, cls) \<in> set by_http_status"
  by (rule map_of_SomeD)

lemma transport_not_in_tables:
  "(c, TransportError) \<notin> set by_error_code" "(n, TransportError) \<notin> set by_http_status"
  by (simp_all add: by_error_code_def by_http_status_def)

lemma expired_in_tables:
  "(c, ExpiredToken) \<in> set by_error_code \<longleftrightarrow> c = ''expired_token''"
  "(n, ExpiredToken) \<notin> set by_http_status"
  by (simp_all add: by_error_code_def by_http_status_def)

lemma classify_class_range:
  "err_class (classify ec st desc pl) = cls \<Longrightarrow> cls \<noteq> UnknownBitrixError \<Longrightarrow>
   (\<exists>c. ec = Some c \<and> map_of by_error_code (lower (strip c)) = Some cls) \<or>
   (\<exists>n. st = Some n \<and> map_of by_http_status n = Some cls)"
  by (cases ec)
    (auto simp: classify_def bitrix_error_init_def Let_def strip_def lstrip_def
      split: option.splits)

lemma classify_never_transport: "err_class (classify ec st desc pl) \<noteq> TransportError"
proof
  assume "err_class (classify ec st desc pl) = TransportError"
  then consider c where "map_of by_error_code c = Some TransportError"
    | n where "map_of by_http_status n = Some TransportError"
    using classify_class_range by blast
  then show False
    by cases (blast dest: by_error_code_D by_http_status_D intro: transport_not_in_tables [THEN notE])+
qed

text \<open>
  Only the string \<open>expired_token\<close> makes an \<open>ExpiredToken\<close>: no status does, so a
  refresh is never triggered by a bare 401.
\<close>

lemma classify_expired_iff:
  "err_class (classify ec st desc pl) = ExpiredToken \<longleftrightarrow>
   (\<exists>c. ec = Some c \<and> lower (strip c) = ''expired_token'')"
proof
  assume "err_class (classify ec st desc pl) = ExpiredToken"
  then consider c where "ec = Some c" "map_of by_error_code (lower (strip c)) = Some ExpiredToken"
    | n where "map_of by_http_status n = Some ExpiredToken"
    using classify_class_range by blast
  then show "\<exists>c. ec = Some c \<and> lower (strip c) = ''expired_token''"
    by cases (use expired_in_tables in \<open>blast dest: by_error_code_D by_http_status_D\<close>)+
next
  assume "\<exists>c. ec = Some c \<and> lower (strip c) = ''expired_token''"
  then show "err_class (classify ec st desc pl) = ExpiredToken"
    by (auto simp: classify_defs)
qed

lemma err_payload_classify [simp]: "err_payload (classify ec st desc pl) = pl"
  by (simp add: classify_def bitrix_error_init_def Let_def)

lemma err_status_classify [simp]: "err_status (classify ec st desc pl) = st"
  by (simp add: classify_def bitrix_error_init_def Let_def)

text \<open>The text of an error does not depend on its payload, where a token may be.\<close>

lemma error_str_payload: "error_str (e\<lparr>err_payload := p\<rparr>) = error_str e"
  by (simp add: error_str_def Let_def split: option.split)

end
