(* ===== verification/Rest_Client.thy ===== *)
theory Rest_Client
  imports Bitrix_Errors
begin

text \<open>
  \<open>api/app/bitrix/client.py\<close>: the PHP-style parameter encoder, the batch envelope, the
  classification of a failed exchange and \<open>_send\<close>, which posts once and writes exactly one
  \<open>rest_log\<close> row. The HTTP library and the portal behind it are the parameter
  \<open>portal\<close>: any answer, different at every request.
\<close>

section \<open>The outside world of the client\<close>

record request =
  req_path :: string
  req_body :: "(string, string) dict"

datatype body = JsonBody json | TextBody string

datatype answer =
    NoAnswer string
  | Answer int "string option" body

text \<open>
  \<open>portal n r\<close> answers the \<open>n\<close>-th request; \<open>wall n\<close> is the clock when it arrives;
  \<open>render\<close> is Python's text of a float or container and \<open>http_date\<close> the standard library's
  parser of an HTTP date, both only used on such input.
\<close>

record outside =
  portal :: "nat \<Rightarrow> request \<Rightarrow> answer"
  wall :: "nat \<Rightarrow> rat"
  render :: "json \<Rightarrow> string"
  http_date :: "string \<Rightarrow> rat option"

record rest_log_row =
  log_method :: string
  log_http_status :: "int option"
  log_error_code :: "string option"

record net =
  requests :: "request list"
  rest_log :: "rest_log_row list"
  last_time :: "(string, json) dict option"

record client =
  endpoint :: string
  access_token :: "string option"

section \<open>Encoding\<close>

definition scalar :: "(json \<Rightarrow> string) \<Rightarrow> json \<Rightarrow> string" where
  "scalar r v = (case v of JBool b \<Rightarrow> (if b then ''1'' else ''0'') | _ \<Rightarrow> py_str r v)"

fun rconcat :: "('e, 'a list) result list \<Rightarrow> ('e, 'a list) result" where
  "rconcat [] = Inr []"
| "rconcat (r # rs) = rbind r (\<lambda>xs. rbind (rconcat rs) (\<lambda>ys. Inr (xs @ ys)))"

text \<open>\<open>depth\<close> bounds the nesting: what is deeper is a \<open>ValueError\<close>.\<close>

primrec encode_into ::
  "(json \<Rightarrow> string) \<Rightarrow> nat \<Rightarrow> string \<Rightarrow> json \<Rightarrow> (py_error, (string \<times> string) list) result" where
  "encode_into r 0 prefix v = (if v = JNone then Inr [] else Inl ValueError)"
| "encode_into r (Suc depth) prefix v =
     (case v of
        JNone \<Rightarrow> Inr []
      | JDict items \<Rightarrow>
          rconcat (map (\<lambda>(k, x). encode_into r depth (prefix @ ''['' @ k @ '']'') x) items)
      | JList xs \<Rightarrow>
          rconcat (map (\<lambda>(i, x). encode_into r depth (prefix @ ''['' @ show_nat i @ '']'') x)
                     (enumerate 0 xs))
      | _ \<Rightarrow> Inr [(prefix, scalar r v)])"

definition max_param_depth :: nat where
  "max_param_depth = 8"

definition php_query_pairs ::
  "(json \<Rightarrow> string) \<Rightarrow> (string, json) dict \<Rightarrow> (py_error, (string \<times> string) list) result" where
  "php_query_pairs r params =
     rconcat (map (\<lambda>(k, v). encode_into r max_param_depth k v) params)"

text \<open>\<open>urllib.parse.quote(text, safe='')\<close> on UTF-8 bytes.\<close>

definition unreserved :: "char \<Rightarrow> bool" where
  "unreserved c = (let n = code c in (48 \<le> n \<and> n \<le> 57) \<or> (65 \<le> n \<and> n \<le> 90) \<or>
     (97 \<le> n \<and> n \<le> 122) \<or> n = 45 \<or> n = 46 \<or> n = 95 \<or> n = 126)"

definition hex_digit :: "nat \<Rightarrow> char" where
  "hex_digit n = char_of (if n < 10 then 48 + n else 55 + n)"

definition percent :: "nat \<Rightarrow> string" where
  "percent n = [CHR ''%'', hex_digit (n div 16), hex_digit (n mod 16)]"

definition quote_char :: "char \<Rightarrow> string" where
  "quote_char c =
     (if unreserved c then [c]
      else if code c < 128 then percent (code c)
      else percent (192 + code c div 64) @ percent (128 + code c mod 64))"

definition quote :: "string \<Rightarrow> string" where
  "quote s = concat (map quote_char s)"

definition query_of_pairs :: "(string \<times> string) list \<Rightarrow> string" where
  "query_of_pairs ps = join_with ''&'' (map (\<lambda>(k, v). quote k @ ''='' @ quote v) ps)"

definition php_query_string ::
  "(json \<Rightarrow> string) \<Rightarrow> (string, json) dict \<Rightarrow> (py_error, string) result" where
  "php_query_string r params = rbind (php_query_pairs r params) (\<lambda>ps. Inr (query_of_pairs ps))"

section \<open>Retry-After\<close>

definition max_retry_after_seconds :: rat where
  "max_retry_after_seconds = 86400"

definition parse_retry_after :: "'o outside_scheme \<Rightarrow> rat \<Rightarrow> string option \<Rightarrow> rat option" where
  "parse_retry_after c now raw =
     (case raw of None \<Rightarrow> None
      | Some s \<Rightarrow>
        if s = [] then None
        else
          (let seconds =
             (case float_literal (strip s) of
                Some f \<Rightarrow> Some f
              | None \<Rightarrow> map_option (\<lambda>when. Fin (when - now)) (http_date c (strip s)))
           in case seconds of
                Some (Fin q) \<Rightarrow> Some (max 0 (min q max_retry_after_seconds))
              | _ \<Rightarrow> None))"

section \<open>Results of a batch\<close>

record command_result =
  cmd_key :: string
  cmd_result :: json
  cmd_error :: "bitrix_error option"
  cmd_time :: "(string, json) dict option"
  cmd_next :: "int option"
  cmd_total :: "int option"

record batch_result =
  commands :: "command_result list"
  batch_time :: "(string, json) dict option"

definition find_command :: "batch_result \<Rightarrow> string \<Rightarrow> command_result option" where
  "find_command b key = find (\<lambda>c. cmd_key c = key) (commands b)"

definition batch_get :: "batch_result \<Rightarrow> string \<Rightarrow> json" where
  "batch_get b key =
     (case find_command b key of None \<Rightarrow> JNone
      | Some c \<Rightarrow> if cmd_error c = None then cmd_result c else JNone)"

definition batch_ok :: "batch_result \<Rightarrow> string \<Rightarrow> bool" where
  "batch_ok b key =
     (case find_command b key of None \<Rightarrow> False | Some c \<Rightarrow> cmd_error c = None)"

fun first_error_from :: "nat \<Rightarrow> command_result list \<Rightarrow> nat option" where
  "first_error_from i [] = None"
| "first_error_from i (c # cs) =
     (if cmd_error c \<noteq> None then Some i else first_error_from (Suc i) cs)"

definition first_error_index :: "batch_result \<Rightarrow> nat option" where
  "first_error_index b = first_error_from 0 (commands b)"

definition pick :: "json \<Rightarrow> string \<Rightarrow> nat \<Rightarrow> json" where
  "pick container key index =
     (case container of
        JDict d \<Rightarrow> get_field d key
      | JList xs \<Rightarrow> if index < length xs then xs ! index else JNone
      | _ \<Rightarrow> JNone)"

text \<open>
  Only an integer or the text of one: the text of a float, list or dictionary is never an
  integer literal.
\<close>

definition as_int :: "json \<Rightarrow> int option" where
  "as_int v = (case v of JInt i \<Rightarrow> Some i | JStr s \<Rightarrow> int_literal s | _ \<Rightarrow> None)"

definition first_truthy :: "json list \<Rightarrow> json" where
  "first_truthy vs = (case find truthy vs of None \<Rightarrow> JStr [] | Some v \<Rightarrow> v)"

definition command_error :: "(json \<Rightarrow> string) \<Rightarrow> json \<Rightarrow> int option \<Rightarrow> bitrix_error option" where
  "command_error r raw http_status =
     (case raw of
        JNone \<Rightarrow> None
      | JDict d \<Rightarrow>
          if d = [] then None
          else
            (let cod = first_truthy [get_field d ''error'', get_field d ''error_code''];
                 description =
                   first_truthy [get_field d ''error_description'', get_field d ''error_information'']
             in Some (classify (if truthy cod then Some (py_str r cod) else None) http_status
                        (py_str r description) d))
      | JStr s \<Rightarrow> if strip s = [] then None else Some (classify (Some s) http_status [] [])
      | JList xs \<Rightarrow>
          if xs = [] then None else Some (classify None http_status (py_str r raw) [])
      | _ \<Rightarrow> Some (classify None http_status (py_str r raw) []))"

section \<open>One exchange\<close>

definition decode :: "body \<Rightarrow> json" where
  "decode b = (case b of JsonBody v \<Rightarrow> v
               | TextBody t \<Rightarrow> JDict [(''_non_json_body'', JStr (take 1000 t))])"

definition dict_or_empty :: "json \<Rightarrow> (string, json) dict" where
  "dict_or_empty v = (case fields_of v of None \<Rightarrow> [] | Some d \<Rightarrow> d)"

definition envelope_error ::
  "(json \<Rightarrow> string) \<Rightarrow> json \<Rightarrow> int option \<Rightarrow> rat option \<Rightarrow> bitrix_error option" where
  "envelope_error r payload http_status retry_after =
     (let status_ok = (case http_status of None \<Rightarrow> False | Some n \<Rightarrow> 200 \<le> n \<and> n < 300);
          body = dict_or_empty payload;
          cod = (case get_field body ''error'' of
                    JStr s \<Rightarrow> if strip s = [] then None else Some s
                  | _ \<Rightarrow> None);
          non_json = (map_of body ''_non_json_body'' \<noteq> None);
          body' = (case retry_after of None \<Rightarrow> body
                   | Some q \<Rightarrow> dict_set ''retry_after'' (JFloat (Fin q)) body);
          described = first_truthy
            [get_field body' ''error_description'', get_field body' ''error_information''];
          description = (if \<not> truthy described \<and> non_json then JStr ''non-JSON response body''
                         else described)
      in if status_ok \<and> cod = None \<and> \<not> non_json then None
         else Some (classify cod http_status (py_str r description) body'))"

definition method_char :: "char \<Rightarrow> bool" where
  "method_char c = (unreserved c \<and> c \<noteq> CHR ''-'' \<and> c \<noteq> CHR ''~'')"

definition check_method :: "string \<Rightarrow> (py_error, string) result" where
  "check_method name =
     (let s = strip name in if s \<noteq> [] \<and> list_all method_char s then Inr s else Inl ValueError)"

text \<open>The pattern's \<open>$\<close> also accepts one newline after the key.\<close>

definition cmd_key_ok :: "string \<Rightarrow> bool" where
  "cmd_key_ok key =
     (let core = (if key \<noteq> [] \<and> code (last key) = 10 then butlast key else key)
      in 1 \<le> length core \<and> length core \<le> 32 \<and> list_all (\<lambda>c. unreserved c \<and> c \<noteq> CHR ''~'') core)"

fun form_body_from ::
  "(string, string) dict \<Rightarrow> (string \<times> string) list \<Rightarrow> (py_error, (string, string) dict) result" where
  "form_body_from body [] = Inr body"
| "form_body_from body ((k, v) # ps) =
     (if map_of body k \<noteq> None then Inl ValueError else form_body_from (body @ [(k, v)]) ps)"

definition form_body ::
  "client \<Rightarrow> (string \<times> string) list \<Rightarrow> (py_error, (string, string) dict) result" where
  "form_body cl pairs =
     rbind (form_body_from [] pairs) (\<lambda>body.
       Inr (case access_token cl of
              None \<Rightarrow> body
            | Some t \<Rightarrow> if t = [] then body else dict_set ''auth'' t body))"

definition lift_py :: "(py_error, 'a) result \<Rightarrow> (exn, 'a) result" where
  "lift_py r = (case r of Inl e \<Rightarrow> Inl (Py e) | Inr a \<Rightarrow> Inr a)"

text \<open>What \<open>_send\<close> sees of one answer: the payload, the status and the failure, if any.\<close>

definition read_answer ::
  "'o outside_scheme \<Rightarrow> rat \<Rightarrow> answer \<Rightarrow> json \<times> int option \<times> bitrix_error option" where
  "read_answer c now ans =
     (case ans of
        NoAnswer text \<Rightarrow> (JNone, None, Some (bitrix_error_init TransportError [] text None []))
      | Answer status retry b \<Rightarrow>
          (let payload = decode b
           in (payload, Some status,
               envelope_error (render c) payload (Some status) (parse_retry_after c now retry))))"

text \<open>
  \<open>_send\<close>: post once, record the answer's \<open>time{}\<close> block, write one log row whether the
  exchange failed or not, then raise or return. \<open>analyze\<close> gives the log's error code of an
  answer that is not itself a failure.
\<close>

definition send ::
  "'o outside_scheme \<Rightarrow> client \<Rightarrow> string \<Rightarrow> string \<Rightarrow> (string, string) dict \<Rightarrow>
   (json \<Rightarrow> string option) \<Rightarrow> ('n net_scheme, exn, json \<times> int option) prog" where
  "send c cl log_name path body analyze = (\<lambda>w.
     let n = length (requests w);
         req = \<lparr>req_path = path, req_body = body\<rparr>;
         ans = portal c n req;
         (payload, status, failure) = read_answer c (wall c n) ans;
         block = (case get_field (dict_or_empty payload) ''time'' of
                    JDict d \<Rightarrow> Some d | _ \<Rightarrow> last_time w);
         analyzed = (case ans of NoAnswer _ \<Rightarrow> None | _ \<Rightarrow> analyze payload);
         code = (case failure of
                   Some e \<Rightarrow> if err_code e = [] then analyzed else Some (err_code e)
                 | None \<Rightarrow> analyzed);
         row = \<lparr>log_method = log_name, log_http_status = status, log_error_code = code\<rparr>;
         w' = w\<lparr>requests := requests w @ [req], rest_log := rest_log w @ [row], last_time := block\<rparr>
     in (case failure of Some e \<Rightarrow> (Inl (Bitrix e), w') | None \<Rightarrow> (Inr (payload, status), w')))"

definition call ::
  "'o outside_scheme \<Rightarrow> client \<Rightarrow> string \<Rightarrow> (string, json) dict \<Rightarrow> ('n net_scheme, exn, json) prog" where
  "call c cl rest_method params =
     andThen (lift_result (lift_py (check_method rest_method))) (\<lambda>name.
     andThen (lift_result (lift_py (rbind (php_query_pairs (render c) params) (form_body cl)))) (\<lambda>body.
     andThen (send c cl name (endpoint cl @ name) body (\<lambda>_. None)) (\<lambda>(payload, _).
     ret (get_field (dict_or_empty payload) ''result''))))"

section \<open>Batch\<close>

type_synonym command = "string \<times> string \<times> (string, json) dict"

definition max_batch_commands :: nat where
  "max_batch_commands = 50"

text \<open>The \<open>cmd\<close> map: each command validated, its key new, its query encoded.\<close>

fun command_map ::
  "(json \<Rightarrow> string) \<Rightarrow> (string, string) dict \<Rightarrow> command list \<Rightarrow> (py_error, (string, string) dict) result" where
  "command_map r done [] = Inr done"
| "command_map r done ((key, rest_method, params) # cs) =
     (if \<not> cmd_key_ok key then Inl ValueError
      else if map_of done key \<noteq> None then Inl ValueError
      else rbind (check_method rest_method) (\<lambda>name.
           rbind (php_query_string r params) (\<lambda>query.
           command_map r (done @ [(key, if query = [] then name else name @ ''?'' @ query)]) cs)))"

definition batch_body ::
  "(json \<Rightarrow> string) \<Rightarrow> client \<Rightarrow> bool \<Rightarrow> command list \<Rightarrow> (py_error, (string, string) dict) result" where
  "batch_body r cl halt cmds =
     (if cmds = [] \<or> max_batch_commands < length cmds then Inl ValueError
      else rbind (command_map r [] cmds) (\<lambda>m.
           rbind (php_query_pairs r
                   [(''halt'', JInt (if halt then 1 else 0)),
                    (''cmd'', JDict (map (\<lambda>(k, q). (k, JStr q)) m))])
                 (form_body cl)))"

definition batch_log_code :: "(json \<Rightarrow> string) \<Rightarrow> string list \<Rightarrow> json \<Rightarrow> string option" where
  "batch_log_code r keys payload =
     (case get_field (dict_or_empty payload) ''result'' of
        JDict envelope \<Rightarrow>
          (let errors = get_field envelope ''result_error''
           in case List.map_filter (\<lambda>(i, key). command_error r (pick errors key i) None)
                     (enumerate 0 keys) of
                [] \<Rightarrow> None
              | e # _ \<Rightarrow> Some (if err_code e = [] then ''unknown'' else err_code e))
      | _ \<Rightarrow> None)"

definition dict_of :: "json \<Rightarrow> (string, json) dict option" where
  "dict_of v = fields_of v"

definition build_command ::
  "(json \<Rightarrow> string) \<Rightarrow> (string, json) dict \<Rightarrow> int option \<Rightarrow> nat \<times> string \<Rightarrow> command_result" where
  "build_command r envelope http_status = (\<lambda>(index, key).
     (let error = command_error r (pick (get_field envelope ''result_error'') key index) http_status
      in \<lparr>cmd_key = key,
          cmd_result = (if error \<noteq> None then JNone
                        else pick (get_field envelope ''result'') key index),
          cmd_error = error,
          cmd_time = dict_of (pick (get_field envelope ''result_time'') key index),
          cmd_next = as_int (pick (get_field envelope ''result_next'') key index),
          cmd_total = as_int (pick (get_field envelope ''result_total'') key index)\<rparr>))"

text \<open>The answer of a batch request; without an envelope the whole request failed.\<close>

definition read_batch ::
  "(json \<Rightarrow> string) \<Rightarrow> string list \<Rightarrow> json \<Rightarrow> int option \<Rightarrow> (exn, batch_result) result" where
  "read_batch r keys payload http_status =
     (case get_field (dict_or_empty payload) ''result'' of
        JDict envelope \<Rightarrow>
          Inr \<lparr>commands = map (build_command r envelope http_status) (enumerate 0 keys),
               batch_time = dict_of (get_field (dict_or_empty payload) ''time'')\<rparr>
      | _ \<Rightarrow> Inl (Bitrix (classify None http_status
                ''batch response carried no result envelope'' (dict_or_empty payload))))"

definition batch ::
  "'o outside_scheme \<Rightarrow> client \<Rightarrow> command list \<Rightarrow> bool \<Rightarrow> ('n net_scheme, exn, batch_result) prog" where
  "batch c cl cmds halt =
     andThen (lift_result (lift_py (batch_body (render c) cl halt cmds))) (\<lambda>body.
     andThen (send c cl ''batch'' (endpoint cl @ ''batch'') body
                (batch_log_code (render c) (map fst cmds))) (\<lambda>(payload, status).
     lift_result (read_batch (render c) (map fst cmds) payload status)))"

section \<open>The encoder loses nothing\<close>

text \<open>What PHP does on the other side: split, percent-decode, read UTF-8.\<close>

definition hex_value :: "char \<Rightarrow> nat" where
  "hex_value c = (if code c \<le> 57 then code c - 48 else code c - 55)"

fun unpercent :: "string \<Rightarrow> nat list" where
  "unpercent (c # a # b # cs) =
     (if c = CHR ''%'' then (16 * hex_value a + hex_value b) # unpercent cs
      else code c # unpercent (a # b # cs))"
| "unpercent cs = map code cs"

fun utf8_decode :: "nat list \<Rightarrow> string" where
  "utf8_decode [] = []"
| "utf8_decode [b] = [char_of b]"
| "utf8_decode (b # d # bs) =
     (if b < 128 then char_of b # utf8_decode (d # bs)
      else char_of (64 * (b - 192) + (d - 128)) # utf8_decode bs)"

definition unquote :: "string \<Rightarrow> string" where
  "unquote s = utf8_decode (unpercent s)"

definition parse_pair :: "string \<Rightarrow> string \<times> string" where
  "parse_pair p = (unquote (takeWhile (\<lambda>c. c \<noteq> CHR ''='') p),
                   unquote (tl (dropWhile (\<lambda>c. c \<noteq> CHR ''='') p)))"

definition parse_query :: "string \<Rightarrow> (string \<times> string) list" where
  "parse_query s = (if s = [] then [] else map parse_pair (split_on CHR ''&'' s))"

lemma code_less: "code c < 256"
  by (simp add: code_def)

lemma char_of_code [simp]: "char_of (code c) = c"
  by (simp add: code_def)

lemma code_char_of: "n < 256 \<Longrightarrow> code (char_of n) = n"
  by (simp add: code_def)

lemma hex_value_digit: "n < 16 \<Longrightarrow> hex_value (hex_digit n) = n"
  by (simp add: hex_value_def hex_digit_def code_char_of)

lemma code_percent: "code CHR ''%'' = 37"
  by (simp add: code_def)

lemma unreserved_not_percent: "unreserved c \<Longrightarrow> c \<noteq> CHR ''%''"
  by (auto simp: unreserved_def code_def Let_def)

lemma unpercent_percent:
  "n < 256 \<Longrightarrow> unpercent (percent n @ t) = n # unpercent t"
  by (simp add: percent_def hex_value_digit)

lemma unpercent_plain: "c \<noteq> CHR ''%'' \<Longrightarrow> unpercent (c # t) = code c # unpercent t"
  by (cases t; cases "tl t") auto

definition utf8_bytes :: "char \<Rightarrow> nat list" where
  "utf8_bytes c = (if code c < 128 then [code c] else [192 + code c div 64, 128 + code c mod 64])"

lemma unreserved_small: "unreserved c \<Longrightarrow> code c < 128"
  by (auto simp: unreserved_def Let_def)

lemma unpercent_quote_char: "unpercent (quote_char c @ t) = utf8_bytes c @ unpercent t"
proof -
  have "code c div 64 < 4"
    using code_less [of c] by simp
  then show ?thesis
    using code_less [of c] unreserved_small [of c]
    by (auto simp: quote_char_def utf8_bytes_def unpercent_percent unpercent_plain
        unreserved_not_percent)
qed

lemma unpercent_quote: "unpercent (quote s) = concat (map utf8_bytes s)"
  by (induction s) (auto simp: quote_def unpercent_quote_char)

lemma utf8_decode_bytes: "utf8_decode (utf8_bytes c @ bs) = c # utf8_decode bs"
proof (cases "code c < 128")
  case True
  then show ?thesis
    by (cases bs) (auto simp: utf8_bytes_def)
next
  case False
  have "64 * (code c div 64) + code c mod 64 = code c"
    by simp
  with False show ?thesis
    by (simp add: utf8_bytes_def)
qed

lemma unquote_quote [simp]: "unquote (quote s) = s"
  by (induction s) (auto simp: unquote_def unpercent_quote utf8_decode_bytes)

lemma hex_digit_unreserved: "n < 16 \<Longrightarrow> unreserved (hex_digit n)"
  by (auto simp: unreserved_def hex_digit_def code_char_of Let_def)

lemma quote_char_safe: "x \<in> set (quote_char c) \<Longrightarrow> unreserved x \<or> x = CHR ''%''"
proof -
  have p: "y \<in> set (percent n) \<Longrightarrow> n < 256 \<Longrightarrow> unreserved y \<or> y = CHR ''%''" for y n
    by (auto simp: percent_def hex_digit_unreserved)
  have "192 + code c div 64 < 256" and "128 + code c mod 64 < 256"
    using code_less [of c] by auto
  with p [of x "192 + code c div 64"] p [of x "128 + code c mod 64"] p [of x "code c"]
  show "x \<in> set (quote_char c) \<Longrightarrow> unreserved x \<or> x = CHR ''%''"
    by (auto simp: quote_char_def code_less split: if_splits)
qed

lemma quote_no_separators: "CHR ''&'' \<notin> set (quote s)" "CHR ''='' \<notin> set (quote s)"
  by (auto simp: quote_def dest!: quote_char_safe simp: unreserved_def code_def)

lemma split_on_append: "c \<notin> set p \<Longrightarrow> split_on c (p @ c # t) = p # split_on c t"
  by (induction p) auto

lemma split_on_none: "c \<notin> set p \<Longrightarrow> split_on c p = [p]"
  by (induction p) auto

lemma split_on_join:
  "ps \<noteq> [] \<Longrightarrow> (\<And>p. p \<in> set ps \<Longrightarrow> c \<notin> set p) \<Longrightarrow> split_on c (join_with [c] ps) = ps"
  by (induction "[c]" ps rule: join_with.induct) (auto simp: split_on_none split_on_append)

lemma parse_pair_quote: "parse_pair (quote k @ CHR ''='' # quote v) = (k, v)"
proof -
  have "takeWhile (\<lambda>c. c \<noteq> CHR ''='') (quote k @ CHR ''='' # quote v) = quote k"
    "dropWhile (\<lambda>c. c \<noteq> CHR ''='') (quote k @ CHR ''='' # quote v) = CHR ''='' # quote v"
    using quote_no_separators(2) [of k]
    by (auto simp: takeWhile_append dropWhile_append dropWhile_eq_Nil_conv)
  then show ?thesis
    by (simp add: parse_pair_def)
qed

lemma parse_query_of_pairs: "parse_query (query_of_pairs ps) = ps"
proof (cases ps)
  case Nil
  then show ?thesis
    by (simp add: parse_query_def query_of_pairs_def)
next
  case (Cons p qs)
  let ?parts = "map (\<lambda>(k, v). quote k @ ''='' @ quote v) ps"
  have nonempty: "query_of_pairs ps \<noteq> []"
    using Cons by (cases qs) (auto simp: query_of_pairs_def split: prod.splits)
  have "split_on CHR ''&'' (query_of_pairs ps) = ?parts"
    unfolding query_of_pairs_def
    by (rule split_on_join) (auto simp: Cons quote_no_separators)
  then have "parse_query (query_of_pairs ps) = map parse_pair ?parts"
    using nonempty by (simp add: parse_query_def)
  also have "\<dots> = ps"
    by (induction ps) (auto simp: parse_pair_quote)
  finally show ?thesis .
qed

section \<open>The batch body\<close>

lemma form_body_from_Inr:
  "form_body_from body ps = Inr b \<Longrightarrow> distinct (map fst body) \<Longrightarrow>
   b = body @ ps \<and> distinct (map fst (body @ ps))"
proof (induction body ps arbitrary: b rule: form_body_from.induct)
  case (1 body)
  then show ?case by simp
next
  case (2 body k v ps)
  then have new: "map_of body k = None"
    by (cases "map_of body k") auto
  then have fresh: "k \<notin> fst ` set body"
    by (simp add: map_of_eq_None_iff)
  have step: "form_body_from (body @ [(k, v)]) ps = Inr b"
    using "2.prems"(1) new by (simp only: form_body_from.simps not_True_eq_False simp_thms if_False)
  have "\<not> map_of body k \<noteq> None"
    using new by (simp only: not_not)
  from "2.IH" [OF this step] "2.prems"(2) fresh show ?case
    by simp
qed

lemma form_body_lookup:
  assumes "form_body cl ps = Inr b" and "(k, v) \<in> set ps" and "k \<noteq> ''auth''"
  shows "map_of b k = Some v"
proof -
  obtain b0 where b0: "form_body_from [] ps = Inr b0" and
    b: "b = (case access_token cl of None \<Rightarrow> b0
             | Some t \<Rightarrow> if t = [] then b0 else dict_set ''auth'' t b0)"
    using assms(1) by (auto simp: form_body_def rbind_Inr_iff)
  have "b0 = ps" and "distinct (map fst b0)"
    using form_body_from_Inr [OF b0] by auto
  then have "map_of b0 k = Some v"
    using assms(2) by simp
  then show ?thesis
    using b assms(3) by (auto simp: update_conv' split: option.splits)
qed

lemma form_body_auth:
  "form_body cl ps = Inr b \<Longrightarrow> access_token cl = Some t \<Longrightarrow> t \<noteq> [] \<Longrightarrow> map_of b ''auth'' = Some t"
  by (auto simp: form_body_def rbind_Inr_iff update_conv')

lemma command_map_Cons:
  assumes "command_map r done ((key, rest_method, params) # cs) = Inr m"
  obtains name q where "check_method rest_method = Inr name" and "php_query_string r params = Inr q"
    and "command_map r (done @ [(key, if q = [] then name else name @ ''?'' @ q)]) cs = Inr m"
  using assms by (auto simp: rbind_Inr_iff split: if_splits)

lemma command_map_prefix: "command_map r done cmds = Inr m \<Longrightarrow> set done \<subseteq> set m"
proof (induction cmds arbitrary: "done" m)
  case Nil
  then show ?case by simp
next
  case (Cons c cs)
  obtain key rm ps where c: "c = (key, rm, ps)"
    by (cases c)
  with Cons.prems have "command_map r done ((key, rm, ps) # cs) = Inr m" by simp
  then obtain e where "command_map r (done @ [(key, e)]) cs = Inr m"
    by (elim command_map_Cons) blast
  from Cons.IH [OF this] show ?case by simp
qed

lemma command_map_entry:
  assumes "command_map r done cmds = Inr m" and "(key, rest_method, params) \<in> set cmds"
  shows "\<exists>name q. check_method rest_method = Inr name \<and> php_query_string r params = Inr q \<and>
           (key, if q = [] then name else name @ ''?'' @ q) \<in> set m"
  using assms
proof (induction cmds arbitrary: "done")
  case Nil
  then show ?case by simp
next
  case (Cons c cs)
  obtain k rm ps where c: "c = (k, rm, ps)"
    by (cases c)
  with Cons.prems(1) have "command_map r done ((k, rm, ps) # cs) = Inr m" by simp
  then obtain name q where ok: "check_method rm = Inr name" "php_query_string r ps = Inr q"
    and rest: "command_map r (done @ [(k, if q = [] then name else name @ ''?'' @ q)]) cs = Inr m"
    by (elim command_map_Cons)
  from Cons.prems(2) c consider "(key, rest_method, params) \<in> set cs"
    | "k = key" "rm = rest_method" "ps = params" by auto
  then show ?case
  proof cases
    case 1
    with Cons.IH [OF rest] show ?thesis by blast
  next
    case 2
    with ok command_map_prefix [OF rest] show ?thesis by auto
  qed
qed

lemma command_map_keys:
  "command_map r done cmds = Inr m \<Longrightarrow> map fst m = map fst done @ map fst cmds"
proof (induction cmds arbitrary: "done" m)
  case Nil
  then show ?case by simp
next
  case (Cons c cs)
  obtain key rm ps where c: "c = (key, rm, ps)"
    by (cases c)
  with Cons.prems have "command_map r done ((key, rm, ps) # cs) = Inr m" by simp
  then obtain e where "command_map r (done @ [(key, e)]) cs = Inr m"
    by (elim command_map_Cons) blast
  from Cons.IH [OF this] c show ?case by simp
qed

lemma rconcat_strings:
  "rconcat (map (\<lambda>(k, x). encode_into r (Suc d) (p @ ''['' @ k @ '']'') x) (map (\<lambda>(k, q). (k, JStr q)) m))
   = Inr (map (\<lambda>(k, q). (p @ ''['' @ k @ '']'', q)) m)"
  by (induction m) (auto simp: scalar_def)

lemma envelope_pairs:
  "php_query_pairs r [(''halt'', JInt h), (''cmd'', JDict (map (\<lambda>(k, q). (k, JStr q)) m))]
   = Inr ((''halt'', show_int h) # map (\<lambda>(k, q). (''cmd['' @ k @ '']'', q)) m)"
proof -
  have d: "max_param_depth = Suc (Suc 6)"
    by (simp add: max_param_depth_def)
  have halt: "encode_into r (Suc (Suc 6)) ''halt'' (JInt h) = Inr [(''halt'', show_int h)]"
    by (simp only: encode_into.simps json.case scalar_def py_str.simps)
  have cmd: "encode_into r (Suc (Suc 6)) ''cmd'' (JDict (map (\<lambda>(k, q). (k, JStr q)) m))
    = Inr (map (\<lambda>(k, q). (''cmd'' @ ''['' @ k @ '']'', q)) m)"
    by (subst encode_into.simps(2)) (simp only: json.case rconcat_strings)
  have "php_query_pairs r [(''halt'', JInt h), (''cmd'', JDict (map (\<lambda>(k, q). (k, JStr q)) m))]
    = rconcat [encode_into r (Suc (Suc 6)) ''halt'' (JInt h),
               encode_into r (Suc (Suc 6)) ''cmd'' (JDict (map (\<lambda>(k, q). (k, JStr q)) m))]"
    by (simp only: php_query_pairs_def d list.map prod.case)
  also have "\<dots> = rconcat [Inr [(''halt'', show_int h)], Inr (map (\<lambda>(k, q). (''cmd'' @ ''['' @ k @ '']'', q)) m)]"
    by (simp only: halt cmd)
  finally show ?thesis by simp
qed

text \<open>
  Every command of an accepted batch is in the posted body under its own key, and the
  portal's decoder reads back exactly the pairs its parameters flatten to.
\<close>

lemma batch_body_decodes:
  assumes "batch_body r cl halt cmds = Inr body" and "(key, rest_method, params) \<in> set cmds"
  shows "\<exists>name q pairs. check_method rest_method = Inr name \<and>
     php_query_pairs r params = Inr pairs \<and> parse_query q = pairs \<and>
     map_of body (''cmd['' @ key @ '']'') = Some (if q = [] then name else name @ ''?'' @ q)"
proof -
  obtain m where m: "command_map r [] cmds = Inr m"
    and fb: "form_body cl ((''halt'', show_int (if halt then 1 else 0)) #
               map (\<lambda>(k, q). (''cmd['' @ k @ '']'', q)) m) = Inr body"
    using assms(1) by (auto simp: batch_body_def rbind_Inr_iff envelope_pairs split: if_splits)
  obtain name q where cm: "check_method rest_method = Inr name" "php_query_string r params = Inr q"
    "(key, if q = [] then name else name @ ''?'' @ q) \<in> set m"
    using command_map_entry [OF m assms(2)] by blast
  have "map_of body (''cmd['' @ key @ '']'') = Some (if q = [] then name else name @ ''?'' @ q)"
  proof (rule form_body_lookup [OF fb])
    show "(''cmd['' @ key @ '']'', if q = [] then name else name @ ''?'' @ q)
        \<in> set ((''halt'', show_int (if halt then 1 else 0)) # map (\<lambda>(k, q). (''cmd['' @ k @ '']'', q)) m)"
      using imageI [OF cm(3), of "\<lambda>(k, q). (''cmd['' @ k @ '']'', q)"] by simp
  qed simp
  moreover obtain pairs where "php_query_pairs r params = Inr pairs" and "q = query_of_pairs pairs"
    using cm(2) by (auto simp: php_query_string_def rbind_Inr_iff)
  ultimately show ?thesis
    using cm(1) parse_query_of_pairs by blast
qed

section \<open>One exchange, one log row\<close>

lemma send_cases:
  assumes "send c cl lm path body an w = (r, w')"
  obtains row where "requests w' = requests w @ [\<lparr>req_path = path, req_body = body\<rparr>]"
    and "rest_log w' = rest_log w @ [row]" and "log_method row = lm"
    and "net.more w' = net.more w"
    and "\<And>e. r = Inl e \<Longrightarrow> \<exists>b. e = Bitrix b \<and> (err_code b \<noteq> [] \<longrightarrow> log_error_code row = Some (err_code b))"
  using assms
  by (auto simp: send_def Let_def split: prod.splits option.splits)

lemma send_Inr_status:
  "send c cl lm path body an w = (Inr (payload, status), w') \<Longrightarrow> \<exists>n. status = Some n \<and> 200 \<le> n \<and> n < 300"
  by (auto simp: send_def Let_def read_answer_def envelope_error_def
      split: prod.splits option.splits answer.splits if_splits)

lemma lift_py_Inr: "lift_py r = Inr a \<longleftrightarrow> r = Inr a"
  by (cases r) (auto simp: lift_py_def)

text \<open>Everything that can be wrong with a batch before it is sent is a \<open>ValueError\<close>.\<close>

lemma form_body_error: "form_body cl ps = Inl e \<Longrightarrow> e = ValueError"
proof -
  have "form_body_from b ps = Inl e \<Longrightarrow> e = ValueError" for b
    by (induction b ps rule: form_body_from.induct) (auto split: if_splits)
  then show "form_body cl ps = Inl e \<Longrightarrow> e = ValueError"
    by (auto simp: form_body_def rbind_Inl_iff)
qed

lemma rconcat_error: "rconcat rs = Inl e \<Longrightarrow> Inl e \<in> set rs"
  by (induction rs) (auto simp: rbind_Inl_iff)

lemma encode_into_error: "encode_into r d p v = Inl e \<Longrightarrow> e = ValueError"
proof (induction d arbitrary: p v e)
  case 0
  then show ?case by (auto split: if_splits)
next
  case (Suc d)
  then show ?case
    by (cases v) (auto dest!: rconcat_error)
qed

lemma php_query_pairs_error: "php_query_pairs r ps = Inl e \<Longrightarrow> e = ValueError"
  unfolding php_query_pairs_def by (drule rconcat_error) (auto dest: encode_into_error [OF sym])

lemma check_method_error: "check_method m = Inl e \<Longrightarrow> e = ValueError"
  by (simp add: check_method_def Let_def split: if_splits)

lemma command_map_error: "command_map r d cs = Inl e \<Longrightarrow> e = ValueError"
proof (induction cs arbitrary: d)
  case Nil
  then show ?case by simp
next
  case (Cons c cs)
  obtain k rm ps where c: "c = (k, rm, ps)"
    by (cases c)
  with Cons show ?case
    by (auto simp only: command_map.simps rbind_Inl_iff php_query_string_def split: if_splits
        dest: check_method_error php_query_pairs_error)
qed

lemma batch_body_error: "batch_body r cl halt cs = Inl e \<Longrightarrow> e = ValueError"
  by (auto simp: batch_body_def rbind_Inl_iff split: if_splits
      dest: command_map_error php_query_pairs_error form_body_error)

lemma read_batch_keys:
  "read_batch r keys payload st = Inr b \<Longrightarrow> map cmd_key (commands b) = keys"
  by (auto simp: read_batch_def build_command_def comp_def case_prod_beta Let_def split: json.splits)

lemma read_batch_error: "read_batch r keys payload st = Inl e \<Longrightarrow> \<exists>b. e = Bitrix b"
  by (auto simp: read_batch_def split: json.splits)

text \<open>A batch that returns has one result per command, in the order requested.\<close>

lemma batch_cases:
  assumes "batch c cl cmds halt w = (r, w')"
  obtains (invalid) "r = Inl (Py ValueError)" "w' = w"
  | (failed) e where "r = Inl (Bitrix e)" "length (requests w') = Suc (length (requests w))"
      "net.more w' = net.more w"
  | (answered) b where "r = Inr b" "map cmd_key (commands b) = map fst cmds"
      "length (requests w') = Suc (length (requests w))" "net.more w' = net.more w"
proof (cases "batch_body (render c) cl halt cmds")
  case (Inl e)
  with batch_body_error [OF Inl] assms show ?thesis
    by (intro invalid) (auto simp: batch_def prog_defs lift_py_def)
next
  case (Inr body)
  obtain r1 w1 where s: "send c cl ''batch'' (endpoint cl @ ''batch'') body
      (batch_log_code (render c) (map fst cmds)) w = (r1, w1)"
    by fastforce
  have world: "length (requests w1) = Suc (length (requests w))" "net.more w1 = net.more w"
    and error: "\<And>e. r1 = Inl e \<Longrightarrow> \<exists>b. e = Bitrix b"
    by (rule send_cases [OF s]; force)+
  show ?thesis
  proof (cases r1)
    case (Inl e)
    then have "r = Inl e" "w' = w1"
      using assms Inr s by (auto simp: batch_def prog_defs lift_py_def)
    with error [OF Inl] world show ?thesis by (auto intro: failed)
  next
    case (Inr p)
    obtain payload st where p: "p = (payload, st)" by fastforce
    have r: "r = read_batch (render c) (map fst cmds) payload st" "w' = w1"
      using assms \<open>batch_body (render c) cl halt cmds = Inr body\<close> s Inr p
      by (auto simp: batch_def prog_defs lift_py_def)
    show ?thesis
    proof (cases r)
      case (Inl e)
      with read_batch_error r world show ?thesis by (metis failed)
    next
      case (Inr b)
      with read_batch_keys r world show ?thesis by (metis answered)
    qed
  qed
qed

end
