(* ===== verification/Statistic.thy ===== *)
theory Statistic
  imports Rest_Client
begin

text \<open>
  \<open>api/app/bitrix/statistic.py\<close>: the parameters of one \<open>voximplant.statistic.get\<close> page and
  the parser that turns a raw row into an upsert-ready row or a reported rejection.
  Instants are seconds since the epoch.
\<close>

section \<open>Columns\<close>

record call_row =
  bx_id :: int
  call_id :: "string option"
  external_call_id :: "string option"
  call_category :: "string option"
  call_type :: "int option"
  call_start_date :: rat
  call_duration :: int
  call_failed_code :: "string option"
  call_failed_reason :: "string option"
  portal_user_id :: "int option"
  portal_number :: "string option"
  phone_number :: "string option"
  crm_entity_type :: "string option"
  crm_entity_id :: "int option"
  crm_activity_id :: "int option"
  cost :: "rat option"
  cost_currency :: "string option"
  call_vote :: "int option"
  call_record_url :: "string option"
  record_file_id :: "int option"
  record_duration :: "int option"
  rest_app_id :: "int option"
  rest_app_name :: "string option"
  transcript_id :: "int option"
  transcript_pending :: "bool option"
  session_id :: "int option"
  redial_attempt :: "int option"
  comment :: "string option"
  call_log :: "string option"

section \<open>Constants\<close>

definition page_size :: nat where
  "page_size = 50"

definition statistic_method :: string where
  "statistic_method = ''voximplant.statistic.get''"

definition credential_query_params :: "string list" where
  "credential_query_params =
     [''auth'', ''auth_id'', ''access_token'', ''token'', ''refresh_token'', ''sig'', ''signature'',
      ''sessid'', ''application_token'']"

definition min_start_date :: rat where
  "min_start_date = 946684800"

definition max_future_slack :: rat where
  "max_future_slack = 7 * 86400"

definition statistic_fields :: "string list" where
  "statistic_fields =
     [''ID'', ''CALL_ID'', ''EXTERNAL_CALL_ID'', ''CALL_CATEGORY'', ''PORTAL_USER_ID'',
      ''PORTAL_NUMBER'', ''PHONE_NUMBER'', ''CALL_TYPE'', ''CALL_DURATION'', ''CALL_START_DATE'',
      ''CALL_LOG'', ''CALL_RECORD_URL'', ''CALL_VOTE'', ''COST'', ''COST_CURRENCY'',
      ''CALL_FAILED_CODE'', ''CALL_FAILED_REASON'', ''CRM_ENTITY_TYPE'', ''CRM_ENTITY_ID'',
      ''CRM_ACTIVITY_ID'', ''REST_APP_ID'', ''REST_APP_NAME'', ''TRANSCRIPT_ID'',
      ''TRANSCRIPT_PENDING'', ''SESSION_ID'', ''REDIAL_ATTEMPT'', ''COMMENT'',
      ''RECORD_DURATION'', ''RECORD_FILE_ID'']"

definition filter_operators :: "string list" where
  "filter_operators =
     [''!><'', ''!%'', ''!@'', ''!='', ''><'', ''>='', ''<='', ''!'', ''>'', ''<'', ''='', ''%'', ''?'', ''@'']"

definition int16_min :: int where "int16_min = - (2 ^ 15)"
definition int16_max :: int where "int16_max = 2 ^ 15 - 1"
definition int32_min :: int where "int32_min = - (2 ^ 31)"
definition int32_max :: int where "int32_max = 2 ^ 31 - 1"
definition int64_min :: int where "int64_min = - (2 ^ 63)"
definition int64_max :: int where "int64_max = 2 ^ 63 - 1"

lemmas int_limits =
  int16_min_def int16_max_def int32_min_def int32_max_def int64_min_def int64_max_def

definition true_strings :: "string list" where
  "true_strings = [''y'', ''yes'', ''true'', ''1'']"

definition false_strings :: "string list" where
  "false_strings = [''n'', ''no'', ''false'', ''0'']"

text \<open>
  The library the parser calls: the text of a float or container, ISO-8601 (the local
  seconds and the UTC offset, \<open>None\<close> when the text carries none) and the check of a
  bracketed host.
\<close>

record parse_lib =
  lib_render :: "json \<Rightarrow> string"
  lib_iso :: "string \<Rightarrow> (rat \<times> rat option) option"
  lib_host_ok :: "string \<Rightarrow> bool"

section \<open>Primitives\<close>

definition field :: "(string, json) dict \<Rightarrow> string \<Rightarrow> json" where
  "field raw name =
     (case map_of raw name of Some v \<Rightarrow> v | None \<Rightarrow> get_field raw (lower name))"

definition present :: "json \<Rightarrow> bool" where
  "present v = (case v of JNone \<Rightarrow> False | JStr s \<Rightarrow> strip s \<noteq> [] | _ \<Rightarrow> True)"

definition text_of :: "(json \<Rightarrow> string) \<Rightarrow> json \<Rightarrow> string option" where
  "text_of r v =
     (case v of
        JNone \<Rightarrow> None | JDict _ \<Rightarrow> None | JList _ \<Rightarrow> None | JBool _ \<Rightarrow> None
      | JStr s \<Rightarrow> if strip s = [] then None else Some (strip s)
      | _ \<Rightarrow> Some (py_str r v))"

definition clip :: "string option \<Rightarrow> nat \<Rightarrow> string option \<times> bool" where
  "clip v width =
     (case v of None \<Rightarrow> (None, False)
      | Some s \<Rightarrow> if length s \<le> width then (Some s, False) else (Some (take width s), True))"

definition int_of_rat :: "rat \<Rightarrow> int option" where
  "int_of_rat q = (if of_int \<lfloor>q\<rfloor> = q then Some \<lfloor>q\<rfloor> else None)"

definition to_int :: "json \<Rightarrow> int option" where
  "to_int v =
     (case v of
        JInt i \<Rightarrow> Some i
      | JFloat (Fin q) \<Rightarrow> int_of_rat q
      | JStr s \<Rightarrow>
          if strip s = [] then None
          else (case decimal_literal (strip s) of Some (DFin c e) \<Rightarrow> int_of_rat (scaled c e) | _ \<Rightarrow> None)
      | _ \<Rightarrow> None)"

definition number :: "json \<Rightarrow> int \<Rightarrow> int \<Rightarrow> int option \<times> bool" where
  "number v low high =
     (case to_int v of
        None \<Rightarrow> (None, present v)
      | Some n \<Rightarrow> if low \<le> n \<and> n \<le> high then (Some n, False) else (None, present v))"

text \<open>
  \<open>COST\<close>: the limit test rounds to the 28 digits of the decimal context, so it refuses
  from half a unit of the twentieth decimal below the limit on.
\<close>

definition cost_limit :: rat where
  "cost_limit = 10 ^ 8"

definition quantize4 :: "rat \<Rightarrow> rat" where
  "quantize4 q = of_int (round_half_even (q * 10000)) / 10000"

definition cost_number :: "json \<Rightarrow> rat option" where
  "cost_number v =
     (case v of
        JInt i \<Rightarrow> Some (of_int i)
      | JFloat (Fin q) \<Rightarrow> Some q
      | JStr s \<Rightarrow> (case decimal_literal (strip s) of Some (DFin c e) \<Rightarrow> Some (scaled c e) | _ \<Rightarrow> None)
      | _ \<Rightarrow> None)"

definition cost_of :: "json \<Rightarrow> rat option \<times> bool" where
  "cost_of v =
     (if \<not> present v then (None, False)
      else case cost_number v of
             None \<Rightarrow> (None, True)
           | Some n \<Rightarrow> if cost_limit - 1 / (2 * 10 ^ 20) \<le> \<bar>n\<bar> then (None, True)
                       else (Some (quantize4 n), False))"

definition yes_no :: "(json \<Rightarrow> string) \<Rightarrow> json \<Rightarrow> bool option \<times> bool" where
  "yes_no r v =
     (if \<not> present v then (None, False)
      else case v of
             JBool b \<Rightarrow> (Some b, False)
           | JInt _ \<Rightarrow> (Some (truthy v), False)
           | JFloat _ \<Rightarrow> (Some (truthy v), False)
           | _ \<Rightarrow> (let token = lower (strip (py_str r v))
                  in if token \<in> set true_strings then (Some True, False)
                     else if token \<in> set false_strings then (Some False, False)
                     else (None, True)))"

text \<open>Datetimes live between the years 1 and 9999; arithmetic outside raises.\<close>

definition datetime_min :: rat where
  "datetime_min = -62135596800"

definition datetime_max :: rat where
  "datetime_max = 253402300800"

definition in_datetime :: "rat \<Rightarrow> bool" where
  "in_datetime t \<longleftrightarrow> datetime_min \<le> t \<and> t < datetime_max"

definition start_date ::
  "'l parse_lib_scheme \<Rightarrow> rat \<Rightarrow> json \<Rightarrow> (py_error, string + rat) result" where
  "start_date lib now v =
     (case v of
        JStr s \<Rightarrow>
          if \<not> present v then Inr (Inl ''start_date_missing'')
          else (case lib_iso lib (strip s) of
                  None \<Rightarrow> Inr (Inl ''start_date_unparsable'')
                | Some (_, None) \<Rightarrow> Inr (Inl ''start_date_naive'')
                | Some (local, Some offset) \<Rightarrow>
                    if \<not> in_datetime (local - offset) then Inl OverflowError
                    else if local - offset < min_start_date \<or> now + max_future_slack < local - offset
                    then Inr (Inl ''start_date_out_of_range'')
                    else Inr (Inr (local - offset)))
      | _ \<Rightarrow> Inr (Inl ''start_date_missing''))"

section \<open>URLs\<close>

record url_parts =
  url_scheme :: string
  url_netloc :: string
  url_path :: string
  url_query :: string
  url_fragment :: string

definition scheme_char :: "char \<Rightarrow> bool" where
  "scheme_char c = (let n = code c in (97 \<le> n \<and> n \<le> 122) \<or> (65 \<le> n \<and> n \<le> 90) \<or>
     (48 \<le> n \<and> n \<le> 57) \<or> n = 43 \<or> n = 45 \<or> n = 46)"

definition ascii_alpha :: "char \<Rightarrow> bool" where
  "ascii_alpha c = (let n = code c in (97 \<le> n \<and> n \<le> 122) \<or> (65 \<le> n \<and> n \<le> 90))"

definition cut_at :: "char \<Rightarrow> string \<Rightarrow> string \<times> string" where
  "cut_at c s = (takeWhile (\<lambda>x. x \<noteq> c) s, tl (dropWhile (\<lambda>x. x \<noteq> c) s))"

definition split_scheme :: "string \<Rightarrow> string \<times> string" where
  "split_scheme url =
     (let (front, back) = cut_at CHR '':'' url
      in if CHR '':'' \<in> set url \<and> front \<noteq> [] \<and> ascii_alpha (hd front) \<and> list_all scheme_char front
         then (lower front, back) else ([], url))"

definition urlsplit :: "(string \<Rightarrow> bool) \<Rightarrow> string \<Rightarrow> url_parts option" where
  "urlsplit host_ok text =
     (let url0 = filter (\<lambda>c. code c \<notin> {9, 10, 13}) (dropWhile (\<lambda>c. code c \<le> 32) text);
          (scheme, url1) = split_scheme url0;
          slashes = starts_with ''//'' url1;
          delim = (\<lambda>c. c = CHR ''/'' \<or> c = CHR ''?'' \<or> c = CHR ''#'');
          netloc = (if slashes then takeWhile (\<lambda>c. \<not> delim c) (drop 2 url1) else []);
          url2 = (if slashes then dropWhile (\<lambda>c. \<not> delim c) (drop 2 url1) else url1);
          opening = CHR ''['' \<in> set netloc; closing = CHR '']'' \<in> set netloc;
          (url3, fragment) = cut_at CHR ''#'' url2;
          (path, query) = cut_at CHR ''?'' url3
      in if opening \<noteq> closing \<or> (opening \<and> \<not> host_ok netloc) then None
         else Some \<lparr>url_scheme = scheme, url_netloc = netloc, url_path = path, url_query = query,
                    url_fragment = fragment\<rparr>)"

definition uses_netloc :: "string list" where
  "uses_netloc =
     [''ftp'', ''http'', ''gopher'', ''nntp'', ''telnet'', ''imap'', ''wais'', ''file'', ''mms'', ''https'',
      ''shttp'', ''snews'', ''prospero'', ''rtsp'', ''rtsps'', ''rtspu'', ''rsync'', ''svn'', ''svn+ssh'',
      ''sftp'', ''nfs'', ''git'', ''git+ssh'', ''ws'', ''wss'', ''itms-services'']"

definition urlunsplit :: "url_parts \<Rightarrow> string" where
  "urlunsplit p =
     (let path = url_path p;
          rooted = (if url_netloc p \<noteq> []
                    then ''//'' @ url_netloc p @
                         (if path \<noteq> [] \<and> hd path \<noteq> CHR ''/'' then ''/'' @ path else path)
                    else if starts_with ''//'' path then ''//'' @ path
                    else if url_scheme p \<in> set uses_netloc \<and> (path = [] \<or> hd path = CHR ''/'')
                    then ''//'' @ path else path);
          schemed = (if url_scheme p = [] then rooted else url_scheme p @ '':'' @ rooted);
          queried = (if url_query p = [] then schemed else schemed @ ''?'' @ url_query p)
      in if url_fragment p = [] then queried else queried @ ''#'' @ url_fragment p)"

definition credential_piece :: "string \<Rightarrow> bool" where
  "credential_piece piece \<longleftrightarrow> lower (strip (fst (cut_at CHR ''='' piece))) \<in> set credential_query_params"

definition kept_pieces :: "string \<Rightarrow> string list" where
  "kept_pieces query =
     filter (\<lambda>piece. piece \<noteq> [] \<and> \<not> credential_piece piece) (split_on CHR ''&'' query)"

definition drop_userinfo :: "string \<Rightarrow> string" where
  "drop_userinfo netloc =
     (if CHR ''@'' \<in> set netloc then rev (takeWhile (\<lambda>c. c \<noteq> CHR ''@'') (rev netloc)) else netloc)"

definition record_url :: "'l parse_lib_scheme \<Rightarrow> json \<Rightarrow> string option" where
  "record_url lib v =
     (case text_of (lib_render lib) v of
        None \<Rightarrow> None
      | Some raw \<Rightarrow>
          (case urlsplit (lib_host_ok lib) raw of
             None \<Rightarrow> None
           | Some parts \<Rightarrow>
               (let cleaned = urlunsplit (parts\<lparr>url_netloc := drop_userinfo (url_netloc parts),
                      url_query := join_with ''&'' (kept_pieces (url_query parts))\<rparr>)
                in if cleaned = [] then None else Some cleaned)))"

section \<open>The row parser\<close>

definition flagged :: "(bool \<times> string) list \<Rightarrow> string list" where
  "flagged flags = map (\<lambda>(_, what). ''degraded:'' @ what) (filter fst flags)"

type_synonym row_result = "call_row option \<times> int option \<times> string list"

text \<open>The columns of a row whose key and start date are known, and what lost fidelity.\<close>

definition build_row ::
  "'l parse_lib_scheme \<Rightarrow> (string, json) dict \<Rightarrow> int \<Rightarrow> rat \<Rightarrow> call_row \<times> string list" where
  "build_row lib raw the_id start =
     (let f = field raw; txt = text_of (lib_render lib);
          (v_call_id, c1) = clip (txt (f ''CALL_ID'')) 255;
          (v_external, c2) = clip (txt (f ''EXTERNAL_CALL_ID'')) 255;
          (v_failed_code, c3) = clip (txt (f ''CALL_FAILED_CODE'')) 32;
          (v_entity_type, c4) = clip (txt (f ''CRM_ENTITY_TYPE'')) 32;
          (v_currency, c5) = clip (txt (f ''COST_CURRENCY'')) 8;
          (v_type, b1) = number (f ''CALL_TYPE'') int16_min int16_max;
          (v_duration, b2) = number (f ''CALL_DURATION'') 0 int32_max;
          (v_user, b3) = number (f ''PORTAL_USER_ID'') 0 int32_max;
          (v_entity_id, b4) = number (f ''CRM_ENTITY_ID'') int32_min int32_max;
          (v_activity, b5) = number (f ''CRM_ACTIVITY_ID'') int64_min int64_max;
          (v_vote, b6) = number (f ''CALL_VOTE'') int16_min int16_max;
          (v_file, b7) = number (f ''RECORD_FILE_ID'') int64_min int64_max;
          (v_rec_duration, b8) = number (f ''RECORD_DURATION'') int32_min int32_max;
          (v_app, b9) = number (f ''REST_APP_ID'') int32_min int32_max;
          (v_transcript, b10) = number (f ''TRANSCRIPT_ID'') int64_min int64_max;
          (v_session, b11) = number (f ''SESSION_ID'') int64_min int64_max;
          (v_redial, b12) = number (f ''REDIAL_ATTEMPT'') int16_min int16_max;
          (v_cost, b13) = cost_of (f ''COST'');
          (v_pending, b14) = yes_no (lib_render lib) (f ''TRANSCRIPT_PENDING'')
      in (\<lparr>bx_id = the_id, call_id = v_call_id, external_call_id = v_external,
           call_category = fst (clip (txt (f ''CALL_CATEGORY'')) 64),
           call_type = v_type, call_start_date = start,
           call_duration = (case v_duration of None \<Rightarrow> 0 | Some d \<Rightarrow> d),
           call_failed_code = v_failed_code, call_failed_reason = txt (f ''CALL_FAILED_REASON''),
           portal_user_id = v_user,
           portal_number = fst (clip (txt (f ''PORTAL_NUMBER'')) 128),
           phone_number = fst (clip (txt (f ''PHONE_NUMBER'')) 128),
           crm_entity_type = v_entity_type, crm_entity_id = v_entity_id,
           crm_activity_id = v_activity, cost = v_cost, cost_currency = v_currency,
           call_vote = v_vote, call_record_url = record_url lib (f ''CALL_RECORD_URL''),
           record_file_id = v_file, record_duration = v_rec_duration, rest_app_id = v_app,
           rest_app_name = fst (clip (txt (f ''REST_APP_NAME'')) 255),
           transcript_id = v_transcript, transcript_pending = v_pending, session_id = v_session,
           redial_attempt = v_redial, comment = txt (f ''COMMENT''), call_log = txt (f ''CALL_LOG'')\<rparr>,
          flagged [(c1, ''call_id_truncated''), (c2, ''external_call_id_truncated''),
                   (c3, ''call_failed_code_truncated''), (c4, ''crm_entity_type_truncated''),
                   (c5, ''cost_currency_truncated''), (b1, ''call_type_dropped''),
                   (b2, ''call_duration_dropped''), (b3, ''portal_user_id_dropped''),
                   (b4, ''crm_entity_id_dropped''), (b5, ''crm_activity_id_dropped''),
                   (b6, ''call_vote_dropped''), (b7, ''record_file_id_dropped''),
                   (b8, ''record_duration_dropped''), (b9, ''rest_app_id_dropped''),
                   (b10, ''transcript_id_dropped''), (b11, ''session_id_dropped''),
                   (b12, ''redial_attempt_dropped''), (b13, ''cost_dropped''),
                   (b14, ''transcript_pending_dropped'')]))"

definition parse_row ::
  "'l parse_lib_scheme \<Rightarrow> rat \<Rightarrow> json \<Rightarrow> (py_error, row_result) result" where
  "parse_row lib now raw =
     (case fields_of raw of
        None \<Rightarrow> Inr (None, None, [''not_a_record''])
      | Some d \<Rightarrow>
          (case to_int (field d ''ID'') of
             None \<Rightarrow> Inr (None, None, [''missing_id''])
           | Some the_id \<Rightarrow>
               if \<not> (1 \<le> the_id \<and> the_id \<le> int64_max) then Inr (None, None, [''id_out_of_range''])
               else rbind (start_date lib now (field d ''CALL_START_DATE'')) (\<lambda>sd.
                 Inr (case sd of
                        Inl reason \<Rightarrow> (None, Some the_id, [reason])
                      | Inr start \<Rightarrow> (let (row, reasons) = build_row lib d the_id start
                                     in (Some row, Some the_id, reasons))))))"

type_synonym reject = "int option \<times> string"

record parse_outcome =
  out_rows :: "call_row list"
  out_rejected :: "reject list"

fun parse_rows ::
  "'l parse_lib_scheme \<Rightarrow> rat \<Rightarrow> json list \<Rightarrow> (py_error, parse_outcome) result" where
  "parse_rows lib now [] = Inr \<lparr>out_rows = [], out_rejected = []\<rparr>"
| "parse_rows lib now (item # items) =
     rbind (parse_row lib now item) (\<lambda>(row, the_id, reasons).
     rbind (parse_rows lib now items) (\<lambda>rest.
     Inr \<lparr>out_rows = (case row of None \<Rightarrow> [] | Some r \<Rightarrow> [r]) @ out_rows rest,
          out_rejected = map (\<lambda>reason. (the_id, reason)) reasons @ out_rejected rest\<rparr>))"

section \<open>The parameters\<close>

text \<open>The first operator, longest first, that the key starts with, and the field after it.\<close>

definition split_key :: "string \<Rightarrow> string \<times> string" where
  "split_key key =
     (case find (\<lambda>operator. starts_with operator key) filter_operators of
        None \<Rightarrow> ([], key)
      | Some operator \<Rightarrow> (operator, drop (length operator) key))"

definition filter_clause_ok :: "string \<times> json \<Rightarrow> bool" where
  "filter_clause_ok clause =
     (snd (split_key (fst clause)) \<in> set statistic_fields \<and> snd clause \<noteq> JNone \<and> snd clause \<noteq> JList [])"

definition check_filter :: "(string, json) dict \<Rightarrow> (py_error, unit) result" where
  "check_filter filt = (if list_all filter_clause_ok filt then Inr () else Inl ValueError)"

definition statistic_params ::
  "(string, json) dict \<Rightarrow> string \<Rightarrow> string \<Rightarrow> int \<Rightarrow> (py_error, (string, json) dict) result" where
  "statistic_params filt sort_by order start =
     rbind (check_filter filt) (\<lambda>_.
       (let sort_field = upper (strip sort_by); order_value = upper (strip order)
        in if sort_field \<notin> set statistic_fields \<or> sort_field = ''CALL_TYPE'' then Inl ValueError
           else if order_value \<notin> {''ASC'', ''DESC''} then Inl ValueError
           else if start < 0 \<or> start mod int page_size \<noteq> 0 then Inl ValueError
           else Inr [(''FILTER'', JDict filt), (''SORT'', JStr sort_field),
                     (''ORDER'', JStr order_value), (''start'', JInt start)]))"

section \<open>A parsed row fits the columns it is stored in\<close>

definition fits_width :: "nat \<Rightarrow> string option \<Rightarrow> bool" where
  "fits_width n v = (case v of None \<Rightarrow> True | Some s \<Rightarrow> length s \<le> n)"

definition fits_range :: "int \<Rightarrow> int \<Rightarrow> int option \<Rightarrow> bool" where
  "fits_range low high v = (case v of None \<Rightarrow> True | Some n \<Rightarrow> low \<le> n \<and> n \<le> high)"

text \<open>Widths and ranges of the \<open>calls\<close> columns; the cost may reach its limit by rounding.\<close>

definition row_fits :: "rat \<Rightarrow> call_row \<Rightarrow> bool" where
  "row_fits now r \<longleftrightarrow>
     1 \<le> bx_id r \<and> bx_id r \<le> int64_max \<and>
     min_start_date \<le> call_start_date r \<and> call_start_date r \<le> now + max_future_slack \<and>
     0 \<le> call_duration r \<and> call_duration r \<le> int32_max \<and>
     fits_width 255 (call_id r) \<and> fits_width 255 (external_call_id r) \<and>
     fits_width 64 (call_category r) \<and> fits_width 32 (call_failed_code r) \<and>
     fits_width 128 (portal_number r) \<and> fits_width 128 (phone_number r) \<and>
     fits_width 32 (crm_entity_type r) \<and> fits_width 8 (cost_currency r) \<and>
     fits_width 255 (rest_app_name r) \<and>
     fits_range int16_min int16_max (call_type r) \<and> fits_range 0 int32_max (portal_user_id r) \<and>
     fits_range int32_min int32_max (crm_entity_id r) \<and>
     fits_range int64_min int64_max (crm_activity_id r) \<and>
     fits_range int16_min int16_max (call_vote r) \<and>
     fits_range int64_min int64_max (record_file_id r) \<and>
     fits_range int32_min int32_max (record_duration r) \<and>
     fits_range int32_min int32_max (rest_app_id r) \<and>
     fits_range int64_min int64_max (transcript_id r) \<and>
     fits_range int64_min int64_max (session_id r) \<and>
     fits_range int16_min int16_max (redial_attempt r) \<and>
     (case cost r of None \<Rightarrow> True | Some q \<Rightarrow> \<bar>q\<bar> \<le> cost_limit)"

lemma fits_clip: "fits_width n (fst (clip v n))"
  by (auto simp: fits_width_def clip_def split: option.split)

lemma fits_number: "fits_range low high (fst (number v low high))"
  by (auto simp: fits_range_def number_def split: option.split)

lemma quantize4_bound:
  assumes "\<bar>q\<bar> < cost_limit"
  shows "\<bar>quantize4 q\<bar> \<le> cost_limit"
proof -
  let ?r = "of_int (round_half_even (q * 10000)) :: rat"
  have near: "\<bar>?r - q * 10000\<bar> \<le> 1 / 2"
    by (rule round_half_even_bounds)
  have "\<bar>q * 10000\<bar> < 10 ^ 12"
    using assms by (simp add: cost_limit_def abs_mult)
  then have "\<bar>q * 10000\<bar> < 1000000000000"
    by simp
  with near have "\<bar>?r\<bar> < 1000000000001"
    by linarith
  then have "\<bar>?r\<bar> < of_int (10 ^ 12 + 1)"
    by simp
  then have "\<bar>round_half_even (q * 10000)\<bar> < 10 ^ 12 + 1"
    by (metis of_int_abs of_int_less_iff)
  then have "\<bar>?r\<bar> \<le> of_int (10 ^ 12)"
    by (metis of_int_abs of_int_le_iff zle_add1_eq_le)
  then show ?thesis
    by (simp add: quantize4_def cost_limit_def)
qed

lemma cost_of_bound:
  assumes "fst (cost_of v) = Some q"
  shows "\<bar>q\<bar> \<le> cost_limit"
proof -
  obtain n where "q = quantize4 n" and "\<not> cost_limit - 1 / (2 * 10 ^ 20) \<le> \<bar>n\<bar>"
    using assms by (auto simp: cost_of_def split: if_splits option.splits)
  then show ?thesis
    using quantize4_bound [of n] by (simp add: cost_limit_def)
qed

lemma duration_fits:
  "0 \<le> (case fst (number v 0 int32_max) of None \<Rightarrow> 0 | Some d \<Rightarrow> d) \<and>
   (case fst (number v 0 int32_max) of None \<Rightarrow> 0 | Some d \<Rightarrow> d) \<le> int32_max"
  using fits_number [of 0 int32_max v] by (auto simp: fits_range_def int32_max_def split: option.splits)

lemma build_row_fits:
  assumes "1 \<le> the_id" "the_id \<le> int64_max" "min_start_date \<le> start" "start \<le> now + max_future_slack"
  shows "row_fits now (fst (build_row lib raw the_id start))"
  using assms duration_fits
  by (simp add: row_fits_def build_row_def Let_def case_prod_beta fits_clip fits_number
      cost_of_bound split: option.split)

lemma start_date_range:
  "start_date lib now v = Inr (Inr t) \<Longrightarrow> min_start_date \<le> t \<and> t \<le> now + max_future_slack"
  by (auto simp: start_date_def split: json.splits option.splits if_splits)

lemma parse_row_Some:
  assumes "parse_row lib now raw = Inr (Some row, the_id, reasons)"
  obtains d i start where "fields_of raw = Some d" "to_int (field d ''ID'') = Some i" "the_id = Some i"
    "1 \<le> i" "i \<le> int64_max" "start_date lib now (field d ''CALL_START_DATE'') = Inr (Inr start)"
    "build_row lib d i start = (row, reasons)"
proof -
  from assms obtain d i sd where d: "fields_of raw = Some d" "to_int (field d ''ID'') = Some i"
    "1 \<le> i" "i \<le> int64_max" and sd: "start_date lib now (field d ''CALL_START_DATE'') = Inr sd"
    and out: "(case sd of Inl reason \<Rightarrow> (None, Some i, [reason])
       | Inr start \<Rightarrow> (let (row, reasons) = build_row lib d i start in (Some row, Some i, reasons)))
       = (Some row, the_id, reasons)"
    by (auto simp: parse_row_def rbind_Inr_iff split: option.splits if_splits)
  then obtain start where "sd = Inr start" "build_row lib d i start = (row, reasons)" "the_id = Some i"
    by (cases sd) (auto simp: Let_def split: prod.splits)
  with d sd that show ?thesis by blast
qed

lemma parse_row_fits:
  assumes "parse_row lib now raw = Inr (Some row, the_id, reasons)"
  shows "row_fits now row"
proof -
  from assms obtain d i start where "1 \<le> i" "i \<le> int64_max"
    and sd: "start_date lib now (field d ''CALL_START_DATE'') = Inr (Inr start)"
    and "build_row lib d i start = (row, reasons)"
    by (rule parse_row_Some)
  with start_date_range [OF sd] build_row_fits [of i start now lib d] show ?thesis
    by simp
qed

lemma parse_rows_Cons:
  assumes "parse_rows lib now (item # items) = Inr out"
  obtains row the_id reasons rest where "parse_row lib now item = Inr (row, the_id, reasons)"
    "parse_rows lib now items = Inr rest"
    "out_rows out = (case row of None \<Rightarrow> [] | Some r \<Rightarrow> [r]) @ out_rows rest"
    "out_rejected out = map (\<lambda>reason. (the_id, reason)) reasons @ out_rejected rest"
  using assms by (auto simp: rbind_Inr_iff)

lemma parse_rows_fit:
  "parse_rows lib now items = Inr out \<Longrightarrow> row \<in> set (out_rows out) \<Longrightarrow> row_fits now row"
proof (induction items arbitrary: out)
  case Nil
  then show ?case by auto
next
  case (Cons item items)
  obtain r i reasons rest where p: "parse_row lib now item = Inr (r, i, reasons)"
    "parse_rows lib now items = Inr rest"
    "out_rows out = (case r of None \<Rightarrow> [] | Some x \<Rightarrow> [x]) @ out_rows rest"
    by (rule parse_rows_Cons [OF Cons.prems(1)])
  then show ?case
    using Cons.IH [OF p(2)] Cons.prems(2) parse_row_fits by (cases r) auto
qed

text \<open>
  Every raw row leaves a trace: it is kept, or it is reported. A kept row is reported only
  for a field that lost fidelity.
\<close>

lemma build_row_degraded: "reason \<in> set (snd (build_row lib d i start)) \<Longrightarrow> starts_with ''degraded:'' reason"
  by (auto simp: build_row_def Let_def case_prod_beta flagged_def starts_with_iff)

lemma build_row_id: "bx_id (fst (build_row lib d i start)) = i"
  by (simp add: build_row_def Let_def case_prod_beta)

lemma parse_row_accounted:
  assumes "parse_row lib now raw = Inr (row, the_id, reasons)"
  shows "case row of None \<Rightarrow> (\<exists>reason. reasons = [reason] \<and> \<not> starts_with ''degraded:'' reason)
         | Some r \<Rightarrow> the_id = Some (bx_id r) \<and> (\<forall>reason \<in> set reasons. starts_with ''degraded:'' reason)"
proof (cases row)
  case (Some r)
  with assms obtain d i start where "the_id = Some i" "build_row lib d i start = (r, reasons)"
    by (auto elim: parse_row_Some)
  with Some build_row_degraded [of _ lib d i start] build_row_id [of lib d i start] show ?thesis
    by auto
next
  case None
  have reason: "start_date lib now v = Inr (Inl reason) \<Longrightarrow> \<not> starts_with ''degraded:'' reason" for v reason
    by (auto simp: start_date_def split: json.splits option.splits if_splits)
  from assms consider (bad) "reasons \<in> {[''not_a_record''], [''missing_id''], [''id_out_of_range'']}"
    | (date) d i sd where "start_date lib now (field d ''CALL_START_DATE'') = Inr sd"
      "(case sd of Inl reason \<Rightarrow> (None, Some i, [reason])
        | Inr start \<Rightarrow> (let (row, reasons) = build_row lib d i start in (Some row, Some i, reasons)))
       = (row, the_id, reasons)"
    by (auto simp: parse_row_def rbind_Inr_iff split: option.splits if_splits)
  then show ?thesis
  proof cases
    case bad
    with None show ?thesis by auto
  next
    case date
    with None reason show ?thesis
      by (cases sd) (auto simp: Let_def split: prod.splits)
  qed
qed

end
