(* ===== verification/Time_Block.thy ===== *)
theory Time_Block
  imports Statistic
begin

text \<open>
  The \<open>time{}\<close> part of \<open>api/app/sync/throttle.py\<close>: coercion of the measurements Bitrix24
  attaches to an answer, and the folding of the blocks of one batch. Coercions raise where
  Python raises: on an integer beyond the floats and on a timestamp outside the calendar.
\<close>

type_synonym block = "(string, json) dict"

section \<open>Coercion\<close>

definition finite_float :: "pyfloat \<Rightarrow> rat option" where
  "finite_float f = (case f of Fin q \<Rightarrow> Some q | _ \<Rightarrow> None)"

definition as_float :: "json \<Rightarrow> (py_error, rat option) result" where
  "as_float v =
     (case v of
        JInt i \<Rightarrow> rbind (float_of_int i) (\<lambda>q. Inr (Some q))
      | JFloat f \<Rightarrow> Inr (finite_float f)
      | JStr s \<Rightarrow> Inr (case float_literal (strip s) of None \<Rightarrow> None | Some f \<Rightarrow> finite_float f)
      | _ \<Rightarrow> Inr None)"

definition as_decimal :: "json \<Rightarrow> (py_error, rat option) result" where
  "as_decimal v = rbind (as_float v) (\<lambda>q. Inr (map_option round2 q))"

definition from_timestamp :: "rat \<Rightarrow> (py_error, rat) result" where
  "from_timestamp q =
     (if in_datetime q then Inr q
      else Inl (if \<bar>q\<bar> < 2 ^ 63 then ValueError else OverflowError))"

definition timestamp_opt :: "rat option \<Rightarrow> (py_error, rat option) result" where
  "timestamp_opt v = (case v of None \<Rightarrow> Inr None | Some q \<Rightarrow> rbind (from_timestamp q) (\<lambda>t. Inr (Some t)))"

definition as_datetime ::
  "(string \<Rightarrow> (rat \<times> rat option) option) \<Rightarrow> json \<Rightarrow> (py_error, rat option) result" where
  "as_datetime isod v =
     (case v of
        JInt _ \<Rightarrow> rbind (as_float v) timestamp_opt
      | JFloat _ \<Rightarrow> rbind (as_float v) timestamp_opt
      | JStr s \<Rightarrow>
          if strip s = [] then Inr None
          else rbind (as_float (JStr (strip s))) (\<lambda>seconds.
            case seconds of
              Some q \<Rightarrow> timestamp_opt (Some q)
            | None \<Rightarrow> Inr (case isod (strip s) of
                            None \<Rightarrow> None
                          | Some (local, None) \<Rightarrow> Some local
                          | Some (local, Some offset) \<Rightarrow> Some (local - offset)))
      | _ \<Rightarrow> Inr None)"

section \<open>Blocks\<close>

definition read_time_block ::
  "(string \<Rightarrow> (rat \<times> rat option) option) \<Rightarrow> block option \<Rightarrow> (py_error, rat option \<times> rat option) result" where
  "read_time_block isod b =
     (case b of None \<Rightarrow> Inr (None, None)
      | Some d \<Rightarrow> rbind (as_decimal (get_field d ''operating'')) (\<lambda>operating.
                  rbind (as_datetime isod (get_field d ''operating_reset_at'')) (\<lambda>reset_at.
                  Inr (operating, reset_at))))"

text \<open>The larger of two optional measurements; the first wins a tie.\<close>

definition later :: "rat option \<Rightarrow> rat option \<Rightarrow> rat option" where
  "later old new =
     (case new of None \<Rightarrow> old
      | Some n \<Rightarrow> (case old of None \<Rightarrow> Some n | Some q \<Rightarrow> if q < n then Some n else Some q))"

type_synonym merge_state = "rat option \<times> rat option \<times> block"

definition merge_step ::
  "(string \<Rightarrow> (rat \<times> rat option) option) \<Rightarrow> block option \<Rightarrow> merge_state \<Rightarrow> (py_error, merge_state) result" where
  "merge_step isod b st =
     (case b of None \<Rightarrow> Inr st
      | Some d \<Rightarrow>
          (let (operating, reset_at, merged) = st
           in rbind (as_float (get_field d ''operating'')) (\<lambda>seconds.
              rbind (as_datetime isod (get_field d ''operating_reset_at'')) (\<lambda>moment.
              Inr (later operating seconds, later reset_at moment, dict_update merged d)))))"

definition set_or_pop :: "string \<Rightarrow> rat option \<Rightarrow> block \<Rightarrow> block" where
  "set_or_pop key v d =
     (case v of None \<Rightarrow> dict_pop key d | Some q \<Rightarrow> dict_set key (JFloat (Fin q)) d)"

definition merge_time_blocks ::
  "(string \<Rightarrow> (rat \<times> rat option) option) \<Rightarrow> block option list \<Rightarrow> (py_error, block option) result" where
  "merge_time_blocks isod blocks =
     rbind (rfold (merge_step isod) blocks (None, None, [])) (\<lambda>(operating, reset_at, merged).
       Inr (if merged = [] then None
            else Some (set_or_pop ''operating_reset_at'' reset_at (set_or_pop ''operating'' operating merged))))"

section \<open>The merge is a maximum, never a sum\<close>

definition operating_of :: "block option \<Rightarrow> rat option" where
  "operating_of b =
     (case b of None \<Rightarrow> None
      | Some d \<Rightarrow> (case as_float (get_field d ''operating'') of Inr v \<Rightarrow> v | Inl _ \<Rightarrow> None))"

lemma later_Some: "later a b = Some m \<longleftrightarrow>
  (a = Some m \<or> b = Some m) \<and> (\<forall>x. a = Some x \<longrightarrow> x \<le> m) \<and> (\<forall>x. b = Some x \<longrightarrow> x \<le> m)"
  by (auto simp: later_def split: option.splits)

lemma later_None [simp]: "later a b = None \<longleftrightarrow> a = None \<and> b = None"
  by (auto simp: later_def split: option.splits)

lemma merge_step_operating:
  "merge_step isod b (o1, r1, m1) = Inr (o2, r2, m2) \<Longrightarrow> o2 = later o1 (operating_of b)"
  by (cases b) (auto simp: merge_step_def operating_of_def rbind_Inr_iff later_def [of _ None])

definition largest :: "rat option \<Rightarrow> rat list \<Rightarrow> rat option" where
  "largest start xs = fold (\<lambda>x acc. later acc (Some x)) xs start"

lemma largest_max_opt: "largest None xs = max_opt xs"
proof (cases xs)
  case Nil
  then show ?thesis by (simp add: largest_def max_opt_def)
next
  case (Cons y ys)
  have "fold (\<lambda>x acc. later acc (Some x)) zs (Some z) = Some (fold max zs z)" for zs z
    by (induction zs arbitrary: z) (auto simp: later_def max_def)
  then show ?thesis
    using Cons by (simp add: largest_def max_opt_def later_def)
qed

lemma rfold_merge_operating:
  "rfold (merge_step isod) bs (o1, r1, m1) = Inr (o2, r2, m2) \<Longrightarrow>
   o2 = largest o1 (List.map_filter operating_of bs)"
proof (induction bs arbitrary: o1 r1 m1)
  case Nil
  then show ?case by (simp add: largest_def)
next
  case (Cons b bs)
  then obtain o' r' m' where st: "merge_step isod b (o1, r1, m1) = Inr (o', r', m')"
    and rest: "rfold (merge_step isod) bs (o', r', m') = Inr (o2, r2, m2)"
    by (auto simp: rbind_Inr_iff)
  have "o' = later o1 (operating_of b)"
    by (rule merge_step_operating [OF st])
  with Cons.IH [OF rest] show ?case
    by (cases "operating_of b") (simp_all add: largest_def later_def)
qed

lemma map_of_set_or_pop:
  "map_of (set_or_pop k v d) = (map_of d)(k := map_option (\<lambda>q. JFloat (Fin q)) v)"
  by (cases v) (simp_all add: set_or_pop_def map_of_dict_set map_of_dict_pop)

lemma merge_operating:
  assumes "merge_time_blocks isod bs = Inr (Some d)"
  shows "map_of d ''operating'' =
    map_option (\<lambda>q. JFloat (Fin q)) (max_opt (List.map_filter operating_of bs))"
proof -
  obtain o1 r1 m1 where fold: "rfold (merge_step isod) bs (None, None, []) = Inr (o1, r1, m1)"
    and d: "d = set_or_pop ''operating_reset_at'' r1 (set_or_pop ''operating'' o1 m1)"
    using assms by (auto simp: merge_time_blocks_def rbind_Inr_iff split: if_splits)
  then show ?thesis
    using rfold_merge_operating [OF fold] by (simp add: map_of_set_or_pop largest_max_opt)
qed

end
