(* ===== verification/Fetch.thy ===== *)
theory Fetch
  imports Time_Block
begin

text \<open>
  \<open>api/app/sync/fetch.py\<close>: one batch of statistics pages, the contiguous-prefix rule and
  the filter-honoured guard.
\<close>

section \<open>The world of a fetch\<close>

text \<open>
  What a fetch uses beyond the client: ISO-8601 and the bracketed-host check of the standard
  library.
\<close>

record fetch_outside = outside +
  iso_date :: "string \<Rightarrow> (rat \<times> rat option) option"
  host_ok :: "string \<Rightarrow> bool"

definition lib_of :: "'o fetch_outside_scheme \<Rightarrow> parse_lib" where
  "lib_of c = \<lparr>lib_render = render c, lib_iso = iso_date c, lib_host_ok = host_ok c\<rparr>"

record fetch_outcome =
  rows :: "call_row list"
  extra_rows :: "call_row list"
  rejected :: "reject list"
  prefix_len :: nat
  command_count :: nat
  total :: "int option"
  has_next :: bool
  errors :: "bitrix_error list"
  time_block :: "block option"
  filter_violation :: "string option"

definition clean :: "fetch_outcome \<Rightarrow> bool" where
  "clean o' \<longleftrightarrow> errors o' = [] \<and> filter_violation o' = None"

section \<open>The filter guard\<close>

definition plain_digits :: "string \<Rightarrow> int option" where
  "plain_digits t = (if t \<noteq> [] \<and> list_all is_digit t then Some (digits_value t) else None)"

definition filter_int :: "json \<Rightarrow> int option" where
  "filter_int v =
     (case v of
        JInt i \<Rightarrow> Some i
      | JFloat (Fin q) \<Rightarrow> int_of_rat q
      | JStr s \<Rightarrow>
          (let t = strip s
           in if starts_with ''-'' t then map_option uminus (plain_digits (tl t)) else plain_digits t)
      | _ \<Rightarrow> None)"

definition split_operator :: "string \<Rightarrow> string \<times> string" where
  "split_operator key =
     (let (operator, name) = split_key (strip key)
      in if operator = [] then ([], upper name) else (operator, upper (strip name)))"

definition scalar_check :: "string \<Rightarrow> int \<Rightarrow> (int \<Rightarrow> bool) option" where
  "scalar_check operator bound =
     (if operator = ''>'' then Some (\<lambda>v. bound < v)
      else if operator = ''>='' then Some (\<lambda>v. bound \<le> v)
      else if operator = ''<'' then Some (\<lambda>v. v < bound)
      else if operator = ''<='' then Some (\<lambda>v. v \<le> bound)
      else if operator \<in> {[], ''=''} then Some (\<lambda>v. v = bound)
      else if operator \<in> {''!'', ''!=''} then Some (\<lambda>v. v \<noteq> bound)
      else None)"

definition list_check :: "string \<Rightarrow> int list \<Rightarrow> (int \<Rightarrow> bool) option" where
  "list_check operator ids =
     (if operator \<in> {[], ''='', ''@''}
      then Some (\<lambda>v. v \<in> set ids \<or> (Min (set ids) \<le> v \<and> v \<le> Max (set ids)))
      else if operator \<in> {''!'', ''!='', ''!@''} then Some (\<lambda>v. v \<notin> set ids)
      else None)"

type_synonym id_check = "string \<times> (int \<Rightarrow> bool)"

definition clause_check :: "(json \<Rightarrow> string) \<Rightarrow> string \<times> json \<Rightarrow> id_check option" where
  "clause_check r clause =
     (let (raw_key, raw_value) = clause; (operator, field_name) = split_operator raw_key;
          label = ''FILTER['' @ raw_key @ '']='' @ r raw_value
      in if field_name \<noteq> ''ID'' then None
         else map_option (\<lambda>check. (label, check))
           (case raw_value of
              JList items \<Rightarrow>
                (let ids = List.map_filter filter_int items
                 in if ids \<noteq> [] \<and> length ids = length items then list_check operator ids else None)
            | _ \<Rightarrow> (case filter_int raw_value of None \<Rightarrow> None | Some bound \<Rightarrow> scalar_check operator bound)))"

definition id_checks :: "(json \<Rightarrow> string) \<Rightarrow> (string, json) dict \<Rightarrow> id_check list" where
  "id_checks r filt = List.map_filter (clause_check r) filt"

text \<open>A caller's guard may raise; \<open>Inl\<close> names the exception.\<close>

type_synonym guard = "call_row \<Rightarrow> string + bool"

definition violation :: "call_row \<Rightarrow> id_check list \<Rightarrow> guard option \<Rightarrow> string option" where
  "violation row checks guard =
     (case find (\<lambda>(label, check). \<not> check (bx_id row)) checks of
        Some (label, _) \<Rightarrow> Some (label @ '' returned bx_id='' @ show_int (bx_id row))
      | None \<Rightarrow>
          (case guard of
             None \<Rightarrow> None
           | Some g \<Rightarrow>
               (case g row of
                  Inl name \<Rightarrow> Some (''guard raised '' @ name @ '' for bx_id='' @ show_int (bx_id row))
                | Inr honoured \<Rightarrow>
                    if honoured then None
                    else Some (''guard rejected bx_id='' @ show_int (bx_id row)))))"

fun first_violation :: "id_check list \<Rightarrow> guard option \<Rightarrow> call_row list \<Rightarrow> string option" where
  "first_violation checks guard [] = None"
| "first_violation checks guard (r # rs) =
     (case violation r checks guard of Some v \<Rightarrow> Some v | None \<Rightarrow> first_violation checks guard rs)"

section \<open>The fetch\<close>

definition validate_starts :: "int list \<Rightarrow> (py_error, int list) result" where
  "validate_starts starts =
     (if starts = [] \<or> max_batch_commands < length starts \<or> \<not> distinct starts \<or>
         (\<exists>v \<in> set starts. v < 0 \<or> v mod int page_size \<noteq> 0)
      then Inl ValueError else Inr starts)"

fun type_name :: "json \<Rightarrow> string" where
  "type_name JNone = ''NoneType''"
| "type_name (JBool _) = ''bool''"
| "type_name (JInt _) = ''int''"
| "type_name (JFloat _) = ''float''"
| "type_name (JStr _) = ''str''"
| "type_name (JList _) = ''list''"
| "type_name (JDict _) = ''dict''"

definition result_rows :: "json \<Rightarrow> string + json list" where
  "result_rows v =
     (case v of JList xs \<Rightarrow> Inr xs | JDict d \<Rightarrow> Inr (map snd d)
      | _ \<Rightarrow> Inl (''unexpected result shape '' @ type_name v))"

text \<open>One command of the batch: a page we did not see, with its error, or its parsed rows.\<close>

definition read_page ::
  "'o fetch_outside_scheme \<Rightarrow> rat \<Rightarrow> int \<times> command_result \<Rightarrow> (py_error, bitrix_error + parse_outcome) result" where
  "read_page c now page =
     (let (start, command) = page
      in case cmd_error command of
           Some e \<Rightarrow> Inr (Inl e)
         | None \<Rightarrow>
             (case result_rows (cmd_result command) of
                Inl reason \<Rightarrow>
                  Inr (Inl (classify None None
                    (''statistic.get page at start='' @ show_int start @ '': '' @ reason) []))
              | Inr items \<Rightarrow> rbind (parse_rows (lib_of c) now items) (\<lambda>out. Inr (Inr out))))"

fun read_pages ::
  "'o fetch_outside_scheme \<Rightarrow> rat \<Rightarrow> (int \<times> command_result) list \<Rightarrow>
   (py_error, (bitrix_error + parse_outcome) list) result" where
  "read_pages c now [] = Inr []"
| "read_pages c now (p # ps) =
     rbind (read_page c now p) (\<lambda>x. rbind (read_pages c now ps) (\<lambda>xs. Inr (x # xs)))"

definition page_ok :: "bitrix_error + parse_outcome \<Rightarrow> bool" where
  "page_ok p = (case p of Inl _ \<Rightarrow> False | Inr _ \<Rightarrow> True)"

definition page_rows :: "bitrix_error + parse_outcome \<Rightarrow> call_row list" where
  "page_rows p = (case p of Inl _ \<Rightarrow> [] | Inr out \<Rightarrow> out_rows out)"

definition page_rejected :: "bitrix_error + parse_outcome \<Rightarrow> reject list" where
  "page_rejected p = (case p of Inl _ \<Rightarrow> [] | Inr out \<Rightarrow> out_rejected out)"

definition page_errors :: "bitrix_error + parse_outcome \<Rightarrow> bitrix_error list" where
  "page_errors p = (case p of Inl e \<Rightarrow> [e] | Inr _ \<Rightarrow> [])"

text \<open>The error-free prefix, the guard over every row, and the neutering on a violation.\<close>

definition build_outcome ::
  "id_check list \<Rightarrow> guard option \<Rightarrow> batch_result \<Rightarrow> (bitrix_error + parse_outcome) list \<Rightarrow> block option \<Rightarrow> fetch_outcome" where
  "build_outcome checks guard b pages block =
     (let cmds = commands b;
          prefix = length (takeWhile page_ok pages);
          inside = concat (map page_rows (take prefix pages));
          outside = concat (map page_rows (drop prefix pages));
          broken = first_violation checks guard (inside @ outside);
          more = (0 < prefix \<and> cmd_next (cmds ! (prefix - 1)) \<noteq> None);
          first_total = (case cmds of [] \<Rightarrow> None
                         | first # _ \<Rightarrow> if cmd_error first = None then cmd_total first else None)
      in \<lparr>rows = (if broken = None then inside else []),
          extra_rows = (if broken = None then outside else inside @ outside),
          rejected = concat (map page_rejected pages),
          prefix_len = (if broken = None then prefix else 0),
          command_count = length cmds,
          total = first_total,
          has_next = (if broken = None then more else False),
          errors = concat (map page_errors pages),
          time_block = block,
          filter_violation = broken\<rparr>)"

definition read_outcome ::
  "'o fetch_outside_scheme \<Rightarrow> rat \<Rightarrow> (string, json) dict \<Rightarrow> guard option \<Rightarrow> int list \<Rightarrow> batch_result \<Rightarrow>
   (exn, fetch_outcome) result" where
  "read_outcome c now filt guard offsets b =
     lift_py (rbind (read_pages c now (zip offsets (commands b))) (\<lambda>pages.
       rbind (merge_time_blocks (iso_date c) (batch_time b # map cmd_time (commands b))) (\<lambda>block.
       Inr (build_outcome (id_checks (render c) filt) guard b pages block))))"

fun page_commands ::
  "(string, json) dict \<Rightarrow> string \<Rightarrow> string \<Rightarrow> nat \<Rightarrow> int list \<Rightarrow> (py_error, command list) result" where
  "page_commands filt sort_by order i [] = Inr []"
| "page_commands filt sort_by order i (start # starts) =
     rbind (statistic_params filt sort_by order start) (\<lambda>params.
     rbind (page_commands filt sort_by order (Suc i) starts) (\<lambda>cs.
     Inr ((''p'' @ show_nat i, statistic_method, params) # cs)))"

definition fetch_pages ::
  "'o fetch_outside_scheme \<Rightarrow> client \<Rightarrow> (string, json) dict \<Rightarrow> string \<Rightarrow> string \<Rightarrow> int list \<Rightarrow>
   guard option \<Rightarrow> ('n net_scheme, exn, fetch_outcome) prog" where
  "fetch_pages c cl filt sort_by order starts guard =
     andThen (lift_result (lift_py (validate_starts starts))) (\<lambda>offsets.
     andThen (lift_result (lift_py (page_commands filt sort_by order 0 offsets))) (\<lambda>cmds.
     andThen (reads (\<lambda>w. wall c (length (requests w)))) (\<lambda>now.
     andThen (batch c cl cmds False) (\<lambda>b.
     lift_result (read_outcome c now filt guard offsets b)))))"

section \<open>What an outcome guarantees\<close>

lemma read_pages_length: "read_pages c now ps = Inr xs \<Longrightarrow> length xs = length ps"
  by (induction ps arbitrary: xs) (auto simp: rbind_Inr_iff)

lemma read_pages_nth:
  "read_pages c now ps = Inr xs \<Longrightarrow> i < length ps \<Longrightarrow> read_page c now (ps ! i) = Inr (xs ! i)"
proof (induction ps arbitrary: xs i)
  case Nil
  then show ?case by simp
next
  case (Cons p ps)
  then obtain y ys where "xs = y # ys" "read_page c now p = Inr y" "read_pages c now ps = Inr ys"
    by (auto simp: rbind_Inr_iff)
  with Cons show ?case
    by (cases i) auto
qed

lemma read_page_error: "read_page c now (start, command) = Inr (Inl e) \<Longrightarrow> cmd_error command = None \<or> cmd_error command = Some e"
  by (auto simp: read_page_def split: option.splits)

lemma read_page_ok: "read_page c now (start, command) = Inr (Inr out) \<Longrightarrow> cmd_error command = None"
  by (auto simp: read_page_def split: option.splits)

lemma first_violation_None:
  "first_violation checks guard rs = None \<longleftrightarrow> (\<forall>r \<in> set rs. violation r checks guard = None)"
  by (induction rs) (auto split: option.splits)

lemma violation_None:
  "violation r checks guard = None \<Longrightarrow> (label, check) \<in> set checks \<Longrightarrow> check (bx_id r)"
  by (auto simp: violation_def find_None_iff split: option.splits prod.splits)

text \<open>Nothing of a batch that broke its filter may move a cursor.\<close>

lemma build_outcome_neutered:
  "filter_violation (build_outcome checks guard b pages block) \<noteq> None \<Longrightarrow>
   rows (build_outcome checks guard b pages block) = [] \<and>
   prefix_len (build_outcome checks guard b pages block) = 0 \<and>
   \<not> has_next (build_outcome checks guard b pages block)"
  by (auto simp: build_outcome_def Let_def)

text \<open>Every row of an outcome without a violation satisfies every derived check.\<close>

lemma build_outcome_checked:
  assumes "filter_violation (build_outcome checks guard b pages block) = None"
    and "r \<in> set (rows (build_outcome checks guard b pages block)) \<union>
             set (extra_rows (build_outcome checks guard b pages block))"
    and "(label, check) \<in> set checks"
  shows "check (bx_id r)"
proof -
  have "violation r checks guard = None"
    using assms(1,2) by (auto simp: build_outcome_def Let_def first_violation_None split: if_splits)
  then show ?thesis
    using assms(3) by (rule violation_None)
qed

lemma takeWhile_full: "(length (takeWhile P xs) = length xs) = (\<forall>x \<in> set xs. P x)"
  by (metis length_takeWhile_le set_takeWhileD takeWhile_eq_all_conv takeWhile_eq_take take_all)

lemma page_errors_empty: "concat (map page_errors pages) = [] \<longleftrightarrow> (\<forall>p \<in> set pages. page_ok p)"
  by (auto simp: page_errors_def page_ok_def split: sum.splits)

text \<open>The prefix is the whole batch exactly when no command failed.\<close>

lemma build_outcome_prefix_full:
  assumes "filter_violation (build_outcome checks guard b pages block) = None"
    and "length pages = length (commands b)"
  shows "prefix_len (build_outcome checks guard b pages block) = command_count (build_outcome checks guard b pages block)
     \<longleftrightarrow> errors (build_outcome checks guard b pages block) = []"
proof -
  have "length (takeWhile page_ok pages) = length pages \<longleftrightarrow> (\<forall>p \<in> set pages. page_ok p)"
    by (rule takeWhile_full)
  then show ?thesis
    using assms by (simp add: build_outcome_def Let_def page_errors_empty [simplified])
qed

section \<open>The fetch as a whole\<close>

text \<open>What an outcome is made of: one page per offset, read off the answer to one batch.\<close>

definition fetched ::
  "'o fetch_outside_scheme \<Rightarrow> (string, json) dict \<Rightarrow> guard option \<Rightarrow> int list \<Rightarrow> fetch_outcome \<Rightarrow> bool" where
  "fetched c filt guard starts o' \<longleftrightarrow>
     (\<exists>b pages block. o' = build_outcome (id_checks (render c) filt) guard b pages block \<and>
        length pages = length (commands b) \<and> length (commands b) = length starts \<and> starts \<noteq> [])"

lemma statistic_params_error: "statistic_params filt sb ord start = Inl e \<Longrightarrow> e = ValueError"
  by (auto simp: statistic_params_def check_filter_def Let_def rbind_Inl_iff split: if_splits)

lemma page_commands_error: "page_commands filt sb ord i starts = Inl e \<Longrightarrow> e = ValueError"
  by (induction starts arbitrary: i) (auto simp: rbind_Inl_iff dest: statistic_params_error)

lemma page_commands_length: "page_commands filt sb ord i starts = Inr cs \<Longrightarrow> length cs = length starts"
  by (induction starts arbitrary: i cs) (auto simp: rbind_Inr_iff)

lemma lift_py_Inl: "lift_py r = Inl e \<Longrightarrow> \<exists>p. e = Py p"
  by (cases r) (auto simp: lift_py_def)

lemma read_outcome_fetched:
  assumes "read_outcome c now filt guard starts b = Inr o'" and "length (commands b) = length starts" and "starts \<noteq> []"
  shows "fetched c filt guard starts o'"
proof -
  obtain pages block where "read_pages c now (zip starts (commands b)) = Inr pages"
    and "o' = build_outcome (id_checks (render c) filt) guard b pages block"
    using assms(1) by (auto simp: read_outcome_def lift_py_Inr rbind_Inr_iff)
  then show ?thesis
    using assms(2,3) read_pages_length by (fastforce simp: fetched_def)
qed

lemma fetch_pages_cases:
  assumes "fetch_pages c cl filt sb ord starts guard w = (r, w')"
  obtains (invalid) "r = Inl (Py ValueError)" "w' = w"
  | (failed) e where "r = Inl e" "length (requests w') = Suc (length (requests w))" "net.more w' = net.more w"
  | (ok) o' where "r = Inr o'" "length (requests w') = Suc (length (requests w))" "net.more w' = net.more w"
      "fetched c filt guard starts o'"
proof (cases "validate_starts starts")
  case (Inl e)
  with assms show ?thesis
    by (intro invalid) (auto simp: fetch_pages_def prog_defs lift_py_def validate_starts_def split: if_splits)
next
  case v: (Inr offsets)
  then have st: "offsets = starts" "starts \<noteq> []"
    by (auto simp: validate_starts_def split: if_splits)
  show ?thesis
  proof (cases "page_commands filt sb ord 0 starts")
    case (Inl e)
    then have "e = ValueError"
      by (rule page_commands_error)
    with Inl v st assms show ?thesis
      by (intro invalid) (auto simp: fetch_pages_def prog_defs lift_py_def)
  next
    case cmds: (Inr cs)
    obtain r1 w1 where b: "batch c cl cs False w = (r1, w1)" by fastforce
    then have run: "(r, w') = (case r1 of Inl e \<Rightarrow> (Inl e, w1)
        | Inr b \<Rightarrow> (read_outcome c (wall c (length (requests w))) filt guard starts b, w1))"
      using assms v st cmds by (auto simp: fetch_pages_def prog_defs lift_py_def split: sum.splits)
    from b show ?thesis
    proof (cases rule: batch_cases)
      case invalid
      with run show ?thesis by (intro that(1)) auto
    next
      case (failed e)
      with run show ?thesis by (intro that(2)) auto
    next
      case (answered bt)
      then have len: "length (commands bt) = length starts"
        using page_commands_length [OF cmds] by (metis length_map)
      show ?thesis
      proof (cases "read_outcome c (wall c (length (requests w))) filt guard starts bt")
        case (Inl e)
        with run answered show ?thesis by (intro that(2)) auto
      next
        case (Inr o')
        with run answered read_outcome_fetched [OF Inr len st(2)] show ?thesis by (intro that(3)) auto
      qed
    qed
  qed
qed

lemma fetched_prefix_full:
  "fetched c filt guard starts o' \<Longrightarrow> filter_violation o' = None \<Longrightarrow>
   prefix_len o' = command_count o' \<longleftrightarrow> errors o' = []"
  unfolding fetched_def by (auto simp: build_outcome_prefix_full)

lemma fetched_checked:
  assumes "fetched c filt guard starts o'" and "filter_violation o' = None"
    and "r \<in> set (rows o') \<union> set (extra_rows o')" and "(label, check) \<in> set (id_checks (render c) filt)"
  shows "check (bx_id r)"
  using assms unfolding fetched_def by (metis build_outcome_checked)

text \<open>The checks derived from the filters of the sync steps.\<close>

lemma split_operator_id:
  "split_operator ''>ID'' = (''>'', ''ID'')" "split_operator ''>=ID'' = (''>='', ''ID'')"
  "split_operator ''<ID'' = (''<'', ''ID'')" "split_operator ''<=ID'' = (''<='', ''ID'')"
  by code_simp+

lemma id_checks_int:
  assumes "split_operator k = (op, ''ID'')"
  shows "id_checks r [(k, JInt b)] =
    (case scalar_check op b of None \<Rightarrow> [] | Some check \<Rightarrow> [(''FILTER['' @ k @ '']='' @ r (JInt b), check)])"
  using assms by (simp add: id_checks_def clause_check_def filter_int_def Let_def split: option.split)

lemma id_checks_above: "id_checks r [(''>ID'', JInt b)] = [(''FILTER[>ID]='' @ r (JInt b), \<lambda>v. b < v)]"
  by (simp add: id_checks_int [OF split_operator_id(1)] scalar_check_def)

lemma id_checks_from: "id_checks r [(''>=ID'', JInt b)] = [(''FILTER[>=ID]='' @ r (JInt b), \<lambda>v. b \<le> v)]"
  by (simp add: id_checks_int [OF split_operator_id(2)] scalar_check_def)

lemma id_checks_below: "id_checks r [(''<ID'', JInt b)] = [(''FILTER[<ID]='' @ r (JInt b), \<lambda>v. v < b)]"
  by (simp add: id_checks_int [OF split_operator_id(3)] scalar_check_def)

lemma id_checks_upto: "id_checks r [(''<=ID'', JInt b)] = [(''FILTER[<=ID]='' @ r (JInt b), \<lambda>v. v \<le> b)]"
  by (simp add: id_checks_int [OF split_operator_id(4)] scalar_check_def)

end
