(* ===== verification/Store.thy ===== *)
theory Store
  imports Fetch
begin

text \<open>
  The database as the sync layer uses it: the tables \<open>portals\<close>, \<open>portal_sync\<close>, \<open>calls\<close>,
  \<open>employees\<close> and \<open>portal_events\<close> of \<open>api/app/db/models.py\<close>, transactions with rollback
  (\<open>api/app/db/session.py\<close>), and the writers of \<open>api/app/services/portals.py\<close> the sync steps
  call. Other processes act between two transactions of a run: the parameter \<open>interfere\<close>.
\<close>

section \<open>Tables\<close>

text \<open>A timestamp column that may hold \<open>infinity\<close>, ordered as the database orders it.\<close>

datatype due = At rat | Infinity

instantiation due :: linorder
begin

fun less_eq_due :: "due \<Rightarrow> due \<Rightarrow> bool" where
  "less_eq_due _ Infinity = True"
| "less_eq_due Infinity (At _) = False"
| "less_eq_due (At a) (At b) = (a \<le> b)"

definition less_due :: "due \<Rightarrow> due \<Rightarrow> bool" where
  "less_due x y \<longleftrightarrow> x \<le> y \<and> \<not> (y \<le> x)"

instance
proof
  fix x y z :: due
  show "(x < y) = (x \<le> y \<and> \<not> y \<le> x)"
    by (simp add: less_due_def)
  show "x \<le> x"
    by (cases x) auto
  show "x \<le> y \<Longrightarrow> y \<le> z \<Longrightarrow> x \<le> z"
    by (cases x; cases y; cases z) auto
  show "x \<le> y \<Longrightarrow> y \<le> x \<Longrightarrow> x = y"
    by (cases x; cases y) auto
  show "x \<le> y \<or> y \<le> x"
    by (cases x; cases y) auto
qed

end

datatype backfill_state = Pending | Head | Running | Done | Failed

record sync_row =
  sync_generation :: int
  high_id :: int
  low_id :: "int option"
  rescan_from_id :: "int option"
  backfill_status :: backfill_state
  backfill_total :: "int option"
  backfill_done :: int
  backfill_started_at :: "rat option"
  backfill_finished_at :: "rat option"
  batch_pages :: int
  clean_visits :: int
  last_incremental_at :: "rat option"
  last_rescan_at :: "rat option"
  last_recheck_at :: "rat option"
  next_run_at :: due
  lease_owner :: "string option"
  lease_expires_at :: "rat option"
  run_started_at :: "rat option"
  operating_seconds :: "rat option"
  operating_reset_at :: "rat option"
  throttle_hits :: int
  consecutive_failures :: int
  rejected_rows :: int
  last_error_code :: "string option"
  last_error_text :: "string option"
  last_error_at :: "rat option"

record portal_row =
  status :: string
  token_status :: string
  purge_pending :: bool

record stored_call =
  call_data :: call_row
  record_recheck_count :: int
  refresh_requested :: bool
  first_seen_at :: rat
  last_synced_at :: rat
  content_changed_at :: "rat option"

record portal_event =
  event_portal :: int
  event_kind :: string
  event_details :: "(string, json) dict"
  event_user :: "int option"

record store =
  db_now :: rat
  portals :: "(int, portal_row) dict"
  sync :: "(int, sync_row) dict"
  calls :: "(int \<times> int, stored_call) dict"
  employees :: "(int \<times> int) set"
  portal_events :: "portal_event list"

record world = net +
  store :: store
  ticks :: nat
  resume_from :: "(int, int) dict"

text \<open>
  \<open>interfere n\<close> is whatever other processes did before the \<open>n\<close>-th transaction of this run;
  \<open>refuses n\<close> says whether the database refuses a row of \<open>calls\<close>, and whether the row is at
  fault; \<open>clock\<close> is the worker's own clock; \<open>pace\<close> the pacing hook of the visit.
\<close>

datatype db_fault = RowFault string | OtherFault

record sync_outside = fetch_outside +
  interfere :: "nat \<Rightarrow> store \<Rightarrow> store"
  refuses :: "nat \<Rightarrow> call_row \<Rightarrow> db_fault option"
  clock :: "nat \<Rightarrow> rat"
  pace :: "(nat \<Rightarrow> block option \<Rightarrow> bool) option"

type_synonym 'a sync_prog = "(world, exn, 'a) prog"

type_synonym 'a body = "nat \<Rightarrow> store \<Rightarrow> (exn, 'a \<times> store) result"

text \<open>\<open>control_txn\<close> and \<open>tenant_txn\<close>: commit on a normal exit, roll back on an exception.\<close>

definition transaction :: "'o sync_outside_scheme \<Rightarrow> 'a body \<Rightarrow> 'a sync_prog" where
  "transaction c action = (\<lambda>w.
     let t = ticks w; s = interfere c t (store w); w1 = w\<lparr>store := s, ticks := Suc t\<rparr>
     in case action t s of
          Inl e \<Rightarrow> (Inl e, w1)
        | Inr (a, s') \<Rightarrow> (Inr a, w1\<lparr>store := s'\<rparr>))"

definition worker_now :: "'o sync_outside_scheme \<Rightarrow> rat sync_prog" where
  "worker_now c = reads (\<lambda>w. clock c (ticks w))"

section \<open>The writers of services/portals.py\<close>

definition update_sync :: "int \<Rightarrow> (sync_row \<Rightarrow> sync_row) \<Rightarrow> store \<Rightarrow> store" where
  "update_sync pid f s =
     (case map_of (sync s) pid of None \<Rightarrow> s | Some r \<Rightarrow> s\<lparr>sync := dict_set pid (f r) (sync s)\<rparr>)"

definition record_event :: "int \<Rightarrow> string \<Rightarrow> (string, json) dict \<Rightarrow> store \<Rightarrow> store" where
  "record_event pid kind details s =
     s\<lparr>portal_events := portal_events s @
         [\<lparr>event_portal = pid, event_kind = kind, event_details = details, event_user = None\<rparr>]\<rparr>"

definition set_token_status ::
  "int \<Rightarrow> string \<Rightarrow> bool \<Rightarrow> string option \<Rightarrow> string option \<Rightarrow> store \<Rightarrow> store" where
  "set_token_status pid new_status block_sync error_code error_text s =
     (let s1 = (case map_of (portals s) pid of None \<Rightarrow> s
                | Some p \<Rightarrow> s\<lparr>portals := dict_set pid (p\<lparr>token_status := new_status\<rparr>) (portals s)\<rparr>);
          park = (\<lambda>r. if block_sync then r\<lparr>next_run_at := Infinity\<rparr> else r);
          note_error = (\<lambda>r. case error_code of None \<Rightarrow> r
            | Some e \<Rightarrow> r\<lparr>last_error_code := Some e, last_error_text := error_text,
                          last_error_at := Some (db_now s)\<rparr>)
      in update_sync pid (\<lambda>r. note_error (park r)) s1)"

definition upsert_placeholders :: "int \<Rightarrow> int list \<Rightarrow> store \<Rightarrow> store" where
  "upsert_placeholders pid user_ids s =
     s\<lparr>employees := employees s \<union> (\<lambda>uid. (pid, uid)) ` {uid \<in> set user_ids. 0 < uid}\<rparr>"

section \<open>Lemmas\<close>

lemma transaction_cases:
  assumes "transaction c action w = (r, w')"
  obtains (rolled_back) e where "r = Inl e" "action (ticks w) (interfere c (ticks w) (store w)) = Inl e"
      "w' = w\<lparr>store := interfere c (ticks w) (store w), ticks := Suc (ticks w)\<rparr>"
  | (committed) a s' where "r = Inr a"
      "action (ticks w) (interfere c (ticks w) (store w)) = Inr (a, s')"
      "w' = w\<lparr>store := s', ticks := Suc (ticks w)\<rparr>"
  using assms by (auto simp: transaction_def Let_def split: sum.splits)

lemma update_sync_lookup:
  "map_of (sync (update_sync pid f s)) p =
     (if p = pid then map_option f (map_of (sync s) p) else map_of (sync s) p)"
  by (auto simp: update_sync_def map_of_dict_set split: option.splits)

lemma update_sync_frame [simp]:
  "db_now (update_sync pid f s) = db_now s" "portals (update_sync pid f s) = portals s"
  "calls (update_sync pid f s) = calls s" "employees (update_sync pid f s) = employees s"
  "portal_events (update_sync pid f s) = portal_events s"
  by (auto simp: update_sync_def split: option.splits)

lemma record_event_frame [simp]:
  "db_now (record_event pid k d s) = db_now s" "portals (record_event pid k d s) = portals s"
  "calls (record_event pid k d s) = calls s" "employees (record_event pid k d s) = employees s"
  "sync (record_event pid k d s) = sync s"
  by (simp_all add: record_event_def)

lemma upsert_placeholders_frame [simp]:
  "db_now (upsert_placeholders pid us s) = db_now s" "portals (upsert_placeholders pid us s) = portals s"
  "calls (upsert_placeholders pid us s) = calls s" "sync (upsert_placeholders pid us s) = sync s"
  "portal_events (upsert_placeholders pid us s) = portal_events s"
  by (simp_all add: upsert_placeholders_def)

text \<open>
  What a run may assume of the store between its transactions: an assertion other processes
  do not break. A transaction then starts from it, and its writes are all that changes.
\<close>

definition stable :: "'o sync_outside_scheme \<Rightarrow> (store \<Rightarrow> bool) \<Rightarrow> bool" where
  "stable c P \<longleftrightarrow> (\<forall>t s. P s \<longrightarrow> P (interfere c t s))"

definition at_request :: "(store \<Rightarrow> bool) \<Rightarrow> nat \<Rightarrow> world \<Rightarrow> bool" where
  "at_request P n w \<longleftrightarrow> P (store w) \<and> length (requests w) = n"

abbreviation raises :: "exn \<Rightarrow> world \<Rightarrow> bool" where
  "raises e w \<equiv> True"

lemma triple_transaction:
  assumes "stable c P" and "\<And>t s a s'. P s \<Longrightarrow> action t s = Inr (a, s') \<Longrightarrow> Q a s'"
  shows "triple (at_request P n) (transaction c action) (\<lambda>a. at_request (Q a) n) raises"
  using assms(1)
  by (auto simp: triple_def transaction_def stable_def at_request_def Let_def split: sum.splits intro: assms(2))

lemma triple_worker_now: "triple (at_request P n) (worker_now c) (\<lambda>_. at_request P n) raises"
  unfolding worker_now_def by (rule triple_reads)

text \<open>\<open>o'\<close> is what the portal's answer to the \<open>n\<close>-th request of the run was read as.\<close>

definition answered ::
  "'o sync_outside_scheme \<Rightarrow> client \<Rightarrow> (string, json) dict \<Rightarrow> string \<Rightarrow> string \<Rightarrow> int list \<Rightarrow> guard option \<Rightarrow>
   nat \<Rightarrow> fetch_outcome \<Rightarrow> bool" where
  "answered c cl filt sb ord starts guard n o' \<longleftrightarrow>
     (\<exists>w w' :: world. length (requests w) = n \<and> fetch_pages c cl filt sb ord starts guard w = (Inr o', w'))"

lemma answered_fetched: "answered c cl filt sb ord starts guard n o' \<Longrightarrow> fetched c filt guard starts o'"
  by (auto simp: answered_def elim: fetch_pages_cases)

lemma triple_fetch:
  "triple (at_request P n) (fetch_pages c cl filt sb ord starts guard)
     (\<lambda>o' w. at_request P (Suc n) w \<and> answered c cl filt sb ord starts guard n o') raises"
proof -
  have "case r of Inl e \<Rightarrow> True
      | Inr o' \<Rightarrow> at_request P (Suc n) w' \<and> answered c cl filt sb ord starts guard n o'"
    if run: "fetch_pages c cl filt sb ord starts guard w = (r, w')" and "at_request P n w" for w w' r
  proof -
    have same: "store w1 = store w2" if "net.more w1 = net.more w2" for w1 w2 :: world
      using that by (metis world.surjective world.select_convs(1) net.select_convs(4))
    have ans: "r = Inr o' \<Longrightarrow> answered c cl filt sb ord starts guard n o'" for o'
      using that by (auto simp: answered_def at_request_def)
    from run show ?thesis
      using that(2) ans by (cases rule: fetch_pages_cases) (auto simp: at_request_def dest: same)
  qed
  then show ?thesis
    unfolding triple_def by (metis (no_types, lifting) prod.case surj_pair)
qed

end
