(* ===== verification/Lease.thy ===== *)
theory Lease
  imports Store
begin

text \<open>
  \<open>api/app/sync/lease.py\<close>: the fence every write of a run must pass, the tick that leases due
  portals, and the release that accounts for how the run ended.
\<close>

section \<open>The fence\<close>

record fence =
  portal_id :: int
  owner :: string
  generation :: int

definition lease_seconds :: rat where
  "lease_seconds = 300"

definition failures_before_pause :: int where
  "failures_before_pause = 10"

definition failure_pause_seconds :: rat where
  "failure_pause_seconds = 6 * 3600"

definition owner_max :: nat where
  "owner_max = 64"

text \<open>The WHERE clause of the fenced UPDATE.\<close>

definition fence_matches :: "fence \<Rightarrow> rat \<Rightarrow> sync_row \<Rightarrow> bool" where
  "fence_matches f now r \<longleftrightarrow>
     lease_owner r = Some (owner f) \<and>
     (case lease_expires_at r of None \<Rightarrow> False | Some t \<Rightarrow> now < t) \<and>
     sync_generation r = generation f"

definition fence_holds :: "fence \<Rightarrow> store \<Rightarrow> bool" where
  "fence_holds f s \<longleftrightarrow>
     (case map_of (sync s) (portal_id f) of None \<Rightarrow> False | Some r \<Rightarrow> fence_matches f (db_now s) r)"

definition fenced_update ::
  "fence \<Rightarrow> (rat \<Rightarrow> sync_row \<Rightarrow> sync_row) \<Rightarrow> store \<Rightarrow> (exn, store) result" where
  "fenced_update f values s =
     (if fence_holds f s then Inr (update_sync (portal_id f) (values (db_now s)) s)
      else Inl FenceLost)"

definition heartbeat_body :: "fence \<Rightarrow> unit body" where
  "heartbeat_body f = (\<lambda>t s.
     rbind (fenced_update f (\<lambda>now r. r\<lparr>lease_expires_at := Some (now + lease_seconds)\<rparr>) s)
       (\<lambda>s'. Inr ((), s')))"

definition heartbeat :: "'o sync_outside_scheme \<Rightarrow> fence \<Rightarrow> unit sync_prog" where
  "heartbeat c f = transaction c (heartbeat_body f)"

section \<open>Leasing\<close>

definition sanitise_owner :: "string \<Rightarrow> string" where
  "sanitise_owner own = take owner_max own"

definition is_due :: "store \<Rightarrow> int \<times> sync_row \<Rightarrow> bool" where
  "is_due s entry =
     (let (pid, r) = entry
      in (case map_of (portals s) pid of None \<Rightarrow> False
          | Some p \<Rightarrow> status p = ''active'' \<and> token_status p = ''ok'' \<and> \<not> purge_pending p) \<and>
         next_run_at r \<le> At (db_now s) \<and>
         (case lease_expires_at r of None \<Rightarrow> True | Some t \<Rightarrow> t < db_now s))"

definition crashed_run :: "sync_row \<Rightarrow> bool" where
  "crashed_run r \<longleftrightarrow> run_started_at r \<noteq> None \<and> lease_expires_at r \<noteq> None"

definition take_lease :: "rat \<Rightarrow> string \<Rightarrow> sync_row \<Rightarrow> sync_row" where
  "take_lease now own r =
     r\<lparr>lease_owner := Some own, lease_expires_at := Some (now + lease_seconds), run_started_at := None\<rparr>"

definition charge_crash :: "rat \<Rightarrow> sync_row \<Rightarrow> sync_row" where
  "charge_crash now r =
     r\<lparr>consecutive_failures := consecutive_failures r + 1,
       last_error_code := Some ''lease_expired'',
       last_error_text := Some ''the previous run did not release its lease'',
       last_error_at := Some now\<rparr>"

text \<open>\<open>locked\<close> holds for a row another transaction has locked: it is skipped, not waited on.\<close>

definition due_rows :: "(int \<Rightarrow> bool) \<Rightarrow> int \<Rightarrow> store \<Rightarrow> (int \<times> sync_row) list" where
  "due_rows locked limit s =
     take (nat limit) (sort_key (\<lambda>(_, r). next_run_at r)
       (filter (\<lambda>(pid, r). is_due s (pid, r) \<and> \<not> locked pid) (sync s)))"

definition acquire_leases ::
  "(int \<Rightarrow> bool) \<Rightarrow> int \<Rightarrow> string \<Rightarrow> store \<Rightarrow> fence list \<times> store" where
  "acquire_leases locked limit own_raw s =
     (if limit \<le> 0 then ([], s)
      else
        (let own = sanitise_owner own_raw;
             rs = due_rows locked limit s;
             leased = fold (\<lambda>(pid, _). update_sync pid (take_lease (db_now s) own)) rs s;
             crashed = filter (\<lambda>(_, r). crashed_run r) rs;
             charged = fold (\<lambda>(pid, _). update_sync pid (charge_crash (db_now s))) crashed leased
         in (map (\<lambda>(pid, r). \<lparr>portal_id = pid, owner = own, generation = sync_generation r\<rparr>) rs,
             charged)))"

section \<open>Releasing\<close>

definition is_throttle :: "bitrix_error option \<Rightarrow> bool" where
  "is_throttle e =
     (case e of None \<Rightarrow> False
      | Some b \<Rightarrow> err_class b \<in> {QueryLimitExceeded, OperationTimeLimit})"

definition release_values ::
  "rat \<Rightarrow> rat \<Rightarrow> due option \<Rightarrow> bitrix_error option \<Rightarrow> rat \<Rightarrow> sync_row \<Rightarrow> sync_row" where
  "release_values interval now next_run error db_time r =
     (let due_at = (case next_run of Some d \<Rightarrow> d | None \<Rightarrow> At (now + interval));
          paused = At (now + failure_pause_seconds);
          cleared = r\<lparr>lease_owner := None, lease_expires_at := None, run_started_at := None,
                      next_run_at := due_at\<rparr>
      in case error of
           None \<Rightarrow> cleared\<lparr>consecutive_failures := 0, last_error_code := None,
                           last_error_text := None, last_error_at := None\<rparr>
         | Some e \<Rightarrow>
             (let noted = cleared\<lparr>
                    last_error_code := Some (take 64 (if err_code e = [] then class_name (err_class e) else err_code e)),
                    last_error_text := Some (error_str e), last_error_at := Some db_time\<rparr>
              in if is_throttle error then noted\<lparr>throttle_hits := throttle_hits r + 1\<rparr>
                 else noted\<lparr>consecutive_failures := consecutive_failures r + 1,
                            next_run_at := (if failures_before_pause \<le> consecutive_failures r + 1
                                            then paused else due_at)\<rparr>))"

definition release_body ::
  "rat \<Rightarrow> rat \<Rightarrow> fence \<Rightarrow> due option \<Rightarrow> bitrix_error option \<Rightarrow> unit body" where
  "release_body interval now f next_run error = (\<lambda>t s.
     rbind (fenced_update f (release_values interval now next_run error) s) (\<lambda>s'. Inr ((), s')))"

text \<open>A lost fence is logged, not raised: there is nothing of ours left to release.\<close>

definition release_lease ::
  "'o sync_outside_scheme \<Rightarrow> rat \<Rightarrow> fence \<Rightarrow> due option \<Rightarrow> bitrix_error option \<Rightarrow> unit sync_prog" where
  "release_lease c interval f next_run error =
     andThen (worker_now c) (\<lambda>now.
       catch (transaction c (release_body interval now f next_run error))
         (\<lambda>e. if e = FenceLost then ret () else throw e))"

section \<open>What the fence guarantees\<close>

lemma fenced_update_Inr:
  "fenced_update f values s = Inr s' \<longleftrightarrow>
   fence_holds f s \<and> s' = update_sync (portal_id f) (values (db_now s)) s"
  by (auto simp: fenced_update_def)

lemma fenced_update_Inl: "fenced_update f values s = Inl e \<longleftrightarrow> \<not> fence_holds f s \<and> e = FenceLost"
  by (auto simp: fenced_update_def)

lemma fence_holds_iff:
  "fence_holds f s \<longleftrightarrow> (\<exists>r t. map_of (sync s) (portal_id f) = Some r \<and> lease_owner r = Some (owner f) \<and>
     lease_expires_at r = Some t \<and> db_now s < t \<and> sync_generation r = generation f)"
  by (auto simp: fence_holds_def fence_matches_def split: option.splits)

text \<open>Two fences that hold at once on one portal are the same fence.\<close>

lemma fence_unique:
  "fence_holds f s \<Longrightarrow> fence_holds g s \<Longrightarrow> portal_id f = portal_id g \<Longrightarrow> f = g"
  by (auto simp: fence_holds_iff)

text \<open>
  The contract of a fenced operation, proved once for whatever is written under the fence:
  it commits only while the fence holds, it raises only what its own statements raise, and
  it touches one portal's row.
\<close>

locale fenced_op =
  fixes f :: fence and action :: "'a body"
  assumes needs_fence: "action t s = Inr (a, s') \<Longrightarrow> fence_holds f s"
    and one_portal: "action t s = Inr (a, s') \<Longrightarrow> p \<noteq> portal_id f \<Longrightarrow> map_of (sync s') p = map_of (sync s) p"
    and keeps_portals: "action t s = Inr (a, s') \<Longrightarrow> portals s' = portals s"
begin

text \<open>A run whose fence is gone changes nothing: what is stored is what the others left.\<close>

lemma stale_run_writes_nothing:
  assumes "transaction c action w = (r, w')"
    and "\<not> fence_holds f (interfere c (ticks w) (store w))"
  shows "(\<exists>e. r = Inl e) \<and> store w' = interfere c (ticks w) (store w)"
  using assms needs_fence by (auto elim!: transaction_cases)

lemma committed_under_fence:
  assumes "transaction c action w = (Inr a, w')"
  shows "fence_holds f (interfere c (ticks w) (store w))"
  using assms needs_fence by (auto elim!: transaction_cases)

lemma other_portal_untouched:
  assumes "transaction c action w = (r, w')" and "p \<noteq> portal_id f"
  shows "map_of (sync (store w')) p = map_of (sync (interfere c (ticks w) (store w))) p"
  using assms(1)
proof (cases rule: transaction_cases)
  case rolled_back
  then show ?thesis by simp
next
  case committed
  with one_portal assms(2) show ?thesis by simp
qed

end

text \<open>Every operation that is one fenced UPDATE honours it.\<close>

lemma fenced_update_op: "fenced_op f (\<lambda>t s. rbind (fenced_update f values s) (\<lambda>s'. Inr ((), s')))"
  by unfold_locales
    (auto simp: rbind_Inr_iff fenced_update_Inr update_sync_lookup)

interpretation hb: fenced_op f "heartbeat_body f"
  unfolding heartbeat_body_def by (rule fenced_update_op)

interpretation rel: fenced_op f "release_body i now f n e"
  unfolding release_body_def by (rule fenced_update_op)

section \<open>What a tick leases\<close>

lemma fold_update_sync_lookup:
  assumes "distinct (map fst rs)"
  shows "map_of (sync (fold (\<lambda>(pid, _). update_sync pid g) rs s)) p =
    (if p \<in> fst ` set rs then map_option g (map_of (sync s) p) else map_of (sync s) p)"
  using assms
proof (induction rs arbitrary: s)
  case Nil
  then show ?case by simp
next
  case (Cons r rs)
  then show ?case
    by (cases r) (auto simp: update_sync_lookup)
qed

lemma fold_update_sync_frame [simp]:
  "db_now (fold (\<lambda>(pid, _). update_sync pid g) rs s) = db_now s"
  "portals (fold (\<lambda>(pid, _). update_sync pid g) rs s) = portals s"
  "calls (fold (\<lambda>(pid, _). update_sync pid g) rs s) = calls s"
  by (induction rs arbitrary: s) auto

lemma due_rows_set: "entry \<in> set (due_rows locked limit s) \<Longrightarrow> entry \<in> set (sync s) \<and> is_due s entry \<and> \<not> locked (fst entry)"
  by (auto simp: due_rows_def dest!: in_set_takeD)

lemma distinct_fst_sort_key:
  "distinct (map fst xs) \<Longrightarrow> distinct (map fst (sort_key k xs))"
  by (simp add: distinct_map)

lemma due_rows_distinct: "distinct (map fst (sync s)) \<Longrightarrow> distinct (map fst (due_rows locked limit s))"
  unfolding due_rows_def take_map [symmetric]
  by (intro distinct_take distinct_fst_sort_key) (simp add: distinct_map inj_on_def)

lemma due_rows_length: "length (due_rows locked limit s) \<le> nat limit"
  by (simp add: due_rows_def)

text \<open>The row of a portal after the tick: leased when due, charged when its run crashed.\<close>

lemma acquire_lookup:
  assumes "acquire_leases locked limit own s = (fs, s')" and "distinct (map fst (sync s))" and "0 < limit"
  shows "map_of (sync s') p =
    (if p \<in> fst ` set (due_rows locked limit s)
     then map_option (\<lambda>r. let taken = take_lease (db_now s) (sanitise_owner own) r
                          in if crashed_run r then charge_crash (db_now s) taken else taken)
            (map_of (sync s) p)
     else map_of (sync s) p)"
proof -
  let ?rs = "due_rows locked limit s"
  let ?cs = "filter (\<lambda>(_, r). crashed_run r) ?rs"
  let ?take = "take_lease (db_now s) (sanitise_owner own)"
  let ?leased = "fold (\<lambda>(pid, _). update_sync pid ?take) ?rs s"
  have d: "distinct (map fst ?rs)"
    by (rule due_rows_distinct [OF assms(2)])
  then have dc: "distinct (map fst ?cs)"
    by (rule distinct_map_filter)
  have s': "s' = fold (\<lambda>(pid, _). update_sync pid (charge_crash (db_now s))) ?cs ?leased"
    using assms(1,3) by (simp add: acquire_leases_def Let_def)
  have row: "map_of (sync s) p = Some r" if "(p, r) \<in> set ?rs" for r
    using due_rows_set [OF that] assms(2) by simp
  show ?thesis
  proof (cases "p \<in> fst ` set ?rs")
    case True
    then obtain r where r: "(p, r) \<in> set ?rs" by auto
    have uniq: "x = r" if "(p, x) \<in> set ?rs" for x
      using row [OF r] row [OF that] by simp
    have "p \<in> fst ` set ?cs \<longleftrightarrow> crashed_run r"
    proof
      assume "p \<in> fst ` set ?cs"
      then obtain x where "(p, x) \<in> set ?rs" "crashed_run x" by auto
      then show "crashed_run r" using uniq by blast
    next
      assume "crashed_run r"
      with r have "(p, r) \<in> set ?cs" by simp
      then show "p \<in> fst ` set ?cs" by (metis fst_conv imageI)
    qed
    then show ?thesis
      unfolding s' fold_update_sync_lookup [OF dc] fold_update_sync_lookup [OF d]
      using True row [OF r] by (simp add: Let_def)
  next
    case False
    then have "p \<notin> fst ` set ?cs" by auto
    then show ?thesis
      unfolding s' fold_update_sync_lookup [OF dc] fold_update_sync_lookup [OF d]
      using False by simp
  qed
qed

lemma acquire_fences:
  assumes "acquire_leases locked limit own s = (fs, s')" and "f \<in> set fs" and "distinct (map fst (sync s))"
  obtains r where "0 < limit" "(portal_id f, r) \<in> set (due_rows locked limit s)"
    "map_of (sync s) (portal_id f) = Some r" "owner f = sanitise_owner own" "generation f = sync_generation r"
proof -
  have lim: "0 < limit"
    using assms(1,2) by (auto simp: acquire_leases_def split: if_splits)
  then obtain pid r where e: "(pid, r) \<in> set (due_rows locked limit s)"
    and f: "f = \<lparr>portal_id = pid, owner = sanitise_owner own, generation = sync_generation r\<rparr>"
    using assms(1,2) by (auto simp: acquire_leases_def Let_def)
  have "map_of (sync s) pid = Some r"
    using due_rows_set [OF e] assms(3) by simp
  with lim e f that show thesis by simp
qed

lemma acquire_frame:
  "acquire_leases locked limit own s = (fs, s') \<Longrightarrow> db_now s' = db_now s \<and> portals s' = portals s \<and> calls s' = calls s"
  by (auto simp: acquire_leases_def Let_def split: if_splits)

end
