(* ===== verification/Upsert.thy ===== *)
theory Upsert
  imports Lease
begin

text \<open>
  \<open>api/app/sync/upsert.py\<close>: the rows of a batch, the employee placeholders they
  reference, the audit of rejected rows and the cursor they justify, in one fenced
  transaction. A row the database refuses is quarantined, never a reason to stop.
\<close>

section \<open>Preparing the rows\<close>

definition chunk_size :: nat where
  "chunk_size = 500"

definition max_reject_events :: nat where
  "max_reject_events = 50"

record upsert_result =
  inserted_or_updated :: int
  quarantined :: int
  max_bx_id :: "int option"
  min_bx_id :: "int option"

text \<open>One pass over the rows; a later duplicate replaces the earlier one in its place.\<close>

definition prepare_step ::
  "call_row \<Rightarrow> (int, call_row) dict \<times> reject list \<Rightarrow> (int, call_row) dict \<times> reject list" where
  "prepare_step raw st =
     (let (deduped, bad) = st
      in if bx_id raw \<le> 0 then (deduped, bad @ [(Some (bx_id raw), ''non_positive_bx_id'')])
         else (dict_set (bx_id raw) raw deduped, bad))"

definition prepare :: "call_row list \<Rightarrow> call_row list \<times> reject list" where
  "prepare rs = (let (deduped, bad) = fold prepare_step rs ([], []) in (map snd deduped, bad))"

section \<open>Writing\<close>

text \<open>The comparison of \<open>content_changed_at\<close>: every data column but the recording's URL.\<close>

definition data_changed :: "call_row \<Rightarrow> call_row \<Rightarrow> bool" where
  "data_changed old new \<longleftrightarrow> old\<lparr>call_record_url := None\<rparr> \<noteq> new\<lparr>call_record_url := None\<rparr>"

definition upsert_one :: "rat \<Rightarrow> stored_call option \<Rightarrow> call_row \<Rightarrow> stored_call" where
  "upsert_one now old row =
     (case old of
        None \<Rightarrow> \<lparr>call_data = row, record_recheck_count = 0, refresh_requested = False,
                 first_seen_at = now, last_synced_at = now, content_changed_at = None\<rparr>
      | Some r \<Rightarrow> r\<lparr>call_data := row, last_synced_at := now, refresh_requested := False,
                   content_changed_at := (if data_changed (call_data r) row then Some now
                                          else content_changed_at r)\<rparr>)"

definition write_one :: "int \<Rightarrow> call_row \<Rightarrow> store \<Rightarrow> store" where
  "write_one pid row s =
     s\<lparr>calls := dict_set (pid, bx_id row)
                 (upsert_one (db_now s) (map_of (calls s) (pid, bx_id row)) row) (calls s)\<rparr>"

text \<open>
  One \<open>INSERT ... ON CONFLICT DO UPDATE\<close>: the database refuses a statement that names a
  key twice, and a statement with a row it refuses; the first such row decides the error.
\<close>

datatype statement = Written store | Refused db_fault

definition insert_rows ::
  "(call_row \<Rightarrow> db_fault option) \<Rightarrow> int \<Rightarrow> call_row list \<Rightarrow> store \<Rightarrow> statement" where
  "insert_rows refused pid rs s =
     (if \<not> distinct (map bx_id rs) then Refused OtherFault
      else case List.map_filter refused rs of
             fault # _ \<Rightarrow> Refused fault
           | [] \<Rightarrow> Written (fold (write_one pid) rs s))"

fun retry_rows ::
  "(call_row \<Rightarrow> db_fault option) \<Rightarrow> int \<Rightarrow> call_row list \<Rightarrow> store \<Rightarrow> (exn, int \<times> reject list \<times> store) result" where
  "retry_rows refused pid [] s = Inr (0, [], s)"
| "retry_rows refused pid (row # rs) s =
     (case insert_rows refused pid [row] s of
        Written s' \<Rightarrow> rbind (retry_rows refused pid rs s') (\<lambda>(n, bad, s2). Inr (n + 1, bad, s2))
      | Refused OtherFault \<Rightarrow> Inl DatabaseError
      | Refused (RowFault reason) \<Rightarrow>
          rbind (retry_rows refused pid rs s) (\<lambda>(n, bad, s2). Inr (n, (Some (bx_id row), reason) # bad, s2)))"

definition write_chunk ::
  "(call_row \<Rightarrow> db_fault option) \<Rightarrow> int \<Rightarrow> call_row list \<Rightarrow> store \<Rightarrow> (exn, int \<times> reject list \<times> store) result" where
  "write_chunk refused pid chunk s =
     (case insert_rows refused pid chunk s of
        Written s' \<Rightarrow> Inr (int (length chunk), [], s')
      | Refused OtherFault \<Rightarrow> Inl DatabaseError
      | Refused (RowFault _) \<Rightarrow> retry_rows refused pid chunk s)"

function write_chunks ::
  "(call_row \<Rightarrow> db_fault option) \<Rightarrow> int \<Rightarrow> call_row list \<Rightarrow> store \<Rightarrow> (exn, int \<times> reject list \<times> store) result" where
  "write_chunks refused pid rs s =
     (if rs = [] then Inr (0, [], s)
      else rbind (write_chunk refused pid (take chunk_size rs) s) (\<lambda>(n, bad, s1).
           rbind (write_chunks refused pid (drop chunk_size rs) s1) (\<lambda>(m, bad', s2).
           Inr (n + m, bad @ bad', s2))))"
  by pat_completeness auto
termination
  by (relation "measure (\<lambda>(_, _, rs, _). length rs)") (auto simp: chunk_size_def)

declare write_chunks.simps [simp del]

definition record_rejections :: "int \<Rightarrow> reject list \<Rightarrow> store \<Rightarrow> store" where
  "record_rejections pid bad s =
     (let listed = fold (\<lambda>(the_id, reason). record_event pid ''row_rejected''
                          [(''bx_id'', (case the_id of None \<Rightarrow> JNone | Some i \<Rightarrow> JInt i)), (''reason'', JStr reason)])
                        (take max_reject_events bad) s;
          overflow = int (length bad) - int max_reject_events
      in if 0 < overflow
         then record_event pid ''row_rejected''
                [(''suppressed'', JInt overflow), (''reason'', JStr ''reject_event_cap'')] listed
         else listed)"

definition extent :: "call_row list \<Rightarrow> reject list \<Rightarrow> int option \<times> int option" where
  "extent rs bad = (let seen = map bx_id rs @ List.map_filter fst bad in (max_opt seen, min_opt seen))"

section \<open>The transaction\<close>

text \<open>The columns a caller moves with the rows; \<open>None\<close> for no cursor.\<close>

type_synonym cursor_values = "(sync_row \<Rightarrow> sync_row) option"

definition place_users :: "call_row list \<Rightarrow> reject list \<Rightarrow> int list" where
  "place_users prepared chunk_bad =
     List.map_filter (\<lambda>row. case portal_user_id row of
         None \<Rightarrow> None
       | Some u \<Rightarrow> if u \<noteq> 0 \<and> Some (bx_id row) \<notin> fst ` set chunk_bad then Some u else None) prepared"

text \<open>The values of the fenced UPDATE: the cursor, and the count of rejected rows when there are any.\<close>

definition cursor_of :: "cursor_values \<Rightarrow> sync_row \<Rightarrow> sync_row" where
  "cursor_of cursor = (case cursor of None \<Rightarrow> (\<lambda>r. r) | Some g \<Rightarrow> g)"

definition counted :: "cursor_values \<Rightarrow> nat \<Rightarrow> sync_row \<Rightarrow> sync_row" where
  "counted cursor n r =
     (if n = 0 then cursor_of cursor r
      else (cursor_of cursor r)\<lparr>rejected_rows := rejected_rows r + int n\<rparr>)"

definition upsert_body ::
  "'o sync_outside_scheme \<Rightarrow> fence \<Rightarrow> call_row list \<Rightarrow> cursor_values \<Rightarrow> reject list \<Rightarrow> upsert_result body" where
  "upsert_body c f rs cursor bad = (\<lambda>t s.
     let pid = portal_id f; (prepared, key_bad) = prepare rs
     in rbind (write_chunks (refuses c t) pid prepared s) (\<lambda>(written, chunk_bad, s1).
        let all_bad = bad @ key_bad @ chunk_bad;
            s2 = (if written \<noteq> 0 then upsert_placeholders pid (place_users prepared chunk_bad) s1 else s1);
            s3 = (if all_bad \<noteq> [] then record_rejections pid all_bad s2 else s2);
            (highest, lowest) = extent prepared all_bad
        in rbind (fenced_update f (\<lambda>_. counted cursor (length all_bad)) s3) (\<lambda>s4.
           Inr (\<lparr>inserted_or_updated = written, quarantined = int (length all_bad),
                 max_bx_id = highest, min_bx_id = lowest\<rparr>, s4))))"

definition upsert_calls ::
  "'o sync_outside_scheme \<Rightarrow> fence \<Rightarrow> call_row list \<Rightarrow> cursor_values \<Rightarrow> reject list \<Rightarrow> upsert_result sync_prog" where
  "upsert_calls c f rs cursor bad = transaction c (upsert_body c f rs cursor bad)"

section \<open>Preparing keeps the last read of each id\<close>

definition prepared_dict :: "call_row list \<Rightarrow> (int, call_row) dict" where
  "prepared_dict rs = fst (fold prepare_step rs ([], []))"

lemma prepare_fst: "fst (prepare rs) = map snd (prepared_dict rs)"
  by (simp add: prepare_def prepared_dict_def Let_def split: prod.split)

lemma prepare_fold_fst:
  "fst (fold prepare_step rs (d, bad)) = fold (\<lambda>r. dict_set (bx_id r) r) (filter (\<lambda>r. 0 < bx_id r) rs) d"
  by (induction rs arbitrary: d bad) (auto simp: prepare_step_def Let_def)

lemma prepare_fold_snd:
  "snd (fold prepare_step rs (d, bad)) =
   bad @ map (\<lambda>r. (Some (bx_id r), ''non_positive_bx_id'')) (filter (\<lambda>r. bx_id r \<le> 0) rs)"
  by (induction rs arbitrary: d bad) (auto simp: prepare_step_def Let_def)

lemma prepare_snd:
  "snd (prepare rs) = map (\<lambda>r. (Some (bx_id r), ''non_positive_bx_id'')) (filter (\<lambda>r. bx_id r \<le> 0) rs)"
  using prepare_fold_snd [of rs "[]" "[]"] by (auto simp: prepare_def Let_def split: prod.split)

lemma fold_dict_set_keyed:
  assumes "\<forall>(k, r) \<in> set d. k = bx_id r" and "distinct (map fst d)"
  shows "let e = fold (\<lambda>r. dict_set (bx_id r) r) rs d
         in (\<forall>(k, r) \<in> set e. k = bx_id r) \<and> distinct (map fst e) \<and>
            (\<forall>i. map_of e i = (case find (\<lambda>r. bx_id r = i) (rev rs) of Some r \<Rightarrow> Some r | None \<Rightarrow> map_of d i))"
  using assms
proof (induction rs arbitrary: d)
  case Nil
  then show ?case by simp
next
  case (Cons r rs)
  let ?d = "dict_set (bx_id r) r d"
  have "\<forall>(k, x) \<in> set ?d. k = bx_id x"
    using Cons.prems(1) by (auto dest!: dict_set_mem)
  moreover have "distinct (map fst ?d)"
    using Cons.prems(2) by (rule distinct_dict_set)
  moreover have "find (\<lambda>x. bx_id x = i) (rev rs @ [r]) =
      (case find (\<lambda>x. bx_id x = i) (rev rs) of Some x \<Rightarrow> Some x | None \<Rightarrow> if bx_id r = i then Some r else None)" for i
    by (auto simp: find_append split: option.split)
  ultimately show ?case
    using Cons.IH [of ?d] by (auto simp: Let_def map_of_dict_set split: option.splits)
qed

text \<open>What is written for an id: the last row of that id, among the ids that can be a key.\<close>

definition latest :: "call_row list \<Rightarrow> int \<Rightarrow> call_row option" where
  "latest rs i = (if 0 < i then find (\<lambda>r. bx_id r = i) (rev rs) else None)"

lemma find_filter_pos:
  "0 < i \<Longrightarrow> find (\<lambda>r. bx_id r = i) (filter (\<lambda>r. 0 < bx_id r) xs) = find (\<lambda>r. bx_id r = i) xs"
  by (induction xs) auto

lemma prepared_dict_props:
  "(\<forall>(k, r) \<in> set (prepared_dict rs). k = bx_id r)" "distinct (map fst (prepared_dict rs))"
  "map_of (prepared_dict rs) i = latest rs i"
proof -
  let ?ok = "filter (\<lambda>r. 0 < bx_id r) rs"
  have e: "prepared_dict rs = fold (\<lambda>r. dict_set (bx_id r) r) ?ok []"
    by (simp add: prepared_dict_def prepare_fold_fst)
  note k = fold_dict_set_keyed [of "[]" ?ok, folded e]
  show "\<forall>(k, r) \<in> set (prepared_dict rs). k = bx_id r" and "distinct (map fst (prepared_dict rs))"
    using k by (auto simp: Let_def)
  have "map_of (prepared_dict rs) i = find (\<lambda>r. bx_id r = i) (rev ?ok)"
    using k by (auto simp: Let_def split: option.split)
  moreover have "find (\<lambda>r. bx_id r = i) (rev ?ok) = None" if "\<not> 0 < i"
    using that by (auto simp: find_None_iff)
  ultimately show "map_of (prepared_dict rs) i = latest rs i"
    by (cases "0 < i") (simp_all add: latest_def find_filter_pos rev_filter)
qed

lemma keyed_map: "\<forall>(k, r) \<in> set d. k = bx_id r \<Longrightarrow> map (bx_id \<circ> snd) d = map fst d"
  by (induction d) auto

lemma prepare_distinct: "distinct (map bx_id (fst (prepare rs)))"
  using prepared_dict_props(1,2) by (simp add: prepare_fst keyed_map)

lemma prepare_set: "r \<in> set (fst (prepare rs)) \<longleftrightarrow> latest rs (bx_id r) = Some r"
proof -
  let ?d = "prepared_dict rs"
  have "r \<in> snd ` set ?d \<longleftrightarrow> (bx_id r, r) \<in> set ?d"
    using prepared_dict_props(1) by force
  also have "\<dots> \<longleftrightarrow> map_of ?d (bx_id r) = Some r"
    by (simp add: prepared_dict_props(2))
  finally show ?thesis
    by (simp add: prepare_fst prepared_dict_props(3))
qed

section \<open>Chunks, savepoints and retries write exactly the rows the database takes\<close>

definition taken :: "(call_row \<Rightarrow> db_fault option) \<Rightarrow> call_row list \<Rightarrow> call_row list" where
  "taken refused rs = filter (\<lambda>r. refused r = None) rs"

definition fault_of :: "(call_row \<Rightarrow> db_fault option) \<Rightarrow> call_row \<Rightarrow> reject option" where
  "fault_of refused r =
     (case refused r of Some (RowFault reason) \<Rightarrow> Some (Some (bx_id r), reason) | _ \<Rightarrow> None)"

definition broken :: "(call_row \<Rightarrow> db_fault option) \<Rightarrow> call_row list \<Rightarrow> bool" where
  "broken refused rs \<longleftrightarrow> (\<exists>r \<in> set rs. refused r = Some OtherFault)"

definition written_spec ::
  "(call_row \<Rightarrow> db_fault option) \<Rightarrow> int \<Rightarrow> call_row list \<Rightarrow> store \<Rightarrow> (exn, int \<times> reject list \<times> store) result" where
  "written_spec refused pid rs s =
     (if broken refused rs then Inl DatabaseError
      else Inr (int (length (taken refused rs)), List.map_filter (fault_of refused) rs,
                fold (write_one pid) (taken refused rs) s))"

lemma retry_rows_spec: "retry_rows refused pid rs s = written_spec refused pid rs s"
proof (induction rs arbitrary: s)
  case Nil
  then show ?case by (simp add: written_spec_def broken_def taken_def)
next
  case (Cons r rs)
  show ?case
  proof (cases "refused r")
    case None
    then show ?thesis
      using Cons by (simp add: insert_rows_def written_spec_def broken_def taken_def fault_of_def)
  next
    case (Some fault)
    then show ?thesis
      using Cons by (cases fault)
        (simp_all add: insert_rows_def written_spec_def broken_def taken_def fault_of_def)
  qed
qed

lemma write_chunk_spec:
  assumes "distinct (map bx_id rs)"
  shows "write_chunk refused pid rs s = written_spec refused pid rs s"
proof (cases "List.map_filter refused rs")
  case Nil
  then have ok: "\<forall>r \<in> set rs. refused r = None"
    by (simp add: map_filter_Nil)
  then have "taken refused rs = rs" "\<not> broken refused rs" "List.map_filter (fault_of refused) rs = []"
    by (auto simp: taken_def broken_def map_filter_Nil fault_of_def)
  with Nil assms show ?thesis
    by (simp add: write_chunk_def insert_rows_def written_spec_def)
next
  case (Cons fault rest)
  then obtain r where "r \<in> set rs" "refused r = Some fault"
    by (meson map_filter_head)
  then have "fault = OtherFault \<Longrightarrow> broken refused rs"
    by (auto simp: broken_def)
  with Cons assms show ?thesis
    by (cases fault) (simp_all add: write_chunk_def insert_rows_def retry_rows_spec written_spec_def)
qed

lemma written_spec_append:
  "rbind (written_spec refused pid xs s) (\<lambda>(n, bad, s1).
   rbind (written_spec refused pid ys s1) (\<lambda>(m, bad', s2). Inr (n + m, bad @ bad', s2))) =
   written_spec refused pid (xs @ ys) s"
  by (auto simp: written_spec_def broken_def taken_def)

lemma write_chunks_spec:
  "distinct (map bx_id rs) \<Longrightarrow> write_chunks refused pid rs s = written_spec refused pid rs s"
proof (induction refused pid rs s rule: write_chunks.induct)
  case (1 refused pid rs s)
  show ?case
  proof (cases "rs = []")
    case True
    then show ?thesis
      by (simp add: write_chunks.simps written_spec_def broken_def taken_def)
  next
    case False
    have d: "distinct (map bx_id (take chunk_size rs))" "distinct (map bx_id (drop chunk_size rs))"
      using 1(2) by (simp_all add: take_map [symmetric] drop_map [symmetric])
    have head: "write_chunk refused pid (take chunk_size rs) s = written_spec refused pid (take chunk_size rs) s"
      by (rule write_chunk_spec [OF d(1)])
    have tail: "rbind (written_spec refused pid (take chunk_size rs) s) (\<lambda>(n, bad, s1).
        rbind (write_chunks refused pid (drop chunk_size rs) s1) (\<lambda>(m, bad', s2). Inr (n + m, bad @ bad', s2))) =
      rbind (written_spec refused pid (take chunk_size rs) s) (\<lambda>(n, bad, s1).
        rbind (written_spec refused pid (drop chunk_size rs) s1) (\<lambda>(m, bad', s2). Inr (n + m, bad @ bad', s2)))"
      using 1(1) [OF False] d(2) head
      by (cases "written_spec refused pid (take chunk_size rs) s") (auto split: prod.splits)
    show ?thesis
      using False by (subst write_chunks.simps) (simp add: head tail written_spec_append)
  qed
qed

section \<open>What a transaction of rows and cursor does\<close>

lemma write_one_frame [simp]:
  "db_now (write_one pid r s) = db_now s" "sync (write_one pid r s) = sync s"
  "portals (write_one pid r s) = portals s" "employees (write_one pid r s) = employees s"
  "portal_events (write_one pid r s) = portal_events s"
  by (simp_all add: write_one_def)

lemma fold_write_one_frame [simp]:
  "db_now (fold (write_one pid) rs s) = db_now s" "sync (fold (write_one pid) rs s) = sync s"
  "portals (fold (write_one pid) rs s) = portals s" "employees (fold (write_one pid) rs s) = employees s"
  "portal_events (fold (write_one pid) rs s) = portal_events s"
  by (induction rs arbitrary: s) simp_all

lemma fold_write_one_lookup:
  assumes "distinct (map bx_id rs)"
  shows "map_of (calls (fold (write_one pid) rs s)) (p, i) =
    (if p = pid then
       (case find (\<lambda>r. bx_id r = i) rs of
          Some r \<Rightarrow> Some (upsert_one (db_now s) (map_of (calls s) (p, i)) r)
        | None \<Rightarrow> map_of (calls s) (p, i))
     else map_of (calls s) (p, i))"
  using assms
proof (induction rs arbitrary: s)
  case Nil
  then show ?case by simp
next
  case (Cons r rs)
  have "bx_id r = i \<Longrightarrow> find (\<lambda>x. bx_id x = i) rs = None"
    using Cons.prems by (auto simp: find_None_iff image_iff)
  with Cons show ?case
    by (auto simp: write_one_def map_of_dict_set split: option.split)
qed

lemma fold_record_event_frame [simp]:
  "db_now (fold (\<lambda>(i, why). record_event pid k (g i why)) bad s) = db_now s"
  "sync (fold (\<lambda>(i, why). record_event pid k (g i why)) bad s) = sync s"
  "portals (fold (\<lambda>(i, why). record_event pid k (g i why)) bad s) = portals s"
  "calls (fold (\<lambda>(i, why). record_event pid k (g i why)) bad s) = calls s"
  "employees (fold (\<lambda>(i, why). record_event pid k (g i why)) bad s) = employees s"
  by (induction bad arbitrary: s) auto

lemma record_rejections_frame [simp]:
  "db_now (record_rejections pid bad s) = db_now s" "sync (record_rejections pid bad s) = sync s"
  "portals (record_rejections pid bad s) = portals s" "calls (record_rejections pid bad s) = calls s"
  "employees (record_rejections pid bad s) = employees s"
  by (simp_all add: record_rejections_def Let_def)

definition rejections ::
  "(call_row \<Rightarrow> db_fault option) \<Rightarrow> call_row list \<Rightarrow> reject list \<Rightarrow> reject list" where
  "rejections refused rs bad =
     bad @ snd (prepare rs) @ List.map_filter (fault_of refused) (fst (prepare rs))"

lemma fence_holds_cong: "sync s = sync s' \<Longrightarrow> db_now s = db_now s' \<Longrightarrow> fence_holds f s = fence_holds f s'"
  by (simp only: fence_holds_def)

text \<open>The whole transaction: what can stop it, and what it leaves otherwise.\<close>

lemma upsert_body_cases:
  obtains (broken) "broken (refuses c t) (fst (prepare rs))"
      "upsert_body c f rs cursor bad t s = Inl DatabaseError"
  | (stale) "\<not> broken (refuses c t) (fst (prepare rs))" "\<not> fence_holds f s"
      "upsert_body c f rs cursor bad t s = Inl FenceLost"
  | (stored) res s' where "\<not> broken (refuses c t) (fst (prepare rs))" "fence_holds f s"
      "upsert_body c f rs cursor bad t s = Inr (res, s')"
      "calls s' = calls (fold (write_one (portal_id f)) (taken (refuses c t) (fst (prepare rs))) s)"
      "sync s' = sync (update_sync (portal_id f) (counted cursor (length (rejections (refuses c t) rs bad))) s)"
      "portals s' = portals s" "db_now s' = db_now s"
      "inserted_or_updated res = int (length (taken (refuses c t) (fst (prepare rs))))"
      "quarantined res = int (length (rejections (refuses c t) rs bad))"
      "(max_bx_id res, min_bx_id res) = extent (fst (prepare rs)) (rejections (refuses c t) rs bad)"
proof -
  let ?ref = "refuses c t" and ?pid = "portal_id f"
  obtain ps ks where pk: "prepare rs = (ps, ks)" by (cases "prepare rs")
  have d: "distinct (map bx_id ps)"
    using prepare_distinct [of rs] pk by simp
  note spec = write_chunks_spec [OF d, of ?ref ?pid s]
  show thesis
  proof (cases "broken ?ref ps")
    case True
    then show thesis
      using pk spec by (intro broken) (simp_all add: upsert_body_def written_spec_def)
  next
    case False
    let ?bad = "bad @ ks @ List.map_filter (fault_of ?ref) ps"
    let ?s1 = "fold (write_one ?pid) (taken ?ref ps) s"
    let ?n = "int (length (taken ?ref ps))"
    let ?s2 = "if ?n \<noteq> 0 then upsert_placeholders ?pid (place_users ps (List.map_filter (fault_of ?ref) ps)) ?s1 else ?s1"
    define bad_rows where "bad_rows = ?bad"
    define s3 where "s3 = (if bad_rows \<noteq> [] then record_rejections ?pid bad_rows ?s2 else ?s2)"
    have rej: "rejections ?ref rs bad = bad_rows"
      by (simp add: rejections_def pk bad_rows_def)
    obtain hi lo where ext: "extent ps bad_rows = (hi, lo)" by (cases "extent ps bad_rows")
    have fr: "sync s3 = sync s" "db_now s3 = db_now s" "calls s3 = calls ?s1" "portals s3 = portals s"
      by (auto simp: s3_def)
    have body: "upsert_body c f rs cursor bad t s =
      rbind (fenced_update f (\<lambda>_. counted cursor (length bad_rows)) s3) (\<lambda>s4.
        Inr (\<lparr>inserted_or_updated = ?n, quarantined = int (length bad_rows), max_bx_id = hi, min_bx_id = lo\<rparr>, s4))"
      using False ext
      by (simp only: upsert_body_def pk Let_def prod.case spec written_spec_def if_False rbind.simps
            s3_def bad_rows_def)
    have hold: "fence_holds f s3 = fence_holds f s"
      by (rule fence_holds_cong [OF fr(1,2)])
    show thesis
    proof (cases "fence_holds f s")
      case False
      then show thesis
        using body hold \<open>\<not> broken ?ref ps\<close> pk
        by (intro stale) (simp_all add: fenced_update_def)
    next
      case True
      let ?s4 = "update_sync ?pid (counted cursor (length bad_rows)) s3"
      have sy: "sync ?s4 = sync (update_sync ?pid (counted cursor (length bad_rows)) s)"
        using fr(1) by (simp add: update_sync_def split: option.split)
      show thesis
        by (rule stored [where s' = ?s4 and res = "\<lparr>inserted_or_updated = ?n,
            quarantined = int (length bad_rows), max_bx_id = hi, min_bx_id = lo\<rparr>"])
          (use body hold True \<open>\<not> broken ?ref ps\<close> pk fr sy rej ext in
            \<open>simp_all add: fenced_update_def\<close>)
    qed
  qed
qed

lemma find_taken:
  "find (\<lambda>r. bx_id r = i) (taken refused (fst (prepare rs))) =
   (case latest rs i of Some r \<Rightarrow> if refused r = None then Some r else None | None \<Rightarrow> None)"
proof -
  let ?ps = "fst (prepare rs)"
  have uniq: "find (\<lambda>r. bx_id r = i) (filter P xs) =
      (case find (\<lambda>r. bx_id r = i) xs of Some r \<Rightarrow> if P r then Some r else None | None \<Rightarrow> None)"
    if "distinct (map bx_id xs)" for P and xs :: "call_row list"
    using that by (induction xs) (fastforce simp: find_None_iff image_iff dest: find_SomeD split: option.split)+
  have "find (\<lambda>r. bx_id r = i) ?ps = latest rs i"
  proof (cases "latest rs i")
    case None
    then have "r \<in> set ?ps \<Longrightarrow> bx_id r \<noteq> i" for r
      by (auto simp: prepare_set)
    with None show ?thesis by (auto simp: find_None_iff)
  next
    case (Some r)
    then have r: "bx_id r = i" "r \<in> set ?ps"
      by (auto simp: prepare_set latest_def find_Some_iff split: if_splits)
    have "find (\<lambda>r. bx_id r = i) ?ps \<noteq> None"
      using r by (auto simp: find_None_iff)
    then obtain x where x: "find (\<lambda>r. bx_id r = i) ?ps = Some x" by blast
    then have "x \<in> set ?ps" "bx_id x = i"
      by (auto simp: find_Some_iff)
    then have "x = r"
      using r prepare_distinct [of rs] by (metis distinct_map inj_on_eq_iff)
    with x Some show ?thesis by simp
  qed
  then show ?thesis
    unfolding taken_def uniq [OF prepare_distinct] by simp
qed

text \<open>The row stored for an id, as a function of the row before and the rows of the call.\<close>

definition stored_after ::
  "(call_row \<Rightarrow> db_fault option) \<Rightarrow> call_row list \<Rightarrow> rat \<Rightarrow> stored_call option \<Rightarrow> int \<Rightarrow> stored_call option" where
  "stored_after refused rs now old i =
     (case latest rs i of
        Some r \<Rightarrow> if refused r = None then Some (upsert_one now old r) else old
      | None \<Rightarrow> old)"

lemma upsert_body_calls:
  assumes "upsert_body c f rs cursor bad t s = Inr (res, s')"
  shows "map_of (calls s') (p, i) =
    (if p = portal_id f then stored_after (refuses c t) rs (db_now s) (map_of (calls s) (p, i)) i
     else map_of (calls s) (p, i))"
proof -
  have d: "distinct (map bx_id (taken (refuses c t) (fst (prepare rs))))"
    unfolding taken_def using prepare_distinct by (rule distinct_map_filter)
  have "calls s' = calls (fold (write_one (portal_id f)) (taken (refuses c t) (fst (prepare rs))) s)"
    using assms by (cases rule: upsert_body_cases [of c t rs f cursor bad s]) auto
  then show ?thesis
    unfolding stored_after_def by (simp add: fold_write_one_lookup [OF d] find_taken split: option.split)
qed

lemma upsert_body_sync:
  assumes "upsert_body c f rs cursor bad t s = Inr (res, s')"
  shows "fence_holds f s" "sync s' = sync (update_sync (portal_id f)
      (counted cursor (length (rejections (refuses c t) rs bad))) s)"
    "portals s' = portals s" "db_now s' = db_now s"
  using assms by (cases rule: upsert_body_cases [of c t rs f cursor bad s]; simp)+

text \<open>The upsert honours the fence contract.\<close>

interpretation ups: fenced_op f "upsert_body c f rs cursor bad"
  by unfold_locales (auto simp: upsert_body_sync update_sync_lookup)

lemma stored_after_again:
  "stored_after refused rs now' (stored_after refused rs now old i) i =
   map_option (\<lambda>x. if \<exists>r. latest rs i = Some r \<and> refused r = None then x\<lparr>last_synced_at := now'\<rparr> else x)
     (stored_after refused rs now old i)"
  by (auto simp: stored_after_def upsert_one_def data_changed_def option.map_ident split: option.split)

end
