(* ===== verification/Head_Fetch.thy ===== *)
theory Head_Fetch
  imports Upsert
begin

text \<open>
  \<open>api/app/sync/head_fetch.py\<close>: the primitives every cursor-writing step shares, and the
  two-request fetch that gives a new portal its two cursors.
\<close>

section \<open>Shared primitives\<close>

definition sort_field :: string where
  "sort_field = ''ID''"

definition order_asc :: string where
  "order_asc = ''ASC''"

definition order_desc :: string where
  "order_desc = ''DESC''"

definition clamp_pages :: "int \<Rightarrow> nat" where
  "clamp_pages pages = nat (max 1 (min pages (int max_batch_commands)))"

definition page_starts :: "nat \<Rightarrow> int \<Rightarrow> int list" where
  "page_starts pages first = map (\<lambda>index. first + int index * int page_size) [0..<pages]"

definition dedupe_rows :: "call_row list \<Rightarrow> call_row list" where
  "dedupe_rows rs = map snd (fold (\<lambda>r. dict_set (bx_id r) r) rs [])"

definition prefix_bx_ids :: "fetch_outcome \<Rightarrow> int list" where
  "prefix_bx_ids o' =
     map bx_id (rows o') @
     (if command_count o' \<le> prefix_len o' \<and> errors o' = [] then List.map_filter fst (rejected o') else [])"

definition raise_if_token_expired :: "bitrix_error list \<Rightarrow> ('s, exn, unit) prog" where
  "raise_if_token_expired errs =
     (case find (\<lambda>e. err_class e = ExpiredToken) errs of Some e \<Rightarrow> throw (Bitrix e) | None \<Rightarrow> skip)"

definition should_continue :: "'o sync_outside_scheme \<Rightarrow> block option \<Rightarrow> bool sync_prog" where
  "should_continue c b =
     (case pace c of None \<Rightarrow> ret True | Some p \<Rightarrow> reads (\<lambda>w. p (ticks w) b))"

definition cursor_body :: "fence \<Rightarrow> (sync_row \<Rightarrow> sync_row) \<Rightarrow> unit body" where
  "cursor_body f g = (\<lambda>t s. rbind (fenced_update f (\<lambda>_. g) s) (\<lambda>s'. Inr ((), s')))"

definition commit_cursor ::
  "'o sync_outside_scheme \<Rightarrow> fence \<Rightarrow> (sync_row \<Rightarrow> sync_row) \<Rightarrow> unit sync_prog" where
  "commit_cursor c f g = transaction c (cursor_body f g)"

text \<open>The rows stored and the rows quarantined; nothing at all to record is no transaction.\<close>

definition commit_progress ::
  "'o sync_outside_scheme \<Rightarrow> fence \<Rightarrow> call_row list \<Rightarrow> cursor_values \<Rightarrow> reject list \<Rightarrow> (int \<times> int) sync_prog" where
  "commit_progress c f rs cursor bad =
     (if rs = [] \<and> bad = [] \<and> cursor = None then ret (0, 0)
      else andThen (upsert_calls c f rs cursor bad) (\<lambda>res.
           ret (inserted_or_updated res, quarantined res)))"

definition block_body :: "fence \<Rightarrow> string \<Rightarrow> string \<Rightarrow> unit body" where
  "block_body f broken_by step = (\<lambda>t s.
     let text = take 2000 (step @ '': '' @ broken_by);
         s1 = set_token_status (portal_id f) ''filter_unsupported'' True (Some ''filter_unsupported'') (Some text) s
     in Inr ((), record_event (portal_id f) ''sync_blocked''
          [(''reason'', JStr ''filter_unsupported''), (''step'', JStr step), (''detail'', JStr broken_by)] s1))"

definition block_on_filter_violation ::
  "'o sync_outside_scheme \<Rightarrow> fence \<Rightarrow> string \<Rightarrow> string \<Rightarrow> unit sync_prog" where
  "block_on_filter_violation c f broken_by step = transaction c (block_body f broken_by step)"

section \<open>The head fetch\<close>

record head_outcome =
  head_status :: "backfill_state option"
  head_high_id :: "int option"
  head_low_id :: "int option"
  head_total :: "int option"
  head_upserted :: int
  head_quarantined :: int
  head_rejected :: nat
  head_requests :: nat
  head_errors :: "bitrix_error list"
  head_blocked :: bool
  head_stopped :: bool

definition head_completed :: "head_outcome \<Rightarrow> bool" where
  "head_completed h \<longleftrightarrow> head_status h \<in> {Some Running, Some Done}"

definition empty_portal :: "fetch_outcome \<Rightarrow> bool" where
  "empty_portal o' \<longleftrightarrow> rows o' = [] \<and> rejected o' = [] \<and> total o' \<in> {None, Some 0}"

text \<open>An outcome that wrote no cursor.\<close>

definition head_unfinished :: "backfill_state option \<Rightarrow> int option \<Rightarrow> nat \<Rightarrow> nat \<Rightarrow> bitrix_error list \<Rightarrow> head_outcome" where
  "head_unfinished state total_seen bad reqs errs =
     \<lparr>head_status = state, head_high_id = None, head_low_id = None, head_total = total_seen,
      head_upserted = 0, head_quarantined = 0, head_rejected = bad, head_requests = reqs,
      head_errors = errs, head_blocked = False, head_stopped = False\<rparr>"

definition empty_cursor :: "rat \<Rightarrow> sync_row \<Rightarrow> sync_row" where
  "empty_cursor stamp r =
     r\<lparr>high_id := 0, low_id := None, backfill_status := Done, backfill_total := Some 0,
       backfill_done := 0, backfill_started_at := Some stamp, backfill_finished_at := Some stamp\<rparr>"

definition with_total :: "int option \<Rightarrow> sync_row \<Rightarrow> sync_row" where
  "with_total n r = (case n of None \<Rightarrow> r | Some _ \<Rightarrow> r\<lparr>backfill_total := n\<rparr>)"

definition head_marker :: "rat \<Rightarrow> int option \<Rightarrow> sync_row \<Rightarrow> sync_row" where
  "head_marker stamp n r =
     with_total n (r\<lparr>backfill_status := Head, backfill_started_at := Some stamp\<rparr>)"

definition head_cursor ::
  "int \<Rightarrow> int \<Rightarrow> bool \<Rightarrow> rat \<Rightarrow> nat \<Rightarrow> int option \<Rightarrow> sync_row \<Rightarrow> sync_row" where
  "head_cursor highest lowest exhausted stamp n total_seen r =
     (let r1 = with_total total_seen (r\<lparr>high_id := highest, low_id := Some lowest,
                 backfill_status := (if exhausted then Done else Running),
                 backfill_done := int n, rescan_from_id := Some lowest\<rparr>)
      in if exhausted then r1\<lparr>backfill_finished_at := Some stamp\<rparr> else r1)"

text \<open>Step 2: the window of ids up to \<open>max_id\<close>, and the two cursors when all of it came back.\<close>

definition head_window ::
  "'o sync_outside_scheme \<Rightarrow> client \<Rightarrow> fence \<Rightarrow> nat \<Rightarrow> fetch_outcome \<Rightarrow> int \<Rightarrow> head_outcome sync_prog" where
  "head_window c cl f pages head max_id =
     andThen (fetch_pages c cl [(''<=ID'', JInt max_id)] sort_field order_desc (page_starts pages 0) None) (\<lambda>window.
     andThen (raise_if_token_expired (errors window)) (\<lambda>_.
     case filter_violation window of
       Some v \<Rightarrow>
         andThen (block_on_filter_violation c f v ''head_fetch'') (\<lambda>_.
         ret ((head_unfinished (Some Head) (total head) 0 2 (errors window))\<lparr>head_blocked := True\<rparr>))
     | None \<Rightarrow>
         (let rs = dedupe_rows (rows head @ rows window @ extra_rows window);
              bad = rejected head @ rejected window
          in if errors window \<noteq> [] then
               andThen (commit_progress c f rs None bad) (\<lambda>(up, quar).
               ret ((head_unfinished (Some Head) (total head) (length bad) 2 (errors window))
                      \<lparr>head_upserted := up, head_quarantined := quar\<rparr>))
             else case min_opt (prefix_bx_ids window) of
               None \<Rightarrow> ret (head_unfinished (Some Head) (total head) (length bad) 2 [])
             | Some lowest \<Rightarrow>
                 (let exhausted = \<not> has_next window
                  in andThen (worker_now c) (\<lambda>stamp.
                     andThen (commit_progress c f rs
                                (Some (head_cursor max_id lowest exhausted stamp (length rs) (total head))) bad) (\<lambda>(up, quar).
                     ret \<lparr>head_status = Some (if exhausted then Done else Running),
                          head_high_id = Some max_id, head_low_id = Some lowest, head_total = total head,
                          head_upserted = up, head_quarantined = quar, head_rejected = length bad,
                          head_requests = 2, head_errors = [], head_blocked = False, head_stopped = False\<rparr>))))))"

text \<open>Step 1: the newest page gives the largest id and the total.\<close>

definition run_head_fetch ::
  "'o sync_outside_scheme \<Rightarrow> client \<Rightarrow> fence \<Rightarrow> int \<Rightarrow> head_outcome sync_prog" where
  "run_head_fetch c cl f pages_allowed =
     andThen (fetch_pages c cl [] sort_field order_desc [0] None) (\<lambda>head.
     andThen (raise_if_token_expired (errors head)) (\<lambda>_.
     case filter_violation head of
       Some v \<Rightarrow>
         andThen (block_on_filter_violation c f v ''head_fetch'') (\<lambda>_.
         ret ((head_unfinished None None 0 1 (errors head))\<lparr>head_blocked := True\<rparr>))
     | None \<Rightarrow>
         if errors head \<noteq> [] \<or> prefix_len head = 0 then ret (head_unfinished None (total head) 0 1 (errors head))
         else if empty_portal head then
           andThen (worker_now c) (\<lambda>stamp.
           andThen (commit_cursor c f (empty_cursor stamp)) (\<lambda>_.
           ret ((head_unfinished (Some Done) (Some 0) 0 1 [])\<lparr>head_high_id := Some 0\<rparr>)))
         else case max_opt (prefix_bx_ids head) of
           None \<Rightarrow> ret (head_unfinished None (total head) (length (rejected head)) 1 (errors head))
         | Some max_id \<Rightarrow>
             andThen (worker_now c) (\<lambda>stamp.
             andThen (commit_cursor c f (head_marker stamp (total head))) (\<lambda>_.
             andThen (should_continue c (time_block head)) (\<lambda>go.
             if \<not> go
             then ret ((head_unfinished (Some Head) (total head) (length (rejected head)) 1 [])\<lparr>head_stopped := True\<rparr>)
             else head_window c cl f (clamp_pages pages_allowed) head max_id)))))"

section \<open>The cursors of a run that owns its portal\<close>

text \<open>
  What a fence protects: the columns only a run with the fence writes. \<open>owned f g\<close> says that
  while the fence holds, the cursors satisfy \<open>g\<close>; \<open>exclusive\<close> is what the rest of the code
  promises a run: other processes may take the fence away, and with it everything, but as long
  as it holds they have left the cursors alone.
\<close>

type_synonym cursors = "int \<times> int option \<times> int option \<times> backfill_state \<times> int"

definition cursors :: "sync_row \<Rightarrow> cursors" where
  "cursors r = (high_id r, low_id r, rescan_from_id r, backfill_status r, backfill_done r)"

definition owned :: "fence \<Rightarrow> (cursors \<Rightarrow> bool) \<Rightarrow> store \<Rightarrow> bool" where
  "owned f g s \<longleftrightarrow>
     (\<forall>r. map_of (sync s) (portal_id f) = Some r \<longrightarrow> fence_matches f (db_now s) r \<longrightarrow> g (cursors r))"

definition exclusive :: "'o sync_outside_scheme \<Rightarrow> fence \<Rightarrow> bool" where
  "exclusive c f \<longleftrightarrow>
     (\<forall>t s. fence_holds f (interfere c t s) \<longrightarrow>
        fence_holds f s \<and>
        map_option cursors (map_of (sync (interfere c t s)) (portal_id f)) =
        map_option cursors (map_of (sync s) (portal_id f)))"

lemma owned_iff: "owned f g s \<longleftrightarrow>
  (fence_holds f s \<longrightarrow> (\<exists>r. map_of (sync s) (portal_id f) = Some r \<and> g (cursors r)))"
  by (auto simp: owned_def fence_holds_def split: option.splits)

lemma stable_owned: "exclusive c f \<Longrightarrow> stable c (owned f g)"
  by (fastforce simp: stable_def exclusive_def owned_iff)

lemma owned_weaken: "owned f g s \<Longrightarrow> (\<And>x. g x \<Longrightarrow> h x) \<Longrightarrow> owned f h s"
  by (auto simp: owned_def)

lemma cursors_rejected [simp]: "cursors (r\<lparr>rejected_rows := n\<rparr>) = cursors r"
  by (simp add: cursors_def)

lemma owned_update:
  assumes "owned f g s" and "fence_holds f s" and "\<And>r. g (cursors r) \<Longrightarrow> h (cursors (move r))"
    and "sync s' = sync (update_sync (portal_id f) move s)"
  shows "owned f h s'"
  using assms by (auto simp: owned_iff update_sync_lookup)

interpretation cur: fenced_op f "cursor_body f g"
  unfolding cursor_body_def by (rule fenced_update_op)

lemma triple_fenced:
  assumes "exclusive c f" and "\<And>now r. g (cursors r) \<Longrightarrow> h (cursors (values now r))"
  shows "triple (at_request (owned f g) n)
    (transaction c (\<lambda>t s. rbind (fenced_update f values s) (\<lambda>s'. Inr ((), s'))))
    (\<lambda>_. at_request (owned f h) n) raises"
proof (rule triple_transaction [OF stable_owned [OF assms(1)]])
  fix t s a s'
  assume g: "owned f g s" and run: "rbind (fenced_update f values s) (\<lambda>s'. Inr ((), s')) = Inr (a, s')"
  from run have "fence_holds f s" and "s' = update_sync (portal_id f) (values (db_now s)) s"
    by (auto simp: rbind_Inr_iff fenced_update_Inr)
  with g show "owned f h s'"
    by (intro owned_update [of f g s h "values (db_now s)"] assms(2)) simp_all
qed

text \<open>
  One rule per operation, for the operation followed by the rest of the step: with them a
  step is proved by going through it forwards. What a cursor write leaves is the image of
  what was known before.
\<close>

definition image_of :: "(sync_row \<Rightarrow> sync_row) \<Rightarrow> (cursors \<Rightarrow> bool) \<Rightarrow> cursors \<Rightarrow> bool" where
  "image_of move g x \<longleftrightarrow> (\<exists>r. g (cursors r) \<and> x = cursors (move r))"

lemma seq_fetch [triple_rules]:
  assumes "\<And>o'. answered c cl filt sb ord starts guard n o' \<Longrightarrow> triple (at_request P (Suc n)) (k o') Q raises"
  shows "triple (at_request P n) (andThen (fetch_pages c cl filt sb ord starts guard) k) Q raises"
  by (rule triple_andThen [OF triple_fetch]) (rule triple_pull [OF assms])

lemma seq_expired [triple_rules]:
  assumes "(\<forall>e \<in> set errs. err_class e \<noteq> ExpiredToken) \<Longrightarrow> triple P (k ()) Q raises"
  shows "triple P (andThen (raise_if_token_expired errs) k) Q raises"
  using assms
  by (auto simp: raise_if_token_expired_def skip_def find_None_iff triple_throw split: option.split)

lemma seq_now [triple_rules]:
  assumes "\<And>t. triple P (k t) Q raises"
  shows "triple P (andThen (worker_now c) k) Q raises"
  using assms by (auto simp: triple_def andThen_def worker_now_def reads_def)

lemma seq_should_continue [triple_rules]:
  assumes "\<And>b. triple P (k b) Q raises"
  shows "triple P (andThen (should_continue c blk) k) Q raises"
  using assms by (auto simp: triple_def andThen_def should_continue_def reads_def ret_def split: option.split)

lemma seq_commit_cursor [triple_rules]:
  assumes "exclusive c f" and "triple (at_request (owned f (image_of move g)) n) (k ()) Q raises"
  shows "triple (at_request (owned f g) n) (andThen (commit_cursor c f move) k) Q raises"
  unfolding commit_cursor_def cursor_body_def
  by (rule triple_andThen [OF triple_fenced [OF assms(1)]]) (use assms(2) in \<open>auto simp: image_of_def\<close>)

lemma seq_heartbeat [triple_rules]:
  assumes "exclusive c f" and "triple (at_request (owned f g) n) (k ()) Q raises"
  shows "triple (at_request (owned f g) n) (andThen (heartbeat c f) k) Q raises"
  unfolding heartbeat_def heartbeat_body_def
  by (rule triple_andThen [OF triple_fenced [OF assms(1), of g g]]) (use assms(2) in \<open>auto simp: cursors_def\<close>)

lemma triple_commit_progress:
  assumes "exclusive c f"
  shows "triple (at_request (owned f g) n) (commit_progress c f rs cursor bad)
    (\<lambda>_. at_request (owned f (image_of (cursor_of cursor) g)) n) raises"
proof -
  let ?h = "image_of (cursor_of cursor) g"
  have body: "owned f ?h s'"
    if "owned f g s" and run: "upsert_body c f rs cursor bad t s = Inr (a, s')" for t s a s'
    by (rule owned_update [OF that(1) upsert_body_sync(1) [OF run] _ upsert_body_sync(2) [OF run]])
      (auto simp: counted_def image_of_def)
  have run: "triple (at_request (owned f g) n) (transaction c (upsert_body c f rs cursor bad))
      (\<lambda>_. at_request (owned f ?h) n) raises"
    by (rule triple_transaction [OF stable_owned [OF assms(1)]]) (rule body)
  show ?thesis
    unfolding commit_progress_def upsert_calls_def
    by (intro triple_if triple_andThen [OF run] triple_ret)
      (auto simp: at_request_def image_of_def cursor_of_def owned_def)
qed

lemma seq_commit_progress [triple_rules]:
  assumes "exclusive c f"
    and "\<And>up quar. triple (at_request (owned f (image_of (cursor_of cursor) g)) n) (k (up, quar)) Q raises"
  shows "triple (at_request (owned f g) n) (andThen (commit_progress c f rs cursor bad) k) Q raises"
  by (rule triple_andThen [OF triple_commit_progress [OF assms(1)]]) (metis assms(2) surj_pair)

lemma seq_extra_rows [triple_rules]:
  assumes "exclusive c f" and "\<And>up quar. triple (at_request (owned f g) n) (k (up, quar)) Q raises"
  shows "triple (at_request (owned f g) n)
    (andThen (if es \<noteq> [] then commit_progress c f es None [] else ret (0, 0)) k) Q raises"
proof (cases "es = []")
  case False
  have "triple (at_request (owned f g) n) (commit_progress c f es None []) (\<lambda>_. at_request (owned f g) n) raises"
    by (rule triple_conseq [OF triple_commit_progress [OF assms(1)]])
      (auto simp: at_request_def image_of_def cursor_of_def elim!: owned_weaken)
  then show ?thesis
    using False by (auto intro!: triple_andThen assms(2))
qed (simp add: assms(2))

lemma set_token_status_sync:
  "map_of (sync (set_token_status pid st True ec txt s)) p =
    (if p = pid then map_option (\<lambda>r. case ec of None \<Rightarrow> r\<lparr>next_run_at := Infinity\<rparr>
        | Some e \<Rightarrow> r\<lparr>next_run_at := Infinity, last_error_code := Some e, last_error_text := txt,
                      last_error_at := Some (db_now s)\<rparr>) (map_of (sync s) p)
     else map_of (sync s) p)"
  by (auto simp: set_token_status_def Let_def update_sync_lookup split: option.split)

lemma set_token_status_frame [simp]:
  "db_now (set_token_status pid st b ec txt s) = db_now s"
  "calls (set_token_status pid st b ec txt s) = calls s"
  by (auto simp: set_token_status_def Let_def split: option.split)

lemma seq_block [triple_rules]:
  assumes "exclusive c f" and "triple (at_request (owned f g) n) (k ()) Q raises"
  shows "triple (at_request (owned f g) n) (andThen (block_on_filter_violation c f v step) k) Q raises"
  unfolding block_on_filter_violation_def
proof (rule triple_andThen [OF triple_transaction [OF stable_owned [OF assms(1)], where Q = "\<lambda>_. owned f g"]])
  fix t s a s'
  assume g: "owned f g s" and "block_body f v step t s = Inr (a, s')"
  then have s': "db_now s' = db_now s"
    "\<exists>txt. sync s' = sync (set_token_status (portal_id f) ''filter_unsupported'' True (Some ''filter_unsupported'') (Some txt) s)"
    by (auto simp: block_body_def Let_def)
  show "owned f g s'"
    unfolding owned_def
  proof (intro allI impI)
    fix r
    assume "map_of (sync s') (portal_id f) = Some r" and m: "fence_matches f (db_now s') r"
    with s'(2) obtain r0 where "map_of (sync s) (portal_id f) = Some r0" "cursors r = cursors r0"
      "fence_matches f (db_now s) r0"
      by (auto simp: set_token_status_sync s'(1) cursors_def fence_matches_def)
    with g show "g (cursors r)" by (simp add: owned_def)
  qed
qed (use assms(2) in simp)

lemmas [triple_rules] = triple_if triple_case_option triple_case_prod triple_Let

section \<open>What a head fetch reports is what it stored\<close>

definition head_reported :: "head_outcome \<Rightarrow> cursors \<Rightarrow> bool" where
  "head_reported h = (\<lambda>(high, low, bound, state, n).
     (head_status h = None \<or> head_status h = Some state) \<and>
     (head_completed h \<longrightarrow> head_high_id h = Some high \<and> head_low_id h = low))"

lemma head_unfinished_simps [simp]:
  "head_status (head_unfinished st n bad reqs errs) = st" "head_high_id (head_unfinished st n bad reqs errs) = None"
  "head_low_id (head_unfinished st n bad reqs errs) = None" "head_requests (head_unfinished st n bad reqs errs) = reqs"
  "head_errors (head_unfinished st n bad reqs errs) = errs"
  by (simp_all add: head_unfinished_def)

lemma triple_head_report:
  assumes "\<And>x. g x \<Longrightarrow> head_reported h x" and "k = n + head_requests h"
  shows "triple (at_request (owned f g) k) (ret h)
    (\<lambda>h. at_request (owned f (head_reported h)) (n + head_requests h)) raises"
  using assms by (intro triple_ret) (auto simp: at_request_def elim: owned_weaken)

lemma triple_head_window:
  assumes ex: "exclusive c f" and "\<And>x. g x \<Longrightarrow> fst (snd (snd (snd x))) = Head"
  shows "triple (at_request (owned f g) (Suc n)) (head_window c cl f pages head max_id)
    (\<lambda>h. at_request (owned f (head_reported h)) (n + head_requests h)) raises"
  unfolding head_window_def
  by (intro triple_rules ex triple_head_report)
    (auto simp: head_reported_def head_completed_def image_of_def cursors_def cursor_of_def head_cursor_def
      with_total_def Let_def dest: assms(2) split: option.splits if_splits)

lemma triple_head_fetch:
  assumes ex: "exclusive c f"
  shows "triple (at_request (owned f g) n) (run_head_fetch c cl f pages_allowed)
    (\<lambda>h. at_request (owned f (head_reported h)) (n + head_requests h)) raises"
  unfolding run_head_fetch_def
  by (intro triple_rules ex triple_head_report triple_head_window)
    (auto simp: head_reported_def head_completed_def image_of_def cursors_def empty_cursor_def head_marker_def
      with_total_def split: option.splits if_splits)

end
