(* ===== verification/Demo.thy ===== *)
theory Demo
  imports Head_Fetch
begin

text \<open>
  A small portal and a small database on which the properties of the visits are exercised:
  two call records, served on one page, and one portal leased to this worker.
\<close>

definition demo_fields :: "int \<Rightarrow> (string, json) dict" where
  "demo_fields i = [(''ID'', JInt i), (''CALL_START_DATE'', JStr ''2024-05-01T10:00:00+00:00'')]"

definition demo_record :: "int \<Rightarrow> json" where
  "demo_record i = JDict (demo_fields i)"

definition demo_payload :: json where
  "demo_payload = JDict [(''result'', JDict [(''result'', JList [JList [demo_record 5, demo_record 7]])])]"

definition demo_answer :: answer where
  "demo_answer = Answer 200 None (JsonBody demo_payload)"

definition demo_outside :: sync_outside where
  "demo_outside =
     \<lparr>portal = (\<lambda>_ _. demo_answer), wall = (\<lambda>_. 1714560000), render = (\<lambda>_. []), http_date = (\<lambda>_. None),
      iso_date = (\<lambda>_. Some (1714557600, Some 0)), host_ok = (\<lambda>_. True),
      interfere = (\<lambda>_ s. s), refuses = (\<lambda>_ _. None), clock = (\<lambda>_. 1714560000), pace = None\<rparr>"

definition demo_client :: client where
  "demo_client = \<lparr>endpoint = ''https://portal/rest/'', access_token = Some ''token''\<rparr>"

definition demo_fence :: fence where
  "demo_fence = \<lparr>portal_id = 1, owner = ''worker'', generation = 3\<rparr>"

definition demo_row :: sync_row where
  "demo_row =
     \<lparr>sync_generation = 3, high_id = 4, low_id = Some 9, rescan_from_id = Some 2, backfill_status = Running,
      backfill_total = None, backfill_done = 0, backfill_started_at = None, backfill_finished_at = None,
      batch_pages = 20, clean_visits = 0, last_incremental_at = None, last_rescan_at = None,
      last_recheck_at = None, next_run_at = At 0, lease_owner = Some ''worker'', lease_expires_at = Some 2000000000,
      run_started_at = None, operating_seconds = None, operating_reset_at = None, throttle_hits = 0,
      consecutive_failures = 0, rejected_rows = 0, last_error_code = None, last_error_text = None,
      last_error_at = None\<rparr>"

definition demo_store :: store where
  "demo_store =
     \<lparr>db_now = 1714560000,
      portals = [(1, \<lparr>status = ''active'', token_status = ''ok'', purge_pending = False\<rparr>)],
      sync = [(1, demo_row)], calls = [], employees = {}, portal_events = []\<rparr>"

definition demo_world :: world where
  "demo_world = \<lparr>requests = [], rest_log = [], last_time = None, store = demo_store, ticks = 0, resume_from = []\<rparr>"

lemma demo_exclusive: "exclusive demo_outside demo_fence"
  by (simp add: exclusive_def demo_outside_def)

text \<open>What the client and the parser make of the answer.\<close>

definition demo_call :: "int \<Rightarrow> call_row" where
  "demo_call i =
     \<lparr>bx_id = i, call_id = None, external_call_id = None, call_category = None, call_type = None,
      call_start_date = 1714557600, call_duration = 0, call_failed_code = None, call_failed_reason = None,
      portal_user_id = None, portal_number = None, phone_number = None, crm_entity_type = None,
      crm_entity_id = None, crm_activity_id = None, cost = None, cost_currency = None, call_vote = None,
      call_record_url = None, record_file_id = None, record_duration = None, rest_app_id = None,
      rest_app_name = None, transcript_id = None, transcript_pending = None, session_id = None,
      redial_attempt = None, comment = None, call_log = None\<rparr>"

definition demo_batch :: batch_result where
  "demo_batch =
     \<lparr>commands = [\<lparr>cmd_key = ''p0'', cmd_result = JList [demo_record 5, demo_record 7], cmd_error = None,
                  cmd_time = None, cmd_next = None, cmd_total = None\<rparr>], batch_time = None\<rparr>"

definition demo_page :: parse_outcome where
  "demo_page = \<lparr>out_rows = [demo_call 5, demo_call 7], out_rejected = []\<rparr>"

definition demo_outcome :: fetch_outcome where
  "demo_outcome =
     \<lparr>rows = [demo_call 5, demo_call 7], extra_rows = [], rejected = [], prefix_len = 1, command_count = 1,
      total = None, has_next = False, errors = [], time_block = None, filter_violation = None\<rparr>"

lemma demo_answer_read: "read_answer demo_outside t demo_answer = (demo_payload, Some 200, None)"
proof -
  have "envelope_error r demo_payload (Some 200) None = None" for r
    by (simp add: envelope_error_def demo_payload_def dict_or_empty_def get_field_def Let_def)
  then show ?thesis
    by (simp add: read_answer_def demo_answer_def decode_def parse_retry_after_def)
qed

lemma demo_send: "send demo_outside cl lm path body an w = (Inr (demo_payload, Some 200),
   w\<lparr>requests := requests w @ [\<lparr>req_path = path, req_body = body\<rparr>],
     rest_log := rest_log w @ [\<lparr>log_method = lm, log_http_status = Some 200, log_error_code = an demo_payload\<rparr>]\<rparr>)"
proof -
  have a: "portal demo_outside n r = demo_answer" for n r
    by (simp add: demo_outside_def)
  have t: "get_field (dict_or_empty demo_payload) ''time'' = JNone"
    by (simp add: demo_payload_def dict_or_empty_def get_field_def)
  have b: "(case demo_answer of NoAnswer _ \<Rightarrow> None | _ \<Rightarrow> an demo_payload) = an demo_payload"
    by (simp add: demo_answer_def)
  show ?thesis
    unfolding send_def a demo_answer_read t Let_def prod.case json.case b option.case by simp
qed

lemma demo_read_batch: "read_batch (render demo_outside) [''p0''] demo_payload (Some 200) = Inr demo_batch"
  by code_simp

lemma lower_char_not: "65 \<le> code x \<Longrightarrow> code x \<le> 90 \<Longrightarrow> lower_char c \<noteq> x"
  by (auto simp: lower_char_def Let_def code_char_of code_less split: if_splits)

lemma demo_absent: "k \<noteq> ''ID'' \<Longrightarrow> k \<noteq> ''CALL_START_DATE'' \<Longrightarrow> field (demo_fields i) k = JNone"
  using lower_char_not [of "CHR ''I''"] lower_char_not [of "CHR ''C''"]
  by (auto simp: field_def demo_fields_def get_field_def code_def split: if_splits)

lemma absent_columns [simp]:
  "text_of r JNone = None" "clip None n = (None, False)" "number JNone a b = (None, False)"
  "cost_of JNone = (None, False)" "yes_no r JNone = (None, False)" "record_url lib JNone = None"
  by (simp_all add: text_of_def clip_def number_def to_int_def present_def cost_of_def yes_no_def record_url_def)

lemma demo_build_row: "build_row lib (demo_fields i) i 1714557600 = (demo_call i, [])"
  by (simp add: build_row_def Let_def demo_absent flagged_def demo_call_def)

lemma demo_start_date:
  "start_date (lib_of demo_outside) 1714560000 (field (demo_fields i) ''CALL_START_DATE'') = Inr (Inr 1714557600)"
  by code_simp

lemma demo_parse_row:
  assumes "1 \<le> i" and "i \<le> int64_max"
  shows "parse_row (lib_of demo_outside) 1714560000 (demo_record i) = Inr (Some (demo_call i), Some i, [])"
proof -
  have "to_int (field (demo_fields i) ''ID'') = Some i"
    by (simp add: field_def demo_fields_def to_int_def)
  then show ?thesis
    using assms demo_start_date by (simp add: parse_row_def demo_record_def demo_build_row)
qed

lemma demo_read_pages:
  "read_pages demo_outside 1714560000 (zip [0] (commands demo_batch)) = Inr [Inr demo_page]"
  by (simp add: demo_batch_def read_page_def result_rows_def demo_parse_row int64_max_def demo_page_def)

lemma demo_time: "merge_time_blocks f (batch_time demo_batch # map cmd_time (commands demo_batch)) = Inr None"
  by (simp add: demo_batch_def merge_time_blocks_def merge_step_def)

lemma demo_read_outcome:
  assumes "first_violation (id_checks (render demo_outside) filt) None [demo_call 5, demo_call 7] = None"
  shows "read_outcome demo_outside 1714560000 filt None [0] demo_batch = Inr demo_outcome"
  unfolding read_outcome_def demo_read_pages demo_time rbind.simps lift_py_def
  using assms
  by (simp add: build_outcome_def demo_batch_def demo_page_def page_ok_def page_rows_def page_rejected_def
      page_errors_def demo_outcome_def del: first_violation.simps)

text \<open>A fetch of one page: the outcome above, one more request in the log.\<close>

lemma demo_fetch:
  assumes "page_commands filt sb ord 0 [0] = Inr cmds" and "map fst cmds = [''p0'']"
    and "batch_body (render demo_outside) demo_client False cmds = Inr body"
    and "first_violation (id_checks (render demo_outside) filt) None [demo_call 5, demo_call 7] = None"
  shows "\<exists>log. fetch_pages demo_outside demo_client filt sb ord [0] None w =
    (Inr demo_outcome, w\<lparr>requests := requests w @ [\<lparr>req_path = ''https://portal/rest/batch'', req_body = body\<rparr>], rest_log := log\<rparr>)"
proof -
  have v: "validate_starts [0] = Inr [0]"
    by (simp add: validate_starts_def page_size_def max_batch_commands_def)
  have wall: "wall demo_outside n = 1714560000" for n
    by (simp add: demo_outside_def)
  show ?thesis
    unfolding fetch_pages_def batch_def prog_defs
    by (simp add: v assms(1-3) lift_py_def wall demo_send demo_read_batch demo_read_outcome [OF assms(4)]
        demo_client_def [THEN arg_cong, of endpoint, simplified] del: page_commands.simps)
      (rule exI, rule refl)
qed

text \<open>The same page in descending order.\<close>

definition descending_outcome :: fetch_outcome where
  "descending_outcome = demo_outcome\<lparr>rows := [demo_call 7, demo_call 5]\<rparr>"

definition descending_batch :: batch_result where
  "descending_batch = \<lparr>commands = [\<lparr>cmd_key = ''p0'', cmd_result = JList [demo_record 7, demo_record 5], cmd_error = None,
     cmd_time = None, cmd_next = None, cmd_total = None\<rparr>], batch_time = None\<rparr>"

lemma descending_read:
  "read_outcome demo_outside 1714560000 [(''<ID'', JInt 9)] None (page_starts 1 0) descending_batch = Inr descending_outcome"
proof -
  let ?page = "\<lparr>out_rows = [demo_call 7, demo_call 5], out_rejected = []\<rparr>"
  have starts: "page_starts 1 0 = [0]" by (simp add: page_starts_def)
  have pages: "read_pages demo_outside 1714560000 (zip [0] (commands descending_batch)) = Inr [Inr ?page]"
    by (simp add: descending_batch_def read_page_def result_rows_def demo_parse_row int64_max_def)
  have time: "merge_time_blocks (iso_date demo_outside) (batch_time descending_batch # map cmd_time (commands descending_batch)) = Inr None"
    by (simp add: descending_batch_def merge_time_blocks_def merge_step_def)
  have fv: "first_violation (id_checks (render demo_outside) [(''<ID'', JInt 9)]) None [demo_call 7, demo_call 5] = None"
    by (simp add: id_checks_below violation_def demo_call_def)
  show ?thesis
    unfolding read_outcome_def starts pages time rbind.simps lift_py_def
    using fv
    by (simp add: build_outcome_def descending_batch_def page_ok_def page_rows_def page_rejected_def
        page_errors_def descending_outcome_def demo_outcome_def del: first_violation.simps)
qed

text \<open>The requests of the four visits are of this kind.\<close>

definition demo_request :: "(string, json) dict \<Rightarrow> string \<Rightarrow> bool" where
  "demo_request filt ord \<longleftrightarrow>
     (case page_commands filt sort_field ord 0 [0] of Inl _ \<Rightarrow> False
      | Inr cmds \<Rightarrow> map fst cmds = [''p0''] \<and>
          (case batch_body (render demo_outside) demo_client False cmds of Inl _ \<Rightarrow> False | Inr _ \<Rightarrow> True))"

lemma demo_requests:
  "demo_request [(''>ID'', JInt 4)] order_asc" "demo_request [(''<ID'', JInt 9)] order_desc"
  "demo_request [] order_desc" "demo_request [(''<=ID'', JInt 7)] order_desc"
  "demo_request [(''>=ID'', JInt 2)] order_asc"
  by code_simp+

lemma demo_fetched:
  assumes "demo_request filt ord"
    and "first_violation (id_checks (render demo_outside) filt) None [demo_call 5, demo_call 7] = None"
  obtains reqs log where "fetch_pages demo_outside demo_client filt sort_field ord [0] None w =
    (Inr demo_outcome, w\<lparr>requests := reqs, rest_log := log\<rparr>)"
proof -
  from assms(1) obtain cmds body where "page_commands filt sort_field ord 0 [0] = Inr cmds" "map fst cmds = [''p0'']"
    "batch_body (render demo_outside) demo_client False cmds = Inr body"
    by (auto simp: demo_request_def split: sum.splits)
  from demo_fetch [OF this assms(2), of w] that show thesis by blast
qed

text \<open>What the portal answers matters to the fetches alone.\<close>

lemma portal_irrelevant:
  "transaction (c\<lparr>portal := p\<rparr>) = transaction c" "worker_now (c\<lparr>portal := p\<rparr>) = worker_now c"
  "should_continue (c\<lparr>portal := p\<rparr>) = should_continue c" "heartbeat (c\<lparr>portal := p\<rparr>) = heartbeat c"
  "commit_cursor (c\<lparr>portal := p\<rparr>) = commit_cursor c" "commit_progress (c\<lparr>portal := p\<rparr>) = commit_progress c"
  "block_on_filter_violation (c\<lparr>portal := p\<rparr>) = block_on_filter_violation c"
  "read_outcome (c\<lparr>portal := p\<rparr>) = read_outcome c" "read_answer (c\<lparr>portal := p\<rparr>) = read_answer c"
proof -
  show t: "transaction (c\<lparr>portal := p\<rparr>) = transaction c" for c :: "'c sync_outside_scheme"
    by (intro ext) (simp add: transaction_def)
  have u: "upsert_body (c\<lparr>portal := p\<rparr>) = upsert_body c"
    by (intro ext) (simp add: upsert_body_def)
  show "worker_now (c\<lparr>portal := p\<rparr>) = worker_now c" "should_continue (c\<lparr>portal := p\<rparr>) = should_continue c"
    "heartbeat (c\<lparr>portal := p\<rparr>) = heartbeat c" "commit_cursor (c\<lparr>portal := p\<rparr>) = commit_cursor c"
    "commit_progress (c\<lparr>portal := p\<rparr>) = commit_progress c"
    "block_on_filter_violation (c\<lparr>portal := p\<rparr>) = block_on_filter_violation c"
    by (intro ext; simp add: worker_now_def should_continue_def heartbeat_def commit_cursor_def commit_progress_def
        upsert_calls_def block_on_filter_violation_def t u)+
  have lib: "lib_of (c\<lparr>portal := p\<rparr>) = lib_of c"
    by (simp add: lib_of_def)
  have "read_page (c\<lparr>portal := p\<rparr>) = read_page c"
    unfolding read_page_def lib ..
  then have "read_pages (c\<lparr>portal := p\<rparr>) now ps = read_pages c now ps" for now ps
    by (induction ps) simp_all
  then show "read_outcome (c\<lparr>portal := p\<rparr>) = read_outcome c"
    by (intro ext) (simp add: read_outcome_def)
  have outside: "http_date (c\<lparr>portal := p\<rparr>) = http_date c" "render (c\<lparr>portal := p\<rparr>) = render c"
    by simp_all
  show "read_answer (c\<lparr>portal := p\<rparr>) = read_answer c"
    unfolding read_answer_def parse_retry_after_def outside ..
qed

text \<open>Nothing is refused and nobody interferes, so a transaction under the fence commits.\<close>

lemma demo_transaction:
  "action (ticks w) (store w) = Inr (a, s') \<Longrightarrow>
   transaction demo_outside action w = (Inr a, w\<lparr>store := s', ticks := Suc (ticks w)\<rparr>)"
  by (simp add: transaction_def demo_outside_def Let_def)

lemma fence_holds_update:
  assumes "fence_holds f s" and "\<And>r. lease_owner (g r) = lease_owner r" "\<And>r. sync_generation (g r) = sync_generation r"
    and "\<And>r t. lease_expires_at r = Some t \<Longrightarrow> db_now s < t \<Longrightarrow> \<exists>t'. lease_expires_at (g r) = Some t' \<and> db_now s < t'"
  shows "fence_holds f (update_sync (portal_id f) g s)"
  using assms by (fastforce simp: fence_holds_iff update_sync_lookup)

lemma demo_upsert:
  assumes "fence_holds demo_fence (store w)" and "\<And>r. lease_owner (cursor_of cursor r) = lease_owner r"
    "\<And>r. sync_generation (cursor_of cursor r) = sync_generation r"
    "\<And>r. lease_expires_at (cursor_of cursor r) = lease_expires_at r"
  obtains res s' where "upsert_calls demo_outside demo_fence rs cursor bad w = (Inr res, w\<lparr>store := s', ticks := Suc (ticks w)\<rparr>)"
    "fence_holds demo_fence s'" "map_of (sync s') 1 = map_option (counted cursor (length (rejections (\<lambda>_. None) rs bad))) (map_of (sync (store w)) 1)"
    "calls s' = calls (fold (write_one 1) (fst (prepare rs)) (store w))" "db_now s' = db_now (store w)"
proof -
  have pid: "portal_id demo_fence = 1" and ref: "refuses demo_outside = (\<lambda>_ _. None)"
    by (simp_all add: demo_fence_def demo_outside_def)
  have ok: "\<not> broken (\<lambda>_. None) rs'" "taken (\<lambda>_. None) rs' = rs'" for rs'
    by (simp_all add: broken_def taken_def)
  show thesis
  proof (cases rule: upsert_body_cases [of demo_outside "ticks w" rs demo_fence cursor bad "store w"])
    case broken
    then show ?thesis by (simp add: ref ok)
  next
    case stale
    with assms(1) show ?thesis by simp
  next
    case (stored res s')
    have "fence_holds demo_fence (update_sync 1 (counted cursor n) (store w))" for n
      using fence_holds_update [OF assms(1), of "counted cursor n"] assms(2-4) by (simp add: counted_def pid)
    then have "fence_holds demo_fence s'"
      using stored(5,7) fence_holds_cong pid ref by (metis update_sync_frame(1))
    then show ?thesis
      using stored that [of res s'] demo_transaction [where w = w and action = "upsert_body demo_outside demo_fence rs cursor bad", OF stored(3)]
      by (simp add: upsert_calls_def ref ok pid update_sync_lookup)
  qed
qed

lemma demo_store_fence: "fence_holds demo_fence demo_store"
  by (simp add: fence_holds_def fence_matches_def demo_fence_def demo_store_def demo_row_def)

lemma demo_heartbeat:
  assumes "fence_holds demo_fence (store w)"
  obtains s' where "heartbeat demo_outside demo_fence w = (Inr (), w\<lparr>store := s', ticks := Suc (ticks w)\<rparr>)"
    "fence_holds demo_fence s'" "map_option cursors (map_of (sync s') 1) = map_option cursors (map_of (sync (store w)) 1)"
proof -
  let ?g = "\<lambda>r. r\<lparr>lease_expires_at := Some (db_now (store w) + lease_seconds)\<rparr>"
  have pid: "portal_id demo_fence = 1" by (simp add: demo_fence_def)
  let ?s = "update_sync 1 ?g (store w)"
  have "heartbeat_body demo_fence (ticks w) (store w) = Inr ((), ?s)"
    using assms by (simp add: heartbeat_body_def fenced_update_def pid)
  then have run: "heartbeat demo_outside demo_fence w = (Inr (), w\<lparr>store := ?s, ticks := Suc (ticks w)\<rparr>)"
    unfolding heartbeat_def by (rule demo_transaction)
  have held: "fence_holds demo_fence ?s"
    using fence_holds_update [OF assms, of ?g] by (simp add: pid lease_seconds_def)
  have same: "map_option cursors (map_of (sync ?s) 1) = map_option cursors (map_of (sync (store w)) 1)"
    by (cases "map_of (sync (store w)) 1") (simp_all add: update_sync_lookup cursors_def)
  show thesis
    using run held same by (rule that)
qed

lemma demo_commit_cursor:
  assumes "fence_holds demo_fence (store w)" and "\<And>r. lease_owner (g r) = lease_owner r"
    "\<And>r. sync_generation (g r) = sync_generation r" "\<And>r. lease_expires_at (g r) = lease_expires_at r"
  shows "commit_cursor demo_outside demo_fence g w =
      (Inr (), w\<lparr>store := update_sync 1 g (store w), ticks := Suc (ticks w)\<rparr>)"
    and "fence_holds demo_fence (update_sync 1 g (store w))"
proof -
  have pid: "portal_id demo_fence = 1" by (simp add: demo_fence_def)
  have "cursor_body demo_fence g (ticks w) (store w) = Inr ((), update_sync 1 g (store w))"
    using assms(1) by (simp add: cursor_body_def fenced_update_def pid)
  then show "commit_cursor demo_outside demo_fence g w =
      (Inr (), w\<lparr>store := update_sync 1 g (store w), ticks := Suc (ticks w)\<rparr>)"
    unfolding commit_cursor_def by (rule demo_transaction)
  show "fence_holds demo_fence (update_sync 1 g (store w))"
    using fence_holds_update [OF assms(1), of g] assms(2-4) by (simp add: pid)
qed

lemma demo_now: "worker_now demo_outside w = (Inr 1714560000, w)"
  by (simp add: worker_now_def reads_def demo_outside_def)

lemma demo_go_on: "should_continue demo_outside b w = (Inr True, w)"
  by (simp add: should_continue_def demo_outside_def ret_def)

lemma demo_not_expired: "raise_if_token_expired (errors demo_outcome) w = (Inr (), w)"
  by (simp add: raise_if_token_expired_def demo_outcome_def skip_def ret_def)

lemma demo_ids: "prefix_bx_ids demo_outcome = [5, 7]"
  by (simp add: prefix_bx_ids_def demo_outcome_def demo_call_def)

lemma demo_outcome_simps [simp]:
  "rows demo_outcome = [demo_call 5, demo_call 7]" "extra_rows demo_outcome = []" "rejected demo_outcome = []"
  "errors demo_outcome = []" "filter_violation demo_outcome = None" "has_next demo_outcome = False"
  "prefix_len demo_outcome = 1" "total demo_outcome = None"
  by (simp_all add: demo_outcome_def)

lemma demo_progress:
  assumes "fence_holds demo_fence (store w)" and "rs \<noteq> []" and "\<And>r. lease_owner (cursor_of cursor r) = lease_owner r"
    "\<And>r. sync_generation (cursor_of cursor r) = sync_generation r"
    "\<And>r. lease_expires_at (cursor_of cursor r) = lease_expires_at r"
  obtains up quar s' where "commit_progress demo_outside demo_fence rs cursor bad w =
      (Inr (up, quar), w\<lparr>store := s', ticks := Suc (ticks w)\<rparr>)" "fence_holds demo_fence s'"
proof -
  obtain res s' where "upsert_calls demo_outside demo_fence rs cursor bad w = (Inr res, w\<lparr>store := s', ticks := Suc (ticks w)\<rparr>)"
    "fence_holds demo_fence s'"
    by (rule demo_upsert [of w cursor rs bad]) (use assms in auto)
  with assms(2) that show thesis
    by (simp add: commit_progress_def prog_defs)
qed

text \<open>The head fetch of the demo portal reads both records and is done.\<close>

lemma demo_head_fetch:
  obtains h w' where "run_head_fetch demo_outside demo_client demo_fence 1 demo_world = (Inr h, w')"
    and "head_high_id h = Some 7" "head_low_id h = Some 5" "head_status h = Some Done"
proof -
  have fv: "first_violation (id_checks (render demo_outside) []) None [demo_call 5, demo_call 7] = None"
    "first_violation (id_checks (render demo_outside) [(''<=ID'', JInt 7)]) None [demo_call 5, demo_call 7] = None"
    by (simp add: id_checks_def violation_def) (simp add: id_checks_upto violation_def demo_call_def)
  obtain reqs log where f1: "fetch_pages demo_outside demo_client [] sort_field order_desc [0] None demo_world =
    (Inr demo_outcome, demo_world\<lparr>requests := reqs, rest_log := log\<rparr>)"
    by (rule demo_fetched [OF demo_requests(3) fv(1)])
  let ?w1 = "demo_world\<lparr>requests := reqs, rest_log := log\<rparr>"
  let ?m = "head_marker 1714560000 None"
  have held: "fence_holds demo_fence (store ?w1)"
    by (simp add: demo_world_def demo_store_fence)
  let ?w2 = "?w1\<lparr>store := update_sync 1 ?m (store ?w1), ticks := Suc (ticks ?w1)\<rparr>"
  have mark: "commit_cursor demo_outside demo_fence ?m ?w1 = (Inr (), ?w2)"
    and held2: "fence_holds demo_fence (store ?w2)"
    using demo_commit_cursor [OF held, of ?m] by (simp_all add: head_marker_def with_total_def)
  obtain reqs2 log2 where f2: "fetch_pages demo_outside demo_client [(''<=ID'', JInt 7)] sort_field order_desc [0] None ?w2 =
    (Inr demo_outcome, ?w2\<lparr>requests := reqs2, rest_log := log2\<rparr>)"
    by (rule demo_fetched [OF demo_requests(4) fv(2)])
  let ?w3 = "?w2\<lparr>requests := reqs2, rest_log := log2\<rparr>"
  let ?rs = "dedupe_rows [demo_call 5, demo_call 7, demo_call 5, demo_call 7]"
  have rs: "?rs = [demo_call 5, demo_call 7]"
    by (simp add: dedupe_rows_def demo_call_def)
  let ?c = "head_cursor 7 5 True 1714560000 (length ?rs) None"
  obtain up quar s' where store: "commit_progress demo_outside demo_fence ?rs (Some ?c) [] ?w3 =
      (Inr (up, quar), ?w3\<lparr>store := s', ticks := Suc (ticks ?w3)\<rparr>)"
    by (rule demo_progress [of ?w3 ?rs "Some ?c" "[]"])
      (use held2 rs in \<open>auto simp: cursor_of_def head_cursor_def with_total_def Let_def\<close>)
  have starts: "page_starts (clamp_pages 1) 0 = [0]"
    by (simp add: page_starts_def clamp_pages_def max_batch_commands_def)
  have mx: "max_opt [5::int, 7] = Some 7" "min_opt [5::int, 7] = Some 5"
    by (simp_all add: max_opt_def min_opt_def)
  let ?h = "\<lparr>head_status = Some Done, head_high_id = Some 7, head_low_id = Some 5, head_total = None,
    head_upserted = up, head_quarantined = quar, head_rejected = 0, head_requests = 2, head_errors = [],
    head_blocked = False, head_stopped = False\<rparr>"
  have window: "head_window demo_outside demo_client demo_fence (clamp_pages 1) demo_outcome 7 ?w2 =
      (Inr ?h, ?w3\<lparr>store := s', ticks := Suc (ticks ?w3)\<rparr>)"
    using store f2
    by (simp add: head_window_def starts andThen_def demo_not_expired [simplified] demo_ids mx Let_def demo_now rs ret_def)
  have "run_head_fetch demo_outside demo_client demo_fence 1 demo_world =
      (Inr ?h, ?w3\<lparr>store := s', ticks := Suc (ticks ?w3)\<rparr>)"
    using f1 mark window
    by (simp add: run_head_fetch_def andThen_def demo_not_expired [simplified] demo_ids mx demo_now demo_go_on empty_portal_def)
  then show thesis
    by (rule that) simp_all
qed

end
