(* ===== verification/Client_Properties.thy ===== *)
theory Client_Properties
  imports Demo
begin

text \<open>
  The properties of the REST client, the parser of a call record and the fetch: what is sent
  arrives, what is answered is read in order and logged once, what is parsed fits its columns
  and is accounted for, and what is fetched honours the filter.
\<close>

section \<open>The client\<close>

text \<open>
  The encoder loses nothing: decoding the query string of any parameters, as the portal
  does, gives back exactly the pairs they flatten to, and encoding fails exactly when the
  flattening does.
\<close>

theorem query_roundtrip:
  "rbind (php_query_string r params) (\<lambda>s. Inr (parse_query s)) = php_query_pairs r params"
  by (cases "php_query_pairs r params") (simp_all add: php_query_string_def parse_query_of_pairs)

text \<open>
  C34 Every command of an accepted batch is in the posted form under \<open>cmd[key]\<close> as its method
  and a query the portal decodes to its parameters; the access token travels beside them as
  \<open>auth\<close> and cannot be displaced by a command.
\<close>

theorem batch_commands_arrive:
  assumes "batch_body r cl halt cmds = Inr body" and "(key, rest_method, params) \<in> set cmds"
    and "access_token cl = Some t" and "t \<noteq> []"
  shows "(\<exists>name q pairs. check_method rest_method = Inr name \<and> php_query_pairs r params = Inr pairs \<and>
      parse_query q = pairs \<and> map_of body (''cmd['' @ key @ '']'') = Some (if q = [] then name else name @ ''?'' @ q)) \<and>
    map_of body ''auth'' = Some t"
proof -
  have "map_of body ''auth'' = Some t"
    using assms(1,3,4) by (auto simp: batch_body_def rbind_Inr_iff split: if_splits dest: form_body_auth)
  with batch_body_decodes [OF assms(1,2)] show ?thesis by simp
qed

definition sample_command :: command where
  "sample_command = (''p0'', ''profile'', [(''q'', JStr ''a=b&c'')])"

lemma sample_body:
  "(case batch_body (\<lambda>_. []) demo_client False [sample_command] of Inl _ \<Rightarrow> False | Inr _ \<Rightarrow> True)"
  by code_simp

lemma batch_commands_arrive_witness:
  "\<exists>body q. batch_body (\<lambda>_. []) demo_client False [sample_command] = Inr body \<and>
    parse_query q = [(''q'', ''a=b&c'')] \<and> map_of body ''auth'' = Some ''token''"
proof -
  obtain body where body: "batch_body (\<lambda>_. []) demo_client False [sample_command] = Inr body"
    using sample_body by (auto split: sum.splits)
  have pairs: "php_query_pairs (\<lambda>_. []) [(''q'', JStr ''a=b&c'')] = Inr [(''q'', ''a=b&c'')]"
    by code_simp
  have "access_token demo_client = Some ''token''"
    by (simp add: demo_client_def)
  from batch_commands_arrive [OF body _ this, of "''p0''" "''profile''" "[(''q'', JStr ''a=b&c'')]"] pairs body
  show ?thesis by (auto simp: sample_command_def)
qed

lemma failed_no_result: "cmd_error (build_command r env st p) = None \<or> cmd_result (build_command r env st p) = JNone"
  by (cases p) (simp add: build_command_def Let_def)

text \<open>
  C33 A batch that returns made one request to \<open>batch\<close> and one log row of that name, changed
  nothing beyond the client's own state, and holds one result per command in the order asked;
  a command that failed carries no result.
\<close>

theorem batch_in_order:
  assumes "batch c cl cmds halt w = (Inr b, w')"
  shows "map cmd_key (commands b) = map fst cmds \<and>
    (\<exists>body row. requests w' = requests w @ [\<lparr>req_path = endpoint cl @ ''batch'', req_body = body\<rparr>] \<and>
      batch_body (render c) cl halt cmds = Inr body \<and>
      rest_log w' = rest_log w @ [row] \<and> log_method row = ''batch'') \<and>
    net.more w' = net.more w \<and> (\<forall>r \<in> set (commands b). cmd_error r = None \<or> cmd_result r = JNone)"
proof -
  obtain body payload st where body: "batch_body (render c) cl halt cmds = Inr body"
    and s: "send c cl ''batch'' (endpoint cl @ ''batch'') body (batch_log_code (render c) (map fst cmds)) w = (Inr (payload, st), w')"
    and b: "read_batch (render c) (map fst cmds) payload st = Inr b"
    using assms by (auto simp: batch_def prog_defs lift_py_def split: sum.splits prod.splits)
  have "\<forall>r \<in> set (commands b). cmd_error r = None \<or> cmd_result r = JNone"
    using b by (auto simp: read_batch_def split: json.splits) (metis failed_no_result)
  with read_batch_keys [OF b] body show ?thesis
    by (cases rule: send_cases [OF s]) auto
qed

lemma demo_batch_body:
  "(case batch_body (render demo_outside) demo_client False [sample_command] of Inl _ \<Rightarrow> False | Inr _ \<Rightarrow> True)"
  by code_simp

lemma demo_batch_run: "\<exists>w'. batch demo_outside demo_client [sample_command] False demo_world = (Inr demo_batch, w')"
proof -
  obtain body where "batch_body (render demo_outside) demo_client False [sample_command] = Inr body"
    using demo_batch_body by (auto split: sum.splits)
  then show ?thesis
    unfolding batch_def prog_defs
    by (simp add: lift_py_def demo_send sample_command_def demo_read_batch)
qed

lemma batch_in_order_witness:
  "\<exists>w'. batch demo_outside demo_client [sample_command] False demo_world = (Inr demo_batch, w') \<and>
    map cmd_key (commands demo_batch) = [''p0''] \<and> length (rest_log w') = 1"
proof -
  obtain w' where w': "batch demo_outside demo_client [sample_command] False demo_world = (Inr demo_batch, w')"
    using demo_batch_run by blast
  note facts = batch_in_order [OF w']
  then obtain row where "rest_log w' = rest_log demo_world @ [row]" by blast
  then have "length (rest_log w') = 1"
    by (simp add: demo_world_def)
  moreover have "map cmd_key (commands demo_batch) = map fst [sample_command]"
    using facts by blast
  ultimately show ?thesis
    using w' by (simp only: sample_command_def list.map fst_conv) blast
qed

text \<open>
  A single call either refuses its arguments before anything is sent, or makes exactly one
  request and writes exactly one log row with the method's name; when it fails the error is a
  \<open>BitrixError\<close> whose code, unless empty, is the one logged.
\<close>

theorem exchange_logged:
  "case call c cl rest_method params w of (r, w') \<Rightarrow>
     (r = Inl (Py ValueError) \<and> w' = w) \<or>
     (\<exists>req row. requests w' = requests w @ [req] \<and> req_path req = endpoint cl @ strip rest_method \<and>
        rest_log w' = rest_log w @ [row] \<and> log_method row = strip rest_method \<and> net.more w' = net.more w \<and>
        (case r of Inr _ \<Rightarrow> True
         | Inl e \<Rightarrow> (\<exists>b. e = Bitrix b \<and> (err_code b = [] \<or> log_error_code row = Some (err_code b)))))"
proof (cases "check_method rest_method")
  case (Inl e)
  with check_method_error [OF Inl] show ?thesis
    by (simp add: call_def prog_defs lift_py_def)
next
  case name: (Inr name)
  then have n: "name = strip rest_method"
    by (auto simp: check_method_def Let_def split: if_splits)
  show ?thesis
  proof (cases "rbind (php_query_pairs (render c) params) (form_body cl)")
    case (Inl e)
    then have "e = ValueError"
      by (auto simp: rbind_Inl_iff dest: php_query_pairs_error form_body_error)
    with Inl name show ?thesis
      by (simp add: call_def prog_defs lift_py_def)
  next
    case (Inr body)
    obtain r1 w1 where s: "send c cl name (endpoint cl @ name) body (\<lambda>_. None) w = (r1, w1)" by fastforce
    have run: "call c cl rest_method params w = (case r1 of Inl e \<Rightarrow> (Inl e, w1)
        | Inr (payload, _) \<Rightarrow> (Inr (get_field (dict_or_empty payload) ''result''), w1))"
      using name Inr s by (auto simp: call_def prog_defs lift_py_def split: sum.splits prod.splits)
    show ?thesis
      by (cases rule: send_cases [OF s]) (cases r1; force simp: run n split: prod.splits)
  qed
qed

text \<open>
  Only the code \<open>expired_token\<close>, whatever its case and padding, makes an \<open>ExpiredToken\<close>:
  no HTTP status does, so a bare 401 never triggers a token refresh.
\<close>

theorem token_expired_iff:
  "err_class (classify ec st desc pl) = ExpiredToken \<longleftrightarrow> (\<exists>c. ec = Some c \<and> lower (strip c) = ''expired_token'')"
  by (rule classify_expired_iff)

section \<open>The parser\<close>


lemma demo_parse_rows:
  "parse_rows (lib_of demo_outside) 1714560000 [demo_record 5, JNone] =
     Inr \<lparr>out_rows = [demo_call 5], out_rejected = [(None, ''not_a_record'')]\<rparr>"
  by (simp add: demo_parse_row int64_max_def parse_row_def [of _ _ JNone])


text \<open>
  No raw row vanishes in the parser: each is either kept or reported by exactly one
  rejection, and a report about a kept row only says which field lost fidelity.
\<close>

theorem parsed_rows_accounted:
  assumes "parse_rows lib now items = Inr out"
  shows "length items = length (out_rows out) +
    length (filter (\<lambda>(_, reason). \<not> starts_with ''degraded:'' reason) (out_rejected out))"
  using assms
proof (induction items arbitrary: out)
  case Nil
  then show ?case by auto
next
  case (Cons item items)
  obtain row the_id reasons rest where p: "parse_row lib now item = Inr (row, the_id, reasons)"
    "parse_rows lib now items = Inr rest"
    "out_rows out = (case row of None \<Rightarrow> [] | Some r \<Rightarrow> [r]) @ out_rows rest"
    "out_rejected out = map (\<lambda>reason. (the_id, reason)) reasons @ out_rejected rest"
    by (rule parse_rows_Cons [OF Cons.prems(1)])
  have kept: "filter (\<lambda>(_, reason). \<not> starts_with ''degraded:'' reason) (map (\<lambda>reason. (the_id, reason)) reasons) = []"
    if "row = Some r" for r
    using parse_row_accounted [OF p(1)] that by (auto simp: filter_empty_conv)
  show ?case
    using Cons.IH [OF p(2)] parse_row_accounted [OF p(1)] kept
    by (cases row) (auto simp: p(3,4))
qed

lemma parsed_rows_accounted_witness:
  "length [demo_record 5, JNone] = length [demo_call 5] + 1"
  using parsed_rows_accounted [OF demo_parse_rows] by (simp add: starts_with_iff)





text \<open>
  A cost is stored with four decimals and never exceeds \<open>10 ^ 8\<close> in size; but the limit
  itself is reached by rounding, one unit beyond what the column \<open>numeric(12, 4)\<close> holds.
\<close>

theorem cost_rounds_to_limit:
  "(case fst (cost_of v) of None \<Rightarrow> True | Some q \<Rightarrow> \<bar>q\<bar> \<le> cost_limit \<and> (\<exists>k. q = of_int k / 10000)) \<and>
   cost_of (JFloat (Fin (100000000 - 1 / 65536))) = (Some cost_limit, False)"
proof
  have "\<exists>k. q = of_int k / 10000" if "fst (cost_of v) = Some q" for q
  proof -
    from that obtain n where "q = quantize4 n"
      by (auto simp: cost_of_def split: if_splits option.splits)
    then show ?thesis unfolding quantize4_def by blast
  qed
  then show "case fst (cost_of v) of None \<Rightarrow> True | Some q \<Rightarrow> \<bar>q\<bar> \<le> cost_limit \<and> (\<exists>k. q = of_int k / 10000)"
    by (simp add: cost_of_bound split: option.split)
  have "\<lfloor>(999999999999 + 3471 / 4096 :: rat)\<rfloor> = 999999999999"
    by (rule floor_unique) simp_all
  then have r: "round_half_even (999999999999 + 3471 / 4096) = 1000000000000"
    by (simp add: round_half_even_def Let_def)
  have e: "(100000000 - 1 / 65536) * 10000 = (999999999999 + 3471 / 4096 :: rat)" by simp
  have q: "quantize4 (100000000 - 1 / 65536) = cost_limit"
    unfolding quantize4_def e r by (simp add: cost_limit_def)
  have l: "\<not> cost_limit - 1 / (2 * 10 ^ 20) \<le> \<bar>100000000 - 1 / 65536\<bar>"
    by (simp add: cost_limit_def)
  show "cost_of (JFloat (Fin (100000000 - 1 / 65536))) = (Some cost_limit, False)"
    unfolding cost_of_def cost_number_def json.case pyfloat.case option.case if_not_P [OF l] q
    by (simp add: present_def)
qed

section \<open>The time block\<close>

text \<open>
  The operating time of a batch is the largest one its blocks report: the portal's counter
  is cumulative, so summing the blocks would count it several times.
\<close>

theorem merged_operating_is_largest:
  assumes "merge_time_blocks isod bs = Inr (Some d)"
  shows "map_of d ''operating'' = map_option (\<lambda>q. JFloat (Fin q)) (max_opt (List.map_filter operating_of bs))"
  using assms by (rule merge_operating)

definition sample_blocks :: "block option list" where
  "sample_blocks = [Some [(''operating'', JFloat (Fin 3))], None, Some [(''operating'', JFloat (Fin 7))],
     Some [(''operating'', JFloat (Fin 5))]]"

lemma sample_merge: "merge_time_blocks (\<lambda>_. None) sample_blocks = Inr (Some [(''operating'', JFloat (Fin 7))])"
  by code_simp

lemma merged_operating_is_largest_witness:
  "map_option (\<lambda>q. JFloat (Fin q)) (max_opt (List.map_filter operating_of sample_blocks)) = Some (JFloat (Fin 7))"
  using merged_operating_is_largest [OF sample_merge] by simp

text \<open>
  A reset moment given as an integer beyond the calendar, such as milliseconds instead of
  seconds, is not ignored: the merge raises \<open>ValueError\<close>, and with it the fetch.
\<close>

theorem reset_in_milliseconds_raises:
  assumes "datetime_max \<le> of_int i" and "i < 2 ^ 53"
  shows "merge_time_blocks isod [Some [(''operating_reset_at'', JInt i)]] = Inl ValueError"
proof -
  have "of_int i < (2 ^ 53 :: rat)"
    using assms(2) by (metis of_int_less_iff of_int_numeral of_int_power)
  moreover have "0 \<le> (of_int i :: rat)"
    using assms(1) by (simp add: datetime_max_def)
  ultimately have "float_of_int i = Inr (of_int i)" "\<bar>of_int i :: rat\<bar> < 2 ^ 63"
    by (simp_all add: float_of_int_def float_limit_def)
  then show ?thesis
    using assms(1)
    by (simp add: merge_time_blocks_def merge_step_def as_datetime_def as_float_def get_field_def
        timestamp_opt_def from_timestamp_def in_datetime_def)
qed

lemma reset_in_milliseconds_raises_witness:
  "merge_time_blocks (\<lambda>_. None) [Some [(''operating_reset_at'', JInt 1700000000000)]] = Inl ValueError"
  by (rule reset_in_milliseconds_raises) (simp_all add: datetime_max_def)

section \<open>The fetch\<close>

text \<open>
  A fetch refuses bad offsets or filters before any request, and otherwise makes exactly one
  request and leaves the store alone; without a filter violation its error-free prefix is the
  whole batch exactly when no command failed.
\<close>

theorem fetch_one_request:
  "case fetch_pages c cl filt sb ord starts guard w of (r, w') \<Rightarrow>
     (r = Inl (Py ValueError) \<and> w' = w) \<or>
     (length (requests w') = Suc (length (requests w)) \<and> net.more w' = net.more w \<and>
      (case r of Inl _ \<Rightarrow> True
       | Inr o' \<Rightarrow> command_count o' = length starts \<and> filter_violation o' \<noteq> None \<or>
           command_count o' = length starts \<and> (prefix_len o' = command_count o') = (errors o' = [])))"
proof -
  have count: "fetched c filt guard starts o' \<Longrightarrow> command_count o' = length starts" for o'
    by (auto simp: fetched_def build_outcome_def Let_def)
  obtain r w' where run: "fetch_pages c cl filt sb ord starts guard w = (r, w')" by fastforce
  have full: "fetched c filt guard starts o' \<Longrightarrow> filter_violation o' = None \<Longrightarrow>
      (prefix_len o' = length starts) = (errors o' = [])" for o'
    using fetched_prefix_full count by metis
  show ?thesis
    by (cases rule: fetch_pages_cases [OF run]) (auto simp: run count full)
qed

definition honours :: "string \<Rightarrow> int \<Rightarrow> int \<Rightarrow> bool" where
  "honours k bound i =
     (if k = ''>ID'' then bound < i else if k = ''>=ID'' then bound \<le> i
      else if k = ''<ID'' then i < bound else i \<le> bound)"

lemma honours_simps:
  "honours ''>ID'' b = (\<lambda>i. b < i)" "honours ''>=ID'' b = (\<lambda>i. b \<le> i)"
  "honours ''<ID'' b = (\<lambda>i. i < b)" "honours ''<=ID'' b = (\<lambda>i. i \<le> b)"
  by (simp_all add: honours_def fun_eq_iff)

text \<open>
  A comparison of the id in the filter is checked on every row of the answer: either each row
  satisfies it, or the outcome is neutered, so that no row of it can move a cursor.
\<close>

theorem fetch_guarded:
  assumes "fetch_pages c cl [(k, JInt bound)] sb ord starts guard w = (Inr o', w')"
    and "k \<in> {''>ID'', ''>=ID'', ''<ID'', ''<=ID''}"
  shows "(filter_violation o' = None \<and> (\<forall>r \<in> set (rows o') \<union> set (extra_rows o'). honours k bound (bx_id r))) \<or>
    (filter_violation o' \<noteq> None \<and> rows o' = [] \<and> prefix_len o' = 0 \<and> \<not> has_next o')"
proof -
  have f: "fetched c [(k, JInt bound)] guard starts o'"
    using assms(1) by (cases rule: fetch_pages_cases) auto
  obtain label where "(label, honours k bound) \<in> set (id_checks (render c) [(k, JInt bound)])"
    using assms(2) by (auto simp: id_checks_above id_checks_from id_checks_below id_checks_upto honours_simps)
  with fetched_checked [OF f] have "filter_violation o' = None \<Longrightarrow>
      \<forall>r \<in> set (rows o') \<union> set (extra_rows o'). honours k bound (bx_id r)" by blast
  moreover have "filter_violation o' \<noteq> None \<Longrightarrow> rows o' = [] \<and> prefix_len o' = 0 \<and> \<not> has_next o'"
    using f unfolding fetched_def by (metis build_outcome_neutered)
  ultimately show ?thesis by blast
qed

lemma demo_above_ok:
  "first_violation (id_checks (render demo_outside) [(''>ID'', JInt 4)]) None [demo_call 5, demo_call 7] = None"
  by (simp add: id_checks_above violation_def demo_call_def)

lemma fetch_guarded_witness:
  "\<exists>w'. fetch_pages demo_outside demo_client [(''>ID'', JInt 4)] sort_field order_asc [0] None demo_world =
      (Inr demo_outcome, w') \<and> honours ''>ID'' 4 5"
proof -
  obtain reqs log where f: "fetch_pages demo_outside demo_client [(''>ID'', JInt 4)] sort_field order_asc [0] None demo_world =
    (Inr demo_outcome, demo_world\<lparr>requests := reqs, rest_log := log\<rparr>)"
    by (rule demo_fetched [OF demo_requests(1) demo_above_ok])
  from fetch_guarded [OF f] have "honours ''>ID'' 4 (bx_id (demo_call 5))" by auto
  then show ?thesis
    using f by (simp add: demo_call_def)
qed

end
