(* ===== verification/Store_Properties.thy ===== *)
theory Store_Properties
  imports Demo
begin

text \<open>
  The properties of the lease and of the upsert: one owner per portal, what a tick leases and
  a release accounts for, and a transaction of rows and cursor that is all or nothing, never
  stopped by a bad row, and repeatable.
\<close>

section \<open>The lease\<close>

text \<open>Two fences that hold at once for one portal are equal: at most one run owns a portal.\<close>

theorem one_owner:
  assumes "fence_holds f s" and "fence_holds g s" and "portal_id f = portal_id g"
  shows "f = g"
  using assms by (rule fence_unique)

definition sample_row :: sync_row where
  "sample_row =
     \<lparr>sync_generation = 3, high_id = 4, low_id = Some 9, rescan_from_id = None, backfill_status = Running,
      backfill_total = None, backfill_done = 0, backfill_started_at = None, backfill_finished_at = None,
      batch_pages = 20, clean_visits = 0, last_incremental_at = None, last_rescan_at = None,
      last_recheck_at = None, next_run_at = At 0, lease_owner = Some ''old'', lease_expires_at = Some 50,
      run_started_at = Some 10, operating_seconds = None, operating_reset_at = None, throttle_hits = 0,
      consecutive_failures = 9, rejected_rows = 0, last_error_code = None, last_error_text = None,
      last_error_at = None\<rparr>"

definition sample_store :: "rat \<Rightarrow> store" where
  "sample_store now =
     \<lparr>db_now = now, portals = [(1, \<lparr>status = ''active'', token_status = ''ok'', purge_pending = False\<rparr>)],
      sync = [(1, sample_row)], calls = [], employees = {}, portal_events = []\<rparr>"

definition sample_fence :: fence where
  "sample_fence = \<lparr>portal_id = 1, owner = ''old'', generation = 3\<rparr>"

lemma sample_fence_holds: "fence_holds sample_fence (sample_store 20)"
  by (simp add: fence_holds_def fence_matches_def sample_fence_def sample_store_def sample_row_def)

lemma one_owner_witness: "fence_holds sample_fence (sample_store 20) \<and> sample_fence = sample_fence"
  using one_owner [OF sample_fence_holds sample_fence_holds refl] sample_fence_holds by simp


definition fresh_fence :: fence where
  "fresh_fence = \<lparr>portal_id = 1, owner = ''new'', generation = 3\<rparr>"

lemma sample_acquire:
  "\<exists>s'. acquire_leases (\<lambda>_. False) 5 ''new'' (sample_store 60) = ([fresh_fence], s')"
  by (simp add: acquire_leases_def due_rows_def is_due_def sample_store_def sample_row_def fresh_fence_def
      sanitise_owner_def owner_max_def crashed_run_def Let_def)

lemma sample_distinct: "distinct (map fst (sync (sample_store now)))"
  by (simp add: sample_store_def)


text \<open>
  The row of a leased portal after the tick: it belongs to this worker for the lease time, a
  previous run that never released its lease is charged exactly one failure, and the cursors,
  the generation and every other portal's row are as they were.
\<close>

theorem lease_taken:
  assumes "acquire_leases locked limit own s = (fs, s')" and "distinct (map fst (sync s))"
    and "map_of (sync s) p = Some r" and "map_of (sync s') p = Some r'"
  shows "if p \<in> portal_id ` set fs
    then lease_owner r' = Some (sanitise_owner own) \<and> lease_expires_at r' = Some (db_now s + lease_seconds) \<and>
      run_started_at r' = None \<and> sync_generation r' = sync_generation r \<and> cursors r' = cursors r \<and>
      consecutive_failures r' = consecutive_failures r + (if crashed_run r then 1 else 0)
    else r' = r"
proof (cases "0 < limit")
  case True
  then have ids: "portal_id ` set fs = fst ` set (due_rows locked limit s)"
    using assms(1) by (force simp: acquire_leases_def Let_def)
  let ?taken = "take_lease (db_now s) (sanitise_owner own) r"
  have "r' = (if p \<in> portal_id ` set fs then if crashed_run r then charge_crash (db_now s) ?taken else ?taken else r)"
    using acquire_lookup [OF assms(1,2) True, of p] assms(3,4)
    by (cases "p \<in> fst ` set (due_rows locked limit s)") (simp_all only: ids Let_def if_True if_False option.map option.inject)
  then show ?thesis
    by (simp add: take_lease_def charge_crash_def cursors_def)
next
  case False
  with assms show ?thesis by (simp add: acquire_leases_def)
qed

lemma lease_taken_witness:
  "\<exists>s' r'. acquire_leases (\<lambda>_. False) 5 ''new'' (sample_store 60) = ([fresh_fence], s') \<and>
    map_of (sync s') 1 = Some r' \<and> lease_owner r' = Some ''new'' \<and> consecutive_failures r' = 10"
proof -
  obtain s' where s': "acquire_leases (\<lambda>_. False) 5 ''new'' (sample_store 60) = ([fresh_fence], s')"
    using sample_acquire by blast
  have row: "map_of (sync (sample_store 60)) 1 = Some sample_row"
    by (simp add: sample_store_def)
  have "map_of (sync s') 1 \<noteq> None"
    using acquire_lookup [OF s' sample_distinct, of 1] row by simp
  then obtain r' where r': "map_of (sync s') 1 = Some r'" by blast
  have "crashed_run sample_row" "consecutive_failures sample_row = 9" "1 \<in> portal_id ` set [fresh_fence]"
    by (simp_all add: crashed_run_def sample_row_def fresh_fence_def)
  with lease_taken [OF s' sample_distinct row r'] s' r' show ?thesis
    by (simp add: sanitise_owner_def owner_max_def)
qed

text \<open>
  C32 A release never raises for a lost fence. When the fence holds, the row is free again and
  accounts for how the run ended: success clears the failures, a throttle counts a hit and no
  failure, any other error counts one failure and from the tenth on pauses the portal for six
  hours. When it does not hold, the release changes nothing.
\<close>

theorem release_accounts:
  "let s = interfere c (ticks w) (store w) in
   case release_lease c interval f next_run error w of (r, w') \<Rightarrow>
     r = Inr () \<and>
     (if fence_holds f s then
        \<exists>old new. map_of (sync s) (portal_id f) = Some old \<and> map_of (sync (store w')) (portal_id f) = Some new \<and>
          lease_owner new = None \<and> lease_expires_at new = None \<and> run_started_at new = None \<and>
          cursors new = cursors old \<and>
          consecutive_failures new =
            (if error = None then 0 else if is_throttle error then consecutive_failures old
             else consecutive_failures old + 1) \<and>
          throttle_hits new = (if is_throttle error then throttle_hits old + 1 else throttle_hits old) \<and>
          next_run_at new =
            (if error \<noteq> None \<and> \<not> is_throttle error \<and> failures_before_pause \<le> consecutive_failures old + 1
             then At (clock c (ticks w) + failure_pause_seconds)
             else case next_run of Some d \<Rightarrow> d | None \<Rightarrow> At (clock c (ticks w) + interval))
      else store w' = s)"
proof -
  let ?s = "interfere c (ticks w) (store w)"
  let ?now = "clock c (ticks w)"
  have run: "release_lease c interval f next_run error w =
    (if fence_holds f ?s
     then (Inr (), w\<lparr>store := update_sync (portal_id f) (release_values interval ?now next_run error (db_now ?s)) ?s,
                     ticks := Suc (ticks w)\<rparr>)
     else (Inr (), w\<lparr>store := ?s, ticks := Suc (ticks w)\<rparr>))"
    by (simp add: release_lease_def worker_now_def prog_defs transaction_def release_body_def fenced_update_def Let_def)
  show ?thesis
  proof (cases "fence_holds f ?s")
    case True
    then obtain old where old: "map_of (sync ?s) (portal_id f) = Some old"
      by (auto simp: fence_holds_iff)
    with True show ?thesis
      unfolding run
      by (simp add: Let_def update_sync_lookup)
        (simp add: release_values_def Let_def cursors_def is_throttle_def split: option.split)
  next
    case False
    then show ?thesis
      unfolding run by (simp add: Let_def)
  qed
qed

section \<open>The upsert\<close>


text \<open>
  C25 What a committed upsert leaves: under each id of this portal the last of the rows with that
  id, unless the database refused it; every other row of the table, and the sync row of every
  other portal, as it was; and this portal's sync row moved by the cursor and charged with
  every rejected row.
\<close>

theorem upsert_stores:
  assumes "upsert_calls c f rs cursor bad w = (Inr res, w')"
  shows "let s = interfere c (ticks w) (store w); refused = refuses c (ticks w) in
    map_of (calls (store w')) (p, i) =
      (if p = portal_id f then
         (case latest rs i of
            Some r \<Rightarrow> if refused r = None then Some (upsert_one (db_now s) (map_of (calls s) (p, i)) r)
                      else map_of (calls s) (p, i)
          | None \<Rightarrow> map_of (calls s) (p, i))
       else map_of (calls s) (p, i)) \<and>
    map_of (sync (store w')) p =
      (if p = portal_id f then map_option (counted cursor (nat (quarantined res))) (map_of (sync s) p)
       else map_of (sync s) p) \<and>
    quarantined res = int (length (rejections refused rs bad))"
proof -
  let ?s = "interfere c (ticks w) (store w)"
  have run: "upsert_body c f rs cursor bad (ticks w) ?s = Inr (res, store w')"
    using assms unfolding upsert_calls_def by (auto elim!: transaction_cases)
  have "quarantined res = int (length (rejections (refuses c (ticks w)) rs bad))"
    using run by (cases rule: upsert_body_cases [of c "ticks w" rs f cursor bad ?s]) auto
  with upsert_body_calls [OF run, of p i] upsert_body_sync(2) [OF run] show ?thesis
    by (auto simp: stored_after_def update_sync_lookup Let_def)
qed

definition to_high :: "int \<Rightarrow> sync_row \<Rightarrow> sync_row" where
  "to_high n r = r\<lparr>high_id := n\<rparr>"

lemma demo_two_rows:
  "\<exists>res w'. upsert_calls demo_outside demo_fence [demo_call 5, demo_call 0] (Some (to_high 5)) [] demo_world = (Inr res, w')"
proof -
  have "fence_holds demo_fence (store demo_world)"
    by (simp add: demo_world_def demo_store_fence)
  then show ?thesis
    by (rule demo_upsert [of demo_world "Some (to_high 5)" "[demo_call 5, demo_call 0]" "[]"])
      (auto simp: cursor_of_def to_high_def)
qed

lemma demo_latest: "latest [demo_call 5, demo_call 0] 5 = Some (demo_call 5)"
  by (simp add: latest_def demo_call_def)

lemma demo_rejections: "rejections (\<lambda>_. None) [demo_call 5, demo_call 0] [] = [(Some 0, ''non_positive_bx_id'')]"
  by (simp add: rejections_def prepare_snd map_filter_Nil fault_of_def) (simp add: demo_call_def)

lemma upsert_stores_witness:
  "\<exists>res w'. upsert_calls demo_outside demo_fence [demo_call 5, demo_call 0] (Some (to_high 5)) [] demo_world = (Inr res, w') \<and>
    map_option call_data (map_of (calls (store w')) (1, 5)) = Some (demo_call 5) \<and>
    map_option high_id (map_of (sync (store w')) 1) = Some 5 \<and>
    map_option rejected_rows (map_of (sync (store w')) 1) = Some 1"
proof -
  obtain res w' where run: "upsert_calls demo_outside demo_fence [demo_call 5, demo_call 0] (Some (to_high 5)) [] demo_world = (Inr res, w')"
    using demo_two_rows by blast
  have out: "interfere demo_outside t s = s" "refuses demo_outside t = (\<lambda>_. None)" for t s
    by (simp_all add: demo_outside_def)
  have base: "calls (store demo_world) = []" "map_of (sync (store demo_world)) 1 = Some demo_row" "portal_id demo_fence = 1"
    by (simp_all add: demo_world_def demo_store_def demo_fence_def)
  from upsert_stores [OF run, of 1 5, unfolded Let_def out base demo_latest demo_rejections]
  have "map_of (calls (store w')) (1, 5) = Some (upsert_one (db_now (store demo_world)) None (demo_call 5))"
    "map_of (sync (store w')) 1 = Some (counted (Some (to_high 5)) 1 demo_row)"
    by simp_all
  then show ?thesis
    using run by (auto simp: upsert_one_def counted_def cursor_of_def to_high_def demo_row_def)
qed

text \<open>
  C26 A bad row never stops the sync: while the fence holds and no row meets a failure of the
  database itself, the upsert commits, and every row is accounted for - the rows stored and
  the rows quarantined add up to the rejections handed in, the rows without a usable id and
  one per distinct id.
\<close>

theorem upsert_never_stops:
  assumes "fence_holds f (interfere c (ticks w) (store w))"
    and "\<forall>r \<in> set rs. refuses c (ticks w) r \<noteq> Some OtherFault"
  shows "\<exists>res w'. upsert_calls c f rs cursor bad w = (Inr res, w') \<and>
    inserted_or_updated res + quarantined res =
      int (length bad) + int (length (filter (\<lambda>r. bx_id r \<le> 0) rs)) + int (card {i. 0 < i \<and> i \<in> bx_id ` set rs})"
proof -
  let ?s = "interfere c (ticks w) (store w)" and ?ref = "refuses c (ticks w)" and ?ps = "fst (prepare rs)"
  have latest_in: "latest rs i = Some r \<Longrightarrow> r \<in> set rs \<and> bx_id r = i \<and> 0 < i" for i r
    by (auto simp: latest_def dest: find_SomeD split: if_splits)
  have sub: "set ?ps \<subseteq> set rs"
    using latest_in by (auto simp: prepare_set)
  then have "\<not> broken ?ref ?ps"
    using assms(2) by (auto simp: broken_def)
  then obtain res s' where run: "upsert_body c f rs cursor bad (ticks w) ?s = Inr (res, s')"
    and n: "inserted_or_updated res = int (length (taken ?ref ?ps))"
    and q: "quarantined res = int (length (rejections ?ref rs bad))"
    using assms(1) by (cases rule: upsert_body_cases [of c "ticks w" rs f cursor bad ?s]) auto
  have split: "length (taken ?ref xs) + length (List.map_filter (fault_of ?ref) xs) = length xs"
    if "\<not> broken ?ref xs" for xs
    using that by (induction xs) (auto simp: taken_def fault_of_def broken_def split: option.splits db_fault.splits)
  have ids: "bx_id ` set ?ps = {i. 0 < i \<and> i \<in> bx_id ` set rs}"
  proof (intro set_eqI iffI)
    fix i
    assume "i \<in> {i. 0 < i \<and> i \<in> bx_id ` set rs}"
    then obtain r where "latest rs i = Some r"
      by (cases "latest rs i") (auto simp: latest_def find_None_iff)
    then show "i \<in> bx_id ` set ?ps"
      using latest_in [of i r] by (auto simp: prepare_set image_iff)
  next
    fix i
    assume "i \<in> bx_id ` set ?ps"
    then obtain r where "r \<in> set ?ps" "i = bx_id r" by blast
    then have "latest rs i = Some r"
      by (simp add: prepare_set)
    from latest_in [OF this] show "i \<in> {i. 0 < i \<and> i \<in> bx_id ` set rs}" by blast
  qed
  have "length ?ps = card (bx_id ` set ?ps)"
    using prepare_distinct [of rs] by (metis distinct_card length_map list.set_map)
  then have "inserted_or_updated res + quarantined res =
      int (length bad) + int (length (filter (\<lambda>r. bx_id r \<le> 0) rs)) + int (card {i. 0 < i \<and> i \<in> bx_id ` set rs})"
    using split [OF \<open>\<not> broken ?ref ?ps\<close>] ids by (simp add: n q rejections_def prepare_snd)
  with run show ?thesis
    by (auto simp: upsert_calls_def transaction_def Let_def)
qed

lemma upsert_never_stops_witness:
  "\<exists>res w'. upsert_calls demo_outside demo_fence [demo_call 5, demo_call 0] None [(None, ''missing_id'')] demo_world = (Inr res, w') \<and>
    inserted_or_updated res + quarantined res = 3"
proof -
  have "fence_holds demo_fence (interfere demo_outside (ticks demo_world) (store demo_world))"
    by (simp add: demo_outside_def demo_world_def demo_store_fence)
  moreover have "\<forall>r \<in> set [demo_call 5, demo_call 0]. refuses demo_outside (ticks demo_world) r \<noteq> Some OtherFault"
    by (simp add: demo_outside_def)
  moreover have "{i::int. 0 < i \<and> i \<in> bx_id ` set [demo_call 5, demo_call 0]} = {5}"
    by (auto simp: demo_call_def)
  ultimately show ?thesis
    using upsert_never_stops [of demo_fence demo_outside demo_world "[demo_call 5, demo_call 0]" None "[(None, ''missing_id'')]"]
    by (simp add: demo_call_def)
qed

text \<open>
  Storing the same rows twice is storing them once: every column of every stored row is as
  after the first time, but for the moment of the last synchronisation.
\<close>

theorem upsert_idempotent:
  assumes "upsert_calls c f rs cursor bad w = (Inr res, w1)" and "upsert_calls c f rs cursor' bad' w1 = (Inr res', w2)"
    and "calls (interfere c (ticks w1) (store w1)) = calls (store w1)" and "refuses c (ticks w1) = refuses c (ticks w)"
  shows "map_option (\<lambda>x. x\<lparr>last_synced_at := t\<rparr>) (map_of (calls (store w2)) k) =
    map_option (\<lambda>x. x\<lparr>last_synced_at := t\<rparr>) (map_of (calls (store w1)) k)"
proof -
  obtain p i where k: "k = (p, i)" by (cases k)
  let ?s = "interfere c (ticks w) (store w)" and ?s1 = "interfere c (ticks w1) (store w1)"
  have run: "upsert_body c f rs cursor bad (ticks w) ?s = Inr (res, store w1)"
    "upsert_body c f rs cursor' bad' (ticks w1) ?s1 = Inr (res', store w2)"
    using assms(1,2) unfolding upsert_calls_def by (auto elim!: transaction_cases)
  show ?thesis
    using upsert_body_calls [OF run(1), of p i] upsert_body_calls [OF run(2), of p i] assms(3,4)
    by (cases "p = portal_id f") (auto simp: k stored_after_again option.map_comp intro!: option.map_cong0)
qed

lemma upsert_idempotent_witness:
  "\<exists>w1 w2 res res'. upsert_calls demo_outside demo_fence [demo_call 5] None [] demo_world = (Inr res, w1) \<and>
    upsert_calls demo_outside demo_fence [demo_call 5] None [] w1 = (Inr res', w2) \<and>
    map_option (\<lambda>x. x\<lparr>last_synced_at := 0\<rparr>) (map_of (calls (store w2)) (1, 5)) =
      map_option (\<lambda>x. x\<lparr>last_synced_at := 0\<rparr>) (map_of (calls (store w1)) (1, 5))"
proof -
  have held: "fence_holds demo_fence (store demo_world)"
    by (simp add: demo_world_def demo_store_fence)
  obtain res s1 where run1: "upsert_calls demo_outside demo_fence [demo_call 5] None [] demo_world =
      (Inr res, demo_world\<lparr>store := s1, ticks := Suc (ticks demo_world)\<rparr>)" and held1: "fence_holds demo_fence s1"
    by (rule demo_upsert [OF held, of None "[demo_call 5]" "[]"]) (auto simp: cursor_of_def)
  let ?w1 = "demo_world\<lparr>store := s1, ticks := Suc (ticks demo_world)\<rparr>"
  have "fence_holds demo_fence (store ?w1)"
    using held1 by simp
  then obtain res' s2 where run2: "upsert_calls demo_outside demo_fence [demo_call 5] None [] ?w1 =
      (Inr res', ?w1\<lparr>store := s2, ticks := Suc (ticks ?w1)\<rparr>)"
    by (rule demo_upsert [of ?w1 None "[demo_call 5]" "[]"]) (auto simp: cursor_of_def)
  have "calls (interfere demo_outside (ticks ?w1) (store ?w1)) = calls (store ?w1)"
    "refuses demo_outside (ticks ?w1) = refuses demo_outside (ticks demo_world)"
    by (simp_all add: demo_outside_def)
  from upsert_idempotent [OF run1 run2 this] run1 run2 show ?thesis by blast
qed

text \<open>
  C38 Chunks, savepoints and the row by row retry are invisible: for rows with distinct ids they
  write exactly the rows the database takes, report exactly the refused ones, and fail exactly
  when one row meets a failure of the database itself.
\<close>

theorem chunking_invisible:
  assumes "distinct (map bx_id rs)"
  shows "write_chunks refused pid rs s =
    (if \<exists>r \<in> set rs. refused r = Some OtherFault then Inl DatabaseError
     else let kept = filter (\<lambda>r. refused r = None) rs
          in Inr (int (length kept), List.map_filter (fault_of refused) rs, fold (write_one pid) kept s))"
  using write_chunks_spec [OF assms] by (simp add: written_spec_def broken_def taken_def Let_def)

definition picky :: "call_row \<Rightarrow> db_fault option" where
  "picky r = (if bx_id r = 7 then Some (RowFault ''numeric_overflow'') else None)"

lemma chunking_invisible_witness:
  "write_chunks picky 1 [demo_call 5, demo_call 7] demo_store =
     Inr (1, [(Some 7, ''numeric_overflow'')], write_one 1 (demo_call 5) demo_store)"
proof -
  have ids: "bx_id (demo_call i) = i" for i
    by (simp add: demo_call_def)
  have "distinct (map bx_id [demo_call 5, demo_call 7])"
    by (simp add: ids)
  from chunking_invisible [OF this, of picky 1 demo_store] show ?thesis
    by (simp add: picky_def fault_of_def ids)
qed

end
