(* ===== verification/Throttle.thy ===== *)
theory Throttle
  imports Store
begin

text \<open>
  The decisions of \<open>api/app/sync/throttle.py\<close>: what one observation of a portal's limits
  means for its schedule, as column updates, and the pacing between two requests. Seconds are
  exact rationals; a date beyond the calendar is Python's \<open>OverflowError\<close>.
\<close>

section \<open>Constants and settings\<close>

definition default_operating_limit :: rat where "default_operating_limit = 480"
definition max_operating_limit :: rat where "max_operating_limit = 3600"
definition default_batch_pages :: int where "default_batch_pages = 20"
definition min_batch_pages :: int where "min_batch_pages = 5"
definition clean_visits_to_recover :: int where "clean_visits_to_recover = 5"
definition base_backoff :: rat where "base_backoff = 2"
definition max_backoff :: rat where "max_backoff = 300"
definition max_retry_after :: rat where "max_retry_after = 3600"
definition reset_grace :: rat where "reset_grace = 60"
definition attribution_ratio :: rat where "attribution_ratio = 8 / 10"
definition failure_base_backoff :: rat where "failure_base_backoff = 60"
definition failure_max_backoff :: rat where "failure_max_backoff = 3600"
definition throttle_failures_before_pause :: int where "throttle_failures_before_pause = 10"
definition throttle_failure_pause :: rat where "throttle_failure_pause = 6 * 3600"
definition max_backoff_exponent :: int where "max_backoff_exponent = 32"

lemmas throttle_constants = default_operating_limit_def max_operating_limit_def default_batch_pages_def
  min_batch_pages_def clean_visits_to_recover_def base_backoff_def max_backoff_def max_retry_after_def
  reset_grace_def attribution_ratio_def failure_base_backoff_def failure_max_backoff_def
  throttle_failures_before_pause_def throttle_failure_pause_def max_backoff_exponent_def

record settings =
  operating_soft_ratio :: rat
  operating_limit_floor :: rat
  sync_rate_per_sec :: rat

definition settings_ok :: "settings \<Rightarrow> bool" where
  "settings_ok g \<longleftrightarrow> 0 < operating_soft_ratio g \<and> operating_soft_ratio g \<le> 1 \<and>
     1 \<le> operating_limit_floor g \<and> 0 < sync_rate_per_sec g"

section \<open>What an error carries\<close>

definition error_code :: "bitrix_error option \<Rightarrow> string option" where
  "error_code e =
     (case e of None \<Rightarrow> None
      | Some b \<Rightarrow>
          (let c = take 64 (strip (if err_code b = [] then class_name (err_class b) else err_code b))
           in if c = [] then None else Some c))"

definition error_text :: "bitrix_error option \<Rightarrow> string option" where
  "error_text e =
     (case e of None \<Rightarrow> None
      | Some b \<Rightarrow> (let t = take 1000 (error_str b) in if t = [] then None else Some t))"

definition retry_after :: "bitrix_error option \<Rightarrow> (py_error, rat option) result" where
  "retry_after e =
     (case e of None \<Rightarrow> Inr None
      | Some b \<Rightarrow> rbind (as_float (get_field (err_payload b) ''retry_after''))
                    (\<lambda>v. Inr (map_option (\<lambda>q. max 0 (min q max_retry_after)) v)))"

section \<open>State and decisions\<close>

record throttle_state =
  ts_batch_pages :: int
  ts_clean_visits :: int
  ts_throttle_hits :: int
  ts_consecutive_failures :: int
  ts_operating_seconds :: "rat option"
  ts_operating_reset_at :: "rat option"
  ts_operating_limit :: rat

definition clamp_limit :: "settings \<Rightarrow> rat \<Rightarrow> rat" where
  "clamp_limit g l = max (operating_limit_floor g) (min l max_operating_limit)"

definition state_from_row ::
  "settings \<Rightarrow> sync_row \<Rightarrow> (string, json) dict option \<Rightarrow> (py_error, throttle_state) result" where
  "state_from_row g r capabilities =
     rbind (as_float (case capabilities of None \<Rightarrow> JNone | Some d \<Rightarrow> get_field d ''operating_limit_s'')) (\<lambda>raw.
     Inr \<lparr>ts_batch_pages = max 1 (min (batch_pages r) 50), ts_clean_visits = clean_visits r,
          ts_throttle_hits = throttle_hits r, ts_consecutive_failures = consecutive_failures r,
          ts_operating_seconds = map_option round2 (operating_seconds r),
          ts_operating_reset_at = operating_reset_at r,
          ts_operating_limit = clamp_limit g (case raw of None \<Rightarrow> default_operating_limit | Some l \<Rightarrow> l)\<rparr>)"

definition soft_limit :: "settings \<Rightarrow> throttle_state \<Rightarrow> rat" where
  "soft_limit g st = operating_soft_ratio g * ts_operating_limit st"

definition halved_batch_pages :: "throttle_state \<Rightarrow> int" where
  "halved_batch_pages st = max min_batch_pages (ts_batch_pages st div 2)"

text \<open>The columns a decision writes; \<open>None\<close> leaves the column alone.\<close>

record updates =
  up_operating_seconds :: "rat option"
  up_operating_reset_at :: "rat option"
  up_next_run_at :: "rat option"
  up_throttle_hits :: "int option"
  up_clean_visits :: "int option"
  up_batch_pages :: "int option"
  up_consecutive_failures :: "int option"
  up_last_error :: "(string option \<times> string option \<times> rat) option"

definition no_updates :: updates where
  "no_updates = \<lparr>up_operating_seconds = None, up_operating_reset_at = None, up_next_run_at = None,
     up_throttle_hits = None, up_clean_visits = None, up_batch_pages = None,
     up_consecutive_failures = None, up_last_error = None\<rparr>"

record decision =
  dc_updates :: updates
  dc_stop_visit :: bool
  dc_operating_limit :: "rat option"
  dc_delay :: "rat option"
  dc_reason :: string

definition go_on :: "updates \<Rightarrow> string \<Rightarrow> decision" where
  "go_on u why = \<lparr>dc_updates = u, dc_stop_visit = False, dc_operating_limit = None, dc_delay = None, dc_reason = why\<rparr>"

definition add_seconds :: "rat \<Rightarrow> rat \<Rightarrow> (py_error, rat) result" where
  "add_seconds t s = (if in_datetime (t + s) then Inr (t + s) else Inl OverflowError)"

definition resume_at :: "rat \<Rightarrow> rat option \<Rightarrow> (py_error, rat \<times> rat) result" where
  "resume_at now reset_at =
     (let base = (case reset_at of None \<Rightarrow> now | Some t \<Rightarrow> if t < now then now else t)
      in rbind (add_seconds base reset_grace) (\<lambda>resume. Inr (resume, resume - now)))"

definition throttle_updates :: "throttle_state \<Rightarrow> bitrix_error option \<Rightarrow> rat \<Rightarrow> updates" where
  "throttle_updates st e now =
     no_updates\<lparr>up_throttle_hits := Some (ts_throttle_hits st + 1), up_clean_visits := Some 0,
       up_batch_pages := Some (halved_batch_pages st),
       up_last_error := Some (error_code e, error_text e, now)\<rparr>"

definition or_else :: "'a option \<Rightarrow> 'a option \<Rightarrow> 'a option" where
  "or_else a b = (case a of None \<Rightarrow> b | Some _ \<Rightarrow> a)"

section \<open>The decisions\<close>

definition observe_time_block ::
  "(string \<Rightarrow> (rat \<times> rat option) option) \<Rightarrow> settings \<Rightarrow> throttle_state \<Rightarrow> block option \<Rightarrow> rat \<Rightarrow> (py_error, decision) result" where
  "observe_time_block isod g st b now =
     rbind (read_time_block isod b) (\<lambda>(operating, reset_at).
       let u = no_updates\<lparr>up_operating_seconds := operating, up_operating_reset_at := reset_at\<rparr>
       in case operating of
            None \<Rightarrow> Inr (go_on u [])
          | Some used \<Rightarrow>
              if used \<le> soft_limit g st then Inr (go_on u [])
              else rbind (resume_at now (or_else reset_at (ts_operating_reset_at st))) (\<lambda>(resume, delay).
                Inr \<lparr>dc_updates = u\<lparr>up_next_run_at := Some resume, up_throttle_hits := Some (ts_throttle_hits st + 1),
                                   up_clean_visits := Some 0, up_batch_pages := Some (halved_batch_pages st)\<rparr>,
                     dc_stop_visit = True, dc_operating_limit = None, dc_delay = Some delay,
                     dc_reason = ''operating_soft_limit''\<rparr>))"

definition on_operation_time_limit ::
  "(string \<Rightarrow> (rat \<times> rat option) option) \<Rightarrow> settings \<Rightarrow> throttle_state \<Rightarrow> bitrix_error option \<Rightarrow> rat \<Rightarrow> (py_error, decision) result" where
  "on_operation_time_limit isod g st e now =
     rbind (read_time_block isod (case e of None \<Rightarrow> None | Some b \<Rightarrow> fields_of (get_field (err_payload b) ''time''))) (\<lambda>(_, error_reset).
     rbind (resume_at now (or_else error_reset (ts_operating_reset_at st))) (\<lambda>(resume0, delay0).
     rbind (retry_after e) (\<lambda>retry.
     rbind (case retry of
              None \<Rightarrow> Inr (resume0, delay0)
            | Some q \<Rightarrow> if delay0 < q then rbind (add_seconds now q) (\<lambda>t. Inr (t, q)) else Inr (resume0, delay0)) (\<lambda>(resume, delay).
       let u = (throttle_updates st e now)\<lparr>up_next_run_at := Some resume, up_operating_reset_at := error_reset\<rparr>;
           limit = ts_operating_limit st;
           ours = (case ts_operating_seconds st of None \<Rightarrow> None
                   | Some used \<Rightarrow> if attribution_ratio * limit \<le> used then Some used else None);
           candidate = (case ours of None \<Rightarrow> limit | Some used \<Rightarrow> max (operating_limit_floor g) (min used limit))
       in Inr \<lparr>dc_updates = u, dc_stop_visit = True,
               dc_operating_limit = (if candidate < limit then Some candidate else None),
               dc_delay = Some delay,
               dc_reason = (if ours = None then ''foreign_429'' else ''operation_time_limit'')\<rparr>))))"

definition backoff :: "rat \<Rightarrow> rat \<Rightarrow> int \<Rightarrow> rat" where
  "backoff base ceiling_s n = min ceiling_s (base * 2 ^ nat (max 0 (min n max_backoff_exponent)))"

definition on_query_limit ::
  "throttle_state \<Rightarrow> bitrix_error option \<Rightarrow> rat \<Rightarrow> int \<Rightarrow> (py_error, decision) result" where
  "on_query_limit st e now attempt =
     rbind (retry_after e) (\<lambda>retry.
       let delay = max base_backoff (case retry of None \<Rightarrow> backoff base_backoff max_backoff attempt | Some q \<Rightarrow> q)
       in rbind (add_seconds now delay) (\<lambda>t.
          Inr \<lparr>dc_updates = (throttle_updates st e now)\<lparr>up_next_run_at := Some t\<rparr>, dc_stop_visit = True,
               dc_operating_limit = None, dc_delay = Some delay, dc_reason = ''query_limit''\<rparr>))"

definition on_transient_failure ::
  "throttle_state \<Rightarrow> bitrix_error option \<Rightarrow> rat \<Rightarrow> (py_error, decision) result" where
  "on_transient_failure st e now =
     (let failures = ts_consecutive_failures st + 1;
          paused = throttle_failures_before_pause \<le> failures;
          delay = (if paused then throttle_failure_pause else backoff failure_base_backoff failure_max_backoff (failures - 1))
      in rbind (add_seconds now delay) (\<lambda>t.
         Inr \<lparr>dc_updates = no_updates\<lparr>up_consecutive_failures := Some failures, up_clean_visits := Some 0,
                up_next_run_at := Some t, up_last_error := Some (error_code e, error_text e, now)\<rparr>,
              dc_stop_visit = True, dc_operating_limit = None, dc_delay = Some delay,
              dc_reason = (if paused then ''failure_pause'' else ''transient_failure'')\<rparr>))"

definition on_error ::
  "(string \<Rightarrow> (rat \<times> rat option) option) \<Rightarrow> settings \<Rightarrow> throttle_state \<Rightarrow> bitrix_error \<Rightarrow> rat \<Rightarrow> int \<Rightarrow> (py_error, decision) result" where
  "on_error isod g st e now attempt =
     (if err_class e = OperationTimeLimit then on_operation_time_limit isod g st (Some e) now
      else if err_class e = QueryLimitExceeded then on_query_limit st (Some e) now attempt
      else on_transient_failure st (Some e) now)"

definition on_clean_visit :: "throttle_state \<Rightarrow> rat option \<Rightarrow> decision" where
  "on_clean_visit st next_run =
     (let visits = ts_clean_visits st + 1;
          recovered = clean_visits_to_recover \<le> visits;
          pages = (if recovered \<and> ts_batch_pages st < default_batch_pages then Some default_batch_pages else None);
          limit = (if recovered \<and> ts_operating_limit st < default_operating_limit then Some default_operating_limit else None)
      in \<lparr>dc_updates = no_updates\<lparr>up_consecutive_failures := Some 0,
             up_clean_visits := Some (if recovered then 0 else visits), up_batch_pages := pages,
             up_next_run_at := next_run\<rparr>,
          dc_stop_visit = False, dc_operating_limit = limit, dc_delay = None,
          dc_reason = (if pages \<noteq> None \<or> limit \<noteq> None then ''recovered'' else ''clean'')\<rparr>)"

text \<open>What the updates do to the row when the caller writes them under the fence.\<close>

definition set_opt :: "'a option \<Rightarrow> 'a \<Rightarrow> 'a" where
  "set_opt new old = (case new of None \<Rightarrow> old | Some v \<Rightarrow> v)"

definition apply_updates :: "updates \<Rightarrow> sync_row \<Rightarrow> sync_row" where
  "apply_updates u r =
     (let r1 = r\<lparr>operating_seconds := or_else (up_operating_seconds u) (operating_seconds r),
                 operating_reset_at := or_else (up_operating_reset_at u) (operating_reset_at r),
                 next_run_at := set_opt (map_option At (up_next_run_at u)) (next_run_at r),
                 throttle_hits := set_opt (up_throttle_hits u) (throttle_hits r),
                 clean_visits := set_opt (up_clean_visits u) (clean_visits r),
                 batch_pages := set_opt (up_batch_pages u) (batch_pages r),
                 consecutive_failures := set_opt (up_consecutive_failures u) (consecutive_failures r)\<rparr>
      in case up_last_error u of None \<Rightarrow> r1
         | Some (c, t, moment) \<Rightarrow> r1\<lparr>last_error_code := c, last_error_text := t, last_error_at := Some moment\<rparr>)"

section \<open>Pacing\<close>

text \<open>
  \<open>PortalPacer.wait\<close>: the slot reserved, given what the clock shows before and after a sleep.
  \<open>None\<close> is the initial \<open>-inf\<close>.
\<close>

definition min_interval :: "settings \<Rightarrow> rat" where
  "min_interval g = 1 / sync_rate_per_sec g"

definition pacer_wait :: "settings \<Rightarrow> rat option \<Rightarrow> rat \<Rightarrow> rat \<Rightarrow> rat \<times> rat \<times> rat option" where
  "pacer_wait g next_allowed before after =
     (let remaining = (case next_allowed of None \<Rightarrow> 0 | Some t \<Rightarrow> t - before);
          slot = (if 0 < remaining then max after (case next_allowed of None \<Rightarrow> before | Some t \<Rightarrow> t) else before)
      in (slot, max 0 remaining, Some (slot + min_interval g)))"

fun pacer_slots :: "settings \<Rightarrow> rat option \<Rightarrow> (rat \<times> rat) list \<Rightarrow> rat list" where
  "pacer_slots g st [] = []"
| "pacer_slots g st ((before, after) # cs) =
     (let (slot, _, st') = pacer_wait g st before after in slot # pacer_slots g st' cs)"

section \<open>Lemmas\<close>

lemma resume_at_Inr:
  "resume_at now reset = Inr (resume, delay) \<Longrightarrow>
   now + reset_grace \<le> resume \<and> delay = resume - now \<and> in_datetime resume"
  by (auto simp: resume_at_def add_seconds_def Let_def rbind_Inr_iff split: option.splits if_splits)

lemma retry_after_range: "retry_after e = Inr (Some q) \<Longrightarrow> 0 \<le> q \<and> q \<le> max_retry_after"
  by (auto simp: retry_after_def rbind_Inr_iff max_retry_after_def split: option.splits)

lemma backoff_range:
  assumes "0 \<le> base" and "base \<le> ceiling_s"
  shows "base \<le> backoff base ceiling_s n \<and> backoff base ceiling_s n \<le> ceiling_s"
proof -
  have "base * 1 \<le> base * 2 ^ nat (max 0 (min n max_backoff_exponent))"
    using assms(1) by (intro mult_left_mono) simp_all
  with assms show ?thesis by (simp add: backoff_def)
qed

text \<open>A parked portal comes back later than now, whatever the answer said.\<close>

lemma observe_parks:
  assumes "observe_time_block isod g st b now = Inr d" and "dc_stop_visit d"
  obtains resume where "up_next_run_at (dc_updates d) = Some resume" "now + reset_grace \<le> resume"
    "dc_delay d = Some (resume - now)" "up_consecutive_failures (dc_updates d) = None"
    "up_batch_pages (dc_updates d) = Some (halved_batch_pages st)" "dc_operating_limit d = None"
  using assms
  by (auto simp: observe_time_block_def rbind_Inr_iff Let_def go_on_def no_updates_def
      dest!: resume_at_Inr split: option.splits if_splits)

lemma operation_limit_parks:
  assumes "on_operation_time_limit isod g st e now = Inr d"
  obtains resume where "up_next_run_at (dc_updates d) = Some resume" "now + reset_grace \<le> resume"
    "dc_delay d = Some (resume - now)" "dc_stop_visit d" "up_consecutive_failures (dc_updates d) = None"
    "up_batch_pages (dc_updates d) = Some (halved_batch_pages st)"
    "up_throttle_hits (dc_updates d) = Some (ts_throttle_hits st + 1)"
proof -
  obtain reset resume0 delay0 retry resume delay where r0: "resume_at now reset = Inr (resume0, delay0)"
    and r: "(case retry of None \<Rightarrow> Inr (resume0, delay0)
       | Some q \<Rightarrow> if delay0 < q then rbind (add_seconds now q) (\<lambda>t. Inr (t, q)) else Inr (resume0, delay0))
       = Inr (resume, delay)"
    and d: "up_next_run_at (dc_updates d) = Some resume" "dc_delay d = Some delay" "dc_stop_visit d"
      "up_consecutive_failures (dc_updates d) = None" "up_batch_pages (dc_updates d) = Some (halved_batch_pages st)"
      "up_throttle_hits (dc_updates d) = Some (ts_throttle_hits st + 1)"
    using assms
    by (auto simp: on_operation_time_limit_def rbind_Inr_iff Let_def throttle_updates_def no_updates_def)
  have "now + reset_grace \<le> resume \<and> delay = resume - now"
    using r resume_at_Inr [OF r0]
    by (auto simp: rbind_Inr_iff add_seconds_def split: option.splits if_splits)
  with d that show thesis by simp
qed

lemma operation_limit_eq:
  assumes "on_operation_time_limit isod g st e now = Inr d"
  shows "\<exists>ours candidate. dc_operating_limit d = (if candidate < ts_operating_limit st then Some candidate else None) \<and>
    ours = (case ts_operating_seconds st of None \<Rightarrow> None
            | Some used \<Rightarrow> if attribution_ratio * ts_operating_limit st \<le> used then Some used else None) \<and>
    candidate = (case ours of None \<Rightarrow> ts_operating_limit st
                 | Some used \<Rightarrow> max (operating_limit_floor g) (min used (ts_operating_limit st)))"
  using assms by (auto simp: on_operation_time_limit_def rbind_Inr_iff Let_def)

lemma operation_limit_learns:
  assumes "on_operation_time_limit isod g st e now = Inr d" and "dc_operating_limit d = Some l"
  shows "operating_limit_floor g \<le> l \<and> l < ts_operating_limit st \<and>
    (\<exists>used. ts_operating_seconds st = Some used \<and> attribution_ratio * ts_operating_limit st \<le> used)"
  using operation_limit_eq [OF assms(1)] assms(2)
  by (auto split: option.splits if_splits)

lemma query_limit_parks:
  assumes "on_query_limit st e now attempt = Inr d"
  obtains resume where "up_next_run_at (dc_updates d) = Some resume" "now + base_backoff \<le> resume"
    "resume \<le> now + max_retry_after" "dc_delay d = Some (resume - now)" "dc_stop_visit d"
    "up_consecutive_failures (dc_updates d) = None"
    "up_batch_pages (dc_updates d) = Some (halved_batch_pages st)" "dc_operating_limit d = None"
proof -
  obtain retry where retry: "retry_after e = Inr retry"
    and d: "rbind (add_seconds now (max base_backoff (case retry of None \<Rightarrow> backoff base_backoff max_backoff attempt | Some q \<Rightarrow> q)))
      (\<lambda>t. Inr \<lparr>dc_updates = (throttle_updates st e now)\<lparr>up_next_run_at := Some t\<rparr>, dc_stop_visit = True,
               dc_operating_limit = None,
               dc_delay = Some (max base_backoff (case retry of None \<Rightarrow> backoff base_backoff max_backoff attempt | Some q \<Rightarrow> q)),
               dc_reason = ''query_limit''\<rparr>) = Inr d"
    using assms by (auto simp: on_query_limit_def rbind_Inr_iff Let_def)
  define delay where "delay = max base_backoff (case retry of None \<Rightarrow> backoff base_backoff max_backoff attempt | Some q \<Rightarrow> q)"
  have "base_backoff \<le> delay \<and> delay \<le> max_retry_after"
  proof (cases retry)
    case None
    then show ?thesis
      using backoff_range [of base_backoff max_backoff attempt]
      by (simp add: delay_def base_backoff_def max_backoff_def max_retry_after_def)
  next
    case (Some q)
    with retry_after_range [of e q] retry show ?thesis
      by (auto simp: delay_def base_backoff_def max_retry_after_def)
  qed
  moreover have "d = \<lparr>dc_updates = (throttle_updates st e now)\<lparr>up_next_run_at := Some (now + delay)\<rparr>, dc_stop_visit = True,
       dc_operating_limit = None, dc_delay = Some delay, dc_reason = ''query_limit''\<rparr>"
    using d unfolding delay_def [symmetric] by (auto simp: rbind_Inr_iff add_seconds_def split: if_splits)
  ultimately show thesis
    by (intro that [of "now + delay"]) (simp_all add: throttle_updates_def no_updates_def)
qed

lemma transient_parks:
  assumes "on_transient_failure st e now = Inr d"
  obtains resume where "up_next_run_at (dc_updates d) = Some resume" "now + failure_base_backoff \<le> resume"
    "resume \<le> now + throttle_failure_pause" "dc_delay d = Some (resume - now)" "dc_stop_visit d"
    "up_consecutive_failures (dc_updates d) = Some (ts_consecutive_failures st + 1)"
    "throttle_failures_before_pause \<le> ts_consecutive_failures st + 1 \<Longrightarrow> resume = now + throttle_failure_pause"
proof -
  let ?n = "ts_consecutive_failures st + 1"
  define delay where "delay = (if throttle_failures_before_pause \<le> ?n then throttle_failure_pause
    else backoff failure_base_backoff failure_max_backoff (?n - 1))"
  have "failure_base_backoff \<le> delay \<and> delay \<le> throttle_failure_pause"
    using backoff_range [of failure_base_backoff failure_max_backoff "?n - 1"]
    by (auto simp: delay_def failure_base_backoff_def failure_max_backoff_def throttle_failure_pause_def)
  moreover have "up_next_run_at (dc_updates d) = Some (now + delay)" "dc_delay d = Some delay" "dc_stop_visit d"
    "up_consecutive_failures (dc_updates d) = Some ?n"
    using assms by (auto simp: on_transient_failure_def rbind_Inr_iff Let_def delay_def add_seconds_def no_updates_def split: if_splits)
  ultimately show thesis
    by (intro that [of "now + delay"]) (simp_all add: delay_def)
qed

lemma halved_range: "min_batch_pages \<le> halved_batch_pages st \<and>
  (min_batch_pages \<le> ts_batch_pages st \<longrightarrow> halved_batch_pages st \<le> ts_batch_pages st)"
  by (auto simp: halved_batch_pages_def min_batch_pages_def)

lemma pacer_wait_slot:
  "pacer_wait g st before after = (slot, slept, st') \<Longrightarrow>
   st' = Some (slot + min_interval g) \<and> (\<forall>t. st = Some t \<longrightarrow> t \<le> slot) \<and> 0 \<le> slept"
  by (auto simp: pacer_wait_def Let_def split: option.splits if_splits)

lemma pacer_slots_spaced:
  "sorted_wrt (\<lambda>a b. a + min_interval g \<le> b) (pacer_slots g st cs) \<and>
   (\<forall>t. st = Some t \<longrightarrow> (\<forall>s \<in> set (pacer_slots g st cs). t \<le> s))" if "0 \<le> min_interval g"
proof (induction cs arbitrary: st)
  case Nil
  then show ?case by simp
next
  case (Cons p cs)
  obtain before after where p: "p = (before, after)" by (cases p)
  obtain slot slept st' where w: "pacer_wait g st before after = (slot, slept, st')"
    by (cases "pacer_wait g st before after")
  note facts = pacer_wait_slot [OF w]
  then have st': "st' = Some (slot + min_interval g)" and le: "\<And>t. st = Some t \<Longrightarrow> t \<le> slot"
    by simp_all
  have slots: "pacer_slots g st (p # cs) = slot # pacer_slots g st' cs"
    by (simp add: p w)
  have later: "slot + min_interval g \<le> s" if "s \<in> set (pacer_slots g st' cs)" for s
    using Cons.IH [of st'] that st' by blast
  have "t \<le> s" if "st = Some t" "s \<in> set (slot # pacer_slots g st' cs)" for t s
    using le [OF that(1)] that(2) later [of s] \<open>0 \<le> min_interval g\<close> by auto
  with Cons.IH [of st'] later show ?case
    unfolding slots by simp
qed

end
