(* ===== verification/Budgets.thy ===== *)
theory Budgets
  imports Throttle
begin

text \<open>
  \<open>api/app/sync/budgets.py\<close>: the operating-time budget of one method of one portal, decided
  by the functions of the throttle through a view of the row.
\<close>

section \<open>One budget\<close>

record method_budget =
  mb_method :: string
  mb_operating_seconds :: "rat option"
  mb_operating_reset_at :: "rat option"
  mb_blocked_until :: "rat option"
  mb_limit :: "rat option"
  mb_throttle_hits :: int
  mb_clean_visits :: int

definition budget_state :: "settings \<Rightarrow> method_budget \<Rightarrow> throttle_state" where
  "budget_state g b =
     \<lparr>ts_batch_pages = default_batch_pages, ts_clean_visits = mb_clean_visits b,
      ts_throttle_hits = mb_throttle_hits b, ts_consecutive_failures = 0,
      ts_operating_seconds = mb_operating_seconds b, ts_operating_reset_at = mb_operating_reset_at b,
      ts_operating_limit = clamp_limit g (case mb_limit b of None \<Rightarrow> default_operating_limit | Some l \<Rightarrow> l)\<rparr>"

definition blocked :: "method_budget \<Rightarrow> rat \<Rightarrow> bool" where
  "blocked b now \<longleftrightarrow> (case mb_blocked_until b of None \<Rightarrow> False | Some t \<Rightarrow> now < t)"

definition budget_observe ::
  "(string \<Rightarrow> (rat \<times> rat option) option) \<Rightarrow> settings \<Rightarrow> method_budget \<Rightarrow> block option \<Rightarrow> rat \<Rightarrow>
   (py_error, method_budget \<times> bool) result" where
  "budget_observe isod g b block now =
     rbind (observe_time_block isod g (budget_state g b) block now) (\<lambda>d.
       let u = dc_updates d;
           seen = b\<lparr>mb_operating_seconds := or_else (up_operating_seconds u) (mb_operating_seconds b),
                    mb_operating_reset_at := or_else (up_operating_reset_at u) (mb_operating_reset_at b)\<rparr>
       in Inr (if \<not> dc_stop_visit d then (seen, False)
               else (seen\<lparr>mb_blocked_until := up_next_run_at u,
                          mb_throttle_hits := set_opt (up_throttle_hits u) (mb_throttle_hits b),
                          mb_clean_visits := 0\<rparr>, True)))"

definition budget_time_limit ::
  "(string \<Rightarrow> (rat \<times> rat option) option) \<Rightarrow> settings \<Rightarrow> method_budget \<Rightarrow> bitrix_error option \<Rightarrow> rat \<Rightarrow>
   (py_error, method_budget) result" where
  "budget_time_limit isod g b e now =
     rbind (on_operation_time_limit isod g (budget_state g b) e now) (\<lambda>d.
       let u = dc_updates d
       in Inr (b\<lparr>mb_blocked_until := up_next_run_at u,
                 mb_operating_reset_at := or_else (up_operating_reset_at u) (mb_operating_reset_at b),
                 mb_throttle_hits := set_opt (up_throttle_hits u) (mb_throttle_hits b),
                 mb_clean_visits := 0, mb_limit := or_else (dc_operating_limit d) (mb_limit b)\<rparr>))"

definition budget_clean_visit :: "settings \<Rightarrow> method_budget \<Rightarrow> method_budget" where
  "budget_clean_visit g b =
     (let d = on_clean_visit (budget_state g b) None
      in b\<lparr>mb_clean_visits := set_opt (up_clean_visits (dc_updates d)) (mb_clean_visits b),
           mb_limit := (if dc_operating_limit d \<noteq> None then None else mb_limit b)\<rparr>)"

section \<open>The table\<close>

definition method_max :: nat where "method_max = 64"

definition smallint_max :: int where "smallint_max = 32767"

text \<open>
  Rows keyed by portal and method; the stored limit is rounded to two decimals, the method
  name and the counter clipped to their columns.
\<close>

type_synonym budget_table = "(int \<times> string, method_budget) dict"

definition load_budgets :: "int \<Rightarrow> budget_table \<Rightarrow> (string, method_budget) dict" where
  "load_budgets pid t = map (\<lambda>((p, m), b). (m, b)) (filter (\<lambda>((p, m), b). p = pid) t)"

definition stored_budget :: "method_budget \<Rightarrow> method_budget" where
  "stored_budget b =
     b\<lparr>mb_method := take method_max (mb_method b), mb_limit := map_option round2 (mb_limit b),
       mb_clean_visits := min (mb_clean_visits b) smallint_max\<rparr>"

text \<open>One statement: the database refuses it when two rows have the same key.\<close>

definition store_budgets :: "int \<Rightarrow> method_budget list \<Rightarrow> budget_table \<Rightarrow> (exn, budget_table) result" where
  "store_budgets pid bs t =
     (let rs = map stored_budget bs
      in if \<not> distinct (map mb_method rs) then Inl DatabaseError
         else Inr (fold (\<lambda>b. dict_set (pid, mb_method b) b) rs t))"

section \<open>Lemmas\<close>

lemma budget_clean_visit_counts:
  "mb_clean_visits (budget_clean_visit g b) =
     (if clean_visits_to_recover \<le> mb_clean_visits b + 1 then 0 else mb_clean_visits b + 1)"
  "mb_limit (budget_clean_visit g b) =
     (if clean_visits_to_recover \<le> mb_clean_visits b + 1 \<and>
         ts_operating_limit (budget_state g b) < default_operating_limit then None else mb_limit b)"
  by (simp_all add: budget_clean_visit_def on_clean_visit_def budget_state_def Let_def set_opt_def no_updates_def)

lemma load_budgets_lookup: "map_of (load_budgets pid t) m = map_of t (pid, m)"
  by (induction t) (auto simp: load_budgets_def)

lemma fold_budget_lookup:
  assumes "distinct (map mb_method rs)"
  shows "map_of (fold (\<lambda>b. dict_set (pid, mb_method b) b) rs t) (p, m) =
    (if p = pid then (case find (\<lambda>b. mb_method b = m) rs of Some b \<Rightarrow> Some b | None \<Rightarrow> map_of t (p, m))
     else map_of t (p, m))"
  using assms
proof (induction rs arbitrary: t)
  case Nil
  then show ?case by simp
next
  case (Cons r rs)
  have "mb_method r = m \<Longrightarrow> find (\<lambda>b. mb_method b = m) rs = None"
    using Cons.prems by (auto simp: find_None_iff image_iff)
  with Cons show ?case
    by (auto simp: map_of_dict_set split: option.split)
qed

end
