(* ===== verification/Limit_Properties.thy ===== *)
theory Limit_Properties
  imports Budgets
begin

text \<open>
  The properties of the throttle and of the method budgets: a portal that hit a limit is asked
  again later, being throttled is not a failure, the learnt limit only falls when the portal's
  own work explains the answer and comes back after clean visits, and requests are spaced.
\<close>

section \<open>The throttle\<close>



definition sample_settings :: settings where
  "sample_settings = \<lparr>operating_soft_ratio = 7 / 10, operating_limit_floor = 60, sync_rate_per_sec = 2\<rparr>"

definition sample_state :: throttle_state where
  "sample_state = \<lparr>ts_batch_pages = 20, ts_clean_visits = 3, ts_throttle_hits = 1, ts_consecutive_failures = 2,
     ts_operating_seconds = Some 400, ts_operating_reset_at = None, ts_operating_limit = 480\<rparr>"

definition time_limit_error :: bitrix_error where
  "time_limit_error = classify (Some ''OPERATION_TIME_LIMIT'') (Some 429) [] []"


lemma time_limit_payload: "err_payload time_limit_error = []"
  by (simp add: time_limit_error_def)

lemma sample_time_limit:
  "\<exists>d. on_operation_time_limit (\<lambda>_. None) sample_settings sample_state (Some time_limit_error) 1714560000 = Inr d \<and>
     dc_operating_limit d = Some 400"
  by (simp add: on_operation_time_limit_def time_limit_payload get_field_def read_time_block_def
      resume_at_def add_seconds_def in_datetime_def datetime_min_def datetime_max_def or_else_def
      retry_after_def as_float_def Let_def sample_state_def sample_settings_def throttle_constants)


text \<open>
  The operating limit learnt from an exhausted time budget stays between the configured floor
  and the limit in force, and is learnt only when the portal's own measured use explains the
  answer; a limit caused by another application teaches nothing.
\<close>

theorem limit_learnt_from_own_use:
  assumes "on_operation_time_limit isod g st e now = Inr d" and "dc_operating_limit d = Some l"
  shows "operating_limit_floor g \<le> l \<and> l < ts_operating_limit st \<and>
    (\<exists>used. ts_operating_seconds st = Some used \<and> attribution_ratio * ts_operating_limit st \<le> used)"
  using assms by (rule operation_limit_learns)

lemma limit_learnt_from_own_use_witness: "operating_limit_floor sample_settings \<le> 400 \<and> (400 :: rat) < ts_operating_limit sample_state"
proof -
  obtain d where "on_operation_time_limit (\<lambda>_. None) sample_settings sample_state (Some time_limit_error) 1714560000 = Inr d"
    "dc_operating_limit d = Some 400"
    using sample_time_limit by blast
  from limit_learnt_from_own_use [OF this] show ?thesis by blast
qed

text \<open>
  Observed use above the soft limit parks the portal until after the reset, at least the grace
  ahead; use at or below it, or none measured, lets the visit go on and changes no schedule.
\<close>

theorem soft_limit_parks:
  assumes "observe_time_block isod g st b now = Inr d" and "read_time_block isod b = Inr (operating, reset_at)"
  shows "if (case operating of None \<Rightarrow> False | Some used \<Rightarrow> soft_limit g st < used)
    then dc_stop_visit d \<and> (\<exists>resume. up_next_run_at (dc_updates d) = Some resume \<and> now + reset_grace \<le> resume \<and>
        (case or_else reset_at (ts_operating_reset_at st) of None \<Rightarrow> True | Some t \<Rightarrow> t + reset_grace \<le> resume)) \<and>
      up_consecutive_failures (dc_updates d) = None
    else \<not> dc_stop_visit d \<and> up_next_run_at (dc_updates d) = None \<and> up_throttle_hits (dc_updates d) = None"
proof (cases "case operating of None \<Rightarrow> False | Some used \<Rightarrow> soft_limit g st < used")
  case True
  then obtain used resume delay where r: "resume_at now (or_else reset_at (ts_operating_reset_at st)) = Inr (resume, delay)"
    "up_next_run_at (dc_updates d) = Some resume" "dc_stop_visit d" "up_consecutive_failures (dc_updates d) = None"
    using assms by (auto simp: observe_time_block_def rbind_Inr_iff Let_def no_updates_def split: option.splits)
  have "case or_else reset_at (ts_operating_reset_at st) of None \<Rightarrow> True | Some t \<Rightarrow> t + reset_grace \<le> resume"
    using r(1) by (auto simp: resume_at_def add_seconds_def Let_def rbind_Inr_iff split: option.splits if_splits)
  with r resume_at_Inr [OF r(1)] True show ?thesis by simp
next
  case False
  with assms show ?thesis
    by (auto simp: observe_time_block_def rbind_Inr_iff Let_def go_on_def no_updates_def split: option.splits if_splits)
qed

definition busy_block :: block where
  "busy_block = [(''operating'', JFloat (Fin 400)), (''operating_reset_at'', JFloat (Fin 1714560500))]"

lemma busy_read: "read_time_block (\<lambda>_. None) (Some busy_block) = Inr (Some 400, Some 1714560500)"
  by code_simp

lemma busy_observed: "\<exists>d. observe_time_block (\<lambda>_. None) sample_settings sample_state (Some busy_block) 1714560000 = Inr d"
  by (simp add: observe_time_block_def busy_read soft_limit_def sample_settings_def sample_state_def resume_at_def
      or_else_def add_seconds_def in_datetime_def datetime_min_def datetime_max_def reset_grace_def Let_def)

lemma soft_limit_parks_witness:
  "\<exists>d resume. observe_time_block (\<lambda>_. None) sample_settings sample_state (Some busy_block) 1714560000 = Inr d \<and>
    up_next_run_at (dc_updates d) = Some resume \<and> 1714560560 \<le> resume"
proof -
  obtain d where d: "observe_time_block (\<lambda>_. None) sample_settings sample_state (Some busy_block) 1714560000 = Inr d"
    using busy_observed by blast
  have "soft_limit sample_settings sample_state < 400"
    by (simp add: soft_limit_def sample_settings_def sample_state_def)
  with soft_limit_parks [OF d busy_read] d show ?thesis
    by (auto simp: or_else_def reset_grace_def)
qed

text \<open>
  What a clean visit leaves for the next one: its updates applied to the row, its limit, when
  it says one, to the portal's capabilities.
\<close>

definition after_clean :: "throttle_state \<Rightarrow> throttle_state" where
  "after_clean st =
     (let d = on_clean_visit st None; u = dc_updates d
      in st\<lparr>ts_batch_pages := set_opt (up_batch_pages u) (ts_batch_pages st),
            ts_clean_visits := set_opt (up_clean_visits u) (ts_clean_visits st),
            ts_consecutive_failures := set_opt (up_consecutive_failures u) (ts_consecutive_failures st),
            ts_operating_limit := set_opt (dc_operating_limit d) (ts_operating_limit st)\<rparr>)"

lemma after_clean_eq:
  "after_clean st = (if clean_visits_to_recover \<le> ts_clean_visits st + 1
     then st\<lparr>ts_batch_pages := max (ts_batch_pages st) default_batch_pages, ts_clean_visits := 0,
             ts_consecutive_failures := 0, ts_operating_limit := max (ts_operating_limit st) default_operating_limit\<rparr>
     else st\<lparr>ts_clean_visits := ts_clean_visits st + 1, ts_consecutive_failures := 0\<rparr>)"
  by (simp add: after_clean_def on_clean_visit_def no_updates_def set_opt_def Let_def max_def)

lemma after_clean_counts:
  "ts_clean_visits st = 0 \<Longrightarrow> n \<le> 4 \<Longrightarrow>
   (after_clean ^^ n) st = (if n = 0 then st else st\<lparr>ts_clean_visits := int n, ts_consecutive_failures := 0\<rparr>)"
  by (induction n) (auto simp: after_clean_eq clean_visits_to_recover_def)

text \<open>
  C37 Five clean visits after a throttle, and not fewer, restore the default batch size and the
  default operating limit.
\<close>

theorem five_clean_visits_recover:
  assumes "ts_clean_visits st = 0"
  shows "ts_batch_pages ((after_clean ^^ 5) st) = max (ts_batch_pages st) default_batch_pages \<and>
    ts_operating_limit ((after_clean ^^ 5) st) = max (ts_operating_limit st) default_operating_limit \<and>
    ts_clean_visits ((after_clean ^^ 5) st) = 0 \<and> ts_consecutive_failures ((after_clean ^^ 5) st) = 0 \<and>
    (\<forall>n \<in> {0..4}. ts_batch_pages ((after_clean ^^ n) st) = ts_batch_pages st \<and>
       ts_operating_limit ((after_clean ^^ n) st) = ts_operating_limit st)"
proof -
  have "(after_clean ^^ 5) st = after_clean ((after_clean ^^ 4) st)"
    by (simp add: numeral_eq_Suc)
  also have "\<dots> = after_clean (st\<lparr>ts_clean_visits := 4, ts_consecutive_failures := 0\<rparr>)"
    by (simp add: after_clean_counts [OF assms])
  finally show ?thesis
    using after_clean_counts [OF assms] by (simp add: after_clean_eq clean_visits_to_recover_def)
qed

lemma five_clean_visits_recover_witness:
  "ts_batch_pages ((after_clean ^^ 5) (sample_state\<lparr>ts_clean_visits := 0, ts_batch_pages := 5\<rparr>)) = 20"
  using five_clean_visits_recover [of "sample_state\<lparr>ts_clean_visits := 0, ts_batch_pages := 5\<rparr>"]
  by (simp add: default_batch_pages_def)

text \<open>
  Two requests of one portal reserve slots at least one interval apart, whatever the clock
  shows before and after each sleep.
\<close>

theorem requests_are_spaced:
  assumes "settings_ok g"
  shows "sorted_wrt (\<lambda>a b. a + 1 / sync_rate_per_sec g \<le> b) (pacer_slots g st clocks) \<and>
    length (pacer_slots g st clocks) = length clocks"
proof -
  have "0 \<le> min_interval g"
    using assms by (simp add: settings_ok_def min_interval_def)
  moreover have "length (pacer_slots g st clocks) = length clocks"
    by (induction clocks arbitrary: st) (auto split: prod.splits)
  ultimately show ?thesis
    using pacer_slots_spaced [of g st clocks] by (simp add: min_interval_def)
qed

lemma requests_are_spaced_witness:
  "sorted_wrt (\<lambda>a b. a + 1 / 2 \<le> b) (pacer_slots sample_settings None [(0, 0), (0, 1 / 4), (10, 10)])"
proof -
  have "settings_ok sample_settings"
    by (simp add: settings_ok_def sample_settings_def)
  from requests_are_spaced [OF this, of None "[(0, 0), (0, 1 / 4), (10, 10)]"] show ?thesis
    by (simp add: sample_settings_def)
qed

section \<open>The method budgets\<close>

text \<open>
  A method whose time budget was exhausted is blocked from that moment until at least the
  grace has passed, and its other measurements survive.
\<close>

theorem method_blocked_after_limit:
  assumes "budget_time_limit isod g b e now = Inr b'" and "now \<le> t" and "t < now + reset_grace"
  shows "blocked b' t \<and> mb_method b' = mb_method b \<and> mb_throttle_hits b' = mb_throttle_hits b + 1 \<and>
    mb_operating_seconds b' = mb_operating_seconds b"
proof -
  obtain d where d: "on_operation_time_limit isod g (budget_state g b) e now = Inr d"
    and b': "b' = (let u = dc_updates d
        in b\<lparr>mb_blocked_until := up_next_run_at u,
             mb_operating_reset_at := or_else (up_operating_reset_at u) (mb_operating_reset_at b),
             mb_throttle_hits := set_opt (up_throttle_hits u) (mb_throttle_hits b),
             mb_clean_visits := 0, mb_limit := or_else (dc_operating_limit d) (mb_limit b)\<rparr>)"
    using assms(1) by (auto simp: budget_time_limit_def rbind_Inr_iff Let_def)
  show ?thesis
    by (rule operation_limit_parks [OF d])
      (use assms(3) in \<open>auto simp: b' blocked_def Let_def set_opt_def budget_state_def\<close>)
qed

definition sample_budget :: method_budget where
  "sample_budget = \<lparr>mb_method = ''crm.item.list'', mb_operating_seconds = Some 100, mb_operating_reset_at = None,
     mb_blocked_until = None, mb_limit = None, mb_throttle_hits = 0, mb_clean_visits = 2\<rparr>"

lemma sample_budget_limit: "\<exists>b'. budget_time_limit (\<lambda>_. None) sample_settings sample_budget None 1714560000 = Inr b'"
  by (simp add: budget_time_limit_def on_operation_time_limit_def read_time_block_def
      resume_at_def add_seconds_def in_datetime_def datetime_min_def datetime_max_def or_else_def
      retry_after_def Let_def budget_state_def sample_budget_def reset_grace_def)

lemma method_blocked_after_limit_witness:
  "\<exists>b'. budget_time_limit (\<lambda>_. None) sample_settings sample_budget None 1714560000 = Inr b' \<and> blocked b' 1714560030"
proof -
  obtain b' where b': "budget_time_limit (\<lambda>_. None) sample_settings sample_budget None 1714560000 = Inr b'"
    using sample_budget_limit by blast
  from method_blocked_after_limit [OF b', of 1714560030] b' show ?thesis
    by (simp add: reset_grace_def)
qed

text \<open>
  What the budgets of one portal store is what it loads again, rounded and clipped as its
  columns are; budgets not named in the statement, and every other portal's, are untouched.
\<close>

theorem budgets_roundtrip:
  assumes "store_budgets pid bs t = Inr t'"
  shows "map_of (load_budgets p t') m =
    (if p = pid
     then (case find (\<lambda>b. mb_method b = m) (map stored_budget bs) of
             Some b \<Rightarrow> Some b | None \<Rightarrow> map_of (load_budgets p t) m)
     else map_of (load_budgets p t) m)"
proof -
  have "distinct (map mb_method (map stored_budget bs))"
    and "t' = fold (\<lambda>b. dict_set (pid, mb_method b) b) (map stored_budget bs) t"
    using assms by (auto simp: store_budgets_def Let_def split: if_splits)
  then show ?thesis
    by (auto simp only: load_budgets_lookup fold_budget_lookup)
qed

lemma budgets_roundtrip_witness:
  "\<exists>t'. store_budgets 1 [sample_budget] [((2, ''m''), sample_budget)] = Inr t' \<and>
    map_of (load_budgets 1 t') ''crm.item.list'' = Some (stored_budget sample_budget) \<and>
    map_of (load_budgets 2 t') ''m'' = Some sample_budget"
proof -
  obtain t' where t': "store_budgets 1 [sample_budget] [((2, ''m''), sample_budget)] = Inr t'"
    by (simp add: store_budgets_def Let_def)
  have m: "mb_method (stored_budget sample_budget) = ''crm.item.list''"
    by (simp add: stored_budget_def sample_budget_def method_max_def)
  from budgets_roundtrip [OF t', of 1 "''crm.item.list''"] budgets_roundtrip [OF t', of 2 "''m''"] t' m
  show ?thesis by (simp add: load_budgets_lookup)
qed

end
