(* ===== verification/Incremental.thy ===== *)
theory Incremental
  imports Demo
begin

text \<open>
  \<open>api/app/sync/incremental.py\<close>: the forward cursor, a probe that sizes the batch after it,
  and the ageing of the rescan bound.
\<close>

section \<open>One fetch forward\<close>

definition max_loops_per_visit :: nat where
  "max_loops_per_visit = 10"

record incremental_outcome =
  inc_high_id :: int
  inc_rescan_from_id :: "int option"
  inc_upserted :: int
  inc_quarantined :: int
  inc_rejected :: nat
  inc_requests :: nat
  inc_loops :: nat
  inc_errors :: "bitrix_error list"
  inc_blocked :: bool
  inc_stopped :: bool
  inc_more :: bool

text \<open>\<open>math.ceil(total / 50) - 1\<close>, kept within the batch.\<close>

definition pages_to_pack :: "fetch_outcome \<Rightarrow> nat \<Rightarrow> nat" where
  "pages_to_pack o' limit =
     (if \<not> has_next o' then 0
      else case total o' of
        None \<Rightarrow> limit
      | Some n \<Rightarrow> nat (max 0 (min (\<lceil>rat_of_int n / rat_of_nat page_size\<rceil> - 1) (int limit))))"

definition forward_cursor :: "rat \<Rightarrow> int \<Rightarrow> int \<Rightarrow> sync_row \<Rightarrow> sync_row" where
  "forward_cursor stamp cursor highest r =
     (let r1 = r\<lparr>last_incremental_at := Some stamp\<rparr>
      in if cursor < highest then r1\<lparr>high_id := highest\<rparr> else r1)"

definition highest_of :: "fetch_outcome \<Rightarrow> int \<Rightarrow> int" where
  "highest_of o' cursor = (case max_opt (prefix_bx_ids o') of None \<Rightarrow> cursor | Some m \<Rightarrow> m)"

definition advance ::
  "'o sync_outside_scheme \<Rightarrow> fence \<Rightarrow> fetch_outcome \<Rightarrow> int \<Rightarrow> (int \<times> int \<times> int) sync_prog" where
  "advance c f o' cursor =
     (let highest = highest_of o' cursor
      in andThen (if rows o' \<noteq> [] \<or> rejected o' \<noteq> []
                  then andThen (worker_now c) (\<lambda>stamp.
                       commit_progress c f (rows o') (Some (forward_cursor stamp cursor highest)) (rejected o'))
                  else ret (0, 0)) (\<lambda>(up, quar).
         andThen (if extra_rows o' \<noteq> [] then commit_progress c f (extra_rows o') None [] else ret (0, 0)) (\<lambda>(up', quar').
         ret (max highest cursor, up + up', quar + quar'))))"

section \<open>The rescan bound\<close>

text \<open>The greatest id stored before the cut-off, above the bound.\<close>

definition aged_candidate :: "int \<Rightarrow> rat \<Rightarrow> int option \<Rightarrow> store \<Rightarrow> int option" where
  "aged_candidate pid cutoff bound s =
     max_opt (map (snd \<circ> fst) (filter (\<lambda>((p, i), r). p = pid \<and> first_seen_at r \<le> cutoff \<and>
                                   (case bound of None \<Rightarrow> True | Some b \<Rightarrow> b < i)) (calls s)))"

definition rescan_cursor :: "rat \<Rightarrow> int option \<Rightarrow> sync_row \<Rightarrow> sync_row" where
  "rescan_cursor stamp moved r =
     (let r1 = r\<lparr>last_incremental_at := Some stamp\<rparr>
      in case moved of None \<Rightarrow> r1 | Some _ \<Rightarrow> r1\<lparr>rescan_from_id := moved\<rparr>)"

definition age_body :: "fence \<Rightarrow> rat \<Rightarrow> rat \<Rightarrow> int option \<Rightarrow> int option body" where
  "age_body f cutoff stamp bound = (\<lambda>t s.
     let candidate = aged_candidate (portal_id f) cutoff bound s;
         moved = (case candidate of None \<Rightarrow> None
                  | Some i \<Rightarrow> (case bound of None \<Rightarrow> Some i | Some b \<Rightarrow> if b < i then Some i else None))
     in rbind (fenced_update f (\<lambda>_. rescan_cursor stamp moved) s) (\<lambda>s'. Inr (moved, s')))"

definition age_rescan_bound ::
  "'o sync_outside_scheme \<Rightarrow> fence \<Rightarrow> int option \<Rightarrow> int \<Rightarrow> int option sync_prog" where
  "age_rescan_bound c f bound window_hours =
     andThen (worker_now c) (\<lambda>now.
       let cutoff = now - rat_of_int (max 1 window_hours) * 3600
       in transaction c (age_body f cutoff now bound))"

section \<open>The visit\<close>

definition inc_count :: "int \<times> int \<Rightarrow> nat \<Rightarrow> incremental_outcome \<Rightarrow> incremental_outcome" where
  "inc_count added bad st =
     st\<lparr>inc_upserted := inc_upserted st + fst added, inc_quarantined := inc_quarantined st + snd added,
        inc_rejected := inc_rejected st + bad\<rparr>"

definition inc_blocked_by ::
  "'o sync_outside_scheme \<Rightarrow> fence \<Rightarrow> string \<Rightarrow> incremental_outcome \<Rightarrow> (bool \<times> incremental_outcome) sync_prog" where
  "inc_blocked_by c f v st =
     andThen (block_on_filter_violation c f v ''incremental'') (\<lambda>_. ret (False, st\<lparr>inc_blocked := True\<rparr>))"

text \<open>The end of an iteration: heartbeat, forward progress or stop, more pages or stop, pacing.\<close>

definition inc_finish ::
  "'o sync_outside_scheme \<Rightarrow> fence \<Rightarrow> int \<Rightarrow> fetch_outcome \<Rightarrow> incremental_outcome \<Rightarrow> (bool \<times> incremental_outcome) sync_prog" where
  "inc_finish c f base last_read st =
     andThen (heartbeat c f) (\<lambda>_.
     if inc_high_id st \<le> base then ret (False, st)
     else if \<not> has_next last_read then ret (False, st)
     else andThen (should_continue c (time_block last_read)) (\<lambda>go.
          ret (if go then (True, st) else (False, st\<lparr>inc_stopped := True\<rparr>))))"

text \<open>The batch packed behind the probe.\<close>

definition inc_pack ::
  "'o sync_outside_scheme \<Rightarrow> client \<Rightarrow> fence \<Rightarrow> int \<Rightarrow> nat \<Rightarrow> incremental_outcome \<Rightarrow> (bool \<times> incremental_outcome) sync_prog" where
  "inc_pack c cl f base pack st =
     andThen (fetch_pages c cl [(''>ID'', JInt base)] sort_field order_asc (page_starts pack (int page_size)) None) (\<lambda>b.
     let st1 = st\<lparr>inc_requests := inc_requests st + 1\<rparr>
     in andThen (raise_if_token_expired (errors b)) (\<lambda>_.
        case filter_violation b of
          Some v \<Rightarrow> inc_blocked_by c f v st1
        | None \<Rightarrow>
            andThen (advance c f b (inc_high_id st)) (\<lambda>(cursor, added).
            let st2 = inc_count added (length (rejected b)) st1\<lparr>inc_high_id := cursor\<rparr>
            in if errors b \<noteq> [] then ret (False, st2\<lparr>inc_errors := inc_errors st2 @ errors b\<rparr>)
               else inc_finish c f base b st2)))"

text \<open>One iteration; \<open>True\<close> goes on, \<open>False\<close> is a break.\<close>

definition inc_step ::
  "'o sync_outside_scheme \<Rightarrow> client \<Rightarrow> fence \<Rightarrow> nat \<Rightarrow> incremental_outcome \<Rightarrow> (bool \<times> incremental_outcome) sync_prog" where
  "inc_step c cl f limit st =
     (let base = inc_high_id st
      in andThen (fetch_pages c cl [(''>ID'', JInt base)] sort_field order_asc [0] None) (\<lambda>probe.
         let st1 = st\<lparr>inc_loops := inc_loops st + 1, inc_requests := inc_requests st + 1\<rparr>
         in andThen (raise_if_token_expired (errors probe)) (\<lambda>_.
            case filter_violation probe of
              Some v \<Rightarrow> inc_blocked_by c f v st1
            | None \<Rightarrow>
                andThen (advance c f probe base) (\<lambda>(cursor, added).
                let st2 = inc_count added (length (rejected probe)) st1\<lparr>inc_high_id := cursor\<rparr>
                in if errors probe \<noteq> [] then ret (False, st2\<lparr>inc_errors := inc_errors st2 @ errors probe\<rparr>)
                   else if rows probe = [] \<and> rejected probe = [] then ret (False, st2)
                   else let pack = pages_to_pack probe limit
                        in if pack = 0 then inc_finish c f base probe st2
                           else andThen (should_continue c (time_block probe)) (\<lambda>go.
                                if go then inc_pack c cl f base pack st2
                                else ret (False, st2\<lparr>inc_stopped := True\<rparr>))))))"

definition inc_start :: "int \<Rightarrow> int option \<Rightarrow> incremental_outcome" where
  "inc_start high bound =
     \<lparr>inc_high_id = high, inc_rescan_from_id = bound, inc_upserted = 0, inc_quarantined = 0, inc_rejected = 0,
      inc_requests = 0, inc_loops = 0, inc_errors = [], inc_blocked = False, inc_stopped = False, inc_more = False\<rparr>"

definition run_incremental ::
  "'o sync_outside_scheme \<Rightarrow> client \<Rightarrow> fence \<Rightarrow> int \<Rightarrow> int \<Rightarrow> int option \<Rightarrow> int \<Rightarrow> int \<Rightarrow> incremental_outcome sync_prog" where
  "run_incremental c cl f high pages_allowed bound window_hours max_loops =
     andThen (for_else (nat (max 1 max_loops)) (inc_step c cl f (clamp_pages pages_allowed))
                (\<lambda>st. st\<lparr>inc_more := True\<rparr>) (inc_start high bound)) (\<lambda>st.
     if inc_blocked st then ret st
     else andThen (age_rescan_bound c f bound window_hours) (\<lambda>moved.
          ret (case moved of None \<Rightarrow> st | Some _ \<Rightarrow> st\<lparr>inc_rescan_from_id := moved\<rparr>)))"

section \<open>What a visit reports is what it stored\<close>

definition cursor_is :: "int \<Rightarrow> int option \<Rightarrow> cursors \<Rightarrow> bool" where
  "cursor_is h bound = (\<lambda>(high, _, from, _, _). high = h \<and> from = bound)"

lemma forward_cursor_image:
  "image_of (forward_cursor t cursor highest) (cursor_is cursor bound) x \<Longrightarrow> cursor_is (max highest cursor) bound x"
  by (auto simp: image_of_def cursor_is_def cursors_def forward_cursor_def Let_def max_def split: if_splits)

lemma highest_of_None: "rows o' = [] \<Longrightarrow> rejected o' = [] \<Longrightarrow> highest_of o' cursor = cursor"
  by (simp add: highest_of_def prefix_bx_ids_def max_opt_def)

lemma triple_at_weaken:
  assumes "triple (at_request (owned f h) n) m Q E" and "\<And>x. g x \<Longrightarrow> h x"
  shows "triple (at_request (owned f g) n) m Q E"
  by (rule triple_conseq [OF assms(1)]) (auto simp: at_request_def elim: owned_weaken assms(2))

lemma triple_advance:
  assumes ex: "exclusive c f"
  shows "triple (at_request (owned f (cursor_is cursor bound)) n) (advance c f o' cursor)
    (\<lambda>(h, _) w. at_request (owned f (cursor_is h bound)) n w \<and> h = max (highest_of o' cursor) cursor) raises"
proof -
  let ?h = "max (highest_of o' cursor) cursor"
  let ?Q = "\<lambda>(h, _) w. at_request (owned f (cursor_is h bound)) n w \<and> h = ?h"
  have rest: "triple (at_request (owned f (cursor_is ?h bound)) n)
      (andThen (if extra_rows o' \<noteq> [] then commit_progress c f (extra_rows o') None [] else ret (0, 0))
        (\<lambda>(up', quar'). ret (?h, up + up', quar + quar'))) ?Q raises" for up quar
    by (cases "extra_rows o' \<noteq> []")
      (auto intro!: triple_rules ex triple_ret
        simp: at_request_def image_of_def cursor_of_def elim!: owned_weaken)
  show ?thesis
  proof (cases "rows o' \<noteq> [] \<or> rejected o' \<noteq> []")
    case True
    have step: "triple (at_request (owned f (cursor_is cursor bound)) n)
        (commit_progress c f (rows o') (Some (forward_cursor t cursor (highest_of o' cursor))) (rejected o'))
        (\<lambda>_. at_request (owned f (cursor_is ?h bound)) n) raises" for t
      by (rule triple_conseq [OF triple_commit_progress [OF ex]])
        (auto simp: at_request_def cursor_of_def elim!: owned_weaken forward_cursor_image)
    show ?thesis
      unfolding advance_def Let_def if_P [OF True] andThen_assoc
      by (intro seq_now triple_andThen [OF step] triple_case_prod) (rule rest)
  next
    case False
    then show ?thesis
      using rest [of 0 0] by (simp add: advance_def Let_def highest_of_None)
  qed
qed

lemma seq_advance [triple_rules]:
  assumes "exclusive c f"
    and "\<And>h added. h = max (highest_of o' cursor) cursor \<Longrightarrow>
      triple (at_request (owned f (cursor_is h bound)) n) (k (h, added)) Q raises"
  shows "triple (at_request (owned f (cursor_is cursor bound)) n) (andThen (advance c f o' cursor) k) Q raises"
  by (rule triple_andThen [OF triple_advance [OF assms(1)]])
    (auto simp: split_beta intro!: triple_pull dest: assms(2))

text \<open>An iteration: at most two requests, never a step back, and another only after progress.\<close>

definition inc_progress :: "incremental_outcome \<Rightarrow> bool \<Rightarrow> incremental_outcome \<Rightarrow> bool" where
  "inc_progress st go st' \<longleftrightarrow>
     inc_high_id st \<le> inc_high_id st' \<and> (go \<longrightarrow> inc_high_id st < inc_high_id st') \<and>
     inc_loops st' = inc_loops st + 1 \<and> inc_requests st' \<le> inc_requests st + 2 \<and>
     inc_more st' = inc_more st \<and> inc_rescan_from_id st' = inc_rescan_from_id st"

definition inc_at :: "fence \<Rightarrow> nat \<Rightarrow> incremental_outcome \<Rightarrow> world \<Rightarrow> bool" where
  "inc_at f n st = at_request (owned f (cursor_is (inc_high_id st) (inc_rescan_from_id st))) (n + inc_requests st)"

lemma triple_inc_ret:
  assumes "inc_progress st0 go st" and "g = cursor_is (inc_high_id st) (inc_rescan_from_id st)" and "k = n + inc_requests st"
  shows "triple (at_request (owned f g) k) (ret (go, st)) (\<lambda>(go, st) w. inc_at f n st w \<and> inc_progress st0 go st) raises"
  using assms by (intro triple_ret) (simp add: inc_at_def)

lemma inc_count_simps [simp]:
  "inc_high_id (inc_count a b st) = inc_high_id st" "inc_requests (inc_count a b st) = inc_requests st"
  "inc_loops (inc_count a b st) = inc_loops st" "inc_rescan_from_id (inc_count a b st) = inc_rescan_from_id st" "inc_more (inc_count a b st) = inc_more st"
  by (simp_all add: inc_count_def)

lemma triple_inc_pack:
  assumes ex: "exclusive c f"
    and "g = cursor_is (inc_high_id st) (inc_rescan_from_id st)" and "k = n + inc_requests st"
    and "\<And>go st'. inc_high_id st \<le> inc_high_id st' \<Longrightarrow> (go \<Longrightarrow> b < inc_high_id st') \<Longrightarrow>
        inc_loops st' = inc_loops st \<Longrightarrow> inc_requests st' = inc_requests st + 1 \<Longrightarrow>
        inc_more st' = inc_more st \<Longrightarrow> inc_rescan_from_id st' = inc_rescan_from_id st \<Longrightarrow> inc_progress st0 go st'"
  shows "triple (at_request (owned f g) k) (inc_pack c cl f b pack st)
    (\<lambda>(go, st') w. inc_at f n st' w \<and> inc_progress st0 go st') raises"
  unfolding assms(2,3) inc_pack_def inc_finish_def inc_blocked_by_def Let_def if_distrib [of ret]
  by (intro triple_rules ex triple_inc_ret assms(4)) auto

lemma triple_inc_step:
  assumes ex: "exclusive c f"
  shows "triple (inc_at f n st) (inc_step c cl f limit st)
    (\<lambda>(go, st') w. inc_at f n st' w \<and> inc_progress st go st') raises"
  unfolding inc_at_def [of f n st] inc_step_def inc_finish_def inc_blocked_by_def Let_def if_distrib [of ret]
  by (intro triple_rules ex triple_inc_ret triple_inc_pack) (auto simp: inc_progress_def)

lemma seq_age_rescan_bound [triple_rules]:
  assumes "exclusive c f"
    and "\<And>moved. triple (at_request (owned f (cursor_is h (case moved of None \<Rightarrow> bound | Some _ \<Rightarrow> moved))) n) (k moved) Q raises"
  shows "triple (at_request (owned f (cursor_is h bound)) n) (andThen (age_rescan_bound c f from_id hours) k) Q raises"
proof -
  have body: "owned f (cursor_is h (case moved of None \<Rightarrow> bound | Some _ \<Rightarrow> moved)) s'"
    if g: "owned f (cursor_is h bound) s" and run: "age_body f cutoff stamp from_id t s = Inr (moved, s')"
    for cutoff stamp t s moved s'
  proof -
    from run have held: "fence_holds f s" and s': "s' = update_sync (portal_id f) (rescan_cursor stamp moved) s"
      unfolding age_body_def Let_def by (simp_all only: rbind_Inr_iff fenced_update_Inr prod.inject Inr_inject) auto
    show ?thesis
      by (rule owned_update [OF g held, where move = "rescan_cursor stamp moved"])
        (cases moved; simp add: s' rescan_cursor_def cursor_is_def cursors_def)+
  qed
  show ?thesis
    unfolding age_rescan_bound_def Let_def andThen_assoc
    by (intro seq_now triple_andThen [OF triple_transaction [OF stable_owned [OF assms(1)]]])
      (assumption | rule body assms(2))+
qed

definition inc_reported :: "int \<Rightarrow> nat \<Rightarrow> incremental_outcome \<Rightarrow> bool" where
  "inc_reported high n o' \<longleftrightarrow>
     high \<le> inc_high_id o' \<and> inc_loops o' \<le> n \<and> inc_requests o' \<le> 2 * inc_loops o' \<and>
     (inc_more o' \<longrightarrow> inc_loops o' = n \<and> high + int n \<le> inc_high_id o')"

lemma triple_run_incremental:
  assumes ex: "exclusive c f"
  shows "triple (at_request (owned f (cursor_is high bound)) n)
    (run_incremental c cl f high pages_allowed bound hours max_loops)
    (\<lambda>o' w. inc_at f n o' w \<and> inc_reported high (nat (max 1 max_loops)) o') raises"
proof -
  let ?N = "nat (max 1 max_loops)"
  define I where "I k st w \<longleftrightarrow> inc_at f n st w \<and> inc_rescan_from_id st = bound \<and> \<not> inc_more st \<and>
      inc_loops st + k = ?N \<and> inc_requests st \<le> 2 * inc_loops st \<and> high + int (inc_loops st) \<le> inc_high_id st" for k st w
  define R where "R st w \<longleftrightarrow> inc_at f n st w \<and> inc_rescan_from_id st = bound \<and> inc_reported high ?N st" for st w
  let ?start = "\<lambda>k st. inc_rescan_from_id st = bound \<and> \<not> inc_more st \<and> inc_loops st + k = ?N \<and>
      inc_requests st \<le> 2 * inc_loops st \<and> high + int (inc_loops st) \<le> inc_high_id st"
  have step: "triple (I (Suc k) st) (inc_step c cl f (clamp_pages pages_allowed) st)
      (\<lambda>(go, st'). if go then I k st' else R st') raises" for k st
  proof -
    have "triple (\<lambda>w. inc_at f n st w \<and> ?start (Suc k) st) (inc_step c cl f (clamp_pages pages_allowed) st)
      (\<lambda>(go, st'). if go then I k st' else R st') raises"
      by (rule triple_pull, rule triple_conseq [OF triple_inc_step [OF ex, of n st]])
        (auto simp: I_def R_def inc_progress_def inc_reported_def)
    then show ?thesis
      by (rule triple_conseq) (auto simp: I_def)
  qed
  have loop: "triple (at_request (owned f (cursor_is high bound)) n)
      (for_else ?N (inc_step c cl f (clamp_pages pages_allowed)) (\<lambda>st. st\<lparr>inc_more := True\<rparr>) (inc_start high bound))
      R raises"
  proof (rule triple_conseq [OF triple_for_else [where I = I and Q = R, OF step]])
    show "at_request (owned f (cursor_is high bound)) n s \<Longrightarrow> I ?N (inc_start high bound) s" for s
      by (simp add: I_def inc_at_def inc_start_def)
    show "I 0 st w \<Longrightarrow> R (st\<lparr>inc_more := True\<rparr>) w" for st w
      by (auto simp: I_def R_def inc_at_def inc_reported_def)
  qed
  show ?thesis
    unfolding run_incremental_def
  proof (rule triple_andThen [OF loop])
    fix st
    have "triple (\<lambda>w. inc_at f n st w \<and> inc_rescan_from_id st = bound \<and> inc_reported high ?N st)
      (if inc_blocked st then ret st
       else andThen (age_rescan_bound c f bound hours) (\<lambda>moved.
            ret (case moved of None \<Rightarrow> st | Some _ \<Rightarrow> st\<lparr>inc_rescan_from_id := moved\<rparr>)))
      (\<lambda>o' w. inc_at f n o' w \<and> inc_reported high ?N o') raises"
      by (rule triple_pull, unfold inc_at_def [of f n st])
        (intro triple_rules ex triple_ret, auto simp: inc_at_def inc_reported_def split: option.split)
    then show "triple (R st)
      (if inc_blocked st then ret st
       else andThen (age_rescan_bound c f bound hours) (\<lambda>moved.
            ret (case moved of None \<Rightarrow> st | Some _ \<Rightarrow> st\<lparr>inc_rescan_from_id := moved\<rparr>)))
      (\<lambda>o' w. inc_at f n o' w \<and> inc_reported high ?N o') raises"
      by (rule triple_conseq) (auto simp: R_def)
  qed
qed

section \<open>The visit of the demo portal\<close>

lemma inc_portal_irrelevant:
  "advance (c\<lparr>portal := p\<rparr>) = advance c" "age_rescan_bound (c\<lparr>portal := p\<rparr>) = age_rescan_bound c"
  "inc_finish (c\<lparr>portal := p\<rparr>) = inc_finish c"
  unfolding advance_def age_rescan_bound_def inc_finish_def portal_irrelevant by simp_all

lemma demo_incremental_run:
  assumes c: "c = demo_outside\<lparr>portal := p\<rparr>"
    and f: "fetch_pages c demo_client [(''>ID'', JInt 4)] sort_field order_asc [0] None demo_world =
      (Inr demo_outcome, demo_world\<lparr>requests := reqs, rest_log := log_rows\<rparr>)"
  obtains o' w' where "run_incremental c demo_client demo_fence 4 20 (Some 2) 72 10 demo_world = (Inr o', w')"
    and "inc_high_id o' = 7" "fence_holds demo_fence (store w')"
    and "inc_errors o' = []" "\<not> inc_blocked o'" "\<not> inc_stopped o'" "\<not> inc_more o'"
proof -
  let ?w1 = "demo_world\<lparr>requests := reqs, rest_log := log_rows\<rparr>"
  have hi: "highest_of demo_outcome 4 = 7"
    by (simp add: highest_of_def demo_ids max_opt_def)
  obtain up quar s1 where rs: "commit_progress demo_outside demo_fence [demo_call 5, demo_call 7]
      (Some (forward_cursor 1714560000 4 7)) [] ?w1 = (Inr (up, quar), ?w1\<lparr>store := s1, ticks := Suc (ticks ?w1)\<rparr>)"
    and s1: "fence_holds demo_fence s1"
    by (rule demo_progress [of ?w1 "[demo_call 5, demo_call 7]" "Some (forward_cursor 1714560000 4 7)" "[]"])
      (auto simp: demo_world_def demo_store_fence cursor_of_def forward_cursor_def Let_def)
  let ?w2 = "?w1\<lparr>store := s1, ticks := Suc (ticks ?w1)\<rparr>"
  obtain s2 where hb: "heartbeat demo_outside demo_fence ?w2 = (Inr (), ?w2\<lparr>store := s2, ticks := Suc (ticks ?w2)\<rparr>)"
    and s2: "fence_holds demo_fence s2"
    by (rule demo_heartbeat [of ?w2]) (simp_all add: s1)
  let ?w3 = "?w2\<lparr>store := s2, ticks := Suc (ticks ?w2)\<rparr>"
  have adv: "advance demo_outside demo_fence demo_outcome 4 ?w1 = (Inr (7, up, quar), ?w2)"
    using rs hi by (simp add: advance_def Let_def prog_defs demo_now)
  have fin: "inc_finish demo_outside demo_fence 4 demo_outcome st ?w2 = (Inr (False, st), ?w3)" for st
    using hb by (simp add: inc_finish_def prog_defs)
  have adv_c: "advance c = advance demo_outside" and fin_c: "inc_finish c = inc_finish demo_outside"
    and go_c: "should_continue c = should_continue demo_outside" and age_c: "age_rescan_bound c = age_rescan_bound demo_outside"
    by (simp_all add: c portal_irrelevant inc_portal_irrelevant)
  obtain st where step: "inc_step c demo_client demo_fence (clamp_pages 20) (inc_start 4 (Some 2)) demo_world = (Inr (False, st), ?w3)"
    and st: "inc_high_id st = 7" "\<not> inc_blocked st" "inc_errors st = []" "\<not> inc_stopped st" "\<not> inc_more st"
    using f adv fin
    by (simp add: adv_c fin_c go_c inc_step_def Let_def inc_start_def andThen_def demo_not_expired pages_to_pack_def inc_count_def
        raise_if_token_expired_def skip_def ret_def)
  have held3: "fence_holds demo_fence (store ?w3)"
    by (simp add: s2)
  have "\<exists>mv s4. age_body demo_fence cut stamp (Some 2) (ticks ?w3) (store ?w3) = Inr (mv, s4) \<and> fence_holds demo_fence s4"
    for cut stamp
    using held3 fence_holds_update [OF held3, of "rescan_cursor stamp moved" for moved]
    by (auto simp: age_body_def Let_def fenced_update_def rescan_cursor_def split: option.split)
  then obtain mv s4 where s4: "fence_holds demo_fence s4" and aged: "age_body demo_fence (1714560000 - rat_of_int (max 1 72) * 3600) 1714560000 (Some 2)
      (ticks ?w3) (store ?w3) = Inr (mv, s4)"
    by blast
  from aged have "transaction demo_outside (age_body demo_fence (1714560000 - rat_of_int (max 1 72) * 3600) 1714560000 (Some 2)) ?w3 =
      (Inr mv, ?w3\<lparr>store := s4, ticks := Suc (ticks ?w3)\<rparr>)"
    by (rule demo_transaction)
  then have age: "age_rescan_bound demo_outside demo_fence (Some 2) 72 ?w3 = (Inr mv, ?w3\<lparr>store := s4, ticks := Suc (ticks ?w3)\<rparr>)"
    by (simp add: age_rescan_bound_def Let_def andThen_def demo_now)
  have "nat (max 1 10) = Suc 9" by simp
  then have loop: "for_else (nat (max 1 10)) (inc_step c demo_client demo_fence (clamp_pages 20)) g (inc_start 4 (Some 2)) demo_world =
      (Inr st, ?w3)" for g
    using step by (simp only: for_else.simps) (simp add: andThen_def ret_def)
  show thesis
    by (rule that [of "case mv of None \<Rightarrow> st | Some _ \<Rightarrow> st\<lparr>inc_rescan_from_id := mv\<rparr>"
            "?w3\<lparr>store := s4, ticks := Suc (ticks ?w3)\<rparr>"], unfold run_incremental_def andThen_def loop)
      (use age st s4 in \<open>simp_all add: age_c andThen_def ret_def split: option.split\<close>)
qed

lemma demo_incremental:
  obtains o' w' where "run_incremental demo_outside demo_client demo_fence 4 20 (Some 2) 72 10 demo_world = (Inr o', w')"
    and "inc_high_id o' = 7"
proof -
  have fv: "first_violation (id_checks (render demo_outside) [(''>ID'', JInt 4)]) None [demo_call 5, demo_call 7] = None"
    by (simp add: id_checks_above violation_def demo_call_def)
  obtain reqs log_rows where "fetch_pages demo_outside demo_client [(''>ID'', JInt 4)] sort_field order_asc [0] None demo_world =
    (Inr demo_outcome, demo_world\<lparr>requests := reqs, rest_log := log_rows\<rparr>)"
    by (rule demo_fetched [OF demo_requests(1) fv])
  from demo_incremental_run [of demo_outside "portal demo_outside", OF _ this] that show thesis
    by auto
qed

end
