(* ===== verification/Backfill.thy ===== *)
theory Backfill
  imports Demo
begin

text \<open>
  \<open>api/app/sync/backfill.py\<close>: the backward cursor, moved batch by batch until a fetch shows
  that nothing is left below it.
\<close>

section \<open>One batch\<close>

record backfill_outcome =
  bf_low_id :: int
  bf_status :: backfill_state
  bf_done :: int
  bf_batches :: nat
  bf_upserted :: int
  bf_quarantined :: int
  bf_rejected :: nat
  bf_requests :: nat
  bf_errors :: "bitrix_error list"
  bf_blocked :: bool
  bf_stopped :: bool
  bf_more :: bool

definition backward_cursor :: "rat \<Rightarrow> int \<Rightarrow> int \<Rightarrow> bool \<Rightarrow> sync_row \<Rightarrow> sync_row" where
  "backward_cursor stamp lowest imported exhausted r =
     (let r1 = r\<lparr>low_id := Some lowest, backfill_done := imported\<rparr>
      in if exhausted then r1\<lparr>backfill_status := Done, backfill_finished_at := Some stamp\<rparr> else r1)"

definition finish_cursor :: "rat \<Rightarrow> sync_row \<Rightarrow> sync_row" where
  "finish_cursor stamp r = r\<lparr>backfill_status := Done, backfill_finished_at := Some stamp\<rparr>"

text \<open>A batch without an id the cursor may cross: an unread page, unusable rows, or the end.\<close>

definition bf_no_ids ::
  "'o sync_outside_scheme \<Rightarrow> fence \<Rightarrow> fetch_outcome \<Rightarrow> backfill_outcome \<Rightarrow> (bool \<times> backfill_outcome) sync_prog" where
  "bf_no_ids c f o' st =
     (if prefix_len o' = 0 then ret (False, st\<lparr>bf_errors := bf_errors st @ errors o'\<rparr>)
      else if rows o' \<noteq> [] \<or> rejected o' \<noteq> [] \<or> errors o' \<noteq> [] then
        andThen (commit_progress c f [] None (rejected o')) (\<lambda>(_, quar).
        ret (False, st\<lparr>bf_quarantined := bf_quarantined st + quar, bf_errors := bf_errors st @ errors o'\<rparr>))
      else
        andThen (worker_now c) (\<lambda>stamp.
        andThen (commit_cursor c f (finish_cursor stamp)) (\<lambda>_.
        ret (False, st\<lparr>bf_status := Done\<rparr>))))"

text \<open>A batch that reached below the cursor: rows, then the new cursor with them.\<close>

definition bf_descend ::
  "'o sync_outside_scheme \<Rightarrow> fence \<Rightarrow> fetch_outcome \<Rightarrow> int \<Rightarrow> backfill_outcome \<Rightarrow> (bool \<times> backfill_outcome) sync_prog" where
  "bf_descend c f o' lowest st =
     (let imported = bf_done st + int (length (prefix_bx_ids o'));
          exhausted = (\<not> has_next o' \<and> errors o' = [])
      in andThen (worker_now c) (\<lambda>stamp.
         andThen (commit_progress c f (rows o') (Some (backward_cursor stamp lowest imported exhausted)) (rejected o')) (\<lambda>(up, quar).
         andThen (if extra_rows o' \<noteq> [] then commit_progress c f (extra_rows o') None [] else ret (0, 0)) (\<lambda>(up', quar').
         let st1 = st\<lparr>bf_low_id := lowest, bf_status := (if exhausted then Done else bf_status st), bf_done := imported,
                      bf_upserted := bf_upserted st + up + up', bf_quarantined := bf_quarantined st + quar + quar'\<rparr>
         in andThen (heartbeat c f) (\<lambda>_.
            if errors o' \<noteq> [] then ret (False, st1\<lparr>bf_errors := bf_errors st1 @ errors o'\<rparr>)
            else if exhausted then ret (False, st1)
            else andThen (should_continue c (time_block o')) (\<lambda>go.
                 if go then ret (True, st1) else ret (False, st1\<lparr>bf_stopped := True\<rparr>)))))))"

definition bf_step ::
  "'o sync_outside_scheme \<Rightarrow> client \<Rightarrow> fence \<Rightarrow> nat \<Rightarrow> backfill_outcome \<Rightarrow> (bool \<times> backfill_outcome) sync_prog" where
  "bf_step c cl f limit st =
     (let floor_id = bf_low_id st
      in andThen (fetch_pages c cl [(''<ID'', JInt floor_id)] sort_field order_desc (page_starts limit 0) None) (\<lambda>o'.
         let st1 = st\<lparr>bf_batches := bf_batches st + 1, bf_requests := bf_requests st + 1\<rparr>
         in andThen (raise_if_token_expired (errors o')) (\<lambda>_.
            case filter_violation o' of
              Some v \<Rightarrow> andThen (block_on_filter_violation c f v ''backfill'') (\<lambda>_. ret (False, st1\<lparr>bf_blocked := True\<rparr>))
            | None \<Rightarrow>
                (let st2 = st1\<lparr>bf_rejected := bf_rejected st1 + length (rejected o')\<rparr>
                 in case min_opt (prefix_bx_ids o') of
                      None \<Rightarrow> bf_no_ids c f o' st2
                    | Some lowest \<Rightarrow>
                        if floor_id \<le> lowest then ret (False, st2\<lparr>bf_errors := bf_errors st2 @ errors o'\<rparr>)
                        else bf_descend c f o' lowest st2))))"

section \<open>The visit\<close>

definition bf_start :: "int \<Rightarrow> int \<Rightarrow> backfill_outcome" where
  "bf_start low imported =
     \<lparr>bf_low_id = low, bf_status = Running, bf_done = imported, bf_batches = 0, bf_upserted = 0,
      bf_quarantined = 0, bf_rejected = 0, bf_requests = 0, bf_errors = [], bf_blocked = False,
      bf_stopped = False, bf_more = False\<rparr>"

text \<open>Without a cursor nothing is done: \<open>None\<close> stands for the idle outcome.\<close>

definition run_backfill ::
  "'o sync_outside_scheme \<Rightarrow> client \<Rightarrow> fence \<Rightarrow> int option \<Rightarrow> int \<Rightarrow> int \<Rightarrow> int \<Rightarrow> backfill_outcome option sync_prog" where
  "run_backfill c cl f low pages_allowed imported budget =
     (case low of
        None \<Rightarrow> ret None
      | Some cursor \<Rightarrow>
          andThen (for_else (nat (max 1 budget)) (bf_step c cl f (clamp_pages pages_allowed))
                     (\<lambda>st. st\<lparr>bf_more := (bf_status st = Running)\<rparr>) (bf_start cursor imported)) (\<lambda>st.
          ret (Some st)))"

section \<open>What a visit reports is what it stored\<close>

definition low_is :: "int \<Rightarrow> backfill_state \<Rightarrow> int \<Rightarrow> cursors \<Rightarrow> bool" where
  "low_is l state n = (\<lambda>(_, low, _, st, imported). low = Some l \<and> st = state \<and> imported = n)"

text \<open>
  The only two ways to finish: the whole batch was read without an error, and either it said
  there is no further page and its lowest id is the cursor, or it held nothing at all.
\<close>

definition exhausted_by :: "fetch_outcome \<Rightarrow> int \<Rightarrow> bool" where
  "exhausted_by o' l \<longleftrightarrow>
     errors o' = [] \<and> filter_violation o' = None \<and> 0 < prefix_len o' \<and>
     (rows o' = [] \<and> rejected o' = [] \<or> \<not> has_next o' \<and> min_opt (prefix_bx_ids o') = Some l)"

text \<open>The visit's last request asked for what lies below \<open>b\<close>, and its answer shows the end.\<close>

definition end_seen :: "'o sync_outside_scheme \<Rightarrow> client \<Rightarrow> nat \<Rightarrow> nat \<Rightarrow> int \<Rightarrow> int \<Rightarrow> bool" where
  "end_seen c cl limit last_request b l \<longleftrightarrow>
     (\<exists>o'. answered c cl [(''<ID'', JInt b)] sort_field order_desc (page_starts limit 0) None last_request o' \<and>
        exhausted_by o' l)"

definition bf_progress ::
  "'o sync_outside_scheme \<Rightarrow> client \<Rightarrow> nat \<Rightarrow> nat \<Rightarrow> backfill_outcome \<Rightarrow> bool \<Rightarrow> backfill_outcome \<Rightarrow> bool" where
  "bf_progress c cl limit n st go st' \<longleftrightarrow>
     bf_low_id st' \<le> bf_low_id st \<and> (go \<longrightarrow> bf_low_id st' < bf_low_id st \<and> bf_status st' = bf_status st) \<and>
     bf_batches st' = bf_batches st + 1 \<and> bf_requests st' = bf_requests st + 1 \<and> bf_more st' = bf_more st \<and>
     (bf_status st' = bf_status st \<or> bf_status st' = Done \<and>
        end_seen c cl limit (n + bf_requests st) (bf_low_id st) (bf_low_id st'))"

definition bf_at :: "fence \<Rightarrow> nat \<Rightarrow> backfill_outcome \<Rightarrow> world \<Rightarrow> bool" where
  "bf_at f n st = at_request (owned f (low_is (bf_low_id st) (bf_status st) (bf_done st))) (n + bf_requests st)"

lemma triple_bf_ret:
  assumes "bf_progress c cl limit n st0 go st" and "\<And>x. g x \<Longrightarrow> low_is (bf_low_id st) (bf_status st) (bf_done st) x"
    and "k = n + bf_requests st"
  shows "triple (at_request (owned f g) k) (ret (go, st)) (\<lambda>(go, st) w. bf_at f n st w \<and> bf_progress c cl limit n st0 go st) raises"
  using assms by (intro triple_ret) (auto simp: bf_at_def at_request_def elim: owned_weaken)

lemma prefix_bx_ids_empty: "min_opt (prefix_bx_ids o') = None \<Longrightarrow> rows o' = []"
  by (simp add: prefix_bx_ids_def)

lemma triple_bf_no_ids:
  assumes ex: "exclusive c f" and "g = low_is (bf_low_id st) (bf_status st) (bf_done st)" and "k = n + bf_requests st"
    and "\<And>st'. bf_low_id st' = bf_low_id st \<Longrightarrow> bf_batches st' = bf_batches st \<Longrightarrow> bf_requests st' = bf_requests st \<Longrightarrow>
        bf_more st' = bf_more st \<Longrightarrow>
        bf_status st' = bf_status st \<or> bf_status st' = Done \<and> errors o' = [] \<and> prefix_len o' \<noteq> 0 \<and> rows o' = [] \<and> rejected o' = [] \<Longrightarrow>
        bf_progress c0 cl limit n st0 False st'"
  shows "triple (at_request (owned f g) k) (bf_no_ids c f o' st)
    (\<lambda>(go, st') w. bf_at f n st' w \<and> bf_progress c0 cl limit n st0 go st') raises"
  unfolding bf_no_ids_def assms(2,3)
  by (intro triple_rules ex triple_bf_ret assms(4))
    (auto simp: image_of_def cursor_of_def low_is_def cursors_def finish_cursor_def)

lemma triple_bf_descend:
  assumes ex: "exclusive c f" and "g = low_is (bf_low_id st) (bf_status st) (bf_done st)" and "k = n + bf_requests st"
    and "\<And>go st'. bf_low_id st' = l \<Longrightarrow> bf_batches st' = bf_batches st \<Longrightarrow> bf_requests st' = bf_requests st \<Longrightarrow>
        bf_more st' = bf_more st \<Longrightarrow> (go \<Longrightarrow> bf_status st' = bf_status st) \<Longrightarrow>
        bf_status st' = bf_status st \<or> bf_status st' = Done \<and> errors o' = [] \<and> \<not> has_next o' \<Longrightarrow>
        bf_progress c0 cl limit n st0 go st'"
  shows "triple (at_request (owned f g) k) (bf_descend c f o' l st)
    (\<lambda>(go, st') w. bf_at f n st' w \<and> bf_progress c0 cl limit n st0 go st') raises"
  unfolding bf_descend_def assms(2,3) Let_def
  by (intro triple_rules ex triple_bf_ret assms(4))
    (auto simp: image_of_def cursor_of_def low_is_def cursors_def backward_cursor_def Let_def split: if_splits)

lemma fetched_prefix_pos:
  "fetched c filt guard starts o' \<Longrightarrow> filter_violation o' = None \<Longrightarrow> errors o' = [] \<Longrightarrow> 0 < prefix_len o'"
  using fetched_prefix_full [of c filt guard starts o'] unfolding fetched_def
  by (auto simp: build_outcome_def Let_def)

lemma triple_bf_step:
  assumes ex: "exclusive c f"
  shows "triple (bf_at f n st) (bf_step c cl f limit st)
    (\<lambda>(go, st') w. bf_at f n st' w \<and> bf_progress c cl limit n st go st') raises"
  unfolding bf_at_def [of f n st] bf_step_def Let_def
  by (intro triple_rules ex triple_bf_ret triple_bf_no_ids triple_bf_descend)
    (auto simp: bf_progress_def end_seen_def exhausted_by_def dest: answered_fetched fetched_prefix_pos)

definition bf_reported ::
  "'o sync_outside_scheme \<Rightarrow> client \<Rightarrow> nat \<Rightarrow> nat \<Rightarrow> int \<Rightarrow> nat \<Rightarrow> backfill_outcome \<Rightarrow> bool" where
  "bf_reported c cl limit n low loops st \<longleftrightarrow>
     bf_low_id st \<le> low \<and> bf_batches st \<le> loops \<and> bf_requests st = bf_batches st \<and>
     (bf_status st = Running \<or> bf_status st = Done \<and> 0 < bf_requests st \<and>
        (\<exists>b \<le> low. end_seen c cl limit (n + bf_requests st - 1) b (bf_low_id st))) \<and>
     (bf_more st \<longrightarrow> bf_status st = Running \<and> bf_low_id st + int loops \<le> low)"

lemma triple_run_backfill:
  assumes ex: "exclusive c f"
  shows "triple (at_request (owned f (low_is low Running imported)) n)
    (run_backfill c cl f (Some low) pages_allowed imported budget)
    (\<lambda>o' w. \<exists>st. o' = Some st \<and> bf_at f n st w \<and>
       bf_reported c cl (clamp_pages pages_allowed) n low (nat (max 1 budget)) st) raises"
proof -
  let ?N = "nat (max 1 budget)" and ?limit = "clamp_pages pages_allowed"
  let ?start = "\<lambda>k st. bf_status st = Running \<and> \<not> bf_more st \<and> bf_batches st + k = ?N \<and>
      bf_requests st = bf_batches st \<and> bf_low_id st + int (bf_batches st) \<le> low"
  define I where "I k st w \<longleftrightarrow> bf_at f n st w \<and> ?start k st" for k st w
  define R where "R st w \<longleftrightarrow> bf_at f n st w \<and> bf_reported c cl ?limit n low ?N st" for st w
  have step: "triple (I (Suc k) st) (bf_step c cl f ?limit st)
      (\<lambda>(go, st'). if go then I k st' else R st') raises" for k st
  proof -
    have "triple (\<lambda>w. bf_at f n st w \<and> ?start (Suc k) st) (bf_step c cl f ?limit st)
      (\<lambda>(go, st'). if go then I k st' else R st') raises"
      by (rule triple_pull, rule triple_conseq [OF triple_bf_step [OF ex, of n st]])
        (auto simp: I_def R_def bf_progress_def bf_reported_def intro!: exI [where x = "bf_low_id st"])
    then show ?thesis
      by (rule triple_conseq) (auto simp: I_def)
  qed
  have loop: "triple (at_request (owned f (low_is low Running imported)) n)
      (for_else ?N (bf_step c cl f ?limit) (\<lambda>st. st\<lparr>bf_more := (bf_status st = Running)\<rparr>) (bf_start low imported))
      R raises"
  proof (rule triple_conseq [OF triple_for_else [where I = I and Q = R, OF step]])
    show "at_request (owned f (low_is low Running imported)) n s \<Longrightarrow> I ?N (bf_start low imported) s" for s
      by (simp add: I_def bf_at_def bf_start_def)
    show "I 0 st w \<Longrightarrow> R (st\<lparr>bf_more := (bf_status st = Running)\<rparr>) w" for st w
      by (auto simp: I_def R_def bf_at_def bf_reported_def)
  qed
  show ?thesis
    unfolding run_backfill_def option.case
    by (rule triple_andThen [OF loop], rule triple_ret) (auto simp: R_def)
qed

section \<open>The visit of the demo portal\<close>

lemma bf_portal_irrelevant: "bf_descend (c\<lparr>portal := p\<rparr>) = bf_descend c"
  unfolding bf_descend_def portal_irrelevant by simp

lemma demo_backfill_run:
  assumes c: "c = demo_outside\<lparr>portal := p\<rparr>"
    and f: "fetch_pages c demo_client [(''<ID'', JInt 9)] sort_field order_desc [0] None demo_world =
      (Inr o', demo_world\<lparr>requests := reqs, rest_log := log_rows\<rparr>)"
    and o': "rows o' \<noteq> []" "extra_rows o' = []" "rejected o' = []" "errors o' = []" "filter_violation o' = None"
      "\<not> has_next o'" "min_opt (prefix_bx_ids o') = Some 5" "length (prefix_bx_ids o') = 2"
  obtains st w' where "run_backfill c demo_client demo_fence (Some 9) 1 0 20 demo_world = (Inr (Some st), w')"
    and "bf_low_id st = 5" "bf_status st = Done" "fence_holds demo_fence (store w')"
proof -
  let ?w1 = "demo_world\<lparr>requests := reqs, rest_log := log_rows\<rparr>"
  let ?c = "backward_cursor 1714560000 5 2 True"
  obtain up quar s1 where rs: "commit_progress demo_outside demo_fence (rows o') (Some ?c) [] ?w1 =
      (Inr (up, quar), ?w1\<lparr>store := s1, ticks := Suc (ticks ?w1)\<rparr>)" and s1: "fence_holds demo_fence s1"
    by (rule demo_progress [of ?w1 "rows o'" "Some ?c" "[]"])
      (auto simp: o'(1) demo_world_def demo_store_fence cursor_of_def backward_cursor_def Let_def)
  let ?w2 = "?w1\<lparr>store := s1, ticks := Suc (ticks ?w1)\<rparr>"
  obtain s2 where hb: "heartbeat demo_outside demo_fence ?w2 = (Inr (), ?w2\<lparr>store := s2, ticks := Suc (ticks ?w2)\<rparr>)"
    and s2: "fence_holds demo_fence s2"
    by (rule demo_heartbeat [of ?w2]) (simp_all add: s1)
  have starts: "page_starts (clamp_pages 1) 0 = [0]"
    by (simp add: page_starts_def clamp_pages_def max_batch_commands_def)
  have same: "bf_descend c = bf_descend demo_outside"
    by (simp add: c bf_portal_irrelevant)
  obtain st where step: "bf_step c demo_client demo_fence (clamp_pages 1) (bf_start 9 0) demo_world =
      (Inr (False, st), ?w2\<lparr>store := s2, ticks := Suc (ticks ?w2)\<rparr>)" and st: "bf_low_id st = 5" "bf_status st = Done"
    using f rs hb
    by (simp add: bf_step_def same bf_descend_def bf_start_def Let_def andThen_def raise_if_token_expired_def skip_def o' demo_now starts ret_def)
  have "nat (max 1 20) = Suc 19" by simp
  then have loop: "for_else (nat (max 1 20)) (bf_step c demo_client demo_fence (clamp_pages 1)) g (bf_start 9 0) demo_world =
      (Inr st, ?w2\<lparr>store := s2, ticks := Suc (ticks ?w2)\<rparr>)" for g
    using step by (simp only: for_else.simps) (simp add: andThen_def ret_def)
  show thesis
    by (rule that [of st "?w2\<lparr>store := s2, ticks := Suc (ticks ?w2)\<rparr>", OF _ st], unfold run_backfill_def option.case andThen_def loop)
      (simp_all add: ret_def s2)
qed

lemma demo_backfill:
  obtains st w' where "run_backfill demo_outside demo_client demo_fence (Some 9) 1 0 20 demo_world = (Inr (Some st), w')"
    and "bf_low_id st = 5" "bf_status st = Done"
proof -
  have fv: "first_violation (id_checks (render demo_outside) [(''<ID'', JInt 9)]) None [demo_call 5, demo_call 7] = None"
    by (simp add: id_checks_below violation_def demo_call_def)
  obtain reqs log_rows where "fetch_pages demo_outside demo_client [(''<ID'', JInt 9)] sort_field order_desc [0] None demo_world =
    (Inr demo_outcome, demo_world\<lparr>requests := reqs, rest_log := log_rows\<rparr>)"
    by (rule demo_fetched [OF demo_requests(2) fv])
  from demo_backfill_run [of demo_outside "portal demo_outside", OF _ this] that show thesis
    by (auto simp: demo_ids min_opt_def)
qed

end
