(* ===== verification/No_Hole.thy ===== *)
theory No_Hole
  imports Incremental Backfill
begin

text \<open>
  The property the contiguous-prefix rule, the quarantine and the fenced commit serve together:
  against a portal that serves a sorted selection page by page, no record between the old and
  the new cursor is lost. Each is stored, or it is reported and counted as rejected.
\<close>

section \<open>Pages of a sorted selection\<close>

text \<open>The id of a raw record, when the parser can read one.\<close>

definition record_id :: "json \<Rightarrow> int option" where
  "record_id raw =
     (case fields_of raw of None \<Rightarrow> None
      | Some d \<Rightarrow> (case to_int (field d ''ID'') of None \<Rightarrow> None
                  | Some i \<Rightarrow> if 1 \<le> i \<and> i \<le> int64_max then Some i else None))"

text \<open>Every command without an error holds its slice of the selection.\<close>

definition serves :: "json list \<Rightarrow> int list \<Rightarrow> command_result list \<Rightarrow> bool" where
  "serves selection starts cmds \<longleftrightarrow>
     length cmds = length starts \<and>
     (\<forall>i < length starts. cmd_error (cmds ! i) = None \<longrightarrow>
        result_rows (cmd_result (cmds ! i)) = Inr (take page_size (drop (nat (starts ! i)) selection)))"

definition named_ids :: "call_row list \<Rightarrow> reject list \<Rightarrow> int set" where
  "named_ids rs bad = bx_id ` set rs \<union> {i. Some i \<in> fst ` set bad}"

lemma named_ids_append: "named_ids (rs @ rs') (bad @ bad') = named_ids rs bad \<union> named_ids rs' bad'"
  by (auto simp: named_ids_def)

lemma parse_row_named:
  assumes "parse_row lib now raw = Inr (row, the_id, reasons)" and "record_id raw = Some i"
  shows "named_ids (case row of None \<Rightarrow> [] | Some r \<Rightarrow> [r]) (map (\<lambda>reason. (the_id, reason)) reasons) = {i}"
proof -
  from assms(2) obtain d where d: "fields_of raw = Some d" "to_int (field d ''ID'') = Some i"
    "1 \<le> i \<and> i \<le> int64_max"
    by (auto simp: record_id_def split: option.splits if_splits)
  then obtain sd where out: "(row, the_id, reasons) = (case sd of Inl reason \<Rightarrow> (None, Some i, [reason])
      | Inr start \<Rightarrow> (let (row, reasons) = build_row lib d i start in (Some row, Some i, reasons)))"
    using assms(1) by (auto simp: parse_row_def rbind_Inr_iff dest: sym)
  show ?thesis
  proof (cases sd)
    case (Inl reason)
    with out show ?thesis by (auto simp: named_ids_def)
  next
    case (Inr start)
    with out build_row_id [of lib d i start] show ?thesis
      by (auto simp: named_ids_def Let_def split: prod.splits)
  qed
qed

lemma parse_rows_named:
  assumes "parse_rows lib now raws = Inr out" and "map record_id raws = map Some ids"
  shows "named_ids (out_rows out) (out_rejected out) = set ids"
  using assms
proof (induction raws arbitrary: out ids)
  case Nil
  then show ?case by (auto simp: named_ids_def)
next
  case (Cons raw raws)
  then obtain i js where ids: "ids = i # js" "record_id raw = Some i" "map record_id raws = map Some js"
    by (cases ids) auto
  obtain row the_id reasons rest where p: "parse_row lib now raw = Inr (row, the_id, reasons)"
    "parse_rows lib now raws = Inr rest"
    "out_rows out = (case row of None \<Rightarrow> [] | Some r \<Rightarrow> [r]) @ out_rows rest"
    "out_rejected out = map (\<lambda>reason. (the_id, reason)) reasons @ out_rejected rest"
    by (rule parse_rows_Cons [OF Cons.prems(1)])
  show ?case
    unfolding p(3,4) named_ids_append parse_row_named [OF p(1) ids(2)] Cons.IH [OF p(2) ids(3)] ids(1)
    by simp
qed

lemma sorted_take_closed:
  assumes "sorted_wrt R xs" and "\<And>a b. R a b \<Longrightarrow> \<not> R b a" and "m \<in> set (take n xs)"
    and "x \<in> set xs" and "x = m \<or> R x m"
  shows "x \<in> set (take n xs)"
proof (rule ccontr)
  assume "x \<notin> set (take n xs)"
  moreover have "x \<in> set (take n xs @ drop n xs)"
    using assms(4) by simp
  ultimately have "x \<in> set (drop n xs)"
    by (simp del: append_take_drop_id)
  moreover have "sorted_wrt R (take n xs @ drop n xs)"
    using assms(1) by simp
  ultimately have "R m x"
    using assms(3) by (auto simp: sorted_wrt_append simp del: append_take_drop_id)
  with assms(2,3,5) \<open>x \<notin> set (take n xs)\<close> show False by auto
qed

lemma take_pages: "set (take (k * p) xs) = (\<Union>i < k. set (take p (drop (i * p) xs)))"
proof (induction k)
  case 0
  then show ?case by simp
next
  case (Suc k)
  have "take (k * p + p) xs = take (k * p) xs @ take p (drop (k * p) xs)"
    by (rule take_add)
  then have "take (Suc k * p) xs = take (k * p) xs @ take p (drop (k * p) xs)"
    by (simp add: add.commute)
  with Suc show ?case
    by (simp add: lessThan_Suc Un_commute)
qed

lemma page_starts_nth: "i < k \<Longrightarrow> page_starts k first ! i = first + int i * int page_size"
  by (simp add: page_starts_def)

lemma page_starts_length [simp]: "length (page_starts k first) = k"
  by (simp add: page_starts_def)

section \<open>One outcome has no hole below its cursor\<close>

text \<open>An error-free page of the outcome names exactly the ids of its slice.\<close>

lemma page_named:
  assumes "read_pages c now (zip (page_starts k first) cmds) = Inr pages"
    and "serves selection (page_starts k first) cmds" and "map record_id selection = map Some contents"
    and "0 \<le> first" and "i < k" and "page_ok (pages ! i)"
  shows "named_ids (page_rows (pages ! i)) (page_rejected (pages ! i)) =
    set (take page_size (drop (i * page_size) (drop (nat first) contents)))"
proof -
  have len: "length cmds = k"
    using assms(2) by (simp add: serves_def)
  obtain out where out: "pages ! i = Inr out"
    using assms(6) by (auto simp: page_ok_def split: sum.splits)
  have "read_page c now (zip (page_starts k first) cmds ! i) = Inr (pages ! i)"
    by (rule read_pages_nth [OF assms(1)]) (simp add: len assms(5))
  then have pg: "read_page c now (page_starts k first ! i, cmds ! i) = Inr (Inr out)"
    using out len assms(5) by simp
  then have "cmd_error (cmds ! i) = None"
    by (rule read_page_ok)
  with assms(2,5) have res: "result_rows (cmd_result (cmds ! i)) =
      Inr (take page_size (drop (nat (page_starts k first ! i)) selection))"
    by (simp add: serves_def)
  have off: "nat (page_starts k first ! i) = i * page_size + nat first"
    using assms(4,5) by (simp add: page_starts_nth nat_add_distrib nat_mult_distrib)
  have "map record_id (take page_size (drop (i * page_size + nat first) selection)) =
      map Some (take page_size (drop (i * page_size + nat first) contents))"
    using assms(3) by (metis drop_map take_map)
  moreover have "parse_rows (lib_of c) now (take page_size (drop (i * page_size + nat first) selection)) = Inr out"
    using pg res off \<open>cmd_error (cmds ! i) = None\<close> by (auto simp: read_page_def rbind_Inr_iff)
  ultimately have "named_ids (out_rows out) (out_rejected out) =
      set (take page_size (drop (i * page_size + nat first) contents))"
    by (rule parse_rows_named [rotated])
  then show ?thesis
    by (simp add: out page_rows_def page_rejected_def)
qed

lemma named_ids_concat:
  "named_ids (concat (map page_rows ps)) (concat (map page_rejected ps)) =
   (\<Union>p \<in> set ps. named_ids (page_rows p) (page_rejected p))"
  by (auto simp: named_ids_def)

lemma set_take_nth: "n \<le> length xs \<Longrightarrow> set (take n xs) = (\<lambda>i. xs ! i) ` {i. i < n}"
  by (simp add: nth_image [symmetric] atLeast0LessThan lessThan_def)

lemma prefix_named:
  assumes "read_pages c now (zip (page_starts k first) cmds) = Inr pages"
    and "serves selection (page_starts k first) cmds" and "map record_id selection = map Some contents"
    and "0 \<le> first"
  defines "n \<equiv> length (takeWhile page_ok pages)"
  shows "named_ids (concat (map page_rows (take n pages))) (concat (map page_rejected (take n pages))) =
    set (take (n * page_size) (drop (nat first) contents))"
proof -
  have len: "length pages = k"
    using read_pages_length [OF assms(1)] assms(2) by (simp add: serves_def)
  have n: "n \<le> length pages"
    by (simp add: n_def length_takeWhile_le)
  have ok: "page_ok (pages ! i)" if "i < n" for i
    using that unfolding n_def by (metis nth_mem set_takeWhileD takeWhile_nth)
  have "(\<Union>p \<in> set (take n pages). named_ids (page_rows p) (page_rejected p)) =
    (\<Union>i < n. named_ids (page_rows (pages ! i)) (page_rejected (pages ! i)))"
    using n by (auto simp: set_take_nth)
  also have "\<dots> = (\<Union>i < n. set (take page_size (drop (i * page_size) (drop (nat first) contents))))"
    by (intro SUP_cong refl page_named [OF assms(1-4)]) (use n len ok in auto)
  finally show ?thesis
    unfolding named_ids_concat take_pages .
qed

text \<open>What an id the cursor may reach says: everything up to it in the order is in the prefix.\<close>

lemma outcome_prefix:
  assumes read: "read_outcome c now filt None (page_starts k first) b = Inr o'"
    and "filter_violation o' = None" and "serves selection (page_starts k first) (commands b)"
    and "map record_id selection = map Some contents" and "0 \<le> first"
    and "sorted_wrt R contents" and "\<And>a b. R a b \<Longrightarrow> \<not> R b a"
  obtains pages n where "read_pages c now (zip (page_starts k first) (commands b)) = Inr pages"
    "n = length (takeWhile page_ok pages)" "rows o' = concat (map page_rows (take n pages))"
    "rejected o' = concat (map page_rejected pages)"
    "\<forall>m \<in> set (prefix_bx_ids o'). \<forall>x \<in> set (drop (nat first) contents). x = m \<or> R x m \<longrightarrow>
       x \<in> set (take (n * page_size) (drop (nat first) contents))"
proof -
  obtain pages block where pages: "read_pages c now (zip (page_starts k first) (commands b)) = Inr pages"
    and o': "o' = build_outcome (id_checks (render c) filt) None b pages block"
    using read by (auto simp: read_outcome_def lift_py_Inr rbind_Inr_iff)
  define n where "n = length (takeWhile page_ok pages)"
  let ?pre = "take n pages"
  note named = prefix_named [OF pages assms(3-5), folded n_def]
  have rows: "rows o' = concat (map page_rows ?pre)"
    using assms(2) by (simp add: o' build_outcome_def Let_def n_def split: if_splits)
  have rej: "rejected o' = concat (map page_rejected pages)"
    by (simp add: o' build_outcome_def Let_def)
  have m: "m \<in> named_ids (concat (map page_rows ?pre)) (concat (map page_rejected ?pre))"
    if "m \<in> set (prefix_bx_ids o')" for m
  proof (cases "m \<in> bx_id ` set (rows o')")
    case True
    then show ?thesis by (simp add: rows named_ids_def)
  next
    case False
    with that have "errors o' = []" and m: "Some m \<in> fst ` set (rejected o')"
      by (force simp: prefix_bx_ids_def List.map_filter_def split: if_splits)+
    then have "\<forall>p \<in> set pages. page_ok p"
      by (simp add: o' build_outcome_def Let_def page_errors_empty [simplified])
    then have "n = length pages"
      unfolding n_def by (simp add: takeWhile_full)
    with m show ?thesis by (simp add: rej named_ids_def)
  qed
  have sorted: "sorted_wrt R (drop (nat first) contents)"
    using assms(6) by (rule sorted_wrt_drop)
  show thesis
  proof (rule that [OF pages n_def rows rej], intro ballI impI)
    fix m' x
    assume "m' \<in> set (prefix_bx_ids o')" and x: "x \<in> set (drop (nat first) contents)" "x = m' \<or> R x m'"
    then have "m' \<in> set (take (n * page_size) (drop (nat first) contents))"
      using m unfolding named by blast
    with sorted assms(7) show "x \<in> set (take (n * page_size) (drop (nat first) contents))"
      using x by (rule sorted_take_closed)
  qed
qed

lemma outcome_no_hole:
  assumes "read_outcome c now filt None (page_starts k first) b = Inr o'"
    and "filter_violation o' = None" and "serves selection (page_starts k first) (commands b)"
    and "map record_id selection = map Some contents" and "0 \<le> first"
    and "sorted_wrt R contents" and "\<And>a b. R a b \<Longrightarrow> \<not> R b a"
    and "m \<in> set (prefix_bx_ids o')" and "x \<in> set (drop (nat first) contents)" and "x = m \<or> R x m"
  shows "x \<in> named_ids (rows o') (rejected o')"
proof -
  obtain pages n where pages: "read_pages c now (zip (page_starts k first) (commands b)) = Inr pages"
    and n: "n = length (takeWhile page_ok pages)" and rows: "rows o' = concat (map page_rows (take n pages))"
    and rej: "rejected o' = concat (map page_rejected pages)"
    and upto: "\<forall>m \<in> set (prefix_bx_ids o'). \<forall>x \<in> set (drop (nat first) contents). x = m \<or> R x m \<longrightarrow>
       x \<in> set (take (n * page_size) (drop (nat first) contents))"
    by (rule outcome_prefix [OF assms(1-7)])
  then have x: "x \<in> set (take (n * page_size) (drop (nat first) contents))"
    using assms(8-10) by blast
  have "named_ids (concat (map page_rows (take n pages))) (concat (map page_rejected (take n pages))) \<subseteq>
      named_ids (rows o') (rejected o')"
    unfolding rows rej by (auto simp: named_ids_def dest: in_set_takeD)
  with x prefix_named [OF pages assms(3-5)] show ?thesis
    by (auto simp: n)
qed

section \<open>What is named is stored or counted\<close>

lemma upsert_accounts:
  assumes "upsert_body c f rs cursor bad t s = Inr (res, s')" and "x \<in> named_ids rs bad"
  shows "(portal_id f, x) \<in> dom (map_of (calls s')) \<or> Some x \<in> fst ` set (rejections (refuses c t) rs bad)"
proof (cases "Some x \<in> fst ` set bad")
  case True
  then show ?thesis by (auto simp: rejections_def)
next
  case False
  with assms(2) obtain r0 where r0: "r0 \<in> set rs" "bx_id r0 = x"
    by (auto simp: named_ids_def)
  show ?thesis
  proof (cases "0 < x")
    case False
    with r0 have "Some x \<in> fst ` set (snd (prepare rs))"
      by (force simp: prepare_snd)
    then show ?thesis by (auto simp: rejections_def)
  next
    case True
    have "find (\<lambda>r. bx_id r = x) (rev rs) \<noteq> None"
      using r0 by (auto simp: find_None_iff)
    then obtain r where r: "latest rs x = Some r"
      using True by (auto simp: latest_def)
    then have x: "bx_id r = x"
      by (auto simp: latest_def dest: find_SomeD split: if_splits)
    show ?thesis
    proof (cases "refuses c t r")
      case None
      then show ?thesis
        using upsert_body_calls [OF assms(1), of "portal_id f" x] r by (auto simp: stored_after_def)
    next
      case (Some fault)
      have "r \<in> set (fst (prepare rs))"
        using r x by (simp add: prepare_set)
      moreover have "\<not> broken (refuses c t) (fst (prepare rs))"
        using assms(1) by (cases rule: upsert_body_cases [of c t rs f cursor bad s]) auto
      ultimately obtain why where "refuses c t r = Some (RowFault why)"
        using Some by (cases fault) (auto simp: broken_def)
      then have "fault_of (refuses c t) r = Some (Some x, why)"
        by (simp add: fault_of_def x)
      with \<open>r \<in> set (fst (prepare rs))\<close> have "(Some x, why) \<in> set (List.map_filter (fault_of (refuses c t)) (fst (prepare rs)))"
        by (force simp: List.map_filter_def)
      then show ?thesis
        by (force simp: rejections_def)
    qed
  qed
qed

lemma progress_accounts:
  assumes "commit_progress c f rs cursor bad w = (Inr res, w')" and "x \<in> named_ids rs bad"
  shows "(portal_id f, x) \<in> dom (map_of (calls (store w'))) \<or>
    Some x \<in> fst ` set (rejections (refuses c (ticks w)) rs bad)"
proof -
  have "rs \<noteq> [] \<or> bad \<noteq> []"
    using assms(2) by (auto simp: named_ids_def)
  then obtain up where "transaction c (upsert_body c f rs cursor bad) w = (Inr up, w')"
    using assms(1) by (auto simp: commit_progress_def upsert_calls_def prog_defs split: prod.splits sum.splits if_splits)
  then obtain s' where "upsert_body c f rs cursor bad (ticks w) (interfere c (ticks w) (store w)) = Inr (up, s')"
    "store w' = s'"
    by (auto elim!: transaction_cases)
  with upsert_accounts [OF this(1) assms(2)] show ?thesis by simp
qed

end
