(* ===== verification/Rescan.thy ===== *)
theory Rescan
  imports Demo
begin

text \<open>
  \<open>api/app/sync/rescan.py\<close>: the three passes that re-read rows the cursors have already
  passed, by flag, by window and by missing recording. None of them writes a cursor.
\<close>

section \<open>Outcomes\<close>

record rescan_outcome =
  rs_ran :: bool
  rs_ids_requested :: nat
  rs_upserted :: int
  rs_quarantined :: int
  rs_rejected :: nat
  rs_requests :: nat
  rs_batches :: nat
  rs_errors :: "bitrix_error list"
  rs_blocked :: bool
  rs_stopped :: bool

definition rs_idle :: rescan_outcome where
  "rs_idle = \<lparr>rs_ran = False, rs_ids_requested = 0, rs_upserted = 0, rs_quarantined = 0, rs_rejected = 0,
     rs_requests = 0, rs_batches = 0, rs_errors = [], rs_blocked = False, rs_stopped = False\<rparr>"

definition max_rescan_batches :: nat where
  "max_rescan_batches = 10"

definition recheck_min_age :: rat where
  "recheck_min_age = 72 * 3600"

definition recheck_max_age :: rat where
  "recheck_max_age = 30 * 86400"

definition recheck_max_count :: int where
  "recheck_max_count = 2"

section \<open>Reading by ids\<close>

function chunks :: "'a list \<Rightarrow> nat \<Rightarrow> 'a list list" where
  "chunks xs n = (if xs = [] \<or> n = 0 then [] else take n xs # chunks (drop n xs) n)"
  by pat_completeness auto
termination
  by (relation "measure (\<lambda>(xs, _). length xs)") auto

declare chunks.simps [simp del]

fun id_commands :: "nat \<Rightarrow> int list list \<Rightarrow> (py_error, command list) result" where
  "id_commands i [] = Inr []"
| "id_commands i (chunk # cs) =
     rbind (statistic_params [(''ID'', JList (map JInt chunk))] sort_field order_asc 0) (\<lambda>params.
     rbind (id_commands (Suc i) cs) (\<lambda>rest.
     Inr ((''r'' @ show_nat i, statistic_method, params) # rest)))"

text \<open>Iterating over \<open>command.result or []\<close>, as Python does.\<close>

definition iterate :: "json \<Rightarrow> (py_error, json list) result" where
  "iterate v =
     (if \<not> truthy v then Inr []
      else case v of
        JList xs \<Rightarrow> Inr xs
      | JDict d \<Rightarrow> Inr (map (JStr \<circ> fst) d)
      | JStr s \<Rightarrow> Inr (map (\<lambda>x. JStr [x]) s)
      | _ \<Rightarrow> Inl TypeError)"

type_synonym id_read = "call_row list \<times> reject list \<times> bitrix_error list"

fun read_commands ::
  "'o fetch_outside_scheme \<Rightarrow> rat \<Rightarrow> command_result list \<Rightarrow> (py_error, id_read) result" where
  "read_commands c now [] = Inr ([], [], [])"
| "read_commands c now (command # cs) =
     (case cmd_error command of
        Some e \<Rightarrow> rbind (read_commands c now cs) (\<lambda>(rs, bad, errs). Inr (rs, bad, e # errs))
      | None \<Rightarrow>
          rbind (iterate (cmd_result command)) (\<lambda>items.
          rbind (parse_rows (lib_of c) now items) (\<lambda>out.
          rbind (read_commands c now cs) (\<lambda>(rs, bad, errs).
          Inr (out_rows out @ rs, out_rejected out @ bad, errs)))))"

definition read_by_ids ::
  "'o fetch_outside_scheme \<Rightarrow> client \<Rightarrow> int list \<Rightarrow> nat \<Rightarrow>
   ('n net_scheme, exn, call_row list \<times> reject list \<times> bitrix_error list \<times> block option) prog" where
  "read_by_ids c cl ids n =
     (if ids = [] then ret ([], [], [], None)
      else andThen (lift_result (lift_py (id_commands 0 (take n (chunks ids page_size))))) (\<lambda>cmds.
           andThen (batch c cl cmds False) (\<lambda>b.
           andThen (reads (\<lambda>w. wall c (length (requests w)))) (\<lambda>now.
           andThen (lift_result (lift_py (read_commands c now (commands b)))) (\<lambda>(rs, bad, errs).
           andThen (raise_if_token_expired errs) (\<lambda>_.
           ret (dedupe_rows rs, bad, errs, batch_time b)))))))"

definition select_ids :: "'o sync_outside_scheme \<Rightarrow> (store \<Rightarrow> int list) \<Rightarrow> int list sync_prog" where
  "select_ids c query = transaction c (\<lambda>t s. Inr (query s, s))"

text \<open>What both passes by id do with the rows.\<close>

definition store_by_ids ::
  "'o sync_outside_scheme \<Rightarrow> client \<Rightarrow> fence \<Rightarrow> int list \<Rightarrow> nat \<Rightarrow> rescan_outcome sync_prog" where
  "store_by_ids c cl f ids n =
     andThen (read_by_ids c cl ids n) (\<lambda>(rs, bad, errs, block).
     andThen (commit_progress c f rs None bad) (\<lambda>(up, quar).
     andThen (should_continue c block) (\<lambda>go.
     ret \<lparr>rs_ran = True, rs_ids_requested = length ids, rs_upserted = up, rs_quarantined = quar,
          rs_rejected = length bad, rs_requests = 1, rs_batches = 1, rs_errors = errs,
          rs_blocked = False, rs_stopped = \<not> go\<rparr>)))"

section \<open>On demand\<close>

definition refresh_ids :: "int \<Rightarrow> nat \<Rightarrow> store \<Rightarrow> int list" where
  "refresh_ids pid limit s =
     take limit (rev (sort (map (snd \<circ> fst) (filter (\<lambda>((p, i), r). p = pid \<and> refresh_requested r) (calls s)))))"

definition run_refresh_requested ::
  "'o sync_outside_scheme \<Rightarrow> client \<Rightarrow> fence \<Rightarrow> int \<Rightarrow> rescan_outcome sync_prog" where
  "run_refresh_requested c cl f pages_allowed =
     (let n = clamp_pages pages_allowed
      in andThen (select_ids c (refresh_ids (portal_id f) (n * page_size))) (\<lambda>ids.
         if ids = [] then ret rs_idle else store_by_ids c cl f ids n))"

section \<open>The window\<close>

text \<open>\<open>_RESUME_FROM\<close>, the worker's memory of where a truncated pass stopped.\<close>

definition set_resume :: "int \<Rightarrow> int option \<Rightarrow> unit sync_prog" where
  "set_resume pid v = (\<lambda>w.
     (Inr (), w\<lparr>resume_from := (case v of None \<Rightarrow> dict_pop pid (resume_from w)
                                | Some i \<Rightarrow> dict_set pid i (resume_from w))\<rparr>))"

definition resume_hint :: "int \<Rightarrow> int \<Rightarrow> int \<Rightarrow> int option sync_prog" where
  "resume_hint pid floor_id ceiling_id =
     andThen (reads (\<lambda>w. map_of (resume_from w) pid)) (\<lambda>hint.
     case hint of
       None \<Rightarrow> ret None
     | Some i \<Rightarrow>
         if \<not> (floor_id < i \<and> i \<le> ceiling_id) then andThen (set_resume pid None) (\<lambda>_. ret None)
         else ret (Some i))"

record rescan_walk = rescan_outcome +
  rs_offset :: int
  rs_reached :: "int option"
  rs_completed :: bool

definition reach :: "int option \<Rightarrow> int list \<Rightarrow> int option" where
  "reach old crossed =
     (case max_opt crossed of None \<Rightarrow> old
      | Some m \<Rightarrow> (case old of None \<Rightarrow> Some m | Some r \<Rightarrow> Some (max r m)))"

definition rs_step ::
  "'o sync_outside_scheme \<Rightarrow> client \<Rightarrow> fence \<Rightarrow> nat \<Rightarrow> int \<Rightarrow> rescan_walk \<Rightarrow> (bool \<times> rescan_walk) sync_prog" where
  "rs_step c cl f limit start_id st =
     andThen (fetch_pages c cl [(''>=ID'', JInt start_id)] sort_field order_asc (page_starts limit (rs_offset st)) None) (\<lambda>o'.
     let st1 = st\<lparr>rs_batches := rs_batches st + 1, rs_requests := rs_requests st + 1\<rparr>
     in andThen (raise_if_token_expired (errors o')) (\<lambda>_.
        case filter_violation o' of
          Some v \<Rightarrow> andThen (block_on_filter_violation c f v ''rescan'') (\<lambda>_. ret (False, st1\<lparr>rs_blocked := True\<rparr>))
        | None \<Rightarrow>
            andThen (commit_progress c f (rows o') None (rejected o')) (\<lambda>(up, quar).
            andThen (if extra_rows o' \<noteq> [] then commit_progress c f (extra_rows o') None [] else ret (0, 0)) (\<lambda>(up', quar').
            let st2 = st1\<lparr>rs_rejected := rs_rejected st1 + length (rejected o'),
                          rs_reached := reach (rs_reached st1) (prefix_bx_ids o'),
                          rs_upserted := rs_upserted st1 + up + up', rs_quarantined := rs_quarantined st1 + quar + quar'\<rparr>
            in andThen (heartbeat c f) (\<lambda>_.
               if errors o' \<noteq> [] then ret (False, st2\<lparr>rs_errors := rs_errors st2 @ errors o'\<rparr>)
               else if \<not> has_next o' then ret (False, st2\<lparr>rs_completed := True\<rparr>)
               else (let st3 = st2\<lparr>rs_offset := rs_offset st2 + int (limit * page_size)\<rparr>
                     in andThen (should_continue c (time_block o')) (\<lambda>go.
                        if go then ret (True, st3) else ret (False, st3\<lparr>rs_stopped := True\<rparr>))))))))"

definition rs_start :: rescan_walk where
  "rs_start = rescan_outcome.extend (rs_idle\<lparr>rs_ran := True\<rparr>) (rescan_walk.fields 0 None False)"

definition stamp_rescan :: "rat \<Rightarrow> sync_row \<Rightarrow> sync_row" where
  "stamp_rescan stamp r = r\<lparr>last_rescan_at := Some stamp\<rparr>"

definition run_id_window_rescan ::
  "'o sync_outside_scheme \<Rightarrow> client \<Rightarrow> fence \<Rightarrow> int option \<Rightarrow> int \<Rightarrow> int \<Rightarrow> int \<Rightarrow> rescan_outcome sync_prog" where
  "run_id_window_rescan c cl f bound high pages_allowed max_batches =
     (case bound of
        None \<Rightarrow> ret rs_idle
      | Some floor_id \<Rightarrow>
          if high \<le> floor_id then ret rs_idle
          else andThen (resume_hint (portal_id f) floor_id high) (\<lambda>hint.
               let start_id = (case hint of None \<Rightarrow> floor_id | Some i \<Rightarrow> i)
               in andThen (for_else (nat (max 1 max_batches)) (rs_step c cl f (clamp_pages pages_allowed) start_id)
                             (\<lambda>st. st) rs_start) (\<lambda>st.
                  andThen (if rs_blocked st then skip
                           else andThen (set_resume (portal_id f)
                                   (if rs_completed st then None else map_option (\<lambda>r. r + 1) (rs_reached st))) (\<lambda>_.
                                andThen (worker_now c) (\<lambda>stamp. commit_cursor c f (stamp_rescan stamp)))) (\<lambda>_.
                  ret (rescan_outcome.truncate st)))))"

section \<open>The recheck of recordings\<close>

definition recheck_candidate :: "int \<Rightarrow> rat \<Rightarrow> (int \<times> int) \<times> stored_call \<Rightarrow> bool" where
  "recheck_candidate pid stamp entry =
     (let ((p, i), r) = entry; d = call_data r
      in p = pid \<and> record_file_id d = None \<and> call_record_url d \<in> {None, Some []} \<and> 0 < call_duration d \<and>
         record_recheck_count r < recheck_max_count \<and>
         call_start_date d < stamp - recheck_min_age \<and> stamp - recheck_max_age < call_start_date d)"

definition recheck_ids :: "int \<Rightarrow> rat \<Rightarrow> nat \<Rightarrow> store \<Rightarrow> int list" where
  "recheck_ids pid stamp limit s =
     take limit (map (snd \<circ> fst) (rev (sort_key (\<lambda>(_, r). call_start_date (call_data r))
                                            (filter (recheck_candidate pid stamp) (calls s)))))"

definition stamp_recheck :: "rat \<Rightarrow> sync_row \<Rightarrow> sync_row" where
  "stamp_recheck stamp r = r\<lparr>last_recheck_at := Some stamp\<rparr>"

definition charge_recheck :: "int \<Rightarrow> int list \<Rightarrow> store \<Rightarrow> store" where
  "charge_recheck pid ids s =
     s\<lparr>calls := map (\<lambda>((p, i), r). ((p, i), if p = pid \<and> i \<in> set ids
                    then r\<lparr>record_recheck_count := record_recheck_count r + 1\<rparr> else r)) (calls s)\<rparr>"

definition charge_body :: "fence \<Rightarrow> int list \<Rightarrow> rat \<Rightarrow> unit body" where
  "charge_body f ids stamp = (\<lambda>t s.
     rbind (fenced_update f (\<lambda>_. stamp_recheck stamp) (charge_recheck (portal_id f) ids s)) (\<lambda>s'. Inr ((), s')))"

definition run_record_recheck ::
  "'o sync_outside_scheme \<Rightarrow> client \<Rightarrow> fence \<Rightarrow> int \<Rightarrow> rescan_outcome sync_prog" where
  "run_record_recheck c cl f pages_allowed =
     (let n = clamp_pages pages_allowed
      in andThen (worker_now c) (\<lambda>stamp.
         andThen (select_ids c (recheck_ids (portal_id f) stamp (n * page_size))) (\<lambda>ids.
         if ids = [] then andThen (commit_cursor c f (stamp_recheck stamp)) (\<lambda>_. ret rs_idle)
         else andThen (transaction c (charge_body f ids stamp)) (\<lambda>_. store_by_ids c cl f ids n))))"

section \<open>No pass moves a cursor\<close>

lemma owned_image_cong:
  assumes "owned f (image_of move g) s" and "\<And>r. cursors (move r) = cursors r"
  shows "owned f g s"
  using assms by (auto simp: owned_def image_of_def)

text \<open>A write that leaves the cursors alone keeps whatever was known of them.\<close>

lemma seq_stamp:
  assumes "exclusive c f" and "\<And>r. cursors (move r) = cursors r"
    and "triple (at_request (owned f g) n) (k ()) Q raises"
  shows "triple (at_request (owned f g) n) (andThen (commit_cursor c f move) k) Q raises"
  by (rule seq_commit_cursor [OF assms(1)], rule triple_conseq [OF assms(3)])
    (auto simp: at_request_def intro: owned_image_cong assms(2))

lemma seq_rows:
  assumes "exclusive c f" and "\<And>up quar. triple (at_request (owned f g) n) (k (up, quar)) Q raises"
  shows "triple (at_request (owned f g) n) (andThen (commit_progress c f rs None bad) k) Q raises"
  by (rule seq_commit_progress [OF assms(1)], rule triple_conseq [OF assms(2)])
    (auto simp: at_request_def cursor_of_def elim!: owned_image_cong)

lemma seq_select_ids:
  assumes "exclusive c f" and "\<And>ids. triple (at_request (owned f g) n) (k ids) Q raises"
  shows "triple (at_request (owned f g) n) (andThen (select_ids c query) k) Q raises"
  unfolding select_ids_def
  by (rule triple_andThen [OF triple_transaction [OF stable_owned [OF assms(1)], where Q = "\<lambda>_. owned f g"]])
    (auto simp: assms(2))

lemma seq_set_resume:
  assumes "triple (at_request P n) (k ()) Q raises"
  shows "triple (at_request P n) (andThen (set_resume pid v) k) Q raises"
  using assms by (auto simp: triple_def andThen_def set_resume_def at_request_def)

lemma seq_resume_hint:
  assumes "\<And>hint. triple (at_request P n) (k hint) Q raises"
  shows "triple (at_request P n) (andThen (resume_hint pid a b) k) Q raises"
  using assms
  by (auto simp: triple_def andThen_def resume_hint_def set_resume_def at_request_def prog_defs split: option.splits)

lemma seq_charge:
  assumes "exclusive c f" and "triple (at_request (owned f g) n) (k ()) Q raises"
  shows "triple (at_request (owned f g) n) (andThen (transaction c (charge_body f ids stamp)) k) Q raises"
proof (rule triple_andThen [OF triple_transaction [OF stable_owned [OF assms(1)], where Q = "\<lambda>_. owned f g"]])
  fix t s a s'
  assume g: "owned f g s" and run: "charge_body f ids stamp t s = Inr (a, s')"
  have charged: "owned f g (charge_recheck (portal_id f) ids s)"
    using g by (simp add: owned_def charge_recheck_def)
  from run have held: "fence_holds f (charge_recheck (portal_id f) ids s)"
    and s': "s' = update_sync (portal_id f) (stamp_recheck stamp) (charge_recheck (portal_id f) ids s)"
    by (auto simp: charge_body_def rbind_Inr_iff fenced_update_Inr)
  show "owned f g s'"
    by (rule owned_update [OF charged held, where move = "stamp_recheck stamp"])
      (simp_all add: s' stamp_recheck_def cursors_def)
qed (use assms(2) in simp)

lemma seq_read_by_ids:
  assumes "ids \<noteq> []" and "\<And>rs bad errs b. triple (at_request P (Suc n)) (k (rs, bad, errs, b)) Q raises"
  shows "triple (at_request P n) (andThen (read_by_ids c cl ids m) k) Q raises"
proof -
  have "case r of Inl e \<Rightarrow> True | Inr _ \<Rightarrow> at_request P (Suc n) w'"
    if run: "read_by_ids c cl ids m w = (r, w')" and at: "at_request P n w" for w w' r
  proof (cases r)
    case (Inr out)
    then obtain cmds b where b: "batch c cl cmds False w = (Inr b, w')"
      using run assms(1)
      by (auto simp: read_by_ids_def prog_defs raise_if_token_expired_def
          split: prod.splits sum.splits option.splits)
    then have "store w' = store w" "length (requests w') = Suc (length (requests w))"
      by (auto elim!: batch_cases) (metis world.surjective world.select_convs(1) net.select_convs(4))+
    with at Inr show ?thesis by (simp add: at_request_def)
  qed simp
  then have "triple (at_request P n) (read_by_ids c cl ids m) (\<lambda>_. at_request P (Suc n)) raises"
    unfolding triple_def by (metis (no_types, lifting) prod.case surj_pair)
  then show ?thesis
    by (rule triple_andThen) (metis assms(2) prod_cases4)
qed

lemmas rescan_rules = seq_rows seq_extra_rows seq_select_ids seq_set_resume seq_resume_hint seq_charge seq_read_by_ids
  seq_fetch seq_expired seq_now seq_should_continue seq_heartbeat seq_block
  triple_if triple_case_option triple_case_prod

lemma triple_store_by_ids:
  assumes ex: "exclusive c f" and "ids \<noteq> []"
  shows "triple (at_request (owned f g) n) (store_by_ids c cl f ids m)
    (\<lambda>o' w. at_request (owned f g) (n + rs_requests o') w \<and> rs_requests o' \<le> 1) raises"
  unfolding store_by_ids_def
  by (intro rescan_rules ex assms(2) triple_ret) auto

lemma triple_refresh:
  assumes ex: "exclusive c f"
  shows "triple (at_request (owned f g) n) (run_refresh_requested c cl f pages_allowed)
    (\<lambda>o' w. at_request (owned f g) (n + rs_requests o') w \<and> rs_requests o' \<le> 1) raises"
  unfolding run_refresh_requested_def Let_def
  by (intro rescan_rules ex triple_store_by_ids triple_ret) (auto simp: rs_idle_def)

lemma triple_recheck:
  assumes ex: "exclusive c f"
  shows "triple (at_request (owned f g) n) (run_record_recheck c cl f pages_allowed)
    (\<lambda>o' w. at_request (owned f g) (n + rs_requests o') w \<and> rs_requests o' \<le> 1) raises"
  unfolding run_record_recheck_def Let_def
  by (intro rescan_rules seq_stamp ex triple_store_by_ids triple_ret)
    (auto simp: rs_idle_def stamp_recheck_def cursors_def)

lemma triple_rs_step:
  assumes ex: "exclusive c f"
  shows "triple (at_request (owned f g) (n + rs_requests st)) (rs_step c cl f limit start_id st)
    (\<lambda>(go, st') w. at_request (owned f g) (n + rs_requests st') w \<and> rs_requests st' = rs_requests st + 1) raises"
  unfolding rs_step_def Let_def
  by (intro rescan_rules ex triple_ret) auto

lemma triple_window_rescan:
  assumes ex: "exclusive c f"
  shows "triple (at_request (owned f g) n) (run_id_window_rescan c cl f bound high pages_allowed max_batches)
    (\<lambda>o' w. at_request (owned f g) (n + rs_requests o') w \<and> rs_requests o' \<le> nat (max 1 max_batches)) raises"
proof -
  let ?N = "nat (max 1 max_batches)"
  define I where "I k st w \<longleftrightarrow> at_request (owned f g) (n + rs_requests st) w \<and> rs_requests st + k = ?N"
    for k and st :: rescan_walk and w
  define R where "R st w \<longleftrightarrow> at_request (owned f g) (n + rs_requests st) w \<and> rs_requests st \<le> ?N"
    for st :: rescan_walk and w
  have step: "triple (I (Suc k) st) (rs_step c cl f limit start_id st)
      (\<lambda>(go, st'). if go then I k st' else R st') raises" for k st limit start_id
  proof -
    have "triple (\<lambda>w. at_request (owned f g) (n + rs_requests st) w \<and> rs_requests st + Suc k = ?N)
      (rs_step c cl f limit start_id st) (\<lambda>(go, st'). if go then I k st' else R st') raises"
      by (rule triple_pull, rule triple_conseq [OF triple_rs_step [OF ex, of g n st]]) (auto simp: I_def R_def)
    then show ?thesis
      by (rule triple_conseq) (auto simp: I_def)
  qed
  have loop: "triple (at_request (owned f g) n) (for_else ?N (rs_step c cl f limit start_id) (\<lambda>st. st) rs_start) R raises"
    for limit start_id
    by (rule triple_conseq [OF triple_for_else [where I = I and Q = R, OF step]])
      (auto simp: I_def R_def rs_start_def rs_idle_def rescan_outcome.defs rescan_walk.defs)
  have rest: "triple (R st)
      (andThen (if rs_blocked st then skip
                else andThen (set_resume (portal_id f) v) (\<lambda>_.
                     andThen (worker_now c) (\<lambda>stamp. commit_cursor c f (stamp_rescan stamp)))) (\<lambda>_.
       ret (rescan_outcome.truncate st)))
      (\<lambda>o' w. at_request (owned f g) (n + rs_requests o') w \<and> rs_requests o' \<le> ?N) raises" for st :: rescan_walk and v
  proof -
    have stamp: "triple (at_request (owned f g) m) (commit_cursor c f (stamp_rescan t)) (\<lambda>_. at_request (owned f g) m) raises" for t m
      unfolding commit_cursor_def cursor_body_def
      by (rule triple_fenced [OF ex]) (simp add: stamp_rescan_def cursors_def)
    have "triple (at_request (owned f g) m)
      (if rs_blocked st then skip
       else andThen (set_resume (portal_id f) v) (\<lambda>_.
            andThen (worker_now c) (\<lambda>stamp. commit_cursor c f (stamp_rescan stamp)))) (\<lambda>_. at_request (owned f g) m) raises" for m
      unfolding skip_def by (intro triple_if triple_ret seq_set_resume seq_now stamp)
    then have "triple (\<lambda>w. at_request (owned f g) (n + rs_requests st) w \<and> rs_requests st \<le> ?N)
      (andThen (if rs_blocked st then skip
                else andThen (set_resume (portal_id f) v) (\<lambda>_.
                     andThen (worker_now c) (\<lambda>stamp. commit_cursor c f (stamp_rescan stamp)))) (\<lambda>_.
       ret (rescan_outcome.truncate st)))
      (\<lambda>o' w. at_request (owned f g) (n + rs_requests o') w \<and> rs_requests o' \<le> ?N) raises"
      by (intro triple_pull triple_andThen triple_ret) (auto simp: rescan_outcome.defs)
    then show ?thesis
      by (rule triple_conseq) (auto simp: R_def)
  qed
  show ?thesis
    unfolding run_id_window_rescan_def Let_def
    by (intro triple_case_option triple_if seq_resume_hint triple_andThen [OF loop] rest triple_ret)
      (auto simp: rs_idle_def)
qed

section \<open>The window pass of the demo portal\<close>

lemma demo_rescan:
  obtains o' w' where "run_id_window_rescan demo_outside demo_client demo_fence (Some 2) 4 1 10 demo_world = (Inr o', w')"
    and "rs_requests o' = 1"
proof -
  have fv: "first_violation (id_checks (render demo_outside) [(''>=ID'', JInt 2)]) None [demo_call 5, demo_call 7] = None"
    by (simp add: id_checks_from violation_def demo_call_def)
  obtain reqs log where f: "fetch_pages demo_outside demo_client [(''>=ID'', JInt 2)] sort_field order_asc [0] None demo_world =
    (Inr demo_outcome, demo_world\<lparr>requests := reqs, rest_log := log\<rparr>)"
    by (rule demo_fetched [OF demo_requests(5) fv])
  let ?w1 = "demo_world\<lparr>requests := reqs, rest_log := log\<rparr>"
  obtain up quar s1 where rs: "commit_progress demo_outside demo_fence [demo_call 5, demo_call 7] None [] ?w1 =
      (Inr (up, quar), ?w1\<lparr>store := s1, ticks := Suc (ticks ?w1)\<rparr>)" and s1: "fence_holds demo_fence s1"
    by (rule demo_progress [of ?w1 "[demo_call 5, demo_call 7]" None "[]"])
      (auto simp: demo_world_def demo_store_fence cursor_of_def)
  let ?w2 = "?w1\<lparr>store := s1, ticks := Suc (ticks ?w1)\<rparr>"
  obtain s2 where hb: "heartbeat demo_outside demo_fence ?w2 = (Inr (), ?w2\<lparr>store := s2, ticks := Suc (ticks ?w2)\<rparr>)"
    and s2: "fence_holds demo_fence s2"
    by (rule demo_heartbeat [of ?w2]) (simp_all add: s1)
  let ?w3 = "?w2\<lparr>store := s2, ticks := Suc (ticks ?w2)\<rparr>"
  have starts: "page_starts (clamp_pages 1) (rs_offset rs_start) = [0]"
    by (simp add: page_starts_def clamp_pages_def max_batch_commands_def rs_start_def rs_idle_def
        rescan_outcome.defs rescan_walk.defs)
  obtain st where step: "rs_step demo_outside demo_client demo_fence (clamp_pages 1) 2 rs_start demo_world = (Inr (False, st), ?w3)"
    and st: "rs_requests st = 1" "\<not> rs_blocked st" "rs_completed st"
    using f rs hb
    by (simp add: rs_step_def Let_def andThen_def demo_not_expired [simplified] starts ret_def)
      (simp add: rs_start_def rs_idle_def rescan_outcome.defs rescan_walk.defs)
  have "(10::nat) = Suc 9" by simp
  then have loop: "for_else 10 (rs_step demo_outside demo_client demo_fence (clamp_pages 1) 2) g rs_start demo_world =
      (Inr st, ?w3)" for g
    using step by (simp only: for_else.simps) (simp add: andThen_def ret_def)
  have hint: "resume_hint (portal_id demo_fence) 2 4 demo_world = (Inr None, demo_world)"
    by (simp add: resume_hint_def prog_defs demo_world_def)
  let ?w4 = "?w3\<lparr>resume_from := dict_pop (portal_id demo_fence) (resume_from ?w3)\<rparr>"
  have stamp: "commit_cursor demo_outside demo_fence (stamp_rescan 1714560000) ?w4 =
      (Inr (), ?w4\<lparr>store := update_sync 1 (stamp_rescan 1714560000) (store ?w4), ticks := Suc (ticks ?w4)\<rparr>)"
    by (rule demo_commit_cursor(1)) (simp_all add: s2 stamp_rescan_def)
  have "run_id_window_rescan demo_outside demo_client demo_fence (Some 2) 4 1 10 demo_world =
    (Inr (rescan_outcome.truncate st), ?w4\<lparr>store := update_sync 1 (stamp_rescan 1714560000) (store ?w4), ticks := Suc (ticks ?w4)\<rparr>)"
    using stamp st
    by (simp add: run_id_window_rescan_def Let_def andThen_def hint loop demo_now set_resume_def ret_def)
  then show thesis
    by (rule that) (simp add: rescan_outcome.defs st)
qed

end
