(* ===== verification/Visit_Properties.thy ===== *)
theory Visit_Properties
  imports No_Hole Rescan
begin

text \<open>
  The properties of a visit: what each step reports is what it stored, how many requests it
  makes, that a record is never lost below a cursor, and that the passes that re-read rows
  never move a cursor.
\<close>

section \<open>No record is lost\<close>

text \<open>
  C19 The forward cursor leaves no hole: when a page of an ascending selection is advanced over,
  every record of the selection between the old and the new cursor that the fetch could see
  is stored or named by a counted rejection, unless another process has removed it since.
\<close>

theorem forward_leaves_no_hole:
  assumes "read_outcome c now filt None (page_starts k first) b = Inr o'" and "filter_violation o' = None"
    and "serves selection (page_starts k first) (commands b)" and "map record_id selection = map Some contents"
    and "0 \<le> first" and "sorted_wrt (<) contents" and "\<forall>x \<in> set contents. cursor < x"
    and "commit_progress c f (rows o') (Some (forward_cursor stamp cursor (highest_of o' cursor))) (rejected o') w = (Inr res, w')"
    and "x \<in> set (drop (nat first) contents)" and "x \<le> highest_of o' cursor"
  shows "(portal_id f, x) \<in> dom (map_of (calls (store w'))) \<or>
    Some x \<in> fst ` set (rejections (refuses c (ticks w)) (rows o') (rejected o'))"
proof -
  have "cursor < x"
    using assms(7,9) by (meson in_set_dropD)
  then obtain m where m: "m \<in> set (prefix_bx_ids o')" "highest_of o' cursor = m"
    using assms(10) by (auto simp: highest_of_def max_opt_Some split: option.splits)
  have "x \<in> named_ids (rows o') (rejected o')"
    by (rule outcome_no_hole [where R = "(<)", OF assms(1-6) _ m(1) assms(9)]) (use assms(10) m(2) in auto)
  with assms(8) show ?thesis by (rule progress_accounts)
qed

lemma demo_serves: "serves [demo_record 5, demo_record 7] (page_starts 1 0) (commands demo_batch)"
  by (simp add: serves_def page_starts_def demo_batch_def result_rows_def page_size_def)

lemma demo_record_ids: "map record_id [demo_record 5, demo_record 7] = map Some [5, 7]"
proof -
  have "record_id (demo_record i) = Some i" if "1 \<le> i" "i \<le> int64_max" for i
    using that by (simp add: record_id_def demo_record_def field_def demo_fields_def to_int_def)
  then show ?thesis by (simp add: int64_max_def)
qed

lemma demo_read_above:
  "read_outcome demo_outside 1714560000 [(''>ID'', JInt 4)] None (page_starts 1 0) demo_batch = Inr demo_outcome"
  using demo_read_outcome [of "[(''>ID'', JInt 4)]"]
  by (simp add: page_starts_def id_checks_above violation_def demo_call_def)

lemma forward_leaves_no_hole_witness:
  "\<exists>w' res. commit_progress demo_outside demo_fence (rows demo_outcome) (Some (forward_cursor 0 4 (highest_of demo_outcome 4)))
      (rejected demo_outcome) demo_world = (Inr res, w') \<and>
    ((1, 5) \<in> dom (map_of (calls (store w'))) \<or> Some 5 \<in> fst ` set (rejections (refuses demo_outside 0) (rows demo_outcome) []))"
proof -
  have held: "fence_holds demo_fence (store demo_world)"
    by (simp add: demo_world_def demo_store_fence)
  have hi: "highest_of demo_outcome 4 = 7"
    by (simp add: highest_of_def demo_ids max_opt_def)
  obtain up quar s' where run: "commit_progress demo_outside demo_fence (rows demo_outcome)
      (Some (forward_cursor 0 4 (highest_of demo_outcome 4))) (rejected demo_outcome) demo_world =
      (Inr (up, quar), demo_world\<lparr>store := s', ticks := Suc (ticks demo_world)\<rparr>)"
    by (rule demo_progress [OF held, of "rows demo_outcome" "Some (forward_cursor 0 4 (highest_of demo_outcome 4))" "rejected demo_outcome"])
      (auto simp: cursor_of_def forward_cursor_def Let_def)
  have "ticks demo_world = 0" "portal_id demo_fence = 1"
    by (simp_all add: demo_world_def demo_fence_def)
  with forward_leaves_no_hole [OF demo_read_above _ demo_serves demo_record_ids _ _ _ run, of 5] run hi show ?thesis
    by simp
qed

text \<open>
  C20 The backward cursor leaves no hole either: of a descending selection below the old cursor,
  every record down to the new cursor is stored or named by a counted rejection.
\<close>

theorem backward_leaves_no_hole:
  assumes "read_outcome c now filt None (page_starts k 0) b = Inr o'" and "filter_violation o' = None"
    and "serves selection (page_starts k 0) (commands b)" and "map record_id selection = map Some contents"
    and "sorted_wrt (>) contents" and "min_opt (prefix_bx_ids o') = Some lowest"
    and "commit_progress c f (rows o') (Some (backward_cursor stamp lowest imported exhausted)) (rejected o') w = (Inr res, w')"
    and "x \<in> set contents" and "lowest \<le> x"
  shows "(portal_id f, x) \<in> dom (map_of (calls (store w'))) \<or>
    Some x \<in> fst ` set (rejections (refuses c (ticks w)) (rows o') (rejected o'))"
proof -
  have low: "lowest \<in> set (prefix_bx_ids o')"
    using assms(6) by (simp add: min_opt_Some)
  have "x \<in> named_ids (rows o') (rejected o')"
    by (rule outcome_no_hole [where R = "(>)", OF assms(1-4) _ assms(5) _ low]) (use assms(8,9) in auto)
  with assms(7) show ?thesis by (rule progress_accounts)
qed

lemma backward_leaves_no_hole_witness:
  "\<exists>w' res. commit_progress demo_outside demo_fence (rows descending_outcome) (Some (backward_cursor 0 5 2 True))
      (rejected descending_outcome) demo_world = (Inr res, w') \<and>
    ((1, 7) \<in> dom (map_of (calls (store w'))) \<or> Some 7 \<in> fst ` set (rejections (refuses demo_outside 0) (rows descending_outcome) []))"
proof -
  have held: "fence_holds demo_fence (store demo_world)"
    by (simp add: demo_world_def demo_store_fence)
  have ids: "prefix_bx_ids descending_outcome = [7, 5]"
    by (simp add: prefix_bx_ids_def descending_outcome_def demo_outcome_def demo_call_def)
  obtain up quar s' where run: "commit_progress demo_outside demo_fence (rows descending_outcome)
      (Some (backward_cursor 0 5 2 True)) (rejected descending_outcome) demo_world =
      (Inr (up, quar), demo_world\<lparr>store := s', ticks := Suc (ticks demo_world)\<rparr>)"
    by (rule demo_progress [OF held, of "rows descending_outcome" "Some (backward_cursor 0 5 2 True)" "rejected descending_outcome"])
      (auto simp: cursor_of_def backward_cursor_def Let_def descending_outcome_def)
  have served: "serves [demo_record 7, demo_record 5] (page_starts 1 0) (commands descending_batch)"
    by (simp add: serves_def page_starts_def descending_batch_def result_rows_def page_size_def)
  have rec: "map record_id [demo_record 7, demo_record 5] = map Some [7, 5]"
    using demo_record_ids by simp
  have mn: "min_opt (prefix_bx_ids descending_outcome) = Some 5"
    by (simp add: ids min_opt_def)
  have "filter_violation descending_outcome = None"
    by (simp add: descending_outcome_def)
  from backward_leaves_no_hole [OF descending_read this served rec _ mn run, of 7] run show ?thesis
    by (simp add: demo_world_def demo_fence_def descending_outcome_def)
qed

section \<open>What a visit reports is what it stored\<close>

text \<open>
  C27 The forward cursor and the rescan bound a visit reports are the stored ones for as long as
  the fence holds; the cursor never moves back, and the visit counts every request it made.
\<close>

theorem incremental_reports:
  assumes "exclusive c f" and "owned f (cursor_is high bound) (store w)"
    and "run_incremental c cl f high pages_allowed bound hours max_loops w = (Inr o', w')"
  shows "owned f (cursor_is (inc_high_id o') (inc_rescan_from_id o')) (store w') \<and> high \<le> inc_high_id o' \<and>
    length (requests w') = length (requests w) + inc_requests o'"
  using triple_D [OF triple_run_incremental [OF assms(1), of high bound "length (requests w)" cl pages_allowed hours max_loops] _ assms(3)]
    assms(2)
  by (simp add: at_request_def inc_at_def inc_reported_def)

lemma demo_owned_forward: "owned demo_fence (cursor_is 4 (Some 2)) (store demo_world)"
  by (simp add: owned_def cursor_is_def cursors_def demo_world_def demo_store_def demo_fence_def demo_row_def)

lemma incremental_reports_witness:
  "\<exists>o' w'. run_incremental demo_outside demo_client demo_fence 4 20 (Some 2) 72 10 demo_world = (Inr o', w') \<and>
    inc_high_id o' = 7 \<and> owned demo_fence (cursor_is 7 (inc_rescan_from_id o')) (store w')"
proof -
  obtain o' w' where run: "run_incremental demo_outside demo_client demo_fence 4 20 (Some 2) 72 10 demo_world = (Inr o', w')"
    and hi: "inc_high_id o' = 7"
    by (rule demo_incremental)
  from incremental_reports [OF demo_exclusive demo_owned_forward run] run hi show ?thesis by auto
qed

text \<open>
  C28 A forward visit ends: at most the allowed iterations, at most two requests in each, and it
  asks to be called again only after using every iteration and moving at least as many ids on.
\<close>

theorem incremental_bounded:
  assumes "exclusive c f" and "owned f (cursor_is high bound) (store w)"
    and "run_incremental c cl f high pages_allowed bound hours max_loops w = (Inr o', w')"
  shows "inc_loops o' \<le> nat (max 1 max_loops) \<and> inc_requests o' \<le> 2 * inc_loops o' \<and>
    (inc_more o' \<longrightarrow> inc_loops o' = nat (max 1 max_loops) \<and> high + max 1 max_loops \<le> inc_high_id o')"
  using triple_D [OF triple_run_incremental [OF assms(1), of high bound "length (requests w)" cl pages_allowed hours max_loops] _ assms(3)]
    assms(2)
  by (auto simp: at_request_def inc_reported_def split: if_splits)

lemma incremental_bounded_witness:
  "\<exists>o' w'. run_incremental demo_outside demo_client demo_fence 4 20 (Some 2) 72 10 demo_world = (Inr o', w') \<and>
    inc_loops o' \<le> 10 \<and> \<not> inc_more o'"
proof -
  obtain o' w' where run: "run_incremental demo_outside demo_client demo_fence 4 20 (Some 2) 72 10 demo_world = (Inr o', w')"
    and hi: "inc_high_id o' = 7"
    by (rule demo_incremental)
  from incremental_bounded [OF demo_exclusive demo_owned_forward run] run hi show ?thesis by auto
qed

text \<open>
  The backward cursor, the state and the count a backfill reports are the stored ones for as
  long as the fence holds; the cursor never moves up, every batch is one request, and the
  visit asks to be called again only while running and after moving down in every batch.
\<close>

theorem backfill_reports:
  assumes "exclusive c f" and "owned f (low_is low Running imported) (store w)"
    and "run_backfill c cl f (Some low) pages_allowed imported budget w = (Inr (Some o'), w')"
  shows "owned f (low_is (bf_low_id o') (bf_status o') (bf_done o')) (store w') \<and> bf_low_id o' \<le> low \<and>
    length (requests w') = length (requests w) + bf_requests o' \<and> bf_requests o' = bf_batches o' \<and>
    bf_batches o' \<le> nat (max 1 budget) \<and>
    (bf_more o' \<longrightarrow> bf_status o' = Running \<and> bf_low_id o' + max 1 budget \<le> low)"
  using triple_D [OF triple_run_backfill [OF assms(1), of low imported "length (requests w)" cl pages_allowed budget] _ assms(3)]
    assms(2)
  by (auto simp: at_request_def bf_at_def bf_reported_def split: if_splits)

lemma demo_owned_backward: "owned demo_fence (low_is 9 Running 0) (store demo_world)"
  by (simp add: owned_def low_is_def cursors_def demo_world_def demo_store_def demo_fence_def demo_row_def)

lemma backfill_reports_witness:
  "\<exists>o' w'. run_backfill demo_outside demo_client demo_fence (Some 9) 1 0 20 demo_world = (Inr (Some o'), w') \<and>
    bf_low_id o' = 5 \<and> owned demo_fence (low_is 5 Done (bf_done o')) (store w')"
proof -
  obtain o' w' where run: "run_backfill demo_outside demo_client demo_fence (Some 9) 1 0 20 demo_world = (Inr (Some o'), w')"
    and st: "bf_low_id o' = 5" "bf_status o' = Done"
    by (rule demo_backfill)
  from backfill_reports [OF demo_exclusive demo_owned_backward run] run st show ?thesis by auto
qed

text \<open>
  C29 A backfill is declared done only on evidence: the last request of the visit asked for what
  lies below the cursor of that moment, its answer was read without an error or a filter
  violation, and it held nothing, or had no next page and the new cursor as its lowest id.
\<close>

theorem backfill_done_on_evidence:
  assumes "exclusive c f" and "owned f (low_is low Running imported) (store w)"
    and "run_backfill c cl f (Some low) pages_allowed imported budget w = (Inr (Some o'), w')"
    and "bf_status o' = Done"
  shows "\<exists>floor_id answer. floor_id \<le> low \<and>
    answered c cl [(''<ID'', JInt floor_id)] sort_field order_desc (page_starts (clamp_pages pages_allowed) 0) None
      (length (requests w') - 1) answer \<and>
    errors answer = [] \<and> filter_violation answer = None \<and> 0 < prefix_len answer \<and>
    (rows answer = [] \<and> rejected answer = [] \<or>
     \<not> has_next answer \<and> min_opt (prefix_bx_ids answer) = Some (bf_low_id o'))"
proof -
  have rep: "bf_reported c cl (clamp_pages pages_allowed) (length (requests w)) low (nat (max 1 budget)) o'"
    "length (requests w') = length (requests w) + bf_requests o'"
    using triple_D [OF triple_run_backfill [OF assms(1), of low imported "length (requests w)" cl pages_allowed budget] _ assms(3)]
      assms(2) by (auto simp: at_request_def bf_at_def)
  then obtain b where "b \<le> low"
    "end_seen c cl (clamp_pages pages_allowed) (length (requests w) + bf_requests o' - 1) b (bf_low_id o')"
    using assms(4) by (auto simp: bf_reported_def)
  with rep(2) show ?thesis
    unfolding end_seen_def exhausted_by_def by auto
qed

lemma backfill_done_on_evidence_witness:
  "\<exists>o' w' floor_id answer. run_backfill demo_outside demo_client demo_fence (Some 9) 1 0 20 demo_world = (Inr (Some o'), w') \<and>
    floor_id \<le> 9 \<and> answered demo_outside demo_client [(''<ID'', JInt floor_id)] sort_field order_desc
      (page_starts (clamp_pages 1) 0) None (length (requests w') - 1) answer \<and> errors answer = []"
proof -
  obtain o' w' where run: "run_backfill demo_outside demo_client demo_fence (Some 9) 1 0 20 demo_world = (Inr (Some o'), w')"
    and st: "bf_status o' = Done"
    by (rule demo_backfill)
  from backfill_done_on_evidence [OF demo_exclusive demo_owned_backward run st] run show ?thesis by blast
qed

text \<open>
  A head fetch that completes has stored both cursors and the state it reports, and whatever
  it reports, it counts every request it made.
\<close>

theorem head_fetch_reports:
  assumes "exclusive c f" and "run_head_fetch c cl f pages_allowed w = (Inr h, w')"
  shows "length (requests w') = length (requests w) + head_requests h \<and>
    (head_completed h \<longrightarrow> owned f (\<lambda>(high, low, _, state, _).
       head_high_id h = Some high \<and> head_low_id h = low \<and> head_status h = Some state) (store w'))"
proof -
  have "at_request (owned f (\<lambda>_. True)) (length (requests w)) w"
    by (simp add: at_request_def owned_def)
  from triple_D [OF triple_head_fetch [OF assms(1)] this assms(2)]
  have "owned f (head_reported h) (store w')" "length (requests w') = length (requests w) + head_requests h"
    by (auto simp: at_request_def)
  then show ?thesis
    by (auto simp: head_reported_def head_completed_def elim!: owned_weaken)
qed

lemma head_fetch_reports_witness:
  "\<exists>h w'. run_head_fetch demo_outside demo_client demo_fence 1 demo_world = (Inr h, w') \<and>
    owned demo_fence (\<lambda>(high, low, _, state, _). high = 7 \<and> low = Some 5 \<and> state = Done) (store w')"
proof -
  obtain h w' where run: "run_head_fetch demo_outside demo_client demo_fence 1 demo_world = (Inr h, w')"
    and h: "head_high_id h = Some 7" "head_low_id h = Some 5" "head_status h = Some Done"
    by (rule demo_head_fetch)
  from head_fetch_reports [OF demo_exclusive run] have
    "owned demo_fence (\<lambda>(high, low, _, state, _). high = 7 \<and> low = Some 5 \<and> state = Done) (store w')"
    by (auto simp: h head_completed_def elim!: owned_weaken)
  with run show ?thesis by blast
qed

section \<open>The passes that re-read rows\<close>

text \<open>
  The window pass moves no cursor: whatever is known of the cursors before it is true after
  it, and it makes one request per batch within its budget.
\<close>

theorem window_rescan_keeps_cursors:
  assumes "exclusive c f" and "owned f g (store w)"
    and "run_id_window_rescan c cl f bound high pages_allowed max_batches w = (Inr o', w')"
  shows "owned f g (store w') \<and> length (requests w') = length (requests w) + rs_requests o' \<and>
    rs_requests o' \<le> nat (max 1 max_batches)"
  using triple_D [OF triple_window_rescan [OF assms(1), of g "length (requests w)" cl bound high pages_allowed max_batches] _ assms(3)]
    assms(2)
  by (auto simp: at_request_def)

lemma window_rescan_keeps_cursors_witness:
  "\<exists>o' w'. run_id_window_rescan demo_outside demo_client demo_fence (Some 2) 4 1 10 demo_world = (Inr o', w') \<and>
    owned demo_fence (cursor_is 4 (Some 2)) (store w') \<and> rs_requests o' = 1"
proof -
  obtain o' w' where run: "run_id_window_rescan demo_outside demo_client demo_fence (Some 2) 4 1 10 demo_world = (Inr o', w')"
    and o': "rs_requests o' = 1"
    by (rule demo_rescan)
  from window_rescan_keeps_cursors [OF demo_exclusive demo_owned_forward run] run o' show ?thesis by blast
qed

text \<open>
  A recording is asked for at most twice: charging the candidates of one selection raises the
  count of exactly the chosen candidates by one, never beyond the maximum, and changes nothing
  else; the selection is as long as its limit allows at most.
\<close>

theorem recheck_within_budget:
  assumes "distinct (map fst (calls s))"
    and "(k, new) \<in> set (calls (charge_recheck pid (recheck_ids pid stamp limit s) s))"
  shows "\<exists>old. (k, old) \<in> set (calls s) \<and>
    (if fst k = pid \<and> snd k \<in> set (recheck_ids pid stamp limit s)
     then new = old\<lparr>record_recheck_count := record_recheck_count old + 1\<rparr> \<and>
       record_recheck_count new \<le> recheck_max_count \<and> recheck_candidate pid stamp (k, old)
     else new = old) \<and> length (recheck_ids pid stamp limit s) \<le> limit"
proof -
  obtain p i where k: "k = (p, i)" by (cases k)
  obtain old where old: "((p, i), old) \<in> set (calls s)"
    and new: "new = (if p = pid \<and> i \<in> set (recheck_ids pid stamp limit s)
        then old\<lparr>record_recheck_count := record_recheck_count old + 1\<rparr> else old)"
    using assms(2) by (auto simp: charge_recheck_def k)
  have "recheck_candidate pid stamp ((p, i), old)" if "p = pid" "i \<in> set (recheck_ids pid stamp limit s)"
  proof -
    from that(2) obtain p' r where r: "((p', i), r) \<in> set (calls s)" "recheck_candidate pid stamp ((p', i), r)"
      by (auto simp: recheck_ids_def dest!: in_set_takeD)
    then have "p' = pid"
      by (simp add: recheck_candidate_def Let_def)
    with r(1) old that(1) assms(1) have "r = old"
      by (metis map_of_is_SomeI option.inject)
    with r(2) \<open>p' = pid\<close> that(1) show ?thesis by simp
  qed
  then show ?thesis
    using old new by (intro exI [of _ old]) (auto simp: k recheck_candidate_def Let_def recheck_ids_def)
qed

definition silent_call :: stored_call where
  "silent_call = \<lparr>call_data = (demo_call 5)\<lparr>call_duration := 30\<rparr>, record_recheck_count = 1, refresh_requested = False,
     first_seen_at = 0, last_synced_at = 0, content_changed_at = None\<rparr>"

definition silent_store :: store where
  "silent_store = demo_store\<lparr>calls := [((1, 5), silent_call)]\<rparr>"

lemma silent_ids: "recheck_ids 1 1714917600 50 silent_store = [5]"
  by (simp add: recheck_ids_def silent_store_def silent_call_def recheck_candidate_def Let_def demo_call_def
      recheck_max_count_def recheck_min_age_def recheck_max_age_def)

lemma recheck_within_budget_witness:
  "((1, 5), silent_call\<lparr>record_recheck_count := 2\<rparr>) \<in>
     set (calls (charge_recheck 1 (recheck_ids 1 1714917600 50 silent_store) silent_store)) \<and>
   (2::int) \<le> recheck_max_count"
proof -
  have new: "((1, 5), silent_call\<lparr>record_recheck_count := 2\<rparr>) \<in>
     set (calls (charge_recheck 1 (recheck_ids 1 1714917600 50 silent_store) silent_store))"
    unfolding silent_ids by (simp add: charge_recheck_def silent_store_def silent_call_def)
  have "distinct (map fst (calls silent_store))"
    by (simp add: silent_store_def)
  from recheck_within_budget [OF this new] new show ?thesis
    by (auto simp: silent_ids)
qed

end
