(* ===== verification/Mirror.thy ===== *)
theory Mirror
  imports No_Hole
begin

text \<open>
  The property of a whole visit: against a portal that serves its journal page by page, the rows
  below a cursor mirror the journal. \<open>No_Hole\<close> shows it of one batch; here it is carried through
  the loops of \<open>run_incremental\<close> and \<open>run_backfill\<close>, together with the evidence on which a pass may
  say that nothing is left.
\<close>

section \<open>The portal's journal\<close>

definition id_holds :: "(int \<Rightarrow> bool) \<Rightarrow> json \<Rightarrow> bool" where
  "id_holds p raw = (case record_id raw of None \<Rightarrow> False | Some i \<Rightarrow> p i)"

definition above_id :: "int \<Rightarrow> json list \<Rightarrow> json list" where
  "above_id base raws = filter (id_holds (\<lambda>i. base < i)) raws"

definition below_id :: "int \<Rightarrow> json list \<Rightarrow> json list" where
  "below_id base raws = rev (filter (id_holds (\<lambda>i. i < base)) raws)"

text \<open>
  \<open>j n\<close> is the journal as the \<open>n\<close>-th request finds it: records with an id, ascending, to which new
  calls are appended.
\<close>

definition journal :: "(nat \<Rightarrow> json list) \<Rightarrow> bool" where
  "journal j \<longleftrightarrow>
     (\<forall>n. (\<exists>ids. map record_id (j n) = map Some ids \<and> sorted_wrt (<) ids) \<and> (\<exists>new. j (Suc n) = j n @ new))"

text \<open>A page without an error names a further page exactly when the selection goes on behind it.\<close>

definition tells_next :: "json list \<Rightarrow> int list \<Rightarrow> command_result list \<Rightarrow> bool" where
  "tells_next selection starts cmds \<longleftrightarrow>
     (\<forall>i < length starts. cmd_error (cmds ! i) = None \<longrightarrow>
        (cmd_next (cmds ! i) \<noteq> None) = (nat (starts ! i) + page_size < length selection))"

text \<open>
  What the portal documents of \<open>voximplant.statistic.get\<close>: with a filter on the id, in the order
  asked for, each command of a batch is answered by its slice of the selection, or by an error.
\<close>

definition honest ::
  "'o sync_outside_scheme \<Rightarrow> client \<Rightarrow> string \<Rightarrow> string \<Rightarrow> (int \<Rightarrow> nat \<Rightarrow> json list) \<Rightarrow> bool" where
  "honest c cl key order sel \<longleftrightarrow>
     (\<forall>base starts cmds b. \<forall>w w' :: world.
        page_commands [(key, JInt base)] sort_field order 0 starts = Inr cmds \<longrightarrow>
        batch c cl cmds False w = (Inr b, w') \<longrightarrow>
        serves (sel base (length (requests w))) starts (commands b) \<and>
        tells_next (sel base (length (requests w))) starts (commands b))"

text \<open>A record the parser keeps and the database takes, at whatever moment of the run.\<close>

definition usable :: "'o sync_outside_scheme \<Rightarrow> json \<Rightarrow> bool" where
  "usable c raw \<longleftrightarrow>
     (\<forall>n. case parse_row (lib_of c) (wall c n) raw of
            Inr (Some r, _, _) \<Rightarrow> \<forall>t. refuses c t r = None | _ \<Rightarrow> False)"

definition good_ids :: "'o sync_outside_scheme \<Rightarrow> json list \<Rightarrow> int set" where
  "good_ids c raws = {x. \<exists>raw \<in> set raws. record_id raw = Some x \<and> usable c raw}"

section \<open>Rows and records\<close>

lemma parse_row_id:
  assumes "parse_row lib now raw = Inr (Some r, i, rs)"
  shows "record_id raw = Some (bx_id r)"
proof -
  obtain d the_id where d: "fields_of raw = Some d" "to_int (field d ''ID'') = Some the_id" "1 \<le> the_id \<and> the_id \<le> int64_max"
    using assms by (auto simp: parse_row_def split: option.splits if_splits)
  with assms obtain sd where "(Some r, i, rs) = (case sd of Inl reason \<Rightarrow> (None, Some the_id, [reason])
      | Inr start \<Rightarrow> (let (row, reasons) = build_row lib d the_id start in (Some row, Some the_id, reasons)))"
    by (auto simp: parse_row_def rbind_Inr_iff dest: sym)
  then obtain start rs' where "build_row lib d the_id start = (r, rs')"
    by (cases sd) (auto simp: Let_def split: prod.splits)
  with d build_row_id [of lib d the_id start] show ?thesis
    by (simp add: record_id_def)
qed

lemma parse_rows_rows:
  "parse_rows lib now raws = Inr out \<Longrightarrow>
   set (out_rows out) = {r. \<exists>raw \<in> set raws. \<exists>i rs. parse_row lib now raw = Inr (Some r, i, rs)}"
proof (induction raws arbitrary: out)
  case Nil
  then show ?case by auto
next
  case (Cons raw raws)
  obtain row the_id reasons rest where p: "parse_row lib now raw = Inr (row, the_id, reasons)"
    "parse_rows lib now raws = Inr rest"
    "out_rows out = (case row of None \<Rightarrow> [] | Some r \<Rightarrow> [r]) @ out_rows rest"
    "out_rejected out = map (\<lambda>reason. (the_id, reason)) reasons @ out_rejected rest"
    by (rule parse_rows_Cons [OF Cons.prems(1)])
  show ?case
    using p(1) Cons.IH [OF p(2)] by (auto simp: p(3) split: option.splits)
qed

text \<open>What an outcome was read from.\<close>

definition read_from ::
  "'o fetch_outside_scheme \<Rightarrow> rat \<Rightarrow> nat \<Rightarrow> int \<Rightarrow> json list \<Rightarrow> fetch_outcome \<Rightarrow> bool" where
  "read_from c now k first sel o' \<longleftrightarrow>
     (\<exists>b filt. read_outcome c now filt None (page_starts k first) b = Inr o' \<and>
        serves sel (page_starts k first) (commands b) \<and> tells_next sel (page_starts k first) (commands b))"

lemma page_rows_from:
  assumes "read_pages c now (zip starts cmds) = Inr pages" and "serves sel starts cmds"
    and "p \<in> set pages" and "r \<in> set (page_rows p)"
  shows "\<exists>raw \<in> set sel. \<exists>i rs. parse_row (lib_of c) now raw = Inr (Some r, i, rs)"
proof -
  have len: "length pages = length starts" "length cmds = length starts"
    using read_pages_length [OF assms(1)] assms(2) by (simp_all add: serves_def)
  obtain i where i: "i < length starts" "p = pages ! i"
    using assms(3) by (metis in_set_conv_nth len(1))
  have "read_page c now (zip starts cmds ! i) = Inr (pages ! i)"
    by (rule read_pages_nth [OF assms(1)]) (simp add: i len)
  then have pg: "read_page c now (starts ! i, cmds ! i) = Inr p"
    by (simp add: i len)
  obtain out where out: "p = Inr out" "r \<in> set (out_rows out)"
    using assms(4) by (auto simp: page_rows_def split: sum.splits)
  have err: "cmd_error (cmds ! i) = None"
    using pg unfolding out(1) by (rule read_page_ok)
  then have "result_rows (cmd_result (cmds ! i)) = Inr (take page_size (drop (nat (starts ! i)) sel))"
    using assms(2) i(1) by (simp add: serves_def)
  with pg err have "parse_rows (lib_of c) now (take page_size (drop (nat (starts ! i)) sel)) = Inr out"
    by (auto simp: read_page_def out(1) rbind_Inr_iff)
  from parse_rows_rows [OF this] out(2) obtain raw where
    "raw \<in> set (take page_size (drop (nat (starts ! i)) sel))" "\<exists>i rs. parse_row (lib_of c) now raw = Inr (Some r, i, rs)"
    by auto
  then show ?thesis
    by (meson in_set_takeD in_set_dropD)
qed

lemma rows_from:
  assumes "read_from c now k first sel o'" and "r \<in> set (rows o') \<union> set (extra_rows o')"
  shows "\<exists>raw \<in> set sel. \<exists>i rs. parse_row (lib_of c) now raw = Inr (Some r, i, rs)"
proof -
  obtain b filt pages block where pages: "read_pages c now (zip (page_starts k first) (commands b)) = Inr pages"
    and o': "o' = build_outcome (id_checks (render c) filt) None b pages block"
    and sv: "serves sel (page_starts k first) (commands b)"
    using assms(1) by (auto simp: read_from_def read_outcome_def lift_py_Inr rbind_Inr_iff)
  have "\<exists>p \<in> set pages. r \<in> set (page_rows p)"
    using assms(2) by (auto simp: o' build_outcome_def Let_def split: if_splits dest: in_set_takeD in_set_dropD)
  then show ?thesis
    using page_rows_from [OF pages sv] by blast
qed

lemma nth_in_page:
  assumes "i < k" and "x \<in> set (take page_size (drop (i * page_size) xs))"
  shows "x \<in> set (take (k * page_size) xs)"
  using assms unfolding take_pages by blast

text \<open>A usable record among the pages of the prefix is a row of the outcome.\<close>

lemma rows_cover:
  assumes "read_pages c now (zip (page_starts k first) cmds) = Inr pages"
    and "serves sel (page_starts k first) cmds" and "0 \<le> first"
    and "raw \<in> set (take (length (takeWhile page_ok pages) * page_size) (drop (nat first) sel))"
    and "parse_row (lib_of c) now raw = Inr (Some r, i, rs)"
  shows "r \<in> set (concat (map page_rows (take (length (takeWhile page_ok pages)) pages)))"
proof -
  define n where "n = length (takeWhile page_ok pages)"
  have len: "length pages = k" "length cmds = k"
    using read_pages_length [OF assms(1)] assms(2) by (simp_all add: serves_def)
  have n: "n \<le> k"
    using len(1) by (metis n_def length_takeWhile_le)
  obtain p where p: "p < n" "raw \<in> set (take page_size (drop (p * page_size) (drop (nat first) sel)))"
    using assms(4) unfolding take_pages n_def [symmetric] by blast
  have ok: "page_ok (pages ! p)"
    using p(1) unfolding n_def by (metis nth_mem set_takeWhileD takeWhile_nth)
  then obtain out where out: "pages ! p = Inr out"
    by (auto simp: page_ok_def split: sum.splits)
  have "read_page c now (zip (page_starts k first) cmds ! p) = Inr (pages ! p)"
    by (rule read_pages_nth [OF assms(1)]) (use p(1) n len in simp)
  then have pg: "read_page c now (page_starts k first ! p, cmds ! p) = Inr (Inr out)"
    using p(1) n len out by simp
  then have err: "cmd_error (cmds ! p) = None"
    by (rule read_page_ok)
  have "nat (page_starts k first ! p) = p * page_size + nat first"
    using p(1) n assms(3) by (simp add: page_starts_nth nat_add_distrib nat_mult_distrib)
  with assms(2) p(1) n err have "result_rows (cmd_result (cmds ! p)) =
      Inr (take page_size (drop (p * page_size) (drop (nat first) sel)))"
    by (simp add: serves_def)
  with pg err have "parse_rows (lib_of c) now (take page_size (drop (p * page_size) (drop (nat first) sel))) = Inr out"
    by (auto simp: read_page_def rbind_Inr_iff)
  from parse_rows_rows [OF this] p(2) assms(5) have "r \<in> set (out_rows out)"
    by blast
  then have "r \<in> set (page_rows (pages ! p))"
    by (simp add: out page_rows_def)
  moreover have "pages ! p \<in> set (take n pages)"
    using p(1) n len(1) by (metis in_set_conv_nth length_take min.absorb2 nth_take)
  ultimately show ?thesis
    unfolding n_def by auto
qed


lemma record_unique:
  assumes "map record_id sel = map Some ids" and "distinct ids"
    and "raw \<in> set sel" "raw' \<in> set sel" and "record_id raw = Some x" "record_id raw' = Some x"
  shows "raw = raw'"
proof -
  have "inj_on record_id (set sel)"
    using assms(1,2) by (metis distinct_map distinct_map inj_Some inj_on_subset subset_UNIV)
  with assms(3-6) show ?thesis
    by (simp add: inj_onD)
qed

lemma sorted_distinct_strict: "sorted_wrt R xs \<Longrightarrow> (\<And>a b. R a b \<Longrightarrow> \<not> R b a) \<Longrightarrow> distinct xs"
  by (induction xs) auto

text \<open>What a batch brings of the ids \<open>Y\<close>: a row for each, none of which the database refuses.\<close>

definition brings :: "'o sync_outside_scheme \<Rightarrow> call_row list \<Rightarrow> int set \<Rightarrow> bool" where
  "brings c rs Y \<longleftrightarrow>
     (\<forall>y \<in> Y. 0 < y \<and> y \<in> bx_id ` set rs \<and> (\<forall>r \<in> set rs. bx_id r = y \<longrightarrow> (\<forall>t. refuses c t r = None)))"

lemma usable_row:
  assumes "usable c raw"
  obtains r i rs where "parse_row (lib_of c) (wall c n) raw = Inr (Some r, i, rs)" "\<forall>t. refuses c t r = None"
proof -
  have now: "case parse_row (lib_of c) (wall c n) raw of
      Inr (Some r, _, _) \<Rightarrow> \<forall>t. refuses c t r = None | _ \<Rightarrow> False"
    using assms unfolding usable_def by blast
  then obtain row i rs where p: "parse_row (lib_of c) (wall c n) raw = Inr (row, i, rs)"
    by (cases "parse_row (lib_of c) (wall c n) raw") auto
  with now obtain r where "row = Some r" "\<forall>t. refuses c t r = None"
    by (cases row) auto
  with p that show thesis by blast
qed

lemma record_id_pos: "record_id raw = Some x \<Longrightarrow> 0 < x"
  by (auto simp: record_id_def split: option.splits if_splits)

lemma outcome_brings:
  assumes read: "read_from c (wall c t) k first sel o'" and "filter_violation o' = None"
    and ids: "map record_id sel = map Some contents" and "0 \<le> first"
    and "sorted_wrt R contents" and asym: "\<And>a b. R a b \<Longrightarrow> \<not> R b a" and "m \<in> set (prefix_bx_ids o')"
    and Y: "\<And>y. y \<in> Y \<Longrightarrow> y = m \<or> R y m"
      "\<And>y. y \<in> Y \<Longrightarrow> \<exists>raw \<in> set (drop (nat first) sel). record_id raw = Some y \<and> usable c raw"
  shows "brings c (rows o') Y"
  unfolding brings_def
proof (intro ballI)
  fix y
  assume y: "y \<in> Y"
  obtain b filt where b: "read_outcome c (wall c t) filt None (page_starts k first) b = Inr o'"
    "serves sel (page_starts k first) (commands b)"
    using read by (auto simp: read_from_def)
  obtain pages n where pages: "read_pages c (wall c t) (zip (page_starts k first) (commands b)) = Inr pages"
    and n: "n = length (takeWhile page_ok pages)" and rows: "rows o' = concat (map page_rows (take n pages))"
    and "rejected o' = concat (map page_rejected pages)"
    and upto: "\<forall>m \<in> set (prefix_bx_ids o'). \<forall>x \<in> set (drop (nat first) contents). x = m \<or> R x m \<longrightarrow>
       x \<in> set (take (n * page_size) (drop (nat first) contents))"
    by (rule outcome_prefix [OF b(1) assms(2) b(2) ids assms(4,5) asym])
  obtain raw where raw: "raw \<in> set (drop (nat first) sel)" "record_id raw = Some y" "usable c raw"
    using Y(2) [OF y] by blast
  obtain r i rs where r: "parse_row (lib_of c) (wall c t) raw = Inr (Some r, i, rs)" "\<forall>t. refuses c t r = None"
    using raw(3) by (rule usable_row)
  note unique = record_unique [OF ids sorted_distinct_strict [OF assms(5) asym]]
  have "Some y \<in> set (map record_id (drop (nat first) sel))"
    using raw(1,2) by force
  then have "y \<in> set (drop (nat first) contents)"
    unfolding drop_map [symmetric] ids by (auto simp: drop_map)
  then have "y \<in> set (take (n * page_size) (drop (nat first) contents))"
    using upto assms(7) Y(1) [OF y] by blast
  then have "Some y \<in> set (map record_id (take (n * page_size) (drop (nat first) sel)))"
    unfolding take_map [symmetric] drop_map [symmetric] ids by (simp add: take_map drop_map)
  then obtain raw' where raw': "raw' \<in> set (take (n * page_size) (drop (nat first) sel))" "record_id raw' = Some y"
    by force
  then have "raw' = raw"
    using raw(1,2) by (intro unique) (auto dest: in_set_takeD in_set_dropD)
  with raw'(1) have "r \<in> set (rows o')"
    unfolding rows n by (intro rows_cover [OF pages b(2) assms(4) _ r(1)]) simp
  moreover have "bx_id r = y"
    using parse_row_id [OF r(1)] raw(2) by simp
  moreover have "r' = r" if "r' \<in> set (rows o')" "bx_id r' = y" for r'
  proof -
    obtain raw2 i2 rs2 where raw2: "raw2 \<in> set sel" "parse_row (lib_of c) (wall c t) raw2 = Inr (Some r', i2, rs2)"
      using rows_from [OF read] \<open>r' \<in> set (rows o')\<close> by blast
    with parse_row_id [OF raw2(2)] that(2) raw have "raw2 = raw"
      by (intro unique) (auto dest: in_set_dropD)
    with raw2 r(1) show ?thesis by simp
  qed
  ultimately show "0 < y \<and> y \<in> bx_id ` set (rows o') \<and>
      (\<forall>r \<in> set (rows o'). bx_id r = y \<longrightarrow> (\<forall>t. refuses c t r = None))"
    using r(2) record_id_pos [OF raw(2)] by blast
qed

text \<open>A batch without an error: it names its whole range, and says rightly whether more follows.\<close>

lemma outcome_full:
  assumes "read_from c now k first sel o'" and "filter_violation o' = None" and "errors o' = []"
    and "map record_id sel = map Some contents" and "0 \<le> first" and "0 < k"
  shows "set (take (k * page_size) (drop (nat first) contents)) \<subseteq> set (prefix_bx_ids o')"
    and "has_next o' = (nat first + k * page_size < length sel)"
    and "rows o' = [] \<and> rejected o' = [] \<Longrightarrow> take (k * page_size) (drop (nat first) contents) = []"
proof -
  let ?starts = "page_starts k first"
  obtain b filt pages block where pages: "read_pages c now (zip ?starts (commands b)) = Inr pages"
    and o': "o' = build_outcome (id_checks (render c) filt) None b pages block"
    and sv: "serves sel ?starts (commands b)" and next_ok: "tells_next sel ?starts (commands b)"
    using assms(1) by (auto simp: read_from_def read_outcome_def lift_py_Inr rbind_Inr_iff)
  have len: "length pages = k" "length (commands b) = k"
    using read_pages_length [OF pages] sv by (simp_all add: serves_def)
  have "\<forall>p \<in> set pages. page_ok p"
    using assms(3) by (simp add: o' build_outcome_def Let_def page_errors_empty [simplified])
  then have ok: "takeWhile page_ok pages = pages"
    by simp
  have viol: "first_violation (id_checks (render c) filt) None
      (concat (map page_rows (take k pages)) @ concat (map page_rows (drop k pages))) = None"
    using assms(2) by (simp add: o' build_outcome_def Let_def ok len split: if_splits)
  have out: "rows o' = concat (map page_rows pages)" "rejected o' = concat (map page_rejected pages)"
    "prefix_len o' = k" "command_count o' = k" "has_next o' = (cmd_next (commands b ! (k - 1)) \<noteq> None)"
    using viol assms(6) by (simp_all add: o' build_outcome_def Let_def ok len)
  have named: "named_ids (rows o') (rejected o') = set (take (k * page_size) (drop (nat first) contents))"
    using prefix_named [OF pages sv assms(4,5)] by (simp add: ok out len)
  have "named_ids (rows o') (rejected o') \<subseteq> set (prefix_bx_ids o')"
    using assms(3) by (force simp: named_ids_def prefix_bx_ids_def out(3,4) List.map_filter_def)
  then show "set (take (k * page_size) (drop (nat first) contents)) \<subseteq> set (prefix_bx_ids o')"
    unfolding named .
  show "take (k * page_size) (drop (nat first) contents) = []" if "rows o' = [] \<and> rejected o' = []"
    using named that by (simp add: named_ids_def)
  have "page_ok (pages ! (k - 1))"
    using \<open>\<forall>p \<in> set pages. page_ok p\<close> len assms(6) by simp
  then obtain out where "pages ! (k - 1) = Inr out"
    by (auto simp: page_ok_def split: sum.splits)
  then have "read_page c now (?starts ! (k - 1), commands b ! (k - 1)) = Inr (Inr out)"
    using read_pages_nth [OF pages, of "k - 1"] len assms(6) by simp
  then have "cmd_error (commands b ! (k - 1)) = None"
    by (rule read_page_ok)
  then have "has_next o' = (nat (?starts ! (k - 1)) + page_size < length sel)"
    using next_ok assms(6) unfolding out(5) tells_next_def by simp
  moreover have "nat (?starts ! (k - 1)) + page_size = nat first + k * page_size"
  proof -
    obtain m where "k = Suc m"
      using assms(6) by (cases k) auto
    then show ?thesis
      using assms(5) by (simp add: page_starts_nth nat_add_distrib nat_mult_distrib)
  qed
  ultimately show "has_next o' = (nat first + k * page_size < length sel)"
    by simp
qed

section \<open>What stays stored\<close>

text \<open>
  As long as the fence holds, the rows of \<open>X\<close> are in the table. Other processes may take the fence
  away; while it holds they delete no call of the portal (\<open>purge\<close> works on portals without a run).
\<close>

definition kept :: "fence \<Rightarrow> int set \<Rightarrow> store \<Rightarrow> bool" where
  "kept f X s \<longleftrightarrow> (fence_holds f s \<longrightarrow> (\<forall>x \<in> X. map_of (calls s) (portal_id f, x) \<noteq> None))"

definition deletes_nothing :: "'o sync_outside_scheme \<Rightarrow> fence \<Rightarrow> bool" where
  "deletes_nothing c f \<longleftrightarrow>
     (\<forall>t s. fence_holds f (interfere c t s) \<longrightarrow> fence_holds f s \<and>
        (\<forall>x. map_of (calls s) (portal_id f, x) \<noteq> None \<longrightarrow>
             map_of (calls (interfere c t s)) (portal_id f, x) \<noteq> None))"

lemma stable_kept: "deletes_nothing c f \<Longrightarrow> stable c (kept f X)"
  by (auto simp: stable_def kept_def deletes_nothing_def)

lemma kept_mono: "kept f X s \<Longrightarrow> Y \<subseteq> X \<Longrightarrow> kept f Y s"
  by (auto simp: kept_def)

lemma triple_kept_fenced:
  assumes "deletes_nothing c f"
  shows "triple (at_request (kept f X) n)
    (transaction c (\<lambda>t s. rbind (fenced_update f values s) (\<lambda>s'. Inr ((), s')))) (\<lambda>_. at_request (kept f X) n) raises"
  by (rule triple_transaction [OF stable_kept [OF assms]])
    (auto simp: rbind_Inr_iff fenced_update_Inr kept_def)

lemma stored_brings:
  assumes "upsert_body c f rs cursor bad t s = Inr (res, s')" and "brings c rs Y" and "y \<in> Y"
  shows "map_of (calls s') (portal_id f, y) \<noteq> None"
proof -
  have y: "0 < y" "y \<in> bx_id ` set rs" "\<forall>r \<in> set rs. bx_id r = y \<longrightarrow> refuses c t r = None"
    using assms(2,3) by (auto simp: brings_def)
  then have "find (\<lambda>r. bx_id r = y) (rev rs) \<noteq> None"
    by (auto simp: find_None_iff)
  then obtain r where r: "latest rs y = Some r"
    using y(1) by (auto simp: latest_def)
  then have "r \<in> set rs" "bx_id r = y"
    by (auto simp: latest_def dest!: find_SomeD split: if_splits)
  with y(3) r upsert_body_calls [OF assms(1), of "portal_id f" y] show ?thesis
    by (auto simp: stored_after_def)
qed

lemma stored_still:
  assumes "upsert_body c f rs cursor bad t s = Inr (res, s')" and "map_of (calls s) k \<noteq> None"
  shows "map_of (calls s') k \<noteq> None"
  using upsert_body_calls [OF assms(1), of "fst k" "snd k"] assms(2)
  by (cases k) (auto simp: stored_after_def split: option.splits if_splits)

lemma triple_kept_progress:
  assumes "deletes_nothing c f" and "brings c rs Y"
  shows "triple (at_request (kept f X) n) (commit_progress c f rs cursor bad) (\<lambda>_. at_request (kept f (X \<union> Y)) n) raises"
proof -
  have run: "triple (at_request (kept f X) n) (transaction c (upsert_body c f rs cursor bad))
      (\<lambda>_. at_request (kept f (X \<union> Y)) n) raises"
  proof (rule triple_transaction [OF stable_kept [OF assms(1)]])
    fix t s a s'
    assume "kept f X s" and run: "upsert_body c f rs cursor bad t s = Inr (a, s')"
    have "fence_holds f s"
      by (rule upsert_body_sync(1) [OF run])
    with \<open>kept f X s\<close> show "kept f (X \<union> Y) s'"
      using stored_brings [OF run assms(2)] stored_still [OF run] by (simp add: kept_def) blast
  qed
  have "Y = {}" if "rs = []"
    using assms(2) that by (auto simp: brings_def)
  then show ?thesis
    unfolding commit_progress_def upsert_calls_def
    by (intro triple_if triple_andThen [OF run] triple_ret) (auto simp: at_request_def)
qed

named_theorems kept_rules \<open>one rule for each operation, for what stays stored\<close>

lemma kept_heartbeat [kept_rules]:
  assumes "deletes_nothing c f" and "triple (at_request (kept f X) n) (k ()) Q raises"
  shows "triple (at_request (kept f X) n) (andThen (heartbeat c f) k) Q raises"
  unfolding heartbeat_def heartbeat_body_def
  by (rule triple_andThen [OF triple_kept_fenced [OF assms(1)]]) (simp add: assms(2))

lemma kept_commit_cursor [kept_rules]:
  assumes "deletes_nothing c f" and "triple (at_request (kept f X) n) (k ()) Q raises"
  shows "triple (at_request (kept f X) n) (andThen (commit_cursor c f move) k) Q raises"
  unfolding commit_cursor_def cursor_body_def
  by (rule triple_andThen [OF triple_kept_fenced [OF assms(1)]]) (simp add: assms(2))

lemma triple_kept_other:
  assumes "deletes_nothing c f"
  shows "triple (at_request (kept f X) n) (commit_progress c f rs cursor bad) (\<lambda>_. at_request (kept f X) n) raises"
  using triple_kept_progress [OF assms, of rs "{}" X] by (simp add: brings_def)

lemma kept_extra_rows [kept_rules]:
  assumes "deletes_nothing c f" and "\<And>up quar. triple (at_request (kept f X) n) (k (up, quar)) Q raises"
  shows "triple (at_request (kept f X) n) (andThen (if es \<noteq> [] then commit_progress c f es None [] else ret (0, 0)) k) Q raises"
  by (cases "es = []") (auto intro!: triple_andThen [OF triple_kept_other [OF assms(1)]] assms(2))

lemma kept_no_rows [kept_rules]:
  assumes "deletes_nothing c f" and "\<And>up quar. triple (at_request (kept f X) n) (k (up, quar)) Q raises"
  shows "triple (at_request (kept f X) n) (andThen (commit_progress c f [] None bad) k) Q raises"
  by (auto intro!: triple_andThen [OF triple_kept_other [OF assms(1)]] assms(2))

lemma kept_block [kept_rules]:
  assumes "deletes_nothing c f" and "triple (at_request (kept f X) n) (k ()) Q raises"
  shows "triple (at_request (kept f X) n) (andThen (block_on_filter_violation c f v step) k) Q raises"
  unfolding block_on_filter_violation_def
proof (rule triple_andThen [OF triple_transaction [OF stable_kept [OF assms(1)], where Q = "\<lambda>_. kept f X"]])
  fix t s a s'
  assume kept: "kept f X s" and "block_body f v step t s = Inr (a, s')"
  then have s': "db_now s' = db_now s" "calls s' = calls s"
    "\<exists>txt. sync s' = sync (set_token_status (portal_id f) ''filter_unsupported'' True (Some ''filter_unsupported'') (Some txt) s)"
    by (auto simp: block_body_def Let_def)
  have "fence_holds f s" if "fence_holds f s'"
    using that s'(3) by (auto simp: fence_holds_def set_token_status_sync s'(1) fence_matches_def split: option.splits)
  with kept show "kept f X s'"
    by (auto simp: kept_def s'(2))
qed (use assms(2) in simp)

lemmas [kept_rules] = seq_fetch seq_expired seq_now seq_should_continue triple_if triple_case_option triple_case_prod triple_Let

section \<open>The forward pass\<close>

lemma validate_starts_same: "validate_starts starts = Inr offsets \<Longrightarrow> offsets = starts"
  by (auto simp: validate_starts_def split: if_splits)

lemma answered_read_from:
  assumes "answered c cl [(key, JInt base)] sort_field order (page_starts k first) None n o'"
    and "honest c cl key order sel"
  shows "read_from c (wall c n) k first (sel base n) o'"
proof -
  obtain w w' :: world where n: "length (requests w) = n"
    and run: "fetch_pages c cl [(key, JInt base)] sort_field order (page_starts k first) None w = (Inr o', w')"
    using assms(1) by (auto simp: answered_def)
  then obtain offsets cmds b where off: "validate_starts (page_starts k first) = Inr offsets"
    "page_commands [(key, JInt base)] sort_field order 0 offsets = Inr cmds"
    "batch c cl cmds False w = (Inr b, w')" "read_outcome c (wall c n) [(key, JInt base)] None offsets b = Inr o'"
    by (auto simp: fetch_pages_def prog_defs lift_py_Inr split: prod.splits sum.splits)
  have "offsets = page_starts k first"
    using off(1) by (rule validate_starts_same)
  with off assms(2) n show ?thesis
    unfolding honest_def read_from_def by metis
qed

lemma journal_grows: "journal j \<Longrightarrow> n \<le> m \<Longrightarrow> \<exists>new. j m = j n @ new"
proof (induction m)
  case 0
  then show ?case by simp
next
  case (Suc m)
  show ?case
  proof (cases "n = Suc m")
    case False
    with Suc obtain new new' where "j m = j n @ new" "j (Suc m) = j m @ new'"
      unfolding journal_def by (metis le_Suc_eq)
    then show ?thesis by simp
  qed simp
qed

lemma filter_ids:
  assumes "map record_id raws = map Some ids"
  shows "map record_id (filter (id_holds p) raws) = map Some (filter p ids)"
  using assms
proof (induction raws arbitrary: ids)
  case (Cons raw raws)
  then obtain i js where "ids = i # js" "record_id raw = Some i" "map record_id raws = map Some js"
    by (cases ids) auto
  with Cons.IH [of js] show ?case
    by (simp add: id_holds_def)
qed simp

definition journal_ids :: "json list \<Rightarrow> int set" where
  "journal_ids raws = {x. \<exists>raw \<in> set raws. record_id raw = Some x}"

lemma above_contents:
  assumes "journal j" and "n0 \<le> n"
  obtains contents where "map record_id (above_id base (j n)) = map Some contents" "sorted_wrt (<) contents"
    "\<forall>x \<in> set contents. base < x" "{x \<in> journal_ids (j n0). base < x} \<subseteq> set contents"
proof -
  obtain ids where ids: "map record_id (j n) = map Some ids" "sorted_wrt (<) ids"
    using assms(1) unfolding journal_def by blast
  obtain new where "j n = j n0 @ new"
    using journal_grows [OF assms] by blast
  then have sub: "journal_ids (j n0) \<subseteq> journal_ids (j n)"
    by (auto simp: journal_ids_def)
  have "journal_ids (j n) \<subseteq> set ids"
  proof
    fix x
    assume "x \<in> journal_ids (j n)"
    then have "Some x \<in> set (map record_id (j n))"
      by (force simp: journal_ids_def)
    then show "x \<in> set ids"
      unfolding ids(1) by auto
  qed
  with sub have "{x \<in> journal_ids (j n0). base < x} \<subseteq> set (filter (\<lambda>i. base < i) ids)"
    by auto
  then show thesis
    by (intro that [of "filter (\<lambda>i. base < i) ids"])
      (auto simp: above_id_def filter_ids [OF ids(1)] sorted_wrt_filter ids(2))
qed

lemma good_in_journal: "good_ids c raws \<subseteq> journal_ids raws"
  by (auto simp: good_ids_def journal_ids_def)

lemma good_above:
  assumes "journal j" and "n0 \<le> n" and "x \<in> good_ids c (j n0)" and "base < x"
  shows "\<exists>raw \<in> set (above_id base (j n)). record_id raw = Some x \<and> usable c raw"
  using assms journal_grows [OF assms(1,2)]
  by (auto simp: good_ids_def above_id_def id_holds_def)

lemma highest_of_empty: "prefix_bx_ids o' = [] \<Longrightarrow> highest_of o' base = base"
  by (simp add: highest_of_def max_opt_eq)

lemma highest_of_mem: "prefix_bx_ids o' \<noteq> [] \<Longrightarrow> highest_of o' base \<in> set (prefix_bx_ids o')"
  by (simp add: highest_of_def max_opt_eq)

lemma highest_ge: "x \<in> set (prefix_bx_ids o') \<Longrightarrow> x \<le> highest_of o' base"
  by (cases "prefix_bx_ids o' = []") (simp_all add: highest_of_def max_opt_eq)

lemma probe_brings:
  assumes "journal j" and "n0 \<le> n" and "read_from c (wall c n) 1 0 (above_id base (j n)) o'"
    and "filter_violation o' = None"
  shows "brings c (rows o') {x \<in> good_ids c (j n0). base < x \<and> x \<le> highest_of o' base}"
proof (cases "prefix_bx_ids o' = []")
  case True
  then have "highest_of o' base = base"
    by (rule highest_of_empty)
  then show ?thesis
    by (auto simp: brings_def)
next
  case False
  then have m: "highest_of o' base \<in> set (prefix_bx_ids o')"
    by (rule highest_of_mem)
  obtain contents where ids: "map record_id (above_id base (j n)) = map Some contents" "sorted_wrt (<) contents"
    by (rule above_contents [OF assms(1,2)])
  show ?thesis
    by (rule outcome_brings [OF assms(3,4) ids(1) _ ids(2) _ m])
      (use good_above [OF assms(1,2)] in \<open>auto\<close>)
qed

text \<open>The batch packed behind a probe that was read whole and said there is more.\<close>

lemma pack_brings:
  assumes "journal j" and "n0 \<le> n" and probe: "read_from c (wall c n) 1 0 (above_id base (j n)) p"
    and "filter_violation p = None" and "errors p = []" and "has_next p"
    and pack: "read_from c (wall c m) k (int page_size) (above_id base (j m)) o'" and "filter_violation o' = None"
    and "n \<le> m" and "highest_of p base \<le> cursor" and "base \<le> cursor"
  shows "brings c (rows o') {x \<in> good_ids c (j n0). cursor < x \<and> x \<le> highest_of o' cursor}"
proof (cases "prefix_bx_ids o' = []")
  case True
  then have "highest_of o' cursor = cursor"
    by (rule highest_of_empty)
  then show ?thesis
    by (auto simp: brings_def)
next
  case False
  then have h: "highest_of o' cursor \<in> set (prefix_bx_ids o')"
    by (rule highest_of_mem)
  have le: "n0 \<le> m"
    using assms(2,9) by simp
  obtain contents where ids: "map record_id (above_id base (j n)) = map Some contents"
    by (rule above_contents [OF assms(1,2)])
  obtain contents' where ids': "map record_id (above_id base (j m)) = map Some contents'" "sorted_wrt (<) contents'"
    by (rule above_contents [OF assms(1) le])
  obtain new where "j m = j n @ new"
    using journal_grows [OF assms(1,9)] by blast
  then have grown: "above_id base (j m) = above_id base (j n) @ above_id base new"
    by (simp add: above_id_def)
  note full = outcome_full [OF probe assms(4,5) ids]
  have long: "page_size < length (above_id base (j n))"
    using full(2) assms(6) by simp
  have "\<exists>raw \<in> set (drop page_size (above_id base (j m))). record_id raw = Some x \<and> usable c raw"
    if x: "x \<in> good_ids c (j n0)" "cursor < x" for x
  proof -
    obtain raw where raw: "raw \<in> set (above_id base (j m))" "record_id raw = Some x" "usable c raw"
      using good_above [OF assms(1) le x(1), of base] x(2) assms(11) by force
    have "raw \<notin> set (take page_size (above_id base (j n)))"
    proof
      assume "raw \<in> set (take page_size (above_id base (j n)))"
      then have "Some x \<in> set (map record_id (take page_size (above_id base (j n))))"
        using raw(2) by force
      then have "x \<in> set (take page_size contents)"
        unfolding take_map [symmetric] ids by (auto simp: take_map)
      then have "x \<in> set (prefix_bx_ids p)"
        using full(1) by auto
      then have "x \<le> highest_of p base"
        by (rule highest_ge)
      with assms(10) x(2) show False by simp
    qed
    moreover have "take page_size (above_id base (j m)) = take page_size (above_id base (j n))"
      using long by (simp add: grown)
    ultimately show ?thesis
      using raw by (metis Un_iff append_take_drop_id set_append)
  qed
  then show ?thesis
    by (intro outcome_brings [OF pack assms(8) ids'(1) _ ids'(2) _ h]) auto
qed
definition kept_upto :: "fence \<Rightarrow> int set \<Rightarrow> int \<Rightarrow> int \<Rightarrow> store \<Rightarrow> bool" where
  "kept_upto f G low h = kept f {x \<in> G. low < x \<and> x \<le> h}"

lemma kept_age_rescan_bound [kept_rules]:
  assumes "deletes_nothing c f" and "\<And>moved. triple (at_request (kept f X) n) (k moved) Q raises"
  shows "triple (at_request (kept f X) n) (andThen (age_rescan_bound c f from_id hours) k) Q raises"
proof -
  have body: "kept f X s'" if kept: "kept f X s" and run: "age_body f cutoff stamp from_id t s = Inr (moved, s')"
    for cutoff stamp t s moved s'
  proof -
    from run have "fence_holds f s" and "s' = update_sync (portal_id f) (rescan_cursor stamp moved) s"
      unfolding age_body_def Let_def by (simp_all only: rbind_Inr_iff fenced_update_Inr prod.inject Inr_inject) auto
    with kept show ?thesis by (simp add: kept_def)
  qed
  show ?thesis
    unfolding age_rescan_bound_def Let_def andThen_assoc
    by (intro seq_now triple_andThen [OF triple_transaction [OF stable_kept [OF assms(1)]]])
      (assumption | rule body assms(2))+
qed

lemma kept_advance [kept_rules]:
  assumes "deletes_nothing c f" and "brings c (rows o') {x \<in> G. cursor < x \<and> x \<le> highest_of o' cursor}"
    and "\<And>h added. h = max (highest_of o' cursor) cursor \<Longrightarrow>
      triple (at_request (kept_upto f G low h) n) (k (h, added)) Q raises"
  shows "triple (at_request (kept_upto f G low cursor) n) (andThen (advance c f o' cursor) k) Q raises"
proof -
  let ?X = "{x \<in> G. low < x \<and> x \<le> cursor}" and ?h = "max (highest_of o' cursor) cursor"
  let ?Y = "{x \<in> G. cursor < x \<and> x \<le> highest_of o' cursor}"
  have sub: "{x \<in> G. low < x \<and> x \<le> ?h} \<subseteq> ?X \<union> ?Y"
    by auto
  have rest: "triple (at_request (kept_upto f G low ?h) n)
      (andThen (if extra_rows o' \<noteq> [] then commit_progress c f (extra_rows o') None [] else ret (0, 0))
        (\<lambda>b. k (?h, fst a + fst b, snd a + snd b))) Q raises" for a
    unfolding kept_upto_def
    by (rule kept_extra_rows [OF assms(1)]) (simp add: assms(3) [unfolded kept_upto_def])
  show ?thesis
  proof (cases "rows o' \<noteq> [] \<or> rejected o' \<noteq> []")
    case True
    have step: "triple (at_request (kept_upto f G low cursor) n)
        (commit_progress c f (rows o') (Some (forward_cursor t cursor (highest_of o' cursor))) (rejected o'))
        (\<lambda>_. at_request (kept_upto f G low ?h) n) raises" for t
      unfolding kept_upto_def
      by (rule triple_conseq [OF triple_kept_progress [OF assms(1,2), of ?X]])
        (auto simp: at_request_def elim!: kept_mono dest: subsetD [OF sub])
    have tail: "triple (at_request (kept_upto f G low ?h) n)
        (andThen (case a of (up, quar) \<Rightarrow>
           andThen (if extra_rows o' \<noteq> [] then commit_progress c f (extra_rows o') None [] else ret (0, 0))
             (\<lambda>(up', quar'). ret (?h, up + up', quar + quar'))) k) Q raises" for a
      using rest [of a] by (simp only: split_beta andThen_assoc ret_andThen)
    show ?thesis
      unfolding advance_def Let_def if_P [OF True] andThen_assoc
      by (intro seq_now triple_andThen [OF step] tail)
  next
    case False
    then show ?thesis
      using rest [of "(0, 0)"] by (simp add: advance_def Let_def highest_of_None andThen_assoc split_beta)
  qed
qed

text \<open>A pass that was not cut short has seen the end of the journal.\<close>

definition caught_up :: "int set \<Rightarrow> incremental_outcome \<Rightarrow> bool" where
  "caught_up J st \<longleftrightarrow>
     (inc_errors st = [] \<and> \<not> inc_blocked st \<and> \<not> inc_stopped st \<longrightarrow> (\<forall>x \<in> J. x \<le> inc_high_id st))"

definition inc_kept :: "fence \<Rightarrow> int set \<Rightarrow> int \<Rightarrow> nat \<Rightarrow> incremental_outcome \<Rightarrow> world \<Rightarrow> bool" where
  "inc_kept f G low n0 st = at_request (kept_upto f G low (inc_high_id st)) (n0 + inc_requests st)"

lemma kept_inc_ret:
  assumes "h = inc_high_id st" and "n = n0 + inc_requests st" and "\<not> go \<longrightarrow> caught_up J st"
  shows "triple (at_request (kept_upto f G low h) n) (ret (go, st))
    (\<lambda>(go, st) w. inc_kept f G low n0 st w \<and> (\<not> go \<longrightarrow> caught_up J st)) raises"
  using assms by (intro triple_ret) (simp add: inc_kept_def)

lemma kept_inc_finish:
  assumes "deletes_nothing c f" and "h = inc_high_id st" and "n = n0 + inc_requests st"
    and "inc_high_id st \<le> base \<or> \<not> has_next o' \<Longrightarrow> caught_up J st"
  shows "triple (at_request (kept_upto f G low h) n) (inc_finish c f base o' st)
    (\<lambda>(go, st) w. inc_kept f G low n0 st w \<and> (\<not> go \<longrightarrow> caught_up J st)) raises"
  unfolding inc_finish_def kept_upto_def if_distrib [of ret]
  by (intro kept_rules assms(1); (rule kept_inc_ret [unfolded kept_upto_def])?)
    (use assms(2-4) in \<open>auto simp: caught_up_def\<close>)

text \<open>When a probe or a batch without an error is the last, nothing of the journal is above the cursor.\<close>

lemma probe_done:
  assumes "journal j" and "n0 \<le> n" and "read_from c (wall c n) 1 0 (above_id base (j n)) p"
    and "filter_violation p = None" and "errors p = []" and "\<not> has_next p \<or> rows p = [] \<and> rejected p = []"
    and "x \<in> journal_ids (j n0)"
  shows "x \<le> max (highest_of p base) base"
proof (cases "base < x")
  case True
  obtain contents where ids: "map record_id (above_id base (j n)) = map Some contents"
    and sub: "{x \<in> journal_ids (j n0). base < x} \<subseteq> set contents"
    by (rule above_contents [OF assms(1,2)])
  note full = outcome_full [OF assms(3-5) ids]
  have len: "length (above_id base (j n)) = length contents"
    using ids by (metis length_map)
  have "x \<in> set contents"
    using sub True assms(7) by blast
  moreover have "set contents \<subseteq> set (take page_size contents)"
  proof (cases "has_next p")
    case False
    then have "length contents \<le> page_size"
      using full(2) len by simp
    then show ?thesis by simp
  next
    case True
    then have "take page_size contents = []"
      using full(3) assms(6) by simp
    then show ?thesis by (simp add: page_size_def)
  qed
  moreover have "set (take page_size contents) \<subseteq> set (prefix_bx_ids p)"
    using full(1) by simp
  ultimately have "x \<in> set (prefix_bx_ids p)"
    by blast
  then have "x \<le> highest_of p base"
    by (rule highest_ge)
  then show ?thesis by simp
qed simp

lemma probe_forward:
  assumes "journal j" and "n0 \<le> n" and "read_from c (wall c n) 1 0 (above_id base (j n)) p"
    and "filter_violation p = None" and "errors p = []" and "has_next p"
  shows "base < highest_of p base"
proof -
  obtain contents where ids: "map record_id (above_id base (j n)) = map Some contents"
    and above: "\<forall>x \<in> set contents. base < x"
    by (rule above_contents [OF assms(1,2)])
  note full = outcome_full [OF assms(3-5) ids]
  have "page_size < length contents"
    using full(2) assms(6) ids by (auto dest: map_eq_imp_length_eq)
  then have ne: "take page_size contents \<noteq> []"
    by (auto simp: page_size_def)
  then have mem: "hd (take page_size contents) \<in> set (take page_size contents)"
    by (rule hd_in_set)
  then have "hd (take page_size contents) \<le> highest_of p base"
    using full(1) by (intro highest_ge) auto
  moreover have "base < hd (take page_size contents)"
    using above mem by (meson in_set_takeD)
  ultimately show ?thesis by simp
qed

lemma pack_done:
  assumes "journal j" and "n0 \<le> n" and probe: "read_from c (wall c n) 1 0 (above_id base (j n)) p"
    and "filter_violation p = None" and "errors p = []" and "has_next p"
    and pack: "read_from c (wall c m) k (int page_size) (above_id base (j m)) o'" and "filter_violation o' = None"
    and "errors o' = []" and "0 < k" and "\<not> has_next o'" and "n \<le> m" and "x \<in> journal_ids (j n0)"
    and "highest_of p base \<le> cursor" and "base \<le> cursor"
  shows "x \<le> max (highest_of o' cursor) cursor"
proof (cases "base < x")
  case True
  have le: "n0 \<le> m"
    using assms(2,12) by simp
  obtain contents where ids: "map record_id (above_id base (j n)) = map Some contents"
    by (rule above_contents [OF assms(1,2)])
  obtain contents' where ids': "map record_id (above_id base (j m)) = map Some contents'"
    and sub: "{x \<in> journal_ids (j n0). base < x} \<subseteq> set contents'"
    by (rule above_contents [OF assms(1) le])
  obtain new where "j m = j n @ new"
    using journal_grows [OF assms(1,12)] by blast
  then have grown: "above_id base (j m) = above_id base (j n) @ above_id base new"
    by (simp add: above_id_def)
  note full = outcome_full [OF probe assms(4,5) ids] and full' = outcome_full [OF pack assms(8,9) ids']
  have long: "page_size < length (above_id base (j n))"
    using full(2) assms(6) by simp
  have "map Some (take page_size contents') = map Some (take page_size contents)"
    using long unfolding take_map [symmetric] ids [symmetric] ids' [symmetric] by (simp add: grown)
  then have same: "take page_size contents' = take page_size contents"
    by (simp add: inj_Some)
  have len': "length contents' = length (above_id base (j m))"
    using ids' by (metis length_map)
  have "take (k * page_size) (drop page_size contents') = drop page_size contents'"
    using full'(2) assms(10,11) len' by simp
  then have rest: "set (drop page_size contents') \<subseteq> set (prefix_bx_ids o')"
    using full'(1) assms(10) by simp
  have "x \<in> set (take page_size contents' @ drop page_size contents')"
    using sub True assms(13) by (subst append_take_drop_id) blast
  then consider "x \<in> set (take page_size contents)" | "x \<in> set (drop page_size contents')"
    unfolding set_append same by blast
  then show ?thesis
  proof cases
    case 1
    then have "x \<le> highest_of p base"
      using full(1) by (intro highest_ge) auto
    with assms(14) show ?thesis by simp
  next
    case 2
    then have "x \<le> highest_of o' cursor"
      using rest by (intro highest_ge) auto
    then show ?thesis by simp
  qed
qed (use assms(15) in simp)

lemma pages_to_pack_next: "0 < pages_to_pack p limit \<Longrightarrow> has_next p"
  by (simp add: pages_to_pack_def split: if_splits)

lemma kept_inc_pack:
  assumes del: "deletes_nothing c f" and hon: "honest c cl ''>ID'' order_asc (\<lambda>b n. above_id b (j n))" and jr: "journal j"
    and le: "n0 \<le> n" and probe: "read_from c (wall c n) 1 0 (above_id base (j n)) p"
    and p: "filter_violation p = None" "errors p = []" "has_next p"
    and high: "inc_high_id st = max (highest_of p base) base" and req: "n0 + inc_requests st = Suc n" and "0 < pack"
    and "h = inc_high_id st" and "q = Suc n"
  shows "triple (at_request (kept_upto f (good_ids c (j n0)) low h) q) (inc_pack c cl f base pack st)
    (\<lambda>(go, st) w. inc_kept f (good_ids c (j n0)) low n0 st w \<and> (\<not> go \<longrightarrow> caught_up (journal_ids (j n0)) st)) raises"
  unfolding inc_pack_def inc_blocked_by_def Let_def assms(12,13)
proof (rule seq_fetch, goal_cases)
  case (1 o')
  then have rf: "read_from c (wall c (Suc n)) pack (int page_size) (above_id base (j (Suc n))) o'"
    using answered_read_from [OF _ hon] by blast
  have cur: "highest_of p base \<le> inc_high_id st" "base \<le> inc_high_id st"
    by (simp_all add: high)
  note brought = pack_brings [OF jr le probe p rf _ _ cur]
  note ended = pack_done [OF jr le probe p rf _ _ \<open>0 < pack\<close> _ _ _ cur]
  have fwd: "base < inc_high_id st"
    using probe_forward [OF jr le probe p] by (simp add: high)
  show ?case
  proof (intro seq_expired triple_case_option, goal_cases)
    case 1
    then have v: "filter_violation o' = None" by simp
    show ?case
      by (intro kept_advance [OF del brought [OF v]] triple_case_prod triple_if kept_inc_ret kept_inc_finish [OF del])
        (use req fwd ended [OF v] in \<open>auto simp: caught_up_def\<close>)
  next
    case (2 v)
    show ?case
      unfolding kept_upto_def
      by (intro kept_rules del kept_inc_ret [unfolded kept_upto_def]) (use req in \<open>auto simp: caught_up_def\<close>)
  qed
qed

lemma kept_inc_step:
  assumes del: "deletes_nothing c f" and hon: "honest c cl ''>ID'' order_asc (\<lambda>b n. above_id b (j n))" and jr: "journal j"
  shows "triple (inc_kept f (good_ids c (j n0)) low n0 st) (inc_step c cl f limit st)
    (\<lambda>(go, st) w. inc_kept f (good_ids c (j n0)) low n0 st w \<and> (\<not> go \<longrightarrow> caught_up (journal_ids (j n0)) st)) raises"
  unfolding inc_kept_def [of f _ low n0 st] inc_step_def inc_blocked_by_def Let_def
proof (rule seq_fetch, goal_cases)
  case (1 p)
  let ?n = "n0 + inc_requests st"
  have starts: "page_starts 1 0 = [0]"
    by (simp add: page_starts_def)
  have rf: "read_from c (wall c ?n) 1 0 (above_id (inc_high_id st) (j ?n)) p"
    by (rule answered_read_from [OF _ hon, where first = 0]) (use 1 starts in simp)
  have le: "n0 \<le> ?n" by simp
  note brought = probe_brings [OF jr le rf]
  note ended = probe_done [OF jr le rf] and fwd = probe_forward [OF jr le rf]
  have stuck: "x \<le> max (highest_of p (inc_high_id st)) (inc_high_id st)"
    if "filter_violation p = None" "errors p = []" "x \<in> journal_ids (j n0)"
      "max (highest_of p (inc_high_id st)) (inc_high_id st) \<le> inc_high_id st \<or> \<not> has_next p \<or> rows p = [] \<and> rejected p = []" for x
    using ended [OF that(1,2) _ that(3)] fwd [OF that(1,2)] that(4) by fastforce
  note packed = kept_inc_pack [OF del hon jr le rf]
  show ?case
  proof (intro seq_expired triple_case_option, goal_cases)
    case 1
    then have v: "filter_violation p = None" by simp
    show ?case
      by (intro kept_advance [OF del brought [OF v]] triple_case_prod triple_if seq_should_continue kept_inc_ret kept_inc_finish [OF del] packed [OF v])
        (use stuck [OF v] in \<open>auto simp: caught_up_def simp del: max_def dest: pages_to_pack_next\<close>)
  next
    case (2 v)
    show ?case
      unfolding kept_upto_def
      by (intro kept_rules del kept_inc_ret [unfolded kept_upto_def]) (auto simp: caught_up_def)
  qed
qed

text \<open>The pass: everything it moved the cursor over is stored, and unless cut short it reached the end.\<close>

definition inc_mirrors :: "fence \<Rightarrow> int set \<Rightarrow> int set \<Rightarrow> int \<Rightarrow> nat \<Rightarrow> incremental_outcome \<Rightarrow> world \<Rightarrow> bool" where
  "inc_mirrors f G J low n0 st w \<longleftrightarrow> inc_kept f G low n0 st w \<and> (\<not> inc_more st \<longrightarrow> caught_up J st)"

lemma kept_run_incremental:
  assumes del: "deletes_nothing c f" and hon: "honest c cl ''>ID'' order_asc (\<lambda>b n. above_id b (j n))" and jr: "journal j"
  shows "triple (at_request (\<lambda>_. True) n0) (run_incremental c cl f high pages_allowed bound hours max_loops)
    (inc_mirrors f (good_ids c (j n0)) (journal_ids (j n0)) high n0) raises"
proof -
  let ?G = "good_ids c (j n0)" and ?J = "journal_ids (j n0)" and ?N = "nat (max 1 max_loops)"
  let ?step = "inc_step c cl f (clamp_pages pages_allowed)" and ?R = "inc_mirrors f ?G ?J high n0"
  have step: "triple (inc_kept f ?G high n0 st) (?step st)
      (\<lambda>(go, st'). if go then inc_kept f ?G high n0 st' else ?R st') raises" for st
    by (rule triple_conseq [OF kept_inc_step [OF del hon jr]]) (auto simp: inc_mirrors_def)
  have loop: "triple (at_request (\<lambda>_. True) n0)
      (for_else ?N ?step (\<lambda>st. st\<lparr>inc_more := True\<rparr>) (inc_start high bound)) ?R raises"
  proof (rule triple_conseq [OF triple_for_else [where I = "\<lambda>_. inc_kept f ?G high n0" and Q = ?R, OF step]])
    show "inc_kept f ?G high n0 st w \<Longrightarrow> ?R (st\<lparr>inc_more := True\<rparr>) w" for st w
      by (simp add: inc_mirrors_def inc_kept_def)
    have none: "{x \<in> G. high < x \<and> x \<le> high} = {}" for G :: "int set" by auto
    show "at_request (\<lambda>_. True) n0 w \<Longrightarrow> inc_kept f ?G high n0 (inc_start high bound) w" for w
      by (simp add: inc_kept_def kept_upto_def inc_start_def at_request_def none) (simp add: kept_def)
  qed
  show ?thesis
    unfolding run_incremental_def
  proof (rule triple_andThen [OF loop])
    fix st
    have "triple (\<lambda>w. inc_kept f ?G high n0 st w \<and> (\<not> inc_more st \<longrightarrow> caught_up ?J st))
      (if inc_blocked st then ret st
       else andThen (age_rescan_bound c f bound hours) (\<lambda>moved.
            ret (case moved of None \<Rightarrow> st | Some _ \<Rightarrow> st\<lparr>inc_rescan_from_id := moved\<rparr>))) ?R raises"
      by (rule triple_pull, unfold inc_kept_def [of f ?G high n0 st] kept_upto_def)
        (intro kept_rules del triple_ret,
          auto simp: inc_mirrors_def inc_kept_def kept_upto_def caught_up_def split: option.split)
    then show "triple (?R st)
      (if inc_blocked st then ret st
       else andThen (age_rescan_bound c f bound hours) (\<lambda>moved.
            ret (case moved of None \<Rightarrow> st | Some _ \<Rightarrow> st\<lparr>inc_rescan_from_id := moved\<rparr>))) ?R raises"
      by (rule triple_conseq) (auto simp: inc_mirrors_def)
  qed
qed

section \<open>The backward pass\<close>

lemma below_contents:
  assumes "journal j" and "n0 \<le> n"
  obtains contents where "map record_id (below_id base (j n)) = map Some contents" "sorted_wrt (>) contents"
    "{x \<in> journal_ids (j n0). x < base} \<subseteq> set contents"
proof -
  obtain ids where ids: "map record_id (j n) = map Some ids" "sorted_wrt (<) ids"
    using assms(1) unfolding journal_def by blast
  obtain new where "j n = j n0 @ new"
    using journal_grows [OF assms] by blast
  then have sub: "journal_ids (j n0) \<subseteq> journal_ids (j n)"
    by (auto simp: journal_ids_def)
  have "journal_ids (j n) \<subseteq> set ids"
  proof
    fix x
    assume "x \<in> journal_ids (j n)"
    then have "Some x \<in> set (map record_id (j n))"
      by (force simp: journal_ids_def)
    then show "x \<in> set ids"
      unfolding ids(1) by auto
  qed
  with sub have "{x \<in> journal_ids (j n0). x < base} \<subseteq> set (rev (filter (\<lambda>i. i < base) ids))"
    by auto
  moreover have "map record_id (below_id base (j n)) = map Some (rev (filter (\<lambda>i. i < base) ids))"
    unfolding below_id_def rev_map [symmetric] filter_ids [OF ids(1)] ..
  moreover have "sorted_wrt (>) (rev (filter (\<lambda>i. i < base) ids))"
    by (simp add: sorted_wrt_rev sorted_wrt_filter ids(2))
  ultimately show thesis
    using that by blast
qed

lemma good_below:
  assumes "journal j" and "n0 \<le> n" and "x \<in> good_ids c (j n0)" and "x < base"
  shows "\<exists>raw \<in> set (below_id base (j n)). record_id raw = Some x \<and> usable c raw"
  using assms journal_grows [OF assms(1,2)]
  by (auto simp: good_ids_def below_id_def id_holds_def)

lemma down_brings:
  assumes "journal j" and "n0 \<le> n" and "read_from c (wall c n) k 0 (below_id base (j n)) o'"
    and "filter_violation o' = None" and "min_opt (prefix_bx_ids o') = Some l"
  shows "brings c (rows o') {x \<in> good_ids c (j n0). l \<le> x \<and> x < base}"
proof -
  have l: "l \<in> set (prefix_bx_ids o')"
    using assms(5) by (simp add: min_opt_Some)
  obtain contents where ids: "map record_id (below_id base (j n)) = map Some contents" "sorted_wrt (>) contents"
    by (rule below_contents [OF assms(1,2)])
  show ?thesis
    by (rule outcome_brings [OF assms(3,4) ids(1) _ ids(2) _ l]) (use good_below [OF assms(1,2)] in auto)
qed

lemma down_done:
  assumes "journal j" and "n0 \<le> n" and "read_from c (wall c n) k 0 (below_id base (j n)) o'"
    and "filter_violation o' = None" and "errors o' = []" and "0 < k"
    and "x \<in> journal_ids (j n0)" and "x < base"
  shows "\<not> has_next o' \<Longrightarrow> x \<in> set (prefix_bx_ids o')" and "rows o' = [] \<and> rejected o' = [] \<Longrightarrow> False"
proof -
  obtain contents where ids: "map record_id (below_id base (j n)) = map Some contents"
    and sub: "{x \<in> journal_ids (j n0). x < base} \<subseteq> set contents"
    by (rule below_contents [OF assms(1,2)])
  note full = outcome_full [OF assms(3-5) ids _ assms(6)]
  have x: "x \<in> set contents"
    using sub assms(7,8) by blast
  have len: "length (below_id base (j n)) = length contents"
    using ids by (metis length_map)
  show "x \<in> set (prefix_bx_ids o')" if "\<not> has_next o'"
  proof -
    have "length contents \<le> k * page_size"
      using full(2) len that by simp
    with full(1) x show ?thesis by auto
  qed
  show False if "rows o' = [] \<and> rejected o' = []"
  proof -
    have "contents = []"
      using full(3) that assms(6) by (simp add: page_size_def)
    with x show False by simp
  qed
qed

text \<open>What the backward pass keeps: the rows from its cursor up to where it began, and all once done.\<close>

definition down_to :: "int set \<Rightarrow> int \<Rightarrow> backfill_outcome \<Rightarrow> int set" where
  "down_to G low st = {x \<in> G. x < low \<and> (bf_low_id st \<le> x \<or> bf_status st = Done)}"

definition bf_kept :: "fence \<Rightarrow> int set \<Rightarrow> int \<Rightarrow> nat \<Rightarrow> backfill_outcome \<Rightarrow> world \<Rightarrow> bool" where
  "bf_kept f G low n0 st = at_request (kept f (down_to G low st)) (n0 + bf_requests st)"

lemma kept_bf_ret:
  assumes "n = n0 + bf_requests st" and "down_to G low st \<subseteq> X"
  shows "triple (at_request (kept f X) n) (ret (go, st)) (\<lambda>(go, st) w. bf_kept f G low n0 st w) raises"
  using assms by (intro triple_ret) (auto simp: bf_kept_def at_request_def elim: kept_mono)

lemma kept_bf_no_ids:
  assumes "deletes_nothing c f" and "n = n0 + bf_requests st" and "down_to G low st \<subseteq> X"
    and "errors o' = [] \<Longrightarrow> rows o' = [] \<Longrightarrow> rejected o' = [] \<Longrightarrow> down_to G low (st\<lparr>bf_status := Done\<rparr>) \<subseteq> X"
  shows "triple (at_request (kept f X) n) (bf_no_ids c f o' st) (\<lambda>(go, st) w. bf_kept f G low n0 st w) raises"
  unfolding bf_no_ids_def
  by (intro kept_rules assms(1) kept_bf_ret) (use assms(2-4) in \<open>auto simp: down_to_def\<close>)

lemma kept_bf_progress [kept_rules]:
  assumes "deletes_nothing c f" and "brings c rs Y"
    and "\<And>up quar. triple (at_request (kept f (X \<union> Y)) n) (k (up, quar)) Q raises"
  shows "triple (at_request (kept f X) n) (andThen (commit_progress c f rs (Some cursor) bad) k) Q raises"
  by (rule triple_andThen [OF triple_kept_progress [OF assms(1,2)]]) (metis assms(3) surj_pair)

lemma kept_bf_descend:
  assumes "deletes_nothing c f" and "n = n0 + bf_requests st" and "brings c (rows o') Y"
    and "\<And>st'. bf_low_id st' = l \<Longrightarrow> bf_status st' = bf_status st \<or> errors o' = [] \<and> \<not> has_next o' \<Longrightarrow>
      down_to G low st' \<subseteq> X \<union> Y"
  shows "triple (at_request (kept f X) n) (bf_descend c f o' l st) (\<lambda>(go, st) w. bf_kept f G low n0 st w) raises"
  unfolding bf_descend_def Let_def
  by (intro kept_rules kept_bf_progress [OF assms(1,3)] assms(1) kept_bf_ret assms(4)) (use assms(2) in auto)

lemma kept_bf_step:
  assumes del: "deletes_nothing c f" and hon: "honest c cl ''<ID'' order_desc (\<lambda>b n. below_id b (j n))" and jr: "journal j"
    and "0 < limit"
  shows "triple (bf_kept f (good_ids c (j n0)) low n0 st) (bf_step c cl f limit st)
    (\<lambda>(go, st) w. bf_kept f (good_ids c (j n0)) low n0 st w) raises"
  unfolding bf_kept_def [of f _ low n0 st] bf_step_def Let_def
proof (rule seq_fetch, goal_cases)
  case (1 o')
  let ?n = "n0 + bf_requests st" and ?G = "good_ids c (j n0)"
  have rf: "read_from c (wall c ?n) limit 0 (below_id (bf_low_id st) (j ?n)) o'"
    by (rule answered_read_from [OF 1 hon])
  have le: "n0 \<le> ?n" by simp
  note brought = down_brings [OF jr le rf] and ended = down_done [OF jr le rf _ _ \<open>0 < limit\<close>]
  have lowest: "l \<le> x" if "min_opt (prefix_bx_ids o') = Some l" "x \<in> set (prefix_bx_ids o')" for l x
    using that by (simp add: min_opt_Some)
  have inj: "x \<in> journal_ids (j n0)" if "x \<in> ?G" for x
    using good_in_journal that by blast
  show ?case
  proof (intro seq_expired triple_case_option triple_if, goal_cases)
    case 1
    then have v: "filter_violation o' = None" by simp
    show ?case
      by (rule kept_bf_no_ids [OF del])
        (use ended(2) [OF v] inj in \<open>auto simp: down_to_def, (meson not_le)+\<close>)
  next
    case (2 l)
    show ?case by (rule kept_bf_ret) (auto simp: down_to_def)
  next
    case (3 l)
    then have v: "filter_violation o' = None" and l: "min_opt (prefix_bx_ids o') = Some l" by simp_all
    have "down_to ?G low st' \<subseteq> down_to ?G low st \<union> {x \<in> ?G. l \<le> x \<and> x < bf_low_id st}"
      if "bf_low_id st' = l" "bf_status st' = bf_status st \<or> errors o' = [] \<and> \<not> has_next o'" for st'
      using that ended(1) [OF v] inj lowest [OF l] by (auto simp: down_to_def) (meson not_le)+
    then show ?case
      by (intro kept_bf_descend [OF del _ brought [OF v l]]) simp_all
  next
    case (4 v)
    show ?case
      by (intro kept_rules del kept_bf_ret) (auto simp: down_to_def)
  qed
qed

lemma kept_run_backfill:
  assumes del: "deletes_nothing c f" and hon: "honest c cl ''<ID'' order_desc (\<lambda>b n. below_id b (j n))" and jr: "journal j"
  shows "triple (at_request (\<lambda>_. True) n0) (run_backfill c cl f (Some low) pages_allowed imported budget)
    (\<lambda>o' w. \<exists>st. o' = Some st \<and> bf_kept f (good_ids c (j n0)) low n0 st w) raises"
proof -
  let ?G = "good_ids c (j n0)"
  have limit: "0 < clamp_pages pages_allowed"
    by (simp add: clamp_pages_def max_batch_commands_def)
  have "triple (at_request (\<lambda>_. True) n0)
      (for_else (nat (max 1 budget)) (bf_step c cl f (clamp_pages pages_allowed))
        (\<lambda>st. st\<lparr>bf_more := (bf_status st = Running)\<rparr>) (bf_start low imported)) (bf_kept f ?G low n0) raises"
  proof (rule triple_conseq [OF triple_for_else [where I = "\<lambda>_. bf_kept f ?G low n0" and Q = "bf_kept f ?G low n0"]])
    show "triple (bf_kept f ?G low n0 st) (bf_step c cl f (clamp_pages pages_allowed) st)
      (\<lambda>(go, st'). if go then bf_kept f ?G low n0 st' else bf_kept f ?G low n0 st') raises" for st
      using kept_bf_step [OF del hon jr limit] by simp
    show "bf_kept f ?G low n0 st w \<Longrightarrow> bf_kept f ?G low n0 (st\<lparr>bf_more := (bf_status st = Running)\<rparr>) w" for st w
      by (simp add: bf_kept_def down_to_def)
    show "at_request (\<lambda>_. True) n0 w \<Longrightarrow> bf_kept f ?G low n0 (bf_start low imported) w" for w
      by (auto simp: bf_kept_def down_to_def bf_start_def at_request_def kept_def)
  qed
  then show ?thesis
    unfolding run_backfill_def option.case
    by (rule triple_andThen) (rule triple_ret, simp)
qed

end
