(* ===== verification/Mirror_Properties.thy ===== *)
theory Mirror_Properties
  imports Mirror
begin

text \<open>
  The mirror properties of a visit, and a portal on which they are exercised: its journal holds
  two records, and it answers exactly the two requests that ask for them.
\<close>

section \<open>A portal with a journal\<close>

definition demo_journal :: "nat \<Rightarrow> json list" where
  "demo_journal n = [demo_record 5, demo_record 7]"

definition up_body :: "(string, string) dict" where
  "up_body = [(''halt'', ''0''),
     (''cmd[p0]'', ''voximplant.statistic.get?FILTER%5B%3EID%5D=4&SORT=ID&ORDER=ASC&start=0''), (''auth'', ''token'')]"

definition down_body :: "(string, string) dict" where
  "down_body = [(''halt'', ''0''),
     (''cmd[p0]'', ''voximplant.statistic.get?FILTER%5B%3CID%5D=9&SORT=ID&ORDER=DESC&start=0''), (''auth'', ''token'')]"

definition down_payload :: json where
  "down_payload = JDict [(''result'', JDict [(''result'', JList [JList [demo_record 7, demo_record 5]])])]"

definition journal_portal :: "nat \<Rightarrow> request \<Rightarrow> answer" where
  "journal_portal n req =
     (if req_body req = up_body then demo_answer
      else if req_body req = down_body then Answer 200 None (JsonBody down_payload)
      else NoAnswer ''busy'')"

definition mirror_outside :: sync_outside where
  "mirror_outside = demo_outside\<lparr>portal := journal_portal\<rparr>"

lemma demo_journal: "journal demo_journal"
proof -
  have "record_id (demo_record i) = Some i" if "1 \<le> i" "i \<le> int64_max" for i
    using that by (simp add: record_id_def demo_record_def field_def demo_fields_def to_int_def)
  then have "map record_id (demo_journal n) = map Some [5, 7]" for n
    by (simp add: demo_journal_def int64_max_def)
  then show ?thesis
    unfolding journal_def by (auto simp: demo_journal_def intro!: exI [of _ "[5, 7]"])
qed

lemma show_nat_digit: "show_nat n = [c] \<Longrightarrow> n = code c - 48"
  by (subst (asm) show_nat.simps) (auto split: if_splits simp: code_char_of)

lemma show_int_digit: "show_int i = [c] \<Longrightarrow> i = int (code c - 48)"
  by (auto simp: show_int_def dest!: show_nat_digit split: if_splits)

lemma show_small: "show_nat 0 = ''0''" "show_nat (Suc 0) = ''1''"
  by code_simp+

text \<open>The body of a batch of pages says what was asked.\<close>

lemma page_body_read:
  assumes "page_commands [(key, JInt base)] sort_field order 0 starts = Inr cmds"
    and "batch_body (\<lambda>_. []) demo_client False cmds = Inr body"
    and "map_of body ''cmd[p1]'' = None" and "order \<in> {order_asc, order_desc}"
  obtains s q where "starts = [s]" "map_of body ''cmd[p0]'' = Some (''voximplant.statistic.get?'' @ q)"
    "parse_query q = [(''FILTER['' @ key @ '']'', show_int base), (''SORT'', ''ID''), (''ORDER'', order), (''start'', show_int s)]"
proof -
  have "cmds \<noteq> []"
    using assms(2) by (auto simp: batch_body_def)
  then obtain s rest where starts: "starts = s # rest"
    using assms(1) by (cases starts) auto
  have name: "check_method statistic_method = Inr ''voximplant.statistic.get''"
    by code_simp
  have uppers: "upper (strip sort_field) = ''ID''" "upper (strip order) = order"
    using assms(4) by auto code_simp+
  obtain params cs where params: "statistic_params [(key, JInt base)] sort_field order s = Inr params"
    and cmds: "cmds = (''p0'', statistic_method, params) # cs"
    and cs: "page_commands [(key, JInt base)] sort_field order 1 rest = Inr cs"
    using assms(1) by (auto simp: starts rbind_Inr_iff show_small)
  have "rest = []"
  proof (rule ccontr)
    assume "rest \<noteq> []"
    then have "\<exists>ps. (''p1'', statistic_method, ps) \<in> set cs"
      using cs by (cases rest) (auto simp: rbind_Inr_iff show_small)
    then have "map_of body ''cmd[p1]'' \<noteq> None"
      using batch_body_decodes [OF assms(2), of "''p1''"] by (auto simp: cmds)
    with assms(3) show False by simp
  qed
  moreover obtain pairs q where "php_query_pairs (\<lambda>_. []) params = Inr pairs" "parse_query q = pairs"
    and body: "map_of body ''cmd[p0]'' = Some (if q = [] then ''voximplant.statistic.get'' else ''voximplant.statistic.get'' @ ''?'' @ q)"
    using batch_body_decodes [OF assms(2), of "''p0''" statistic_method params] name by (auto simp: cmds)
  moreover have "params = [(''FILTER'', JDict [(key, JInt base)]), (''SORT'', JStr ''ID''), (''ORDER'', JStr order), (''start'', JInt s)]"
    using params by (auto simp: statistic_params_def uppers rbind_Inr_iff Let_def split: if_splits)
  ultimately have pq: "parse_query q = [(''FILTER['' @ key @ '']'', show_int base), (''SORT'', ''ID''), (''ORDER'', order), (''start'', show_int s)]"
    by (simp add: php_query_pairs_def max_param_depth_def numeral_eq_Suc scalar_def)
  moreover have "q \<noteq> []"
    using pq by (auto simp: parse_query_def)
  ultimately show thesis
    using that [of s q] body starts \<open>rest = []\<close> by simp
qed


text \<open>What the client makes of an answer to a request of one page.\<close>

definition one_page :: "json list \<Rightarrow> batch_result" where
  "one_page raws =
     \<lparr>commands = [\<lparr>cmd_key = ''p0'', cmd_result = JList raws, cmd_error = None, cmd_time = None, cmd_next = None,
                  cmd_total = None\<rparr>], batch_time = None\<rparr>"

lemma journal_answers:
  assumes "batch mirror_outside cl cmds False w = (Inr b, w')" and "batch_body (\<lambda>_. []) cl False cmds = Inr body"
  shows "body \<in> {up_body, down_body}"
proof -
  have out: "render mirror_outside = (\<lambda>_. [])" "portal mirror_outside = journal_portal"
    by (simp_all add: mirror_outside_def demo_outside_def)
  obtain payload st where "send mirror_outside cl ''batch'' (endpoint cl @ ''batch'') body
      (batch_log_code (\<lambda>_. []) (map fst cmds)) w = (Inr (payload, st), w')"
    using assms by (auto simp: batch_def prog_defs out lift_py_def split: prod.splits sum.splits)
  then show ?thesis
    by (auto simp: send_def Let_def out journal_portal_def read_answer_def split: if_splits)
qed

lemma journal_batch:
  assumes "batch mirror_outside demo_client cmds False w = (Inr b, w')" and "map fst cmds = [''p0'']"
    and "batch_body (\<lambda>_. []) demo_client False cmds = Inr body"
  shows "body = up_body \<and> b = one_page [demo_record 5, demo_record 7] \<or>
    body = down_body \<and> b = one_page [demo_record 7, demo_record 5]"
proof -
  have out: "render mirror_outside = (\<lambda>_. [])" "portal mirror_outside = journal_portal"
    by (simp_all add: mirror_outside_def demo_outside_def)
  have ra: "read_answer mirror_outside = read_answer demo_outside"
    unfolding mirror_outside_def by (rule portal_irrelevant)
  have up: "read_answer demo_outside t demo_answer = (demo_payload, Some 200, None)" for t
    by (rule demo_answer_read)
  have down: "read_answer demo_outside t (Answer 200 None (JsonBody down_payload)) = (down_payload, Some 200, None)" for t
    by (simp add: read_answer_def decode_def parse_retry_after_def envelope_error_def down_payload_def dict_or_empty_def
        get_field_def Let_def)
  have rb: "read_batch (\<lambda>_. []) [''p0''] demo_payload (Some 200) = Inr (one_page [demo_record 5, demo_record 7])"
    "read_batch (\<lambda>_. []) [''p0''] down_payload (Some 200) = Inr (one_page [demo_record 7, demo_record 5])"
    by code_simp+
  obtain payload st where sent: "send mirror_outside demo_client ''batch'' (endpoint demo_client @ ''batch'') body
      (batch_log_code (\<lambda>_. []) [''p0'']) w = (Inr (payload, st), w')"
    and b: "read_batch (\<lambda>_. []) [''p0''] payload st = Inr b"
    using assms by (auto simp: batch_def prog_defs out lift_py_def split: prod.splits sum.splits)
  have bodies: "down_body \<noteq> up_body"
    by (simp add: up_body_def down_body_def)
  consider "body = up_body" | "body = down_body"
    using journal_answers [OF assms(1,3)] by blast
  then show ?thesis
  proof cases
    case 1
    with sent have "payload = demo_payload" "st = Some 200"
      by (auto simp: send_def Let_def out ra journal_portal_def up)
    with b rb(1) 1 show ?thesis by simp
  next
    case 2
    with sent bodies have "payload = down_payload" "st = Some 200"
      by (auto simp: send_def Let_def out ra journal_portal_def down)
    with b rb(2) 2 show ?thesis by simp
  qed
qed

lemma journal_asked:
  assumes "page_commands [(key, JInt base)] sort_field order 0 starts = Inr cmds"
    and "batch mirror_outside demo_client cmds False w = (Inr b, w')" and "order \<in> {order_asc, order_desc}"
  obtains "starts = [0]" "key = ''>ID''" "base = 4" "b = one_page [demo_record 5, demo_record 7]"
  | "starts = [0]" "key = ''<ID''" "base = 9" "b = one_page [demo_record 7, demo_record 5]"
proof -
  obtain body where body: "batch_body (\<lambda>_. []) demo_client False cmds = Inr body"
    using assms(2) by (auto simp: batch_def prog_defs lift_py_def mirror_outside_def demo_outside_def split: prod.splits sum.splits)
  have known: "body \<in> {up_body, down_body}"
    using assms(2) body by (rule journal_answers)
  then have "map_of body ''cmd[p1]'' = None"
    by (auto simp: up_body_def down_body_def)
  then obtain s q where s: "starts = [s]" and q: "map_of body ''cmd[p0]'' = Some (''voximplant.statistic.get?'' @ q)"
    "parse_query q = [(''FILTER['' @ key @ '']'', show_int base), (''SORT'', ''ID''), (''ORDER'', order), (''start'', show_int s)]"
    by (rule page_body_read [OF assms(1) body _ assms(3)])
  have keys: "map fst cmds = [''p0'']"
    using assms(1) by (auto simp: s rbind_Inr_iff show_small)
  have up: "parse_query ''FILTER%5B%3EID%5D=4&SORT=ID&ORDER=ASC&start=0'' =
      [(''FILTER[>ID]'', ''4''), (''SORT'', ''ID''), (''ORDER'', ''ASC''), (''start'', ''0'')]"
    and down: "parse_query ''FILTER%5B%3CID%5D=9&SORT=ID&ORDER=DESC&start=0'' =
      [(''FILTER[<ID]'', ''9''), (''SORT'', ''ID''), (''ORDER'', ''DESC''), (''start'', ''0'')]"
    by code_simp+
  have zero: "s = 0" if "show_int s = ''0''"
    using show_int_digit [OF that] by (simp add: code_def)
  have bracket: "key = k" if "''FILTER['' @ key @ '']'' = ''FILTER['' @ k @ '']''" for k
    using that by simp
  show thesis
  proof (cases "body = up_body")
    case True
    with q(1) have "q = ''FILTER%5B%3EID%5D=4&SORT=ID&ORDER=ASC&start=0''"
      by (simp add: up_body_def)
    with q(2) up have eqs: "''FILTER['' @ key @ '']'' = ''FILTER['' @ ''>ID'' @ '']''" "show_int base = ''4''" "show_int s = ''0''"
      by simp_all
    have "base = 4"
      using show_int_digit [OF eqs(2)] by (simp add: code_def)
    moreover have "b = one_page [demo_record 5, demo_record 7]"
      using journal_batch [OF assms(2) keys body] True by (auto simp: up_body_def down_body_def)
    ultimately show thesis
      using that(1) s zero [OF eqs(3)] bracket [OF eqs(1)] by simp
  next
    case False
    with known have down_b: "body = down_body" by simp
    with q(1) have "q = ''FILTER%5B%3CID%5D=9&SORT=ID&ORDER=DESC&start=0''"
      by (simp add: down_body_def)
    with q(2) down have eqs: "''FILTER['' @ key @ '']'' = ''FILTER['' @ ''<ID'' @ '']''" "show_int base = ''9''" "show_int s = ''0''"
      by simp_all
    have "base = 9"
      using show_int_digit [OF eqs(2)] by (simp add: code_def)
    moreover have "b = one_page [demo_record 7, demo_record 5]"
      using journal_batch [OF assms(2) keys body] False by simp
    ultimately show thesis
      using that(2) s zero [OF eqs(3)] bracket [OF eqs(1)] by simp
  qed
qed


lemma demo_ids_read: "record_id (demo_record 5) = Some 5" "record_id (demo_record 7) = Some 7"
  by (simp_all add: record_id_def demo_record_def field_def demo_fields_def to_int_def int64_max_def)

lemma journal_honest:
  "honest mirror_outside demo_client ''>ID'' order_asc (\<lambda>b n. above_id b (demo_journal n))"
  "honest mirror_outside demo_client ''<ID'' order_desc (\<lambda>b n. below_id b (demo_journal n))"
proof -
  have up: "serves (above_id 4 (demo_journal n)) [0] (commands (one_page [demo_record 5, demo_record 7]))"
    "tells_next (above_id 4 (demo_journal n)) [0] (commands (one_page [demo_record 5, demo_record 7]))" for n
    by (simp_all add: serves_def tells_next_def one_page_def above_id_def demo_journal_def id_holds_def demo_ids_read
        result_rows_def page_size_def)
  have down: "serves (below_id 9 (demo_journal n)) [0] (commands (one_page [demo_record 7, demo_record 5]))"
    "tells_next (below_id 9 (demo_journal n)) [0] (commands (one_page [demo_record 7, demo_record 5]))" for n
    by (simp_all add: serves_def tells_next_def one_page_def below_id_def demo_journal_def id_holds_def demo_ids_read
        result_rows_def page_size_def)
  show "honest mirror_outside demo_client ''>ID'' order_asc (\<lambda>b n. above_id b (demo_journal n))"
    unfolding honest_def by (auto elim!: journal_asked simp: up)
  show "honest mirror_outside demo_client ''<ID'' order_desc (\<lambda>b n. below_id b (demo_journal n))"
    unfolding honest_def by (auto elim!: journal_asked simp: down)
qed

lemma mirror_deletes_nothing: "deletes_nothing mirror_outside demo_fence"
  by (simp add: deletes_nothing_def mirror_outside_def demo_outside_def)

lemma demo_usable: "good_ids mirror_outside (demo_journal n) = {5, 7}"
proof -
  have "lib_of mirror_outside = lib_of demo_outside" "wall mirror_outside t = 1714560000"
    "refuses mirror_outside = (\<lambda>_ _. None)" for t
    by (simp_all add: mirror_outside_def demo_outside_def lib_of_def)
  then have "usable mirror_outside (demo_record 5)" "usable mirror_outside (demo_record 7)"
    by (simp_all add: usable_def demo_parse_row int64_max_def)
  then show ?thesis
    by (auto simp: good_ids_def demo_journal_def demo_ids_read)
qed

lemma journal_send:
  assumes "body = up_body \<and> payload = demo_payload \<or> body = down_body \<and> payload = down_payload"
  shows "send mirror_outside cl lm path body an w = (Inr (payload, Some 200),
    w\<lparr>requests := requests w @ [\<lparr>req_path = path, req_body = body\<rparr>],
      rest_log := rest_log w @ [\<lparr>log_method = lm, log_http_status = Some 200, log_error_code = an payload\<rparr>]\<rparr>)"
proof -
  have ra: "read_answer mirror_outside = read_answer demo_outside"
    unfolding mirror_outside_def by (rule portal_irrelevant)
  have down: "read_answer demo_outside t (Answer 200 None (JsonBody down_payload)) = (down_payload, Some 200, None)" for t
    by (simp add: read_answer_def decode_def parse_retry_after_def envelope_error_def down_payload_def dict_or_empty_def
        get_field_def Let_def)
  have bodies: "down_body \<noteq> up_body"
    by (simp add: up_body_def down_body_def)
  have t: "get_field (dict_or_empty demo_payload) ''time'' = JNone" "get_field (dict_or_empty down_payload) ''time'' = JNone"
    by (simp_all add: demo_payload_def down_payload_def dict_or_empty_def get_field_def)
  define ans where "ans = (if body = up_body then demo_answer else Answer 200 None (JsonBody down_payload))"
  have a: "portal mirror_outside n \<lparr>req_path = path, req_body = body\<rparr> = ans" for n
    using assms bodies by (auto simp: mirror_outside_def journal_portal_def ans_def)
  have read: "read_answer demo_outside now ans = (payload, Some 200, None)" for now
    using assms bodies by (auto simp: ans_def demo_answer_read down)
  have "(case ans of NoAnswer _ \<Rightarrow> None | _ \<Rightarrow> an payload) = an payload"
    by (simp add: ans_def demo_answer_def)
  then show ?thesis
    using assms t unfolding send_def a ra read Let_def prod.case by auto
qed

lemma journal_fetch:
  assumes "page_commands filt sort_field ord 0 [0] = Inr cmds" and "map fst cmds = [''p0'']"
    and "batch_body (\<lambda>_. []) demo_client False cmds = Inr body"
    and "body = up_body \<and> payload = demo_payload \<or> body = down_body \<and> payload = down_payload"
    and "read_batch (\<lambda>_. []) [''p0''] payload (Some 200) = Inr b"
    and "read_outcome demo_outside 1714560000 filt None [0] b = Inr o'"
  shows "\<exists>reqs log_rows. fetch_pages mirror_outside demo_client filt sort_field ord [0] None w =
    (Inr o', w\<lparr>requests := reqs, rest_log := log_rows\<rparr>)"
proof -
  have v: "validate_starts [0] = Inr [0]"
    by (simp add: validate_starts_def page_size_def max_batch_commands_def)
  have out: "wall mirror_outside n = 1714560000" "render mirror_outside = (\<lambda>_. [])" for n
    by (simp_all add: mirror_outside_def demo_outside_def)
  have ro: "read_outcome mirror_outside = read_outcome demo_outside"
    unfolding mirror_outside_def by (rule portal_irrelevant)
  show ?thesis
    unfolding fetch_pages_def batch_def prog_defs
    by (simp add: v assms(1-3,5,6) lift_py_def out ro journal_send [OF assms(4)] del: page_commands.simps) blast
qed

section \<open>The mirror\<close>

text \<open>
  C1 The forward pass mirrors the journal. Of the records the journal holds when the pass begins,
  every one the parser keeps and the database takes is stored for the portal if it lies between
  the old cursor and the one the pass reports; and a pass that was not cut short by an error, a
  broken filter, the throttle or its loop budget has left no record above its cursor.
\<close>

theorem forward_mirror:
  assumes "honest c cl ''>ID'' order_asc (\<lambda>b n. above_id b (j n))" and "journal j" and "deletes_nothing c f"
    and "run_incremental c cl f high pages_allowed bound hours max_loops w = (Inr o', w')" and "fence_holds f (store w')"
  shows "(\<forall>x \<in> good_ids c (j (length (requests w))). high < x \<and> x \<le> inc_high_id o' \<longrightarrow>
      map_of (calls (store w')) (portal_id f, x) \<noteq> None) \<and>
    (inc_errors o' = [] \<and> \<not> inc_blocked o' \<and> \<not> inc_stopped o' \<and> \<not> inc_more o' \<longrightarrow>
      (\<forall>x \<in> journal_ids (j (length (requests w))). x \<le> inc_high_id o'))"
proof -
  have "at_request (\<lambda>_. True) (length (requests w)) w"
    by (simp add: at_request_def)
  from triple_D [OF kept_run_incremental [OF assms(3,1,2)] this assms(4)] assms(5) show ?thesis
    by (auto simp: inc_mirrors_def inc_kept_def kept_upto_def at_request_def kept_def caught_up_def)
qed

lemma forward_mirror_witness:
  "\<exists>o' w'. run_incremental mirror_outside demo_client demo_fence 4 20 (Some 2) 72 10 demo_world = (Inr o', w') \<and>
    map_of (calls (store w')) (1, 5) \<noteq> None \<and> map_of (calls (store w')) (1, 7) \<noteq> None \<and> inc_high_id o' = 7"
proof -
  obtain cmds where cmds: "page_commands [(''>ID'', JInt 4)] sort_field order_asc 0 [0] = Inr cmds" "map fst cmds = [''p0'']"
    "batch_body (\<lambda>_. []) demo_client False cmds = Inr up_body"
  proof -
    have "case page_commands [(''>ID'', JInt 4)] sort_field order_asc 0 [0] of Inl _ \<Rightarrow> False
      | Inr cmds \<Rightarrow> map fst cmds = [''p0''] \<and> batch_body (\<lambda>_. []) demo_client False cmds = Inr up_body"
      by code_simp
    then show thesis
      using that by (auto split: sum.splits)
  qed
  have page: "read_batch (\<lambda>_. []) [''p0''] demo_payload (Some 200) = Inr demo_batch"
    by code_simp
  have fv: "first_violation (id_checks (render demo_outside) [(''>ID'', JInt 4)]) None [demo_call 5, demo_call 7] = None"
    by (simp add: id_checks_above violation_def demo_call_def)
  obtain reqs log_rows where "fetch_pages mirror_outside demo_client [(''>ID'', JInt 4)] sort_field order_asc [0] None demo_world =
      (Inr demo_outcome, demo_world\<lparr>requests := reqs, rest_log := log_rows\<rparr>)"
    using journal_fetch [OF cmds(1-3) _ page demo_read_outcome [OF fv]] by blast
  from demo_incremental_run [OF mirror_outside_def this] obtain o' w' where
    run: "run_incremental mirror_outside demo_client demo_fence 4 20 (Some 2) 72 10 demo_world = (Inr o', w')"
    and hi: "inc_high_id o' = 7" and held: "fence_holds demo_fence (store w')"
    by metis
  have "portal_id demo_fence = 1"
    by (simp add: demo_fence_def)
  with forward_mirror [OF journal_honest(1) demo_journal mirror_deletes_nothing run held] run hi show ?thesis
    by (auto simp: demo_usable)
qed

text \<open>
  C2 The backward pass mirrors the journal down to its cursor, and when it says it is done, all of
  it: every record below the place it began at that the parser keeps and the database takes is
  stored for the portal.
\<close>

theorem backward_mirror:
  assumes "honest c cl ''<ID'' order_desc (\<lambda>b n. below_id b (j n))" and "journal j" and "deletes_nothing c f"
    and "run_backfill c cl f (Some low) pages_allowed imported budget w = (Inr (Some o'), w')" and "fence_holds f (store w')"
    and "x \<in> good_ids c (j (length (requests w)))" and "x < low" and "bf_low_id o' \<le> x \<or> bf_status o' = Done"
  shows "map_of (calls (store w')) (portal_id f, x) \<noteq> None"
proof -
  have "at_request (\<lambda>_. True) (length (requests w)) w"
    by (simp add: at_request_def)
  from triple_D [OF kept_run_backfill [OF assms(3,1,2)] this assms(4)] assms(5-8) show ?thesis
    by (auto simp: bf_kept_def at_request_def kept_def down_to_def)
qed

lemma backward_mirror_witness:
  "\<exists>o' w'. run_backfill mirror_outside demo_client demo_fence (Some 9) 1 0 20 demo_world = (Inr (Some o'), w') \<and>
    bf_status o' = Done \<and> map_of (calls (store w')) (1, 5) \<noteq> None"
proof -
  obtain cmds where cmds: "page_commands [(''<ID'', JInt 9)] sort_field order_desc 0 [0] = Inr cmds" "map fst cmds = [''p0'']"
    "batch_body (\<lambda>_. []) demo_client False cmds = Inr down_body"
  proof -
    have "case page_commands [(''<ID'', JInt 9)] sort_field order_desc 0 [0] of Inl _ \<Rightarrow> False
      | Inr cmds \<Rightarrow> map fst cmds = [''p0''] \<and> batch_body (\<lambda>_. []) demo_client False cmds = Inr down_body"
      by code_simp
    then show thesis
      using that by (auto split: sum.splits)
  qed
  have page: "read_batch (\<lambda>_. []) [''p0''] down_payload (Some 200) = Inr descending_batch"
    by code_simp
  have starts: "page_starts 1 0 = [0]"
    by (simp add: page_starts_def)
  obtain reqs log_rows where f: "fetch_pages mirror_outside demo_client [(''<ID'', JInt 9)] sort_field order_desc [0] None demo_world =
      (Inr descending_outcome, demo_world\<lparr>requests := reqs, rest_log := log_rows\<rparr>)"
    using journal_fetch [OF cmds(1-3) _ page descending_read [unfolded starts]] by blast
  have ids: "prefix_bx_ids descending_outcome = [7, 5]"
    by (simp add: prefix_bx_ids_def descending_outcome_def demo_call_def)
  obtain st w' where
    run: "run_backfill mirror_outside demo_client demo_fence (Some 9) 1 0 20 demo_world = (Inr (Some st), w')"
    and st: "bf_low_id st = 5" "bf_status st = Done" "fence_holds demo_fence (store w')"
    by (rule demo_backfill_run [OF mirror_outside_def f])
      (use ids in \<open>simp_all add: descending_outcome_def min_opt_def\<close>)
  have "portal_id demo_fence = 1"
    by (simp add: demo_fence_def)
  with backward_mirror [OF journal_honest(2) demo_journal mirror_deletes_nothing run st(3), of 5] run st(2) show ?thesis
    by (simp add: demo_usable)
qed

end
