(* ===== verification/Deals.thy ===== *)
theory Deals
  imports Rest_Client Statistic "HOL-Library.Product_Lexorder" "HOL-Library.List_Lexorder"
    "HOL-Library.Char_ord"
begin

text \<open>
  \<open>bitrix/deals.py\<close>: the commands the deal report packs into its batches, and the
  parsers of their answers. Its scalar normalisers are shared with the UTM report and the
  CRM mirror.
\<close>

section \<open>Names\<close>

definition crm_item_list :: string where "crm_item_list = ''crm.item.list''"
definition crm_item_fields :: string where "crm_item_fields = ''crm.item.fields''"
definition crm_deal_list :: string where "crm_deal_list = ''crm.deal.list''"
definition crm_category_list :: string where "crm_category_list = ''crm.category.list''"
definition crm_status_list :: string where "crm_status_list = ''crm.status.list''"
definition crm_dealcategory_list :: string where
  "crm_dealcategory_list = ''crm.dealcategory.list''"
definition crm_dealcategory_stage_list :: string where
  "crm_dealcategory_stage_list = ''crm.dealcategory.stage.list''"
definition user_current :: string where "user_current = ''user.current''"

definition deal_entity_type_id :: int where "deal_entity_type_id = 2"
definition deal_page_size :: int where "deal_page_size = 50"

definition me_key :: string where "me_key = ''me''"
definition categories_key :: string where "categories_key = ''cats''"
definition deal_fields_key :: string where "deal_fields_key = ''flds''"
definition preflight_key :: string where "preflight_key = ''pre''"
definition honour_keys :: "string list" where "honour_keys = [''hp0'', ''hp1'']"
definition leg_honour_keys :: "string list" where "leg_honour_keys = [''hp2'', ''hp3'']"

text \<open>A date far enough ahead that no record can be at or past it.\<close>

definition never_iso :: string where
  "never_iso = ''2999-01-01T00:00:00+00:00''"

record deal_dialect =
  dl_name :: string
  dl_method :: string
  dl_id :: string
  dl_category_id :: string
  dl_stage_id :: string
  dl_assigned_by_id :: string
  dl_semantic :: string
  dl_created :: string
  dl_moved :: string
  dl_updated :: string
  dl_universal :: bool

definition item_dialect :: deal_dialect where
  "item_dialect =
     \<lparr>dl_name = ''item'', dl_method = crm_item_list, dl_id = ''id'',
      dl_category_id = ''categoryId'', dl_stage_id = ''stageId'',
      dl_assigned_by_id = ''assignedById'', dl_semantic = ''stageSemanticId'',
      dl_created = ''createdTime'', dl_moved = ''movedTime'', dl_updated = ''updatedTime'',
      dl_universal = True\<rparr>"

definition legacy_deal_dialect :: deal_dialect where
  "legacy_deal_dialect =
     \<lparr>dl_name = ''deal'', dl_method = crm_deal_list, dl_id = ''ID'',
      dl_category_id = ''CATEGORY_ID'', dl_stage_id = ''STAGE_ID'',
      dl_assigned_by_id = ''ASSIGNED_BY_ID'', dl_semantic = ''STAGE_SEMANTIC_ID'',
      dl_created = ''DATE_CREATE'', dl_moved = ''MOVED_TIME'', dl_updated = ''DATE_MODIFY'',
      dl_universal = False\<rparr>"

record funnel =
  fn_id :: int
  fn_name :: string
  fn_sort :: int
  fn_is_default :: bool

record stage =
  st_key :: string
  st_category_id :: int
  st_status_id :: string
  st_name :: string
  st_semantic :: string
  st_sort :: int
  st_known :: bool

section \<open>Scalar normalisers\<close>

text \<open>
  \<open>int(text)\<close> of a text already known to be digits: it still raises past the
  interpreter's limit of 4300 digits, which nothing here catches.
\<close>

definition all_digits :: "string \<Rightarrow> bool" where
  "all_digits t \<longleftrightarrow> t \<noteq> [] \<and> list_all is_digit t"

definition int_of_digits :: "int \<Rightarrow> string \<Rightarrow> (py_error, int option) result" where
  "int_of_digits sign ds =
     (if 4300 < length ds then Inl ValueError else Inr (Some (sign * digits_value ds)))"

definition as_int_crm :: "json \<Rightarrow> (py_error, int option) result" where
  "as_int_crm v =
     (case v of
        JInt i \<Rightarrow> Inr (Some i)
      | JFloat (Fin q) \<Rightarrow> Inr (int_of_rat q)
      | JStr s \<Rightarrow>
          (let text = strip s
           in if all_digits text then int_of_digits 1 text
              else if starts_with ''-'' text \<and> all_digits (tl text) then int_of_digits (-1) (tl text)
              else Inr None)
      | _ \<Rightarrow> Inr None)"

text \<open>The first key present, whatever its value.\<close>

fun first_present :: "(string, json) dict \<Rightarrow> string list \<Rightarrow> json" where
  "first_present raw [] = JNone"
| "first_present raw (name # names) =
     (case map_of raw name of Some v \<Rightarrow> v | None \<Rightarrow> first_present raw names)"

definition crm_text :: "json \<Rightarrow> string" where
  "crm_text v = (case v of JStr s \<Rightarrow> strip s | _ \<Rightarrow> [])"

definition crm_result_rows :: "json \<Rightarrow> json list" where
  "crm_result_rows v = (case v of JList xs \<Rightarrow> xs | JDict d \<Rightarrow> map snd d | _ \<Rightarrow> [])"

definition normalise_semantic :: "json \<Rightarrow> string" where
  "normalise_semantic v =
     (let text = (case v of JStr s \<Rightarrow> upper (strip s) | _ \<Rightarrow> [])
      in if text = ''S'' then ''S'' else if text = ''F'' then ''F'' else ''P'')"

section \<open>Keys\<close>

definition stage_entity_id :: "int \<Rightarrow> string" where
  "stage_entity_id cid = (if 0 < cid then ''DEAL_STAGE_'' @ show_int cid else ''DEAL_STAGE'')"

definition status_key :: "int \<Rightarrow> string" where
  "status_key cid = ''st'' @ show_int cid"

definition deal_page_key :: "int \<Rightarrow> int \<Rightarrow> (py_error, string) result" where
  "deal_page_key start stream =
     (if start < 0 \<or> start mod deal_page_size \<noteq> 0 then Inl ValueError
      else if stream < 0 then Inl ValueError
      else Inr (if stream \<noteq> 0 then ''s'' @ show_int stream @ ''p'' @ show_int start
                else if start = 0 then preflight_key
                else ''p'' @ show_int start))"

definition stage_key :: "int \<Rightarrow> string \<Rightarrow> string" where
  "stage_key cid status_id = show_int cid @ '':'' @ status_id"

section \<open>Commands\<close>

definition me_command :: command where
  "me_command = (me_key, user_current, [])"

definition deal_fields_command :: command where
  "deal_fields_command =
     (deal_fields_key, crm_item_fields, [(''entityTypeId'', JInt deal_entity_type_id)])"

definition category_commands :: "bool \<Rightarrow> command list" where
  "category_commands universal =
     (if universal
      then [(categories_key, crm_category_list, [(''entityTypeId'', JInt deal_entity_type_id)])]
      else [(categories_key, crm_dealcategory_list, [])])"

definition status_commands :: "int list \<Rightarrow> bool \<Rightarrow> command list" where
  "status_commands cids universal =
     (if universal
      then map (\<lambda>cid. (status_key cid, crm_status_list,
                 [(''order'', JDict [(''SORT'', JStr ''ASC'')]),
                  (''filter'', JDict [(''ENTITY_ID'', JStr (stage_entity_id cid))])])) cids
      else map (\<lambda>cid. (status_key cid, crm_dealcategory_stage_list, [(''id'', JInt cid)])) cids)"

definition deal_period_filter :: "deal_dialect \<Rightarrow> string \<Rightarrow> string \<Rightarrow> (string, json) dict" where
  "deal_period_filter d start_iso end_iso =
     [(''>='' @ dl_created d, JStr start_iso), (''<'' @ dl_created d, JStr end_iso)]"

definition stage_leg_filters ::
  "deal_dialect \<Rightarrow> string list \<Rightarrow> string \<Rightarrow> string \<Rightarrow>
   (string, json) dict \<times> (string, json) dict" where
  "stage_leg_filters d stage_ids start_iso end_iso =
     (let stages = JList (map JStr stage_ids)
      in ([(''@'' @ dl_stage_id d, stages), (''>='' @ dl_moved d, JStr start_iso),
           (''<'' @ dl_moved d, JStr end_iso)],
          [(''@'' @ dl_stage_id d, stages), (''>='' @ dl_updated d, JStr start_iso),
           (''<'' @ dl_updated d, JStr end_iso)]))"

definition deal_select :: "deal_dialect \<Rightarrow> string list" where
  "deal_select d = [dl_id d, dl_category_id d, dl_stage_id d, dl_assigned_by_id d, dl_semantic d]"

definition deal_list_params ::
  "deal_dialect \<Rightarrow> (string, json) dict \<Rightarrow> int \<Rightarrow> int list \<Rightarrow> (string, json) dict" where
  "deal_list_params d filters start assigned_to =
     (let params = (if assigned_to \<noteq> []
                    then dict_set (''@'' @ dl_assigned_by_id d) (JList (map JInt assigned_to)) filters
                    else filters);
          out = [(''filter'', JDict params), (''select'', JList (map JStr (deal_select d))),
                 (''order'', JDict [(dl_id d, JStr ''ASC'')]), (''start'', JInt start)]
      in if dl_universal d then out @ [(''entityTypeId'', JInt deal_entity_type_id)] else out)"

definition deal_page_commands ::
  "deal_dialect \<Rightarrow> (string, json) dict \<Rightarrow> int list \<Rightarrow> int list \<Rightarrow> int \<Rightarrow> (py_error, command list) result" where
  "deal_page_commands d filters starts assigned_to stream =
     rmap (\<lambda>start. rbind (deal_page_key start stream) (\<lambda>key.
             Inr (key, dl_method d, deal_list_params d filters start assigned_to))) starts"

definition deal_honour_probes :: "deal_dialect \<Rightarrow> bool \<Rightarrow> command list" where
  "deal_honour_probes d legs =
     [(honour_keys ! 0, dl_method d, deal_list_params d [] 0 []),
      (honour_keys ! 1, dl_method d,
       deal_list_params d [(''>='' @ dl_created d, JStr never_iso)] 0 [])] @
     (if legs
      then map (\<lambda>(key, name). (key, dl_method d,
                  deal_list_params d [(''>='' @ name, JStr never_iso)] 0 []))
             (zip leg_honour_keys [dl_moved d, dl_updated d])
      else [])"

text \<open>\<open>Some True\<close> honoured, \<open>Some False\<close> dropped, \<open>None\<close> inconclusive.\<close>

definition deal_honour_verdict :: "int option \<Rightarrow> int option \<Rightarrow> int option list \<Rightarrow> bool option" where
  "deal_honour_verdict baseline future legs =
     (case baseline of None \<Rightarrow> None
      | Some b \<Rightarrow>
          if b \<le> 0 then None
          else if None \<in> set (future # legs) then None
          else Some (list_all (\<lambda>v. v = Some 0) (future # legs)))"

section \<open>Parsers\<close>

definition field_names_present :: "json \<Rightarrow> string list \<Rightarrow> string set" where
  "field_names_present fields_result names =
     (case fields_result of
        JDict d \<Rightarrow>
          (let source = (case get_field d ''fields'' of JDict f \<Rightarrow> f | _ \<Rightarrow> d)
           in {name \<in> set names. map_of source name \<noteq> None})
      | _ \<Rightarrow> {})"

text \<open>The funnels of the rows in their order, the first row of an id only.\<close>

fun read_funnels :: "int list \<Rightarrow> json list \<Rightarrow> (py_error, funnel list) result" where
  "read_funnels seen [] = Inr []"
| "read_funnels seen (row # rows) =
     (case row of
        JDict d \<Rightarrow>
          rbind (as_int_crm (first_present d [''id'', ''ID''])) (\<lambda>identifier.
            case identifier of
              None \<Rightarrow> read_funnels seen rows
            | Some i \<Rightarrow>
                if i < 0 \<or> i \<in> set seen then read_funnels seen rows
                else
                  (let flag = upper (crm_text (first_present d [''isDefault'', ''IS_DEFAULT'']))
                   in rbind (as_int_crm (first_present d [''sort'', ''SORT''])) (\<lambda>sort.
                      rbind (read_funnels (i # seen) rows) (\<lambda>fs.
                      Inr (\<lparr>fn_id = i, fn_name = crm_text (first_present d [''name'', ''NAME'']),
                            fn_sort = (case sort of Some n \<Rightarrow> n | None \<Rightarrow> 0),
                            fn_is_default = (if flag \<noteq> [] then flag = ''Y'' else i = 0)\<rparr> # fs)))))
      | _ \<Rightarrow> read_funnels seen rows)"

definition parse_funnels :: "json \<Rightarrow> bool \<Rightarrow> (py_error, funnel list) result" where
  "parse_funnels v universal =
     (let rows = (case v of
                    JDict d \<Rightarrow> if universal then crm_result_rows (get_field d ''categories'') else crm_result_rows v
                  | _ \<Rightarrow> crm_result_rows v)
      in rbind (read_funnels [] rows) (\<lambda>fs. Inr (sort_key (\<lambda>f. (fn_sort f, fn_id f)) fs)))"

text \<open>An absent, unreadable or zero \<open>SORT\<close> is replaced by the row's index.\<close>

fun read_stages :: "int \<Rightarrow> nat \<Rightarrow> string list \<Rightarrow> json list \<Rightarrow> (py_error, stage list) result" where
  "read_stages cid index seen [] = Inr []"
| "read_stages cid index seen (row # rows) =
     (case row of
        JDict d \<Rightarrow>
          (let status_id = crm_text (first_present d [''STATUS_ID'', ''statusId'', ''status_id''])
           in if status_id \<in> set seen then read_stages cid (Suc index) seen rows
              else
                rbind (as_int_crm (first_present d [''SORT'', ''sort''])) (\<lambda>sort.
                rbind (read_stages cid (Suc index) (status_id # seen) rows) (\<lambda>ss.
                Inr (\<lparr>st_key = stage_key cid status_id, st_category_id = cid,
                      st_status_id = status_id,
                      st_name = crm_text (first_present d [''NAME'', ''name'']),
                      st_semantic = normalise_semantic (first_present d [''SEMANTICS'', ''semantics'']),
                      st_sort = (case sort of None \<Rightarrow> int index
                                 | Some n \<Rightarrow> if n = 0 then int index else n),
                      st_known = True\<rparr> # ss))))
      | _ \<Rightarrow> read_stages cid (Suc index) seen rows)"

definition parse_stages :: "int \<Rightarrow> json \<Rightarrow> (py_error, stage list) result" where
  "parse_stages cid v =
     rbind (read_stages cid 0 [] (crm_result_rows v)) (\<lambda>ss.
       Inr (sort_key (\<lambda>s. (st_sort s, st_status_id s)) ss))"

definition is_mapping :: "json \<Rightarrow> bool" where
  "is_mapping v \<longleftrightarrow> fields_of v \<noteq> None"

definition parse_deal_rows :: "bool \<Rightarrow> json \<Rightarrow> (string, json) dict list" where
  "parse_deal_rows universal v =
     (let rows = (case v of
                    JDict d \<Rightarrow> if universal then crm_result_rows (get_field d ''items'') else crm_result_rows v
                  | _ \<Rightarrow> crm_result_rows v)
      in List.map_filter fields_of rows)"

section \<open>Lemmas\<close>

text \<open>Only a digit text past the interpreter's limit makes \<open>as_int\<close> raise.\<close>

definition readable_int :: "json \<Rightarrow> bool" where
  "readable_int v \<longleftrightarrow> (case v of JStr s \<Rightarrow> length s \<le> 4300 | _ \<Rightarrow> True)"

lemma length_strip: "length (strip s) \<le> length s"
  using length_dropWhile_le [of is_space s] length_dropWhile_le [of is_space "rev (dropWhile is_space s)"]
  by (simp add: strip_def lstrip_def)

lemma as_int_crm_total:
  assumes "readable_int v"
  shows "\<exists>n. as_int_crm v = Inr n"
proof (cases v)
  case (JStr s)
  with assms length_strip [of s] show ?thesis
    by (cases "strip s") (auto simp: as_int_crm_def readable_int_def int_of_digits_def Let_def)
next
  case (JFloat f)
  then show ?thesis
    by (cases f) (auto simp: as_int_crm_def)
qed (auto simp: as_int_crm_def)

lemma as_int_crm_Inl: "as_int_crm v = Inl e \<Longrightarrow> e = ValueError"
  by (auto simp: as_int_crm_def int_of_digits_def Let_def split: json.splits pyfloat.splits if_splits)

lemma as_int_crm_JInt [simp]: "as_int_crm (JInt i) = Inr (Some i)"
  by (simp add: as_int_crm_def)

lemma as_int_crm_JNone [simp]: "as_int_crm JNone = Inr None"
  by (simp add: as_int_crm_def)

lemma normalise_semantic_values: "normalise_semantic v \<in> {''S'', ''F'', ''P''}"
  by (auto simp: normalise_semantic_def Let_def)

text \<open>The key of a page names its stream and its start.\<close>

lemma append_sep_inj:
  "c \<notin> set xs \<Longrightarrow> c \<notin> set ys \<Longrightarrow> xs @ c # us = ys @ c # vs \<longleftrightarrow> xs = ys \<and> us = vs"
proof (induction xs arbitrary: ys)
  case Nil
  then show ?case by (cases ys) auto
next
  case (Cons x xs)
  then show ?case by (cases ys) auto
qed

lemma deal_page_key_inj:
  assumes "deal_page_key start1 stream1 = Inr k" and "deal_page_key start2 stream2 = Inr k"
  shows "start1 = start2 \<and> stream1 = stream2"
proof -
  have no_p: "CHR ''p'' \<notin> set (show_int i)" for i
    using show_nat_digits [of "CHR ''p''"]
    by (auto simp: show_int_def is_digit_def code_def)
  note split [simp] = append_sep_inj [OF no_p no_p]
  have not_r [simp]: "show_int i \<noteq> CHR ''r'' # t" for i t
  proof
    assume "show_int i = CHR ''r'' # t"
    then have "is_digit (CHR ''r'') \<or> CHR ''r'' = CHR ''-''"
      using show_nat_digits [of "CHR ''r''"]
      by (auto simp: show_int_def split: if_splits) (metis list.set_intros(1))+
    then show False
      by (simp add: is_digit_def code_def)
  qed
  note flip [simp] = not_r [THEN not_sym]
  show ?thesis
    using assms
    by (simp add: deal_page_key_def preflight_key_def split: if_splits)
       (auto simp flip: show_int_inj)
qed

text \<open>What the parsers return: ids once, in the order of the sort key.\<close>

lemma read_funnels_ids:
  "read_funnels seen rows = Inr fs \<Longrightarrow>
     distinct (map fn_id fs) \<and> (\<forall>f \<in> set fs. 0 \<le> fn_id f \<and> fn_id f \<notin> set seen)"
proof (induction rows arbitrary: seen fs)
  case Nil
  then show ?case by simp
next
  case (Cons row rows)
  show ?case
  proof (cases row)
    case (JDict d)
    note row = this
    obtain num where ident: "as_int_crm (first_present d [''id'', ''ID'']) = Inr num"
      using Cons.prems row by (auto simp: rbind_Inr_iff)
    show ?thesis
    proof (cases num)
      case None
      with Cons row ident show ?thesis by simp
    next
      case (Some i)
      show ?thesis
      proof (cases "i < 0 \<or> i \<in> set seen")
        case True
        with Cons row ident Some show ?thesis by simp
      next
        case False
        with Cons.prems row ident Some obtain sort gs where
          tail: "read_funnels (i # seen) rows = Inr gs" and
          fs: "map fn_id fs = i # map fn_id gs"
          by (auto simp: Let_def rbind_Inr_iff)
        have "distinct (map fn_id gs) \<and> (\<forall>f \<in> set gs. 0 \<le> fn_id f \<and> fn_id f \<notin> set (i # seen))"
          by (rule Cons.IH [OF tail])
        then have "distinct (map fn_id fs)" and "\<forall>x \<in> set (map fn_id fs). 0 \<le> x \<and> x \<notin> set seen"
          using False by (auto simp only: fs) auto
        then show ?thesis by simp
      qed
    qed
  qed (use Cons in simp_all)
qed

lemma read_stages_ids:
  "read_stages cid index seen rows = Inr ss \<Longrightarrow>
     distinct (map st_status_id ss) \<and> (\<forall>s \<in> set ss. st_status_id s \<notin> set seen \<and>
       st_category_id s = cid \<and> st_key s = stage_key cid (st_status_id s))"
proof (induction rows arbitrary: index seen ss)
  case Nil
  then show ?case by simp
next
  case (Cons row rows)
  show ?case
  proof (cases row)
    case (JDict d)
    note row = this
    define sid where "sid = crm_text (first_present d [''STATUS_ID'', ''statusId'', ''status_id''])"
    show ?thesis
    proof (cases "sid \<in> set seen")
      case True
      with Cons row show ?thesis by (simp add: sid_def Let_def)
    next
      case False
      with Cons.prems row obtain s ts where
        tail: "read_stages cid (Suc index) (sid # seen) rows = Inr ts" and ss: "ss = s # ts" and
        s: "st_status_id s = sid" "st_category_id s = cid" "st_key s = stage_key cid sid"
        by (auto simp: sid_def Let_def rbind_Inr_iff)
      from Cons.IH [OF tail] False show ?thesis
        by (auto simp: ss s)
    qed
  qed (use Cons in simp_all)
qed

end
