(* ===== verification/Utm.thy ===== *)
theory Utm
  imports Deals
begin

text \<open>
  \<open>bitrix/utm.py\<close>: the commands of the UTM report, its field spellings and the readers
  of its rows. The CRM mirror normalises tags with the same \<open>utm_values\<close>.
\<close>

section \<open>Dialects\<close>

definition crm_lead_list :: string where "crm_lead_list = ''crm.lead.list''"
definition crm_lead_fields :: string where "crm_lead_fields = ''crm.lead.fields''"
definition crm_deal_fields :: string where "crm_deal_fields = ''crm.deal.fields''"
definition lead_entity_type_id :: int where "lead_entity_type_id = 1"
definition kind_lead :: string where "kind_lead = ''lead''"
definition kind_deal :: string where "kind_deal = ''deal''"

lemmas utm_names_defs = crm_lead_list_def crm_lead_fields_def crm_deal_fields_def
  lead_entity_type_id_def kind_lead_def kind_deal_def

definition dimensions :: "string list" where
  "dimensions = [''utm_source'', ''utm_medium'', ''utm_campaign'', ''utm_content'', ''utm_term'']"

record entity_dialect =
  ed_name :: string
  ed_kind :: string
  ed_method :: string
  ed_entity_type_id :: "int option"
  ed_id :: string
  ed_semantic :: string
  ed_assigned_by_id :: string
  ed_created :: string
  ed_lead_id :: "string option"
  ed_opportunity :: "string option"
  ed_currency_id :: "string option"
  ed_account_opportunity :: "string option"
  ed_account_currency_id :: "string option"
  ed_utm :: "(string, string) dict"
  ed_universal :: bool

definition item_utm :: "(string, string) dict" where
  "item_utm =
     [(''utm_source'', ''utmSource''), (''utm_medium'', ''utmMedium''),
      (''utm_campaign'', ''utmCampaign''), (''utm_content'', ''utmContent''),
      (''utm_term'', ''utmTerm'')]"

definition legacy_utm :: "(string, string) dict" where
  "legacy_utm =
     [(''utm_source'', ''UTM_SOURCE''), (''utm_medium'', ''UTM_MEDIUM''),
      (''utm_campaign'', ''UTM_CAMPAIGN''), (''utm_content'', ''UTM_CONTENT''),
      (''utm_term'', ''UTM_TERM'')]"

definition utm_lead_item :: entity_dialect where
  "utm_lead_item =
     \<lparr>ed_name = ''item-lead'', ed_kind = kind_lead, ed_method = crm_item_list,
      ed_entity_type_id = Some lead_entity_type_id, ed_id = ''id'',
      ed_semantic = ''stageSemanticId'', ed_assigned_by_id = ''assignedById'',
      ed_created = ''createdTime'', ed_lead_id = None, ed_opportunity = None,
      ed_currency_id = None, ed_account_opportunity = None, ed_account_currency_id = None,
      ed_utm = item_utm, ed_universal = True\<rparr>"

definition utm_deal_item :: entity_dialect where
  "utm_deal_item =
     \<lparr>ed_name = ''item-deal'', ed_kind = kind_deal, ed_method = crm_item_list,
      ed_entity_type_id = Some deal_entity_type_id, ed_id = ''id'',
      ed_semantic = ''stageSemanticId'', ed_assigned_by_id = ''assignedById'',
      ed_created = ''createdTime'', ed_lead_id = Some ''leadId'',
      ed_opportunity = Some ''opportunity'', ed_currency_id = Some ''currencyId'',
      ed_account_opportunity = Some ''opportunityAccount'',
      ed_account_currency_id = Some ''accountCurrencyId'',
      ed_utm = item_utm, ed_universal = True\<rparr>"

definition utm_lead_legacy :: entity_dialect where
  "utm_lead_legacy =
     \<lparr>ed_name = ''lead'', ed_kind = kind_lead, ed_method = crm_lead_list,
      ed_entity_type_id = None, ed_id = ''ID'', ed_semantic = ''STATUS_SEMANTIC_ID'',
      ed_assigned_by_id = ''ASSIGNED_BY_ID'', ed_created = ''DATE_CREATE'',
      ed_lead_id = None, ed_opportunity = None, ed_currency_id = None,
      ed_account_opportunity = None, ed_account_currency_id = None,
      ed_utm = legacy_utm, ed_universal = False\<rparr>"

definition utm_deal_legacy :: entity_dialect where
  "utm_deal_legacy =
     \<lparr>ed_name = ''deal'', ed_kind = kind_deal, ed_method = crm_deal_list,
      ed_entity_type_id = None, ed_id = ''ID'', ed_semantic = ''STAGE_SEMANTIC_ID'',
      ed_assigned_by_id = ''ASSIGNED_BY_ID'', ed_created = ''DATE_CREATE'',
      ed_lead_id = Some ''LEAD_ID'', ed_opportunity = Some ''OPPORTUNITY'',
      ed_currency_id = Some ''CURRENCY_ID'',
      ed_account_opportunity = Some ''OPPORTUNITY_ACCOUNT'',
      ed_account_currency_id = Some ''ACCOUNT_CURRENCY_ID'',
      ed_utm = legacy_utm, ed_universal = False\<rparr>"

definition utm_dialects :: "entity_dialect list" where
  "utm_dialects = [utm_lead_item, utm_deal_item, utm_lead_legacy, utm_deal_legacy]"

lemmas utm_dialect_defs =
  utm_lead_item_def utm_deal_item_def utm_lead_legacy_def utm_deal_legacy_def

text \<open>\<open>mapping[key]\<close>: a missing key raises.\<close>

definition lookup_key :: "('k, 'v) dict \<Rightarrow> 'k \<Rightarrow> (py_error, 'v) result" where
  "lookup_key d k = (case map_of d k of None \<Rightarrow> Inl KeyError | Some v \<Rightarrow> Inr v)"

definition legacy_of :: "entity_dialect \<Rightarrow> (py_error, entity_dialect) result" where
  "legacy_of d = lookup_key [(kind_lead, utm_lead_legacy), (kind_deal, utm_deal_legacy)] (ed_kind d)"

section \<open>Keys\<close>

definition check_kind :: "string \<Rightarrow> (py_error, string) result" where
  "check_kind kind = (if kind = kind_lead \<or> kind = kind_deal then Inr kind else Inl ValueError)"

definition utm_page_key :: "string \<Rightarrow> int \<Rightarrow> (py_error, string) result" where
  "utm_page_key kind start =
     rbind (check_kind kind) (\<lambda>_.
       if start < 0 \<or> start mod deal_page_size \<noteq> 0 then Inl ValueError
       else Inr (hd kind # show_int start))"

definition utm_fields_key :: "string \<Rightarrow> (py_error, string) result" where
  "utm_fields_key kind = rbind (check_kind kind) (\<lambda>k. Inr (''fl'' @ [hd k]))"

definition utm_honour_key :: "string \<Rightarrow> (py_error, string) result" where
  "utm_honour_key kind = rbind (check_kind kind) (\<lambda>k. Inr (''h'' @ [hd k]))"

section \<open>Selection and filter\<close>

definition core_names :: "entity_dialect \<Rightarrow> string list" where
  "core_names d = [ed_id d, ed_created d, ed_semantic d, ed_assigned_by_id d]"

definition utm_names :: "entity_dialect \<Rightarrow> (py_error, string list) result" where
  "utm_names d = rmap (lookup_key (ed_utm d)) dimensions"

definition utm_select :: "entity_dialect \<Rightarrow> (py_error, string list) result" where
  "utm_select d =
     rbind (utm_names d) (\<lambda>tags.
       Inr ([ed_id d, ed_created d, ed_semantic d, ed_assigned_by_id d] @
            List.map_filter id [ed_lead_id d, ed_account_opportunity d, ed_account_currency_id d,
              ed_opportunity d, ed_currency_id d] @
            tags))"

definition utm_period_filter :: "entity_dialect \<Rightarrow> string \<Rightarrow> string \<Rightarrow> (string, json) dict" where
  "utm_period_filter d start_iso end_iso =
     [(''>='' @ ed_created d, JStr start_iso), (''<'' @ ed_created d, JStr end_iso)]"

definition utm_list_params ::
  "entity_dialect \<Rightarrow> (string, json) dict \<Rightarrow> int \<Rightarrow> int list \<Rightarrow> (py_error, (string, json) dict) result" where
  "utm_list_params d filters start assigned_to =
     (let params = (if assigned_to \<noteq> []
                    then dict_set (''@'' @ ed_assigned_by_id d) (JList (map JInt assigned_to)) filters
                    else filters)
      in rbind (utm_select d) (\<lambda>fields.
           (let out = [(''filter'', JDict params), (''select'', JList (map JStr fields)),
                       (''order'', JDict [(ed_id d, JStr ''ASC'')]), (''start'', JInt start)]
            in Inr (case ed_entity_type_id d of
                      Some n \<Rightarrow> out @ [(''entityTypeId'', JInt n)] | None \<Rightarrow> out))))"

definition utm_page_commands ::
  "entity_dialect \<Rightarrow> (string, json) dict \<Rightarrow> int list \<Rightarrow> int list \<Rightarrow> (py_error, command list) result" where
  "utm_page_commands d filters starts assigned_to =
     rmap (\<lambda>start. rbind (utm_page_key (ed_kind d) start) (\<lambda>key.
             rbind (utm_list_params d filters start assigned_to) (\<lambda>params.
             Inr (key, ed_method d, params)))) starts"

definition utm_fields_command :: "entity_dialect \<Rightarrow> (py_error, command) result" where
  "utm_fields_command d =
     rbind (utm_fields_key (ed_kind d)) (\<lambda>key.
       case ed_entity_type_id d of
         Some n \<Rightarrow> Inr (key, crm_item_fields, [(''entityTypeId'', JInt n)])
       | None \<Rightarrow> rbind (lookup_key [(kind_lead, crm_lead_fields), (kind_deal, crm_deal_fields)] (ed_kind d))
                   (\<lambda>name. Inr (key, name, [])))"

definition utm_honour_probes :: "entity_dialect \<Rightarrow> (py_error, command list) result" where
  "utm_honour_probes d =
     rbind (utm_honour_key (ed_kind d)) (\<lambda>key.
     rbind (utm_list_params d [(''>='' @ ed_created d, JStr never_iso)] 0 []) (\<lambda>params.
       Inr [(key, ed_method d, params)]))"

definition utm_honour_verdict :: "int option \<Rightarrow> bool option" where
  "utm_honour_verdict future = map_option (\<lambda>n. n = 0) future"

section \<open>Readers\<close>

definition utm_parse_rows :: "bool \<Rightarrow> json \<Rightarrow> (string, json) dict list" where
  "utm_parse_rows universal v = parse_deal_rows universal v"

definition opt_field :: "(string, json) dict \<Rightarrow> string option \<Rightarrow> json" where
  "opt_field row name = (case name of None \<Rightarrow> JNone | Some n \<Rightarrow> get_field row n)"

definition read_id :: "(string, json) dict \<Rightarrow> entity_dialect \<Rightarrow> (py_error, int option) result" where
  "read_id row d = as_int_crm (get_field row (ed_id d))"

definition read_semantic :: "(string, json) dict \<Rightarrow> entity_dialect \<Rightarrow> string" where
  "read_semantic row d = normalise_semantic (get_field row (ed_semantic d))"

definition read_assigned :: "(string, json) dict \<Rightarrow> entity_dialect \<Rightarrow> (py_error, int option) result" where
  "read_assigned row d = as_int_crm (get_field row (ed_assigned_by_id d))"

definition positive :: "int option \<Rightarrow> int option" where
  "positive n = (case n of Some i \<Rightarrow> if 0 < i then Some i else None | None \<Rightarrow> None)"

definition read_lead_id :: "(string, json) dict \<Rightarrow> entity_dialect \<Rightarrow> (py_error, int option) result" where
  "read_lead_id row d =
     rbind (as_int_crm (opt_field row (ed_lead_id d))) (\<lambda>n. Inr (positive n))"

text \<open>
  An amount as an exact number. Its text is converted inside the \<open>try\<close>, so the limit of
  4300 digits makes it absent too.
\<close>

definition finite_decimal :: "string \<Rightarrow> rat option" where
  "finite_decimal text =
     (case decimal_literal text of Some (DFin c e) \<Rightarrow> Some (scaled c e) | _ \<Rightarrow> None)"

definition printable_int :: "int \<Rightarrow> bool" where
  "printable_int i \<longleftrightarrow> length (show_nat (nat \<bar>i\<bar>)) \<le> 4300"

definition utm_decimal :: "json \<Rightarrow> rat option" where
  "utm_decimal v =
     (case v of
        JInt i \<Rightarrow> if printable_int i then Some (of_int i) else None
      | JFloat (Fin q) \<Rightarrow> Some q
      | JStr s \<Rightarrow> if strip s = [] then None else finite_decimal (strip s)
      | _ \<Rightarrow> None)"

record money =
  mo_account :: "rat option"
  mo_account_currency :: string
  mo_native :: "rat option"
  mo_native_currency :: string

definition read_money :: "(string, json) dict \<Rightarrow> entity_dialect \<Rightarrow> money" where
  "read_money row d =
     \<lparr>mo_account = utm_decimal (opt_field row (ed_account_opportunity d)),
      mo_account_currency = crm_text (opt_field row (ed_account_currency_id d)),
      mo_native = utm_decimal (opt_field row (ed_opportunity d)),
      mo_native_currency = crm_text (opt_field row (ed_currency_id d))\<rparr>"

text \<open>\<open>text[:n]\<close>; a negative bound counts from the end.\<close>

definition slice_to :: "int \<Rightarrow> 'a list \<Rightarrow> 'a list" where
  "slice_to n xs = (if 0 \<le> n then take (nat n) xs else take (nat (int (length xs) + n)) xs)"

definition utm_values ::
  "(string, json) dict \<Rightarrow> entity_dialect \<Rightarrow> int \<Rightarrow> (py_error, string list) result" where
  "utm_values row d max_chars =
     rmap (\<lambda>name. rbind (lookup_key (ed_utm d) name) (\<lambda>wire.
             (let text = crm_text (get_field row wire)
              in Inr (if max_chars < int (length text) then slice_to max_chars text else text))))
          dimensions"

section \<open>Lemmas\<close>

lemma utm_dialects_known:
  assumes "d \<in> set utm_dialects"
  shows "ed_utm d = item_utm \<or> ed_utm d = legacy_utm" and "ed_kind d \<in> {kind_lead, kind_deal}"
  using assms by (auto simp: utm_dialects_def utm_dialect_defs)

lemma utm_names_known:
  assumes "d \<in> set utm_dialects"
  shows "\<exists>names. utm_names d = Inr names \<and> length names = 5"
  using utm_dialects_known(1) [OF assms]
  by (auto simp: utm_names_def dimensions_def lookup_key_def item_utm_def legacy_utm_def)

lemma utm_values_total:
  assumes "d \<in> set utm_dialects"
  shows "\<exists>tags. utm_values row d n = Inr tags"
  using utm_dialects_known(1) [OF assms]
  by (auto simp: utm_values_def dimensions_def lookup_key_def item_utm_def legacy_utm_def Let_def)

lemma utm_values_shape:
  assumes "utm_values row d n = Inr tags" and "0 \<le> n"
  shows "length tags = 5 \<and> (\<forall>tag \<in> set tags. int (length tag) \<le> n)"
proof (intro conjI ballI)
  note rows = assms(1) [unfolded utm_values_def]
  show "length tags = 5"
    using rmap_length [OF rows] by (simp add: dimensions_def)
  show "int (length tag) \<le> n" if "tag \<in> set tags" for tag
    using rmap_mem [OF rows that] assms(2)
    by (auto simp: rbind_Inr_iff Let_def slice_to_def split: if_splits)
qed

lemma utm_page_key_inj:
  assumes "utm_page_key kind1 start1 = Inr k" and "utm_page_key kind2 start2 = Inr k"
  shows "kind1 = kind2 \<and> start1 = start2"
  using assms
  by (auto simp: utm_page_key_def check_kind_def kind_lead_def kind_deal_def rbind_Inr_iff
      split: if_splits)

end
