(* ===== verification/Crm_Items.thy ===== *)
theory Crm_Items
  imports Utm Time_Block
begin

text \<open>
  \<open>bitrix/crm_items.py\<close>: the CRM mirror's dialects, the commands it sends and the parsers
  of the answers. Instants are seconds; an amount is an exact number of cents.
\<close>

section \<open>Dialects\<close>

definition crm_item_get :: string where "crm_item_get = ''crm.item.get''"
definition mirror_page_size :: nat where "mirror_page_size = 50"
definition max_ids_per_command :: nat where "max_ids_per_command = 50"
definition entity_lead :: int where "entity_lead = 1"
definition entity_deal :: int where "entity_deal = 2"

record mirror_dialect =
  md_name :: string
  md_entity_type_id :: int
  md_method :: string
  md_universal :: bool
  md_wire :: "(string, string) dict"
  md_contact_fallback :: "string option"
  md_utm :: entity_dialect

definition wire_at :: "mirror_dialect \<Rightarrow> string \<Rightarrow> (py_error, string) result" where
  "wire_at d column = lookup_key (md_wire d) column"

definition id_field :: "mirror_dialect \<Rightarrow> (py_error, string) result" where
  "id_field d = wire_at d ''id''"

text \<open>\<open>list(dict.fromkeys(xs))\<close>: each element once, at its first place.\<close>

definition from_keys :: "'a list \<Rightarrow> 'a list" where
  "from_keys xs = rev (remdups (rev xs))"

definition mirror_select :: "mirror_dialect \<Rightarrow> string list" where
  "mirror_select d =
     from_keys (map snd (md_wire d) @ (case md_contact_fallback d of Some f \<Rightarrow> [f] | None \<Rightarrow> []))"

definition filter_op :: "mirror_dialect \<Rightarrow> string \<Rightarrow> string \<Rightarrow> (py_error, string) result" where
  "filter_op d operator column = rbind (wire_at d column) (\<lambda>w. Inr (operator @ w))"

definition base_params :: "mirror_dialect \<Rightarrow> (string, json) dict" where
  "base_params d = (if md_universal d then [(''entityTypeId'', JInt (md_entity_type_id d))] else [])"

definition item_common :: "(string, string) dict" where
  "item_common =
     [(''id'', ''id''), (''stage_id'', ''stageId''), (''stage_semantic'', ''stageSemanticId''),
      (''assigned_by_id'', ''assignedById''), (''created_time'', ''createdTime''),
      (''updated_time'', ''updatedTime''), (''moved_time'', ''movedTime''),
      (''contact_ids'', ''contactIds''), (''company_id'', ''companyId'')]"

definition legacy_common :: "(string, string) dict" where
  "legacy_common =
     [(''id'', ''ID''), (''assigned_by_id'', ''ASSIGNED_BY_ID''), (''created_time'', ''DATE_CREATE''),
      (''updated_time'', ''DATE_MODIFY''), (''moved_time'', ''MOVED_TIME''),
      (''company_id'', ''COMPANY_ID'')]"

definition deal_item :: mirror_dialect where
  "deal_item =
     \<lparr>md_name = ''item-deal'', md_entity_type_id = entity_deal, md_method = crm_item_list,
      md_universal = True,
      md_wire = item_common @
        [(''category_id'', ''categoryId''), (''closed'', ''closed''),
         (''opportunity'', ''opportunity''), (''currency_id'', ''currencyId''),
         (''lead_id'', ''leadId'')] @ item_utm,
      md_contact_fallback = None, md_utm = utm_deal_item\<rparr>"

definition lead_item :: mirror_dialect where
  "lead_item =
     \<lparr>md_name = ''item-lead'', md_entity_type_id = entity_lead, md_method = crm_item_list,
      md_universal = True, md_wire = item_common @ item_utm,
      md_contact_fallback = Some ''contactId'', md_utm = utm_lead_item\<rparr>"

definition deal_legacy :: mirror_dialect where
  "deal_legacy =
     \<lparr>md_name = ''deal'', md_entity_type_id = entity_deal, md_method = crm_deal_list,
      md_universal = False,
      md_wire = legacy_common @
        [(''category_id'', ''CATEGORY_ID''), (''stage_id'', ''STAGE_ID''),
         (''stage_semantic'', ''STAGE_SEMANTIC_ID''), (''closed'', ''CLOSED''),
         (''opportunity'', ''OPPORTUNITY''), (''currency_id'', ''CURRENCY_ID''),
         (''lead_id'', ''LEAD_ID'')] @ legacy_utm,
      md_contact_fallback = Some ''CONTACT_ID'', md_utm = utm_deal_legacy\<rparr>"

definition lead_legacy :: mirror_dialect where
  "lead_legacy =
     \<lparr>md_name = ''lead'', md_entity_type_id = entity_lead, md_method = crm_lead_list,
      md_universal = False,
      md_wire = legacy_common @
        [(''stage_id'', ''STATUS_ID''), (''stage_semantic'', ''STATUS_SEMANTIC_ID'')] @ legacy_utm,
      md_contact_fallback = Some ''CONTACT_ID'', md_utm = utm_lead_legacy\<rparr>"

definition mirror_dialects :: "mirror_dialect list" where
  "mirror_dialects = [deal_item, lead_item, deal_legacy, lead_legacy]"

lemmas mirror_dialect_defs = deal_item_def lead_item_def deal_legacy_def lead_legacy_def
  item_common_def legacy_common_def item_utm_def legacy_utm_def

text \<open>
  The pattern of the fields no select may name. Its \<open>$\<close> also matches before one final
  newline and its dot matches no newline.
\<close>

definition forbidden_words :: "string list" where
  "forbidden_words =
     [''*'', ''title'', ''name'', ''lastname'', ''last_name'', ''secondname'', ''second_name'',
      ''comment'', ''comments'', ''fm'', ''phone'', ''email'', ''web'', ''im'',
      ''sourcedescription'', ''source_description'', ''statusdescription'',
      ''status_description'', ''observer'', ''observers'']"

definition forbidden_field :: "string \<Rightarrow> bool" where
  "forbidden_field name =
     (let core = lower (if name \<noteq> [] \<and> code (last name) = 10 then butlast name else name)
      in core \<in> set forbidden_words \<or>
         ((starts_with ''uf_'' core \<or> starts_with ''address'' core) \<and> list_all (\<lambda>c. code c \<noteq> 10) core))"

definition check_minimal :: "mirror_dialect \<Rightarrow> (py_error, unit) result" where
  "check_minimal d = (if filter forbidden_field (mirror_select d) \<noteq> [] then Inl ValueError else Inr ())"

definition check_census :: "mirror_dialect \<Rightarrow> (py_error, unit) result" where
  "check_census d =
     (if map_of (md_wire d) ''id'' = None \<or> map_of (md_wire d) ''assigned_by_id'' = None
      then Inl ValueError
      else if (md_entity_type_id d = entity_deal) \<noteq> (map_of (md_wire d) ''category_id'' \<noteq> None)
      then Inl ValueError else Inr ())"

section \<open>Commands\<close>

definition list_command ::
  "mirror_dialect \<Rightarrow> string \<Rightarrow> string list \<Rightarrow> (string, json) dict \<Rightarrow> bool \<Rightarrow> bool \<Rightarrow>
   (py_error, command) result" where
  "list_command d key names filters descending count =
     rbind (id_field d) (\<lambda>idf.
       Inr (key, md_method d,
            base_params d @
            [(''select'', JList (map JStr names)),
             (''order'', JDict [(idf, JStr (if descending then ''DESC'' else ''ASC''))]),
             (''filter'', JDict filters),
             (''start'', JInt (if count then 0 else -1))]))"

definition keyset_command ::
  "mirror_dialect \<Rightarrow> string \<Rightarrow> int \<Rightarrow> int option \<Rightarrow> string option \<Rightarrow> bool \<Rightarrow>
   (py_error, command) result" where
  "keyset_command d key after_id below_id updated_since ids_only =
     rbind (filter_op d ''>'' ''id'') (\<lambda>above.
     rbind (case below_id of None \<Rightarrow> Inr []
            | Some b \<Rightarrow> if b \<le> after_id + 1 then Inl ValueError
                       else rbind (filter_op d ''<'' ''id'') (\<lambda>k. Inr [(k, JInt b)])) (\<lambda>below.
     rbind (case updated_since of None \<Rightarrow> Inr []
            | Some t \<Rightarrow> rbind (filter_op d ''>='' ''updated_time'') (\<lambda>k. Inr [(k, JStr t)])) (\<lambda>since.
     rbind (if ids_only then rbind (id_field d) (\<lambda>f. Inr [f]) else Inr (mirror_select d)) (\<lambda>names.
       list_command d key names ([(above, JInt after_id)] @ below @ since) False False))))"

definition high_id_command :: "mirror_dialect \<Rightarrow> string \<Rightarrow> (py_error, command) result" where
  "high_id_command d key = rbind (id_field d) (\<lambda>f. list_command d key [f] [] True False)"

text \<open>\<open>sorted({...})\<close> of a list of integers.\<close>

definition sorted_ids :: "int list \<Rightarrow> int list" where
  "sorted_ids ids = remdups (sort ids)"

definition ids_command :: "mirror_dialect \<Rightarrow> string \<Rightarrow> int list \<Rightarrow> (py_error, command) result" where
  "ids_command d key ids =
     (let values = sorted_ids ids
      in if values = [] \<or> max_ids_per_command < length values then Inl ValueError
         else rbind (filter_op d ''@'' ''id'') (\<lambda>k.
              list_command d key (mirror_select d) [(k, JList (map JInt values))] False False))"

definition range_count_command ::
  "mirror_dialect \<Rightarrow> string \<Rightarrow> int \<Rightarrow> int \<Rightarrow> (py_error, command) result" where
  "range_count_command d key lo hi =
     (if hi \<le> lo then Inl ValueError
      else rbind (filter_op d ''>='' ''id'') (\<lambda>from_key.
           rbind (filter_op d ''<'' ''id'') (\<lambda>to_key.
           rbind (id_field d) (\<lambda>f.
             list_command d key [f] [(from_key, JInt lo), (to_key, JInt hi)] False True))))"

definition get_command :: "int \<Rightarrow> string \<Rightarrow> int \<Rightarrow> command" where
  "get_command entity key item_id =
     (key, crm_item_get, [(''entityTypeId'', JInt entity), (''id'', JInt item_id)])"

definition census_key :: "mirror_dialect \<Rightarrow> int \<Rightarrow> int option \<Rightarrow> string" where
  "census_key d assigned category =
     (if md_entity_type_id d = entity_deal then ''d'' else ''l'') @ ''.'' @
     (case category of None \<Rightarrow> ''n'' | Some c \<Rightarrow> show_int c) @ ''.'' @ show_int assigned"

definition census_command ::
  "mirror_dialect \<Rightarrow> string \<Rightarrow> int \<Rightarrow> int option \<Rightarrow> (py_error, command) result" where
  "census_command d key assigned category =
     (if category \<noteq> None \<and> map_of (md_wire d) ''category_id'' = None then Inl ValueError
      else rbind (wire_at d ''assigned_by_id'') (\<lambda>who.
           rbind (id_field d) (\<lambda>f.
           case category of
             None \<Rightarrow> list_command d key [f, who] [(who, JInt assigned)] False False
           | Some c \<Rightarrow> rbind (wire_at d ''category_id'') (\<lambda>cat.
               list_command d key [f, who, cat] (dict_set cat (JInt c) [(who, JInt assigned)]) False False))))"

section \<open>Rows\<close>

record item_row =
  ir_entity_type_id :: int
  ir_id :: int
  ir_category_id :: "int option"
  ir_stage_id :: string
  ir_stage_semantic :: string
  ir_assigned_by_id :: "int option"
  ir_created_time :: "rat option"
  ir_updated_time :: "rat option"
  ir_moved_time :: "rat option"
  ir_closed :: "bool option"
  ir_opportunity :: "rat option"
  ir_currency_id :: string
  ir_lead_id :: "int option"
  ir_contact_ids :: "int list"
  ir_company_id :: "int option"
  ir_utm :: "string list"

text \<open>\<open>None\<close>: a shape that is not a page, which is not an empty page.\<close>

definition mirror_page_rows :: "mirror_dialect \<Rightarrow> json \<Rightarrow> json list option" where
  "mirror_page_rows d v =
     (if md_universal d
      then (case v of
              JDict obj \<Rightarrow> (case get_field obj ''items'' of JList xs \<Rightarrow> Some xs | _ \<Rightarrow> None)
            | _ \<Rightarrow> None)
      else (case v of JList xs \<Rightarrow> Some xs | JDict obj \<Rightarrow> Some (map snd obj) | _ \<Rightarrow> None))"

fun census_rows ::
  "string \<Rightarrow> string \<Rightarrow> int \<Rightarrow> int option \<Rightarrow> json list \<Rightarrow> (py_error, bool option) result" where
  "census_rows who cat assigned category [] = Inr (Some True)"
| "census_rows who cat assigned category (raw # rows) =
     (case raw of
        JDict row \<Rightarrow>
          rbind (as_int_crm (get_field row who)) (\<lambda>a.
            if a \<noteq> Some assigned then Inr (Some False)
            else case category of
                   None \<Rightarrow> census_rows who cat assigned category rows
                 | Some c \<Rightarrow>
                     rbind (as_int_crm (get_field row cat)) (\<lambda>x.
                       if x \<noteq> Some c then Inr (Some False)
                       else census_rows who cat assigned category rows))
      | _ \<Rightarrow> Inr None)"

text \<open>Only a dialect with funnels is asked about one, so \<open>cat\<close> is read where it exists.\<close>

definition census_proven ::
  "mirror_dialect \<Rightarrow> json \<Rightarrow> int \<Rightarrow> int option \<Rightarrow> (py_error, bool option) result" where
  "census_proven d v assigned category =
     (case mirror_page_rows d v of
        None \<Rightarrow> Inr None
      | Some [] \<Rightarrow> Inr (Some False)
      | Some rows \<Rightarrow>
          rbind (wire_at d ''assigned_by_id'') (\<lambda>who.
          rbind (case category of None \<Rightarrow> Inr [] | Some _ \<Rightarrow> wire_at d ''category_id'') (\<lambda>cat.
            census_rows who cat assigned category rows)))"

definition row_id :: "mirror_dialect \<Rightarrow> json \<Rightarrow> (py_error, int option) result" where
  "row_id d raw =
     (case raw of
        JDict row \<Rightarrow> rbind (id_field d) (\<lambda>f.
                      rbind (as_int_crm (get_field row f)) (\<lambda>n. Inr (positive n)))
      | _ \<Rightarrow> Inr None)"

definition parse_timestamp :: "(string \<Rightarrow> (rat \<times> rat option) option) \<Rightarrow> json \<Rightarrow> rat option" where
  "parse_timestamp isod v =
     (case v of
        JStr s \<Rightarrow>
          if strip s = [] then None
          else (case isod (strip s) of Some (local, Some offset) \<Rightarrow> Some (local - offset) | _ \<Rightarrow> None)
      | _ \<Rightarrow> None)"

definition parse_flag :: "json \<Rightarrow> bool option" where
  "parse_flag v =
     (case v of
        JBool b \<Rightarrow> Some b
      | JStr s \<Rightarrow> (let text = upper (strip s)
                  in if text = ''Y'' then Some True else if text = ''N'' then Some False else None)
      | _ \<Rightarrow> None)"

text \<open>
  Half-up to the cent in a context of 28 digits: an amount whose cents need more digits
  raises, outside the \<open>try\<close>. So does the text of an integer past the digit limit.
\<close>

definition round_half_up :: "rat \<Rightarrow> int" where
  "round_half_up q = (if 0 \<le> q then \<lfloor>q + 1 / 2\<rfloor> else - \<lfloor>1 / 2 - q\<rfloor>)"

definition quantize_cents :: "rat \<Rightarrow> (py_error, rat option) result" where
  "quantize_cents q =
     (let n = round_half_up (q * 100)
      in if 10 ^ 28 \<le> \<bar>n\<bar> then Inl InvalidOperation else Inr (Some (of_int n / 100)))"

definition parse_money :: "json \<Rightarrow> (py_error, rat option) result" where
  "parse_money v =
     (case v of
        JInt i \<Rightarrow> if printable_int i then quantize_cents (of_int i) else Inl ValueError
      | JFloat (Fin q) \<Rightarrow> quantize_cents q
      | JStr s \<Rightarrow> if strip s = [] then Inr None
                 else (case finite_decimal (strip s) of None \<Rightarrow> Inr None | Some q \<Rightarrow> quantize_cents q)
      | _ \<Rightarrow> Inr None)"

definition as_positive :: "json \<Rightarrow> (py_error, int option) result" where
  "as_positive v = rbind (as_int_crm v) (\<lambda>n. Inr (positive n))"

definition contact_ids :: "json \<Rightarrow> json \<Rightarrow> (py_error, int list) result" where
  "contact_ids listed single =
     rbind (case listed of JList xs \<Rightarrow> rbind (rmap as_positive xs) (\<lambda>ns. Inr (List.map_filter id ns))
            | _ \<Rightarrow> Inr []) (\<lambda>found.
       if found \<noteq> [] then Inr (from_keys found)
       else rbind (as_positive single) (\<lambda>n. Inr (case n of Some i \<Rightarrow> [i] | None \<Rightarrow> [])))"

definition mirror_field :: "mirror_dialect \<Rightarrow> (string, json) dict \<Rightarrow> string \<Rightarrow> json" where
  "mirror_field d raw column =
     (case map_of (md_wire d) column of None \<Rightarrow> JNone | Some wire \<Rightarrow> get_field raw wire)"

text \<open>A refused row is its reason.\<close>

definition parse_item ::
  "(string \<Rightarrow> (rat \<times> rat option) option) \<Rightarrow> mirror_dialect \<Rightarrow> int \<Rightarrow> json \<Rightarrow>
   (py_error, string + item_row) result" where
  "parse_item isod d utm_max_chars v =
     (case v of
        JDict raw \<Rightarrow>
          rbind (row_id d v) (\<lambda>rid.
            case rid of
              None \<Rightarrow> Inr (Inl ''missing or non-positive id'')
            | Some item_id \<Rightarrow>
                rbind (as_int_crm (mirror_field d raw ''category_id'')) (\<lambda>category.
                rbind (as_positive (mirror_field d raw ''assigned_by_id'')) (\<lambda>assigned.
                rbind (parse_money (mirror_field d raw ''opportunity'')) (\<lambda>amount.
                rbind (as_positive (mirror_field d raw ''lead_id'')) (\<lambda>lead.
                rbind (contact_ids (mirror_field d raw ''contact_ids'')
                         (case md_contact_fallback d of None \<Rightarrow> JNone | Some f \<Rightarrow> get_field raw f)) (\<lambda>contacts.
                rbind (as_positive (mirror_field d raw ''company_id'')) (\<lambda>company.
                rbind (utm_values raw (md_utm d) utm_max_chars) (\<lambda>tags.
                  Inr (Inr
                    \<lparr>ir_entity_type_id = md_entity_type_id d, ir_id = item_id,
                     ir_category_id = category,
                     ir_stage_id = crm_text (mirror_field d raw ''stage_id''),
                     ir_stage_semantic = normalise_semantic (mirror_field d raw ''stage_semantic''),
                     ir_assigned_by_id = assigned,
                     ir_created_time = parse_timestamp isod (mirror_field d raw ''created_time''),
                     ir_updated_time = parse_timestamp isod (mirror_field d raw ''updated_time''),
                     ir_moved_time = parse_timestamp isod (mirror_field d raw ''moved_time''),
                     ir_closed = parse_flag (mirror_field d raw ''closed''),
                     ir_opportunity = amount,
                     ir_currency_id = crm_text (mirror_field d raw ''currency_id''),
                     ir_lead_id = lead, ir_contact_ids = contacts, ir_company_id = company,
                     ir_utm = tags\<rparr>)))))))))
      | _ \<Rightarrow> Inr (Inl ''row is not an object''))"

section \<open>Lemmas\<close>

lemma set_from_keys [simp]: "set (from_keys xs) = set xs"
  by (simp add: from_keys_def)

lemma distinct_from_keys [simp]: "distinct (from_keys xs)"
  by (simp add: from_keys_def)

lemma set_sorted_ids [simp]: "set (sorted_ids ids) = set ids"
  by (simp add: sorted_ids_def)

lemma sorted_ids_strict: "sorted_wrt (<) (sorted_ids ids)"
  by (simp add: sorted_ids_def strict_sorted_iff sorted_remdups)

lemmas minimal_defs = check_minimal_def mirror_select_def from_keys_def forbidden_field_def
  forbidden_words_def lower_char_def code_def char_of_def Let_def

lemma minimal_deal_item: "check_minimal deal_item = Inr ()"
  by (simp add: mirror_dialect_defs minimal_defs)

lemma minimal_lead_item: "check_minimal lead_item = Inr ()"
  by (simp add: mirror_dialect_defs minimal_defs)

lemma minimal_deal_legacy: "check_minimal deal_legacy = Inr ()"
  by (simp add: mirror_dialect_defs minimal_defs)

lemma minimal_lead_legacy: "check_minimal lead_legacy = Inr ()"
  by (simp add: mirror_dialect_defs minimal_defs)

lemma dialects_checked:
  assumes "d \<in> set mirror_dialects"
  shows "check_minimal d = Inr ()" and "check_census d = Inr ()"
  using assms
  by (auto simp: mirror_dialects_def minimal_deal_item minimal_lead_item minimal_deal_legacy
      minimal_lead_legacy)
     (auto simp: check_census_def mirror_dialect_defs entity_deal_def entity_lead_def)

lemma dialect_utm: "d \<in> set mirror_dialects \<Longrightarrow> md_utm d \<in> set utm_dialects"
  by (auto simp: mirror_dialects_def utm_dialects_def mirror_dialect_defs)

lemma dialect_wires:
  assumes "d \<in> set mirror_dialects"
  obtains idf up who where "wire_at d ''id'' = Inr idf" and "wire_at d ''updated_time'' = Inr up"
    and "wire_at d ''assigned_by_id'' = Inr who" and "id_field d = Inr idf"
proof -
  have "\<exists>idf. wire_at d ''id'' = Inr idf" and "\<exists>up. wire_at d ''updated_time'' = Inr up"
    and "\<exists>who. wire_at d ''assigned_by_id'' = Inr who"
    using assms
    by (auto simp: mirror_dialects_def mirror_dialect_defs wire_at_def lookup_key_def)
  then show ?thesis
    using that by (auto simp: id_field_def)
qed

lemma keyset_command_total:
  assumes "d \<in> set mirror_dialects" and "\<And>b. bnd = Some b \<Longrightarrow> start + 1 < b"
  shows "\<exists>params. keyset_command d key start bnd since ids_only = Inr (key, md_method d, params)"
proof (rule dialect_wires [OF assms(1)])
  fix idf up
  assume "wire_at d ''id'' = Inr idf" and "wire_at d ''updated_time'' = Inr up"
    and "id_field d = Inr idf"
  with assms(2) show ?thesis
    by (cases bnd; cases since) (force simp: keyset_command_def filter_op_def list_command_def)+
qed

lemma keyset_command_key:
  "keyset_command d key start bnd since ids_only = Inr c \<Longrightarrow> fst c = key"
  by (auto simp: keyset_command_def list_command_def rbind_Inr_iff)

text \<open>What \<open>positive\<close> and \<open>row_id\<close> answer.\<close>

lemma positive_Some [simp]: "positive n = Some i \<longleftrightarrow> n = Some i \<and> 0 < i"
  by (auto simp: positive_def split: option.splits)

lemma row_id_positive: "row_id d raw = Inr (Some i) \<Longrightarrow> 0 < i"
  by (auto simp: row_id_def rbind_Inr_iff split: json.splits)

lemma contact_ids_positive:
  assumes "contact_ids listed single = Inr ids"
  shows "distinct ids \<and> (\<forall>i \<in> set ids. 0 < i)"
proof -
  have "0 < i" if "rmap as_positive xs = Inr ns" and "Some i \<in> set ns" for xs ns i
    using rmap_mem [OF that] by (auto simp: as_positive_def rbind_Inr_iff)
  with assms show ?thesis
    by (auto simp: contact_ids_def rbind_Inr_iff as_positive_def map_filter_def
        split: if_splits option.splits json.splits)
qed

text \<open>A row whose numbers the interpreter can convert.\<close>

definition readable_amount :: "json \<Rightarrow> bool" where
  "readable_amount v = (case parse_money v of Inl _ \<Rightarrow> False | Inr _ \<Rightarrow> True)"

definition readable_ids :: "json \<Rightarrow> bool" where
  "readable_ids v \<longleftrightarrow> readable_int v \<and> (case v of JList xs \<Rightarrow> list_all readable_int xs | _ \<Rightarrow> True)"

definition readable_row :: "mirror_dialect \<Rightarrow> json \<Rightarrow> bool" where
  "readable_row d v \<longleftrightarrow>
     (case v of
        JDict raw \<Rightarrow> list_all (\<lambda>(name, x). readable_ids x) raw \<and>
                     readable_amount (mirror_field d raw ''opportunity'')
      | _ \<Rightarrow> True)"

lemma readable_get:
  assumes "list_all (\<lambda>(name, x). readable_ids x) raw"
  shows "readable_ids (get_field raw name)"
proof (cases "map_of raw name")
  case None
  then show ?thesis by (simp add: get_field_def readable_ids_def readable_int_def)
next
  case (Some x)
  then show ?thesis
    using assms map_of_SomeD [OF Some] by (auto simp: get_field_def list_all_iff)
qed

lemma readable_mirror_field:
  assumes "list_all (\<lambda>(name, x). readable_ids x) raw"
  shows "readable_ids (mirror_field d raw column)"
  using readable_get [OF assms]
  by (auto simp: mirror_field_def readable_ids_def readable_int_def split: option.split)

lemma as_positive_total: "readable_int v \<Longrightarrow> \<exists>n. as_positive v = Inr n"
  using as_int_crm_total [of v] by (auto simp: as_positive_def)

lemma contact_ids_total:
  assumes "readable_ids listed" and "readable_ids single"
  shows "\<exists>ids. contact_ids listed single = Inr ids"
proof -
  have listed: "\<exists>ns. rmap as_positive xs = Inr ns" if "listed = JList xs" for xs
    using assms(1) that by (intro rmap_total as_positive_total) (auto simp: readable_ids_def list_all_iff)
  obtain n where single: "as_positive single = Inr n"
    using assms(2) as_positive_total [of single] by (auto simp: readable_ids_def)
  show ?thesis
  proof (cases listed)
    case (JList xs)
    with listed obtain ns where "rmap as_positive xs = Inr ns" by blast
    then show ?thesis by (simp add: contact_ids_def JList single)
  qed (simp_all add: contact_ids_def single)
qed

lemma row_id_total:
  assumes "d \<in> set mirror_dialects" and "readable_row d v"
  shows "\<exists>n. row_id d v = Inr n"
proof (cases v)
  case (JDict raw)
  obtain f where "id_field d = Inr f"
    using dialect_wires [OF assms(1)] by metis
  moreover have "\<exists>n. as_int_crm (get_field raw f) = Inr n"
    by (intro as_int_crm_total readable_get [unfolded readable_ids_def [of "get_field _ _"], THEN conjunct1])
       (use assms(2) in \<open>simp add: JDict readable_row_def\<close>)
  ultimately show ?thesis
    by (auto simp: row_id_def JDict)
qed (simp_all add: row_id_def)

lemma parse_item_accepts:
  assumes "d \<in> set mirror_dialects" and "readable_row d v"
  shows "\<exists>item. parse_item isod d n v = Inr item"
    and "row_id d v = Inr (Some i) \<Longrightarrow>
      \<exists>row. parse_item isod d n v = Inr (Inr row) \<and> ir_id row = i \<and>
            ir_entity_type_id row = md_entity_type_id d"
proof -
  have *: "\<exists>item. parse_item isod d n v = Inr item \<and>
      (\<forall>i. row_id d v = Inr (Some i) \<longrightarrow>
        (\<exists>row. item = Inr row \<and> ir_id row = i \<and> ir_entity_type_id row = md_entity_type_id d))"
  proof (cases v)
    case (JDict raw)
    have raw: "list_all (\<lambda>(name, x). readable_ids x) raw"
      and money: "readable_amount (mirror_field d raw ''opportunity'')"
      using assms(2) by (simp_all add: JDict readable_row_def)
    note ids = readable_mirror_field [OF raw, of d, unfolded readable_ids_def, THEN conjunct1]
    obtain rid where rid: "row_id d v = Inr rid"
      using row_id_total [OF assms] by auto
    obtain category where "as_int_crm (mirror_field d raw ''category_id'') = Inr category"
      using as_int_crm_total [OF ids] by auto
    moreover obtain assigned where "as_positive (mirror_field d raw ''assigned_by_id'') = Inr assigned"
      using as_positive_total [OF ids] by auto
    moreover obtain amount where "parse_money (mirror_field d raw ''opportunity'') = Inr amount"
      using money by (auto simp: readable_amount_def split: sum.splits)
    moreover obtain lead where "as_positive (mirror_field d raw ''lead_id'') = Inr lead"
      using as_positive_total [OF ids] by auto
    moreover obtain company where "as_positive (mirror_field d raw ''company_id'') = Inr company"
      using as_positive_total [OF ids] by auto
    moreover have "readable_ids (case md_contact_fallback d of None \<Rightarrow> JNone | Some f \<Rightarrow> get_field raw f)"
      using readable_get [OF raw]
      by (auto simp: readable_ids_def readable_int_def split: option.split)
    then obtain contacts where "contact_ids (mirror_field d raw ''contact_ids'')
        (case md_contact_fallback d of None \<Rightarrow> JNone | Some f \<Rightarrow> get_field raw f) = Inr contacts"
      using contact_ids_total [OF readable_mirror_field [OF raw]] by metis
    moreover obtain tags where "utm_values raw (md_utm d) n = Inr tags"
      using utm_values_total [OF dialect_utm [OF assms(1)]] by metis
    ultimately show ?thesis
      using rid by (cases rid) (simp_all add: parse_item_def JDict)
  qed (simp_all add: parse_item_def row_id_def)
  then show "\<exists>item. parse_item isod d n v = Inr item"
    by (elim exE conjE) (rule exI)
  assume "row_id d v = Inr (Some i)"
  with * show "\<exists>row. parse_item isod d n v = Inr (Inr row) \<and> ir_id row = i \<and>
      ir_entity_type_id row = md_entity_type_id d" by blast
qed

lemma parse_item_row:
  assumes "parse_item isod d n v = Inr (Inr row)"
  shows "row_id d v = Inr (Some (ir_id row))" and "0 < ir_id row"
    and "ir_entity_type_id row = md_entity_type_id d"
proof -
  obtain raw where v: "v = JDict raw"
    using assms by (cases v) (simp_all add: parse_item_def)
  obtain i where rid: "row_id d v = Inr (Some i)"
    using assms by (auto simp: v parse_item_def rbind_Inr_iff split: option.splits)
  have "ir_id row = i \<and> ir_entity_type_id row = md_entity_type_id d"
    using assms rid by (auto simp: v parse_item_def rbind_Inr_iff)
  with rid row_id_positive [OF rid]
  show "row_id d v = Inr (Some (ir_id row))" and "0 < ir_id row"
    and "ir_entity_type_id row = md_entity_type_id d"
    by simp_all
qed

lemma parse_item_refused:
  assumes "parse_item isod d n v = Inr (Inl reason)"
  shows "row_id d v = Inr None"
proof (cases v)
  case (JDict raw)
  with assms show ?thesis
    by (cases "row_id d v") (auto simp: parse_item_def rbind_Inr_iff split: option.splits)
qed (simp_all add: row_id_def)

text \<open>The typed parts of an accepted row.\<close>

lemma item_row_shape:
  assumes "parse_item isod d n v = Inr (Inr row)" and "0 \<le> n"
  shows "distinct (ir_contact_ids row) \<and> (\<forall>c \<in> set (ir_contact_ids row). 0 < c) \<and>
    ir_stage_semantic row \<in> {''S'', ''F'', ''P''} \<and>
    length (ir_utm row) = 5 \<and> (\<forall>tag \<in> set (ir_utm row). int (length tag) \<le> n)"
proof -
  obtain raw where v: "v = JDict raw"
    using assms(1) by (cases v) (simp_all add: parse_item_def)
  obtain i where "row_id d v = Inr (Some i)"
    using parse_item_row(1) [OF assms(1)] by blast
  with assms(1) obtain listed single where contacts: "contact_ids listed single = Inr (ir_contact_ids row)"
    and sem: "ir_stage_semantic row = normalise_semantic (mirror_field d raw ''stage_semantic'')"
    and tags: "utm_values raw (md_utm d) n = Inr (ir_utm row)"
    by (auto simp: v parse_item_def rbind_Inr_iff)
  show ?thesis
    using contact_ids_positive [OF contacts] normalise_semantic_values utm_values_shape [OF tags assms(2)]
    by (simp add: sem)
qed

end
