(* ===== verification/Crm_Ranges.thy ===== *)
theory Crm_Ranges
  imports Crm_Items
begin

text \<open>
  \<open>sync/crm_ranges.py\<close>: newest-first id ranges walked by keyset, and what one answered
  batch of range pages means for them.
\<close>

section \<open>Streams\<close>

record range_stream =
  rs_lo :: int
  rs_hi :: int
  rs_cursor :: int
  rs_done :: bool

text \<open>The constructor, which \<open>replace\<close> runs too.\<close>

definition range_stream :: "int \<Rightarrow> int \<Rightarrow> int \<Rightarrow> bool \<Rightarrow> (py_error, range_stream) result" where
  "range_stream lo hi cursor done =
     (if hi \<le> lo \<or> \<not> (lo - 1 \<le> cursor \<and> cursor < hi) then Inl ValueError
      else Inr \<lparr>rs_lo = lo, rs_hi = hi, rs_cursor = cursor, rs_done = done\<rparr>)"

function plan_from :: "int \<Rightarrow> int \<Rightarrow> int \<Rightarrow> (py_error, range_stream list) result" where
  "plan_from width lwr hi =
     (if lwr < hi \<and> 0 < width
      then (let lo = max lwr (hi - width)
            in rbind (range_stream lo hi (lo - 1) False) (\<lambda>s.
               rbind (plan_from width lwr lo) (\<lambda>ss. Inr (s # ss))))
      else Inr [])"
  by pat_completeness auto

termination
  by (relation "measure (\<lambda>(width, lwr, hi). nat (hi - lwr))") auto

declare plan_from.simps [simp del]

definition plan_ranges :: "int \<Rightarrow> int \<Rightarrow> int \<Rightarrow> (py_error, range_stream list) result" where
  "plan_ranges high_id width lwr =
     (if width \<le> 0 then Inl ValueError else plan_from width lwr (high_id + 1))"

fun floor_from :: "int option \<Rightarrow> range_stream list \<Rightarrow> int option" where
  "floor_from found [] = found"
| "floor_from found (s # ss) = (if rs_done s then floor_from (Some (rs_lo s)) ss else found)"

definition coverage_floor :: "range_stream list \<Rightarrow> int option" where
  "coverage_floor streams = floor_from None streams"

section \<open>One batch\<close>

definition range_key :: "nat \<Rightarrow> string" where
  "range_key index = ''r'' @ show_nat index"

type_synonym sent = "(nat \<times> command) list"

text \<open>\<open>room\<close> commands are still wanted, at least one.\<close>

fun commands_from ::
  "mirror_dialect \<Rightarrow> bool \<Rightarrow> nat \<Rightarrow> nat \<Rightarrow> range_stream list \<Rightarrow> (py_error, sent) result" where
  "commands_from d ids_only index room [] = Inr []"
| "commands_from d ids_only index room (s # ss) =
     (if rs_done s then commands_from d ids_only (Suc index) room ss
      else rbind (keyset_command d (range_key index) (rs_cursor s) (Some (rs_hi s)) None ids_only) (\<lambda>c.
           if room \<le> 1 then Inr [(index, c)]
           else rbind (commands_from d ids_only (Suc index) (room - 1) ss) (\<lambda>cs. Inr ((index, c) # cs))))"

definition range_commands ::
  "mirror_dialect \<Rightarrow> range_stream list \<Rightarrow> int \<Rightarrow> bool \<Rightarrow> (py_error, sent) result" where
  "range_commands d streams max_commands ids_only =
     (if \<not> (1 \<le> max_commands \<and> max_commands \<le> int max_batch_commands) then Inl ValueError
      else commands_from d ids_only 0 (nat max_commands) streams)"

record range_outcome =
  ro_streams :: "range_stream list"
  ro_rows :: "item_row list"
  ro_rejected :: "(int option \<times> string) list"
  ro_errors :: "(nat \<times> bitrix_error) list"
  ro_violation :: "string option"
  ro_time :: "block option"

definition range_clean :: "range_outcome \<Rightarrow> bool" where
  "range_clean out \<longleftrightarrow> ro_errors out = [] \<and> ro_violation out = None"

definition violation_text :: "range_stream \<Rightarrow> int \<Rightarrow> int \<Rightarrow> string" where
  "violation_text s previous v =
     ''range ['' @ show_int (rs_lo s) @ '', '' @ show_int (rs_hi s) @ '') after id '' @
     show_int (rs_cursor s) @ '' returned id '' @ show_int v @ '' following '' @ show_int previous"

fun violation_from :: "range_stream \<Rightarrow> int \<Rightarrow> int list \<Rightarrow> string option" where
  "violation_from s previous [] = None"
| "violation_from s previous (v # vs) =
     (if v \<le> previous \<or> v < rs_lo s \<or> rs_hi s \<le> v then Some (violation_text s previous v)
      else violation_from s v vs)"

definition range_violation :: "int list \<Rightarrow> range_stream \<Rightarrow> string option" where
  "range_violation ids s = violation_from s (rs_cursor s) ids"

text \<open>\<open>{command.key: command}\<close>: the last command of a key is the one found.\<close>

definition command_by_key :: "batch_result \<Rightarrow> string \<Rightarrow> command_result option" where
  "command_by_key b key = map_of (rev (map (\<lambda>c. (cmd_key c, c)) (commands b))) key"

fun type_name :: "json \<Rightarrow> string" where
  "type_name JNone = ''NoneType''"
| "type_name (JBool _) = ''bool''"
| "type_name (JInt _) = ''int''"
| "type_name (JFloat _) = ''float''"
| "type_name (JStr _) = ''str''"
| "type_name (JList _) = ''list''"
| "type_name (JDict _) = ''dict''"

text \<open>The page of a command, or why there is none.\<close>

definition range_page :: "mirror_dialect \<Rightarrow> batch_result \<Rightarrow> string \<Rightarrow> bitrix_error + json list" where
  "range_page d b key =
     (case command_by_key b key of
        None \<Rightarrow> Inl (classify None None (''batch answered no '' @ key) [])
      | Some c \<Rightarrow>
          (case cmd_error c of
             Some e \<Rightarrow> Inl e
           | None \<Rightarrow>
               (case mirror_page_rows d (cmd_result c) of
                  None \<Rightarrow> Inl (classify None None
                            (key @ '': unexpected result shape '' @ type_name (cmd_result c)) [])
                | Some page \<Rightarrow> Inr page)))"

type_synonym rejected = "(int option \<times> string) list"

fun read_mirror_page ::
  "(string \<Rightarrow> (rat \<times> rat option) option) \<Rightarrow> mirror_dialect \<Rightarrow> int \<Rightarrow> json list \<Rightarrow>
   (py_error, item_row list \<times> rejected) result" where
  "read_mirror_page isod d utm_max [] = Inr ([], [])"
| "read_mirror_page isod d utm_max (raw # rest) =
     rbind (parse_item isod d utm_max raw) (\<lambda>parsed.
       case parsed of
         Inl reason \<Rightarrow> rbind (row_id d raw) (\<lambda>i.
                        rbind (read_mirror_page isod d utm_max rest) (\<lambda>(rows, bad).
                        Inr (rows, (i, reason) # bad)))
       | Inr row \<Rightarrow> rbind (read_mirror_page isod d utm_max rest) (\<lambda>(rows, bad). Inr (row # rows, bad)))"

definition page_ids :: "mirror_dialect \<Rightarrow> json list \<Rightarrow> (py_error, int list) result" where
  "page_ids d page = rbind (rmap (row_id d) page) (\<lambda>ns. Inr (List.map_filter id ns))"

record range_acc =
  ra_streams :: "range_stream list"
  ra_rows :: "item_row list"
  ra_rejected :: rejected
  ra_errors :: "(nat \<times> bitrix_error) list"
  ra_violation :: "string option"

definition range_item ::
  "(string \<Rightarrow> (rat \<times> rat option) option) \<Rightarrow> mirror_dialect \<Rightarrow> int \<Rightarrow> range_stream list \<Rightarrow>
   batch_result \<Rightarrow> nat \<times> command \<Rightarrow> range_acc \<Rightarrow> (py_error, range_acc) result" where
  "range_item isod d utm_max streams b = (\<lambda>(index, key, _, _) acc.
     if length streams \<le> index then Inl IndexError
     else
       (let s = streams ! index
        in case range_page d b key of
             Inl e \<Rightarrow> Inr (acc\<lparr>ra_errors := ra_errors acc @ [(index, e)]\<rparr>)
           | Inr page \<Rightarrow>
               rbind (page_ids d page) (\<lambda>ids.
               rbind (read_mirror_page isod d utm_max page) (\<lambda>(rows, bad).
                 let acc' = acc\<lparr>ra_rows := ra_rows acc @ rows, ra_rejected := ra_rejected acc @ bad\<rparr>
                 in case range_violation ids s of
                      Some v \<Rightarrow>
                        Inr (acc'\<lparr>ra_violation :=
                               (case ra_violation acc of None \<Rightarrow> Some v | Some w \<Rightarrow> Some w)\<rparr>)
                    | None \<Rightarrow>
                        (let cursor = (if ids = [] then rs_cursor s else last ids);
                             done = (length page < mirror_page_size \<or> rs_hi s - 1 \<le> cursor)
                         in rbind (range_stream (rs_lo s) (rs_hi s) cursor done) (\<lambda>s'.
                            Inr (acc'\<lparr>ra_streams := (ra_streams acc)[index := s']\<rparr>)))))))"

definition apply_range_batch ::
  "(string \<Rightarrow> (rat \<times> rat option) option) \<Rightarrow> mirror_dialect \<Rightarrow> int \<Rightarrow> range_stream list \<Rightarrow>
   sent \<Rightarrow> batch_result \<Rightarrow> (py_error, range_outcome) result" where
  "apply_range_batch isod d utm_max streams sent b =
     rbind (rfold (range_item isod d utm_max streams b) sent
              \<lparr>ra_streams = streams, ra_rows = [], ra_rejected = [], ra_errors = [], ra_violation = None\<rparr>)
       (\<lambda>acc.
     rbind (merge_time_blocks isod (batch_time b # map cmd_time (commands b))) (\<lambda>time_block.
       Inr \<lparr>ro_streams = (if ra_violation acc \<noteq> None then streams else ra_streams acc),
            ro_rows = ra_rows acc, ro_rejected = ra_rejected acc, ro_errors = ra_errors acc,
            ro_violation = ra_violation acc, ro_time = time_block\<rparr>))"

section \<open>Plans\<close>

text \<open>Streams that follow one another downwards without a gap, from \<open>upr\<close> to \<open>lwr\<close>.\<close>

fun chain :: "int \<Rightarrow> range_stream list \<Rightarrow> int \<Rightarrow> bool" where
  "chain upr [] lwr \<longleftrightarrow> upr = lwr"
| "chain upr (s # ss) lwr \<longleftrightarrow> rs_hi s = upr \<and> rs_lo s < upr \<and> chain (rs_lo s) ss lwr"

lemma chain_append: "chain upr (ss @ ts) lwr \<longleftrightarrow> (\<exists>m. chain upr ss m \<and> chain m ts lwr)"
  by (induction ss arbitrary: upr) auto

lemma chain_below: "chain upr ss lwr \<Longrightarrow> lwr \<le> upr"
  by (induction ss arbitrary: upr) force+

lemma chain_bounds:
  "chain upr ss lwr \<Longrightarrow> s \<in> set ss \<Longrightarrow> lwr \<le> rs_lo s \<and> rs_lo s < rs_hi s \<and> rs_hi s \<le> upr"
  by (induction ss arbitrary: upr) (auto dest: chain_below, force+)

text \<open>Every id between the two ends lies in exactly one stream.\<close>

lemma chain_covers:
  "chain upr ss lwr \<Longrightarrow> lwr \<le> i \<Longrightarrow> i < upr \<Longrightarrow> \<exists>!k. k < length ss \<and> rs_lo (ss ! k) \<le> i \<and> i < rs_hi (ss ! k)"
proof (induction ss arbitrary: upr)
  case Nil
  then show ?case by simp
next
  case (Cons s ss)
  show ?case
  proof (cases "rs_lo s \<le> i")
    case True
    have no: "\<not> i < rs_hi (ss ! k)" if "k < length ss" for k
      using chain_bounds [of "rs_lo s" ss lwr "ss ! k"] Cons.prems True that by simp
    show ?thesis
    proof (rule ex1I [of _ 0])
      fix j assume j: "j < length (s # ss) \<and> rs_lo ((s # ss) ! j) \<le> i \<and> i < rs_hi ((s # ss) ! j)"
      show "j = 0"
      proof (cases j)
        case (Suc k)
        with j no [of k] show ?thesis by simp
      qed
    qed (use True Cons.prems in simp)
  next
    case False
    let ?in = "\<lambda>ts k. k < length ts \<and> rs_lo (ts ! k) \<le> i \<and> i < rs_hi (ts ! k)"
    have "\<exists>!k. ?in ss k"
      using Cons.IH [of "rs_lo s"] False Cons.prems by simp
    then obtain k where k: "?in ss k" and only: "\<forall>j. ?in ss j \<longrightarrow> j = k"
      by blast
    show ?thesis
    proof (rule ex1I [of _ "Suc k"])
      fix j assume j: "?in (s # ss) j"
      show "j = Suc k"
      proof (cases j)
        case 0
        with j False show ?thesis by simp
      next
        case (Suc m)
        with j only show ?thesis by simp
      qed
    qed (use k in simp)
  qed
qed

definition stream_ok :: "range_stream \<Rightarrow> bool" where
  "stream_ok s \<longleftrightarrow> rs_lo s < rs_hi s \<and> rs_lo s - 1 \<le> rs_cursor s \<and> rs_cursor s < rs_hi s \<and>
     (\<not> rs_done s \<longrightarrow> rs_cursor s < rs_hi s - 1)"

lemma plan_from_chain:
  assumes "plan_from width lwr hi = Inr ss" and "0 < width" and "lwr \<le> hi"
  shows "chain hi ss lwr \<and> (\<forall>s \<in> set ss. stream_ok s \<and> rs_cursor s = rs_lo s - 1 \<and>
           \<not> rs_done s \<and> rs_hi s - rs_lo s \<le> width)"
  using assms
proof (induction width lwr hi arbitrary: ss rule: plan_from.induct)
  case (1 width lwr hi)
  show ?case
  proof (cases "lwr < hi")
    case False
    with 1 show ?thesis by (simp add: plan_from.simps)
  next
    case True
    define lo where "lo = max lwr (hi - width)"
    have lo: "lwr \<le> lo" "lo < hi" "hi - lo \<le> width"
      using True "1.prems" by (auto simp: lo_def)
    obtain s ts where s: "range_stream lo hi (lo - 1) False = Inr s"
      and ts: "plan_from width lwr lo = Inr ts" and ss: "ss = s # ts"
      using "1.prems"(1) True "1.prems"(2)
      by (subst (asm) plan_from.simps) (auto simp: Let_def lo_def rbind_Inr_iff)
    have "chain lo ts lwr \<and> (\<forall>s \<in> set ts. stream_ok s \<and> rs_cursor s = rs_lo s - 1 \<and>
           \<not> rs_done s \<and> rs_hi s - rs_lo s \<le> width)"
      using "1.IH" [of lo] True "1.prems"(2) lo ts s by (auto simp: lo_def)
    with s lo show ?thesis
      by (auto simp: ss range_stream_def stream_ok_def split: if_splits)
  qed
qed

lemma plan_from_total: "\<exists>ss. plan_from width lwr hi = Inr ss"
proof (induction width lwr hi rule: plan_from.induct)
  case (1 width lwr hi)
  then show ?case
    by (subst plan_from.simps) (auto simp: Let_def range_stream_def rbind_Inr_iff)
qed

text \<open>\<open>coverage_floor\<close> is a contiguous claim.\<close>

lemma floor_from_Some:
  assumes "chain upr ss lwr" and "floor_from (Some upr) ss = Some f"
  shows "f \<le> upr \<and> (\<forall>s \<in> set ss. f < rs_hi s \<longrightarrow> rs_done s \<and> f \<le> rs_lo s)"
  using assms
proof (induction ss arbitrary: upr)
  case Nil
  then show ?case by simp
next
  case (Cons s ss)
  show ?case
  proof (cases "rs_done s")
    case True
    with Cons.IH [of "rs_lo s"] Cons.prems show ?thesis by auto
  next
    case False
    with Cons.prems have "f = upr" by simp
    with Cons.prems(1) show ?thesis
      using chain_bounds [of "rs_lo s" ss lwr] by fastforce
  qed
qed

lemma coverage_floor_done:
  assumes "chain upr ss lwr" and "coverage_floor ss = Some f" and "f \<le> i" and "i < upr"
  shows "\<exists>s \<in> set ss. rs_done s \<and> rs_lo s \<le> i \<and> i < rs_hi s"
proof (cases ss)
  case Nil
  with assms show ?thesis by (simp add: coverage_floor_def)
next
  case (Cons s ts)
  have "floor_from (Some upr) ss = Some f"
    using assms(2) by (auto simp: coverage_floor_def Cons split: if_splits)
  note floor = floor_from_Some [OF assms(1) this]
  show ?thesis
  proof (cases "lwr \<le> i")
    case True
    then obtain k where "k < length ss" "rs_lo (ss ! k) \<le> i" "i < rs_hi (ss ! k)"
      using chain_covers [OF assms(1) _ assms(4)] by blast
    with floor assms(3) show ?thesis
      by (intro bexI [of _ "ss ! k"]) auto
  next
    case False
    have "lwr \<le> f"
      using assms(1,2) chain_bounds [OF assms(1)]
    proof -
      have "\<exists>s \<in> set ss. rs_lo s = f" if "floor_from g ss = Some f" "g \<noteq> Some f" for g
        using that
      proof (induction ss arbitrary: g)
        case (Cons s ss)
        then show ?case by (cases "Some (rs_lo s) = Some f") (auto split: if_splits)
      qed simp
      with assms(2) chain_bounds [OF assms(1)] show ?thesis
        unfolding coverage_floor_def by (metis option.distinct(1))
    qed
    with False assms(3) show ?thesis by simp
  qed
qed

section \<open>The walk\<close>

text \<open>What the constructor accepts.\<close>

lemma range_stream_Inr:
  "range_stream lo hi cursor done = Inr s \<longleftrightarrow>
     lo < hi \<and> lo - 1 \<le> cursor \<and> cursor < hi \<and>
     s = \<lparr>rs_lo = lo, rs_hi = hi, rs_cursor = cursor, rs_done = done\<rparr>"
  by (auto simp: range_stream_def)

text \<open>Ids without a violation ascend inside the range.\<close>

lemma violation_from_None:
  "violation_from s previous ids = None \<longleftrightarrow>
     sorted_wrt (<) (previous # ids) \<and> (\<forall>i \<in> set ids. rs_lo s \<le> i \<and> i < rs_hi s)"
proof (induction ids arbitrary: previous)
  case Nil
  then show ?case by simp
next
  case (Cons v vs)
  then show ?case
    by (auto simp: order.strict_trans)
qed

lemma sorted_le_last: "sorted_wrt (<) ids \<Longrightarrow> i \<in> set ids \<Longrightarrow> i \<le> last (ids :: int list)"
  by (induction ids) (auto split: if_splits intro: order.strict_implies_order)

text \<open>
  A page answers honestly when every record of \<open>T\<close> inside the asked window is on it, up to
  the page's last id, or altogether when the page is short.
\<close>

definition honest_page :: "mirror_dialect \<Rightarrow> int set \<Rightarrow> int \<Rightarrow> int \<Rightarrow> json list \<Rightarrow> bool" where
  "honest_page d T start bnd page \<longleftrightarrow>
     (\<forall>ids. page_ids d page = Inr ids \<longrightarrow>
        (\<forall>i \<in> T. start < i \<longrightarrow> i < bnd \<longrightarrow>
           length page < mirror_page_size \<or> (\<exists>j \<in> set ids. i \<le> j) \<longrightarrow> i \<in> set ids))"

definition honest_batch ::
  "mirror_dialect \<Rightarrow> int set \<Rightarrow> range_stream list \<Rightarrow> sent \<Rightarrow> batch_result \<Rightarrow> bool" where
  "honest_batch d T streams sent b \<longleftrightarrow>
     (\<forall>(index, key, _) \<in> set sent. \<forall>page. range_page d b key = Inr page \<longrightarrow>
        honest_page d T (rs_cursor (streams ! index)) (rs_hi (streams ! index)) page)"

text \<open>The records of \<open>T\<close> a stream says it has read are among \<open>seen\<close>.\<close>

definition stream_read :: "int set \<Rightarrow> int set \<Rightarrow> range_stream \<Rightarrow> bool" where
  "stream_read T seen s \<longleftrightarrow>
     (\<forall>i \<in> T. rs_lo s \<le> i \<and> i < rs_hi s \<and> (i \<le> rs_cursor s \<or> rs_done s) \<longrightarrow> i \<in> seen)"

lemma stream_read_mono: "stream_read T seen s \<Longrightarrow> seen \<subseteq> seen' \<Longrightarrow> stream_read T seen' s"
  unfolding stream_read_def by blast

text \<open>Every row with an id is stored under it; the others are reported.\<close>

lemma read_page_rows:
  assumes "read_mirror_page isod d n page = Inr (rows, bad)"
  shows "map ir_id rows = List.map_filter (\<lambda>raw. case row_id d raw of Inr i \<Rightarrow> i | Inl _ \<Rightarrow> None) page \<and>
         length rows + length bad = length page"
  using assms
proof (induction page arbitrary: rows bad)
  case Nil
  then show ?case by simp
next
  case (Cons raw page)
  from Cons.prems obtain parsed where parsed: "parse_item isod d n raw = Inr parsed"
    by (auto simp: rbind_Inr_iff)
  show ?case
  proof (cases parsed)
    case (Inl reason)
    with Cons parsed parse_item_refused [of isod d n raw reason] show ?thesis
      by (auto simp: rbind_Inr_iff)
  next
    case (Inr row)
    with Cons parsed parse_item_row(1) [of isod d n raw row] show ?thesis
      by (auto simp: rbind_Inr_iff)
  qed
qed

lemma page_ids_filter:
  assumes "page_ids d page = Inr ids"
  shows "ids = List.map_filter (\<lambda>raw. case row_id d raw of Inr i \<Rightarrow> i | Inl _ \<Rightarrow> None) page"
proof -
  have "List.map_filter id ns = List.map_filter (\<lambda>raw. case row_id d raw of Inr i \<Rightarrow> i | Inl _ \<Rightarrow> None) page"
    if "rmap (row_id d) page = Inr ns" for ns
    using that by (induction page arbitrary: ns) (auto simp: rbind_Inr_iff split: option.split)
  with assms show ?thesis
    by (auto simp: page_ids_def rbind_Inr_iff)
qed

lemma page_rows_ids:
  assumes "read_mirror_page isod d n page = Inr (rows, bad)" and "page_ids d page = Inr ids"
  shows "map ir_id rows = ids"
  using read_page_rows [OF assms(1)] page_ids_filter [OF assms(2)] by simp


text \<open>One command of the batch keeps what the walk claims.\<close>

definition read_ids :: "range_acc \<Rightarrow> int set" where
  "read_ids acc = ir_id ` set (ra_rows acc)"

definition acc_inv :: "int set \<Rightarrow> int set \<Rightarrow> range_stream list \<Rightarrow> range_acc \<Rightarrow> bool" where
  "acc_inv T seen streams acc \<longleftrightarrow>
     list_all2 (\<lambda>s s'. rs_lo s' = rs_lo s \<and> rs_hi s' = rs_hi s \<and> stream_ok s' \<and>
        rs_cursor s \<le> rs_cursor s' \<and> stream_read T (seen \<union> read_ids acc) s') streams (ra_streams acc)"

lemma page_read:
  assumes honest: "honest_page d T (rs_cursor s) (rs_hi s) page"
    and ids: "page_ids d page = Inr ids" and fine: "range_violation ids s = None"
    and ok: "stream_ok s" and before: "stream_read T seen s" and sub: "seen \<union> set ids \<subseteq> seen'"
    and new: "range_stream (rs_lo s) (rs_hi s) (if ids = [] then rs_cursor s else last ids)
      (length page < mirror_page_size \<or> rs_hi s - 1 \<le> (if ids = [] then rs_cursor s else last ids)) = Inr s'"
  shows "rs_lo s' = rs_lo s \<and> rs_hi s' = rs_hi s \<and> stream_ok s' \<and> rs_cursor s \<le> rs_cursor s' \<and>
    stream_read T seen' s'"
proof -
  define c where "c = (if ids = [] then rs_cursor s else last ids)"
  have asc: "sorted_wrt (<) ids" and window: "\<forall>i \<in> set ids. rs_cursor s < i \<and> rs_lo s \<le> i \<and> i < rs_hi s"
    using fine by (auto simp: range_violation_def violation_from_None)
  have c_ids: "ids \<noteq> [] \<Longrightarrow> c \<in> set ids"
    by (simp add: c_def)
  have c: "rs_cursor s \<le> c \<and> c < rs_hi s"
  proof (cases "ids = []")
    case True
    with ok show ?thesis by (simp add: c_def stream_ok_def)
  next
    case False
    from bspec [OF window c_ids [OF False]] show ?thesis by simp
  qed
  have s': "s' = \<lparr>rs_lo = rs_lo s, rs_hi = rs_hi s, rs_cursor = c,
      rs_done = (length page < mirror_page_size \<or> rs_hi s - 1 \<le> c)\<rparr>"
    using new by (simp add: range_stream_Inr c_def)
  have "i \<in> seen'" if "i \<in> T" "rs_lo s \<le> i" "i < rs_hi s"
    "i \<le> c \<or> length page < mirror_page_size" for i
  proof (cases "i \<le> rs_cursor s")
    case True
    with before that sub show ?thesis by (auto simp: stream_read_def)
  next
    case False
    then have "length page < mirror_page_size \<or> (\<exists>j \<in> set ids. i \<le> j)"
      using that(4) c_ids by (auto simp: c_def split: if_splits)
    with honest ids that False sub show ?thesis
      by (auto simp: honest_page_def)
  qed
  then have "stream_read T seen' s'"
    by (auto simp: stream_read_def s')
  moreover have "stream_ok s'"
    using c ok by (auto simp: s' stream_ok_def)
  ultimately show ?thesis
    using c by (simp add: s')
qed

lemma range_item_inv:
  assumes item: "range_item isod d n streams b x acc = Inr acc'"
    and inv: "acc_inv T seen streams acc"
    and honest: "honest_batch d T streams [x] b"
    and start: "list_all (\<lambda>s. stream_ok s \<and> stream_read T seen s) streams"
  shows "acc_inv T seen streams acc'"
proof -
  obtain index key m p where x: "x = (index, key, m, p)"
    by (cases x) auto
  have index: "index < length streams"
    using item by (auto simp: x range_item_def split: if_splits)
  define s where "s = streams ! index"
  have s: "stream_ok s" "stream_read T seen s"
    using start index by (simp_all add: s_def list_all_length)
  show ?thesis
  proof (cases "range_page d b key")
    case (Inl e)
    with item inv index show ?thesis
      by (auto simp: x range_item_def acc_inv_def read_ids_def Let_def)
  next
    case (Inr page)
    then have page: "honest_page d T (rs_cursor s) (rs_hi s) page"
      using honest by (auto simp: x honest_batch_def s_def)
    obtain ids rows bad where ids: "page_ids d page = Inr ids"
      and rows: "read_mirror_page isod d n page = Inr (rows, bad)"
      using item index Inr by (auto simp: x range_item_def Let_def rbind_Inr_iff)
    have same: "ir_id ` set rows = set ids"
      using arg_cong [OF page_rows_ids [OF rows ids], of set] by simp
    have grow: "list_all2 (\<lambda>s s'. rs_lo s' = rs_lo s \<and> rs_hi s' = rs_hi s \<and> stream_ok s' \<and>
        rs_cursor s \<le> rs_cursor s' \<and>
        stream_read T (seen \<union> (read_ids acc \<union> set ids)) s') streams (ra_streams acc)"
      using inv unfolding acc_inv_def
      by (rule list_all2_mono) (auto intro: stream_read_mono)
    show ?thesis
    proof (cases "range_violation ids s")
      case (Some v)
      with item index Inr ids rows grow same show ?thesis
        by (auto simp: x range_item_def Let_def acc_inv_def read_ids_def s_def image_Un)
    next
      case None
      then obtain s' where s': "range_stream (rs_lo s) (rs_hi s) (if ids = [] then rs_cursor s else last ids)
          (length page < mirror_page_size \<or> rs_hi s - 1 \<le> (if ids = [] then rs_cursor s else last ids)) = Inr s'"
        and acc': "acc' = acc\<lparr>ra_rows := ra_rows acc @ rows, ra_rejected := ra_rejected acc @ bad,
          ra_streams := (ra_streams acc)[index := s']\<rparr>"
        using item index Inr ids rows None unfolding s_def
        by (auto simp: x range_item_def Let_def rbind_Inr_iff)
      have "rs_lo s' = rs_lo s \<and> rs_hi s' = rs_hi s \<and> stream_ok s' \<and> rs_cursor s \<le> rs_cursor s' \<and>
          stream_read T (seen \<union> (read_ids acc \<union> set ids)) s'"
        by (rule page_read [OF page ids None s]) (use s' in auto)
      with grow show ?thesis
        using index same
        by (auto simp: acc' acc_inv_def read_ids_def image_Un s_def list_all2_conv_all_nth nth_list_update)
    qed
  qed
qed

lemma apply_range_batch_inv:
  assumes "apply_range_batch isod d n streams sent b = Inr out"
    and honest: "honest_batch d T streams sent b"
    and start: "list_all (\<lambda>s. stream_ok s \<and> stream_read T seen s) streams"
  shows "list_all2 (\<lambda>s s'. rs_lo s' = rs_lo s \<and> rs_hi s' = rs_hi s \<and> stream_ok s' \<and>
        rs_cursor s \<le> rs_cursor s' \<and> stream_read T (seen \<union> ir_id ` set (ro_rows out)) s')
      streams (ro_streams out)"
proof -
  obtain acc time where fold: "rfold (range_item isod d n streams b) sent
      \<lparr>ra_streams = streams, ra_rows = [], ra_rejected = [], ra_errors = [], ra_violation = None\<rparr> = Inr acc"
    and out: "out = \<lparr>ro_streams = (if ra_violation acc \<noteq> None then streams else ra_streams acc),
            ro_rows = ra_rows acc, ro_rejected = ra_rejected acc, ro_errors = ra_errors acc,
            ro_violation = ra_violation acc, ro_time = time\<rparr>"
    using assms(1) by (auto simp: apply_range_batch_def rbind_Inr_iff)
  have same: "list_all2 (\<lambda>s s'. rs_lo s' = rs_lo s \<and> rs_hi s' = rs_hi s \<and> stream_ok s' \<and>
        rs_cursor s \<le> rs_cursor s' \<and> stream_read T (seen \<union> X) s') streams streams" for X
    using start by (auto simp: list_all2_same list_all_iff intro: stream_read_mono)
  have "acc_inv T seen streams acc"
  proof (rule rfold_invariant [OF fold])
    show "acc_inv T seen streams
        \<lparr>ra_streams = streams, ra_rows = [], ra_rejected = [], ra_errors = [], ra_violation = None\<rparr>"
      using same [of "{}"] by (simp add: acc_inv_def read_ids_def)
  next
    fix x acc acc'
    assume "x \<in> set sent" and "acc_inv T seen streams acc" and "range_item isod d n streams b x acc = Inr acc'"
    moreover from \<open>x \<in> set sent\<close> have "honest_batch d T streams [x] b"
      using honest by (auto simp: honest_batch_def)
    ultimately show "acc_inv T seen streams acc'"
      using range_item_inv start by blast
  qed
  with same show ?thesis
    by (simp add: out acc_inv_def read_ids_def)
qed


text \<open>One violation neuters the batch, and only a page out of order is one.\<close>

lemma range_item_violation:
  assumes "range_item isod d n streams b (index, key, m, p) acc = Inr acc'"
  shows "ra_violation acc' = (case ra_violation acc of Some v \<Rightarrow> Some v | None \<Rightarrow>
    (case range_page d b key of Inl _ \<Rightarrow> None
     | Inr page \<Rightarrow> (case page_ids d page of Inl _ \<Rightarrow> None
                   | Inr ids \<Rightarrow> range_violation ids (streams ! index))))"
proof (cases "range_page d b key")
  case (Inl e)
  with assms show ?thesis
    by (auto simp: range_item_def Let_def split: if_splits option.split)
next
  case (Inr page)
  with assms obtain ids where ids: "page_ids d page = Inr ids"
    by (auto simp: range_item_def Let_def rbind_Inr_iff split: if_splits)
  show ?thesis
  proof (cases "range_violation ids (streams ! index)")
    case None
    with assms Inr ids show ?thesis
      by (auto simp: range_item_def Let_def rbind_Inr_iff split: if_splits option.split)
  next
    case (Some v)
    with assms Inr ids show ?thesis
      by (auto simp: range_item_def Let_def rbind_Inr_iff split: if_splits option.split)
  qed
qed

definition page_violates :: "mirror_dialect \<Rightarrow> batch_result \<Rightarrow> range_stream list \<Rightarrow> nat \<times> command \<Rightarrow> bool" where
  "page_violates d b streams = (\<lambda>(index, key, _).
     \<exists>page ids. range_page d b key = Inr page \<and> page_ids d page = Inr ids \<and>
       range_violation ids (streams ! index) \<noteq> None)"

lemma apply_range_batch_violation:
  assumes "apply_range_batch isod d n streams sent b = Inr out"
  shows "ro_violation out \<noteq> None \<longleftrightarrow> (\<exists>x \<in> set sent. page_violates d b streams x)"
    and "ro_violation out \<noteq> None \<Longrightarrow> ro_streams out = streams"
proof -
  have fold: "ra_violation acc' \<noteq> None \<longleftrightarrow> ra_violation acc \<noteq> None \<or> (\<exists>x \<in> set xs. page_violates d b streams x)"
    if "rfold (range_item isod d n streams b) xs acc = Inr acc'" for xs acc acc'
    using that
  proof (induction xs arbitrary: acc)
    case Nil
    then show ?case by simp
  next
    case (Cons x xs)
    obtain index key m p where x: "x = (index, key, m, p)"
      by (cases x) auto
    from Cons.prems obtain acc1 where item: "range_item isod d n streams b x acc = Inr acc1"
      and rest: "rfold (range_item isod d n streams b) xs acc1 = Inr acc'"
      by (auto simp: rbind_Inr_iff)
    have "ra_violation acc1 \<noteq> None \<longleftrightarrow> ra_violation acc \<noteq> None \<or> page_violates d b streams x"
      using range_item_violation [OF item [unfolded x]]
      by (auto simp: x page_violates_def split: option.splits sum.splits)
    with Cons.IH [OF rest] show ?case by auto
  qed
  show "ro_violation out \<noteq> None \<longleftrightarrow> (\<exists>x \<in> set sent. page_violates d b streams x)"
    and "ro_violation out \<noteq> None \<Longrightarrow> ro_streams out = streams"
    using assms by (auto simp: apply_range_batch_def rbind_Inr_iff dest: fold)
qed

text \<open>A batch of convertible rows is always applied.\<close>

definition readable_batch :: "mirror_dialect \<Rightarrow> batch_result \<Rightarrow> bool" where
  "readable_batch d b \<longleftrightarrow>
     (\<forall>c \<in> set (commands b). \<forall>page. mirror_page_rows d (cmd_result c) = Some page \<longrightarrow>
        list_all (readable_row d) page)"

lemma range_page_readable:
  assumes "readable_batch d b" and "range_page d b key = Inr page"
  shows "list_all (readable_row d) page"
proof -
  obtain c where "command_by_key b key = Some c" and page: "mirror_page_rows d (cmd_result c) = Some page"
    using assms(2) by (auto simp: range_page_def split: option.splits)
  then have "c \<in> set (commands b)"
    by (auto simp: command_by_key_def dest!: map_of_SomeD)
  with page assms(1) show ?thesis
    by (auto simp: readable_batch_def)
qed

lemma page_ids_total:
  assumes "d \<in> set mirror_dialects" and "list_all (readable_row d) page"
  shows "\<exists>ids. page_ids d page = Inr ids"
proof -
  have "\<exists>ns. rmap (row_id d) page = Inr ns"
    by (rule rmap_total, rule row_id_total [OF assms(1)]) (use assms(2) in \<open>simp add: list_all_iff\<close>)
  then show ?thesis by (auto simp: page_ids_def)
qed

lemma read_page_total:
  assumes "d \<in> set mirror_dialects" and "list_all (readable_row d) page"
  shows "\<exists>rows bad. read_mirror_page isod d n page = Inr (rows, bad)"
  using assms(2)
proof (induction page)
  case Nil
  then show ?case by simp
next
  case (Cons raw page)
  obtain parsed where parsed: "parse_item isod d n raw = Inr parsed"
    using parse_item_accepts(1) [OF assms(1), of raw isod n] Cons.prems by auto
  moreover obtain rows bad where "read_mirror_page isod d n page = Inr (rows, bad)"
    using Cons by auto
  moreover obtain i where "row_id d raw = Inr i"
    using row_id_total [OF assms(1)] Cons.prems by auto
  ultimately show ?case
    by (cases parsed) simp_all
qed

lemma range_item_total:
  assumes d: "d \<in> set mirror_dialects" and b: "readable_batch d b" and index: "index < length streams"
    and ok: "stream_ok (streams ! index)"
  shows "\<exists>acc'. range_item isod d n streams b (index, key, m, p) acc = Inr acc'"
proof (cases "range_page d b key")
  case (Inl e)
  with index show ?thesis by (simp add: range_item_def Let_def)
next
  case (Inr page)
  note readable = range_page_readable [OF b Inr]
  obtain ids where ids: "page_ids d page = Inr ids"
    using page_ids_total [OF d readable] by blast
  obtain rows bad where rows: "read_mirror_page isod d n page = Inr (rows, bad)"
    using read_page_total [OF d readable] by blast
  show ?thesis
  proof (cases "range_violation ids (streams ! index)")
    case (Some v)
    with index Inr ids rows show ?thesis by (simp add: range_item_def Let_def)
  next
    case None
    then have window: "\<forall>i \<in> set ids. rs_lo (streams ! index) \<le> i \<and> i < rs_hi (streams ! index)"
      by (auto simp: range_violation_def violation_from_None)
    then have "ids \<noteq> [] \<Longrightarrow> rs_lo (streams ! index) \<le> last ids \<and> last ids < rs_hi (streams ! index)"
      by (meson last_in_set)
    then have "\<exists>s'. range_stream (rs_lo (streams ! index)) (rs_hi (streams ! index))
        (if ids = [] then rs_cursor (streams ! index) else last ids) x = Inr s'" for x
      using ok by (cases "ids = []") (auto simp: range_stream_Inr stream_ok_def)
    with index Inr ids rows None show ?thesis
      by (simp add: range_item_def Let_def rbind_Inr_iff split del: if_split)
  qed
qed

lemma apply_range_batch_total:
  assumes "d \<in> set mirror_dialects" and "readable_batch d b" and "list_all stream_ok streams"
    and "\<forall>(index, _) \<in> set sent. index < length streams"
    and "\<exists>t. merge_time_blocks isod (batch_time b # map cmd_time (commands b)) = Inr t"
  shows "\<exists>out. apply_range_batch isod d n streams sent b = Inr out"
proof -
  have "\<exists>acc'. rfold (range_item isod d n streams b) sent acc = Inr acc'" for acc
  proof (rule rfold_total)
    fix x acc assume x: "x \<in> set sent"
    obtain index key m p where "x = (index, key, m, p)" by (cases x) auto
    with x assms show "\<exists>c. range_item isod d n streams b x acc = Inr c"
      using range_item_total [of d b index streams] by (auto simp: list_all_length)
  qed
  with assms(5) show ?thesis
    by (force simp: apply_range_batch_def rbind_Inr_iff)
qed

text \<open>What is sent: one keyset page after the cursor of each open stream.\<close>

lemma commands_from_sent:
  assumes "commands_from d ids_only index room ss = Inr sent"
  shows "(\<forall>(k, c) \<in> set sent. index \<le> k \<and> k < index + length ss \<and> \<not> rs_done (ss ! (k - index)) \<and>
      keyset_command d (range_key k) (rs_cursor (ss ! (k - index))) (Some (rs_hi (ss ! (k - index)))) None ids_only
        = Inr c) \<and>
    ((\<exists>s \<in> set ss. \<not> rs_done s) \<longleftrightarrow> sent \<noteq> []) \<and> sorted_wrt (<) (map fst sent)"
  using assms
proof (induction ss arbitrary: index room sent)
  case Nil
  then show ?case by simp
next
  case (Cons s ss)
  have shift: "(s # ss) ! (k - index) = ss ! (k - Suc index)" if "Suc index \<le> k" for k
    using that by (simp add: Suc_diff_Suc [symmetric] nth_Cons' le_diff_conv2)
  show ?case
  proof (cases "rs_done s")
    case True
    with Cons.prems have "commands_from d ids_only (Suc index) room ss = Inr sent" by simp
    from Cons.IH [OF this] True shift show ?thesis by fastforce
  next
    case False
    with Cons.prems obtain c cs where
      c: "keyset_command d (range_key index) (rs_cursor s) (Some (rs_hi s)) None ids_only = Inr c"
      and cs: "sent = (index, c) # cs" "cs = [] \<or> commands_from d ids_only (Suc index) (room - 1) ss = Inr cs"
      by (auto simp: rbind_Inr_iff split: if_splits)
    show ?thesis
    proof (cases "cs = []")
      case True
      with False c cs show ?thesis by auto
    next
      case more: False
      with cs Cons.IH [of "Suc index" "room - 1" cs] shift c \<open>\<not> rs_done s\<close> show ?thesis
        by fastforce
    qed
  qed
qed

lemma commands_from_total:
  assumes "d \<in> set mirror_dialects" and "list_all stream_ok ss"
  shows "\<exists>sent. commands_from d ids_only index room ss = Inr sent"
  using assms(2)
proof (induction ss arbitrary: index room)
  case Nil
  then show ?case by simp
next
  case (Cons s ss)
  show ?case
  proof (cases "rs_done s")
    case True
    with Cons show ?thesis by simp
  next
    case False
    obtain c where c: "keyset_command d (range_key index) (rs_cursor s) (Some (rs_hi s)) None ids_only = Inr c"
      using keyset_command_total [OF assms(1), of "Some (rs_hi s)" "rs_cursor s"] False Cons.prems
      by (fastforce simp: stream_ok_def)
    obtain cs where "commands_from d ids_only (Suc index) (room - 1) ss = Inr cs"
      using Cons by auto
    with False c show ?thesis by simp
  qed
qed

end
