(* ===== verification/Crm_Backfill.thy ===== *)
theory Crm_Backfill
  imports Crm_Ranges
begin

text \<open>
  \<open>sync/crm_backfill.py\<close>: the cursor of the newest-first walk over an entity's ids, the
  request of one batch (\<open>fetch_ranges\<close> of \<open>sync/crm_fetch.py\<close>) and one turn of the
  lane's loop in \<open>jobs/definitions.py\<close>.
\<close>

section \<open>Python conversions of a stored value\<close>

text \<open>\<open>int(value)\<close> and iteration over a decoded JSON value.\<close>

definition py_int :: "json \<Rightarrow> (py_error, int) result" where
  "py_int v =
     (case v of
        JInt i \<Rightarrow> Inr i
      | JBool b \<Rightarrow> Inr (if b then 1 else 0)
      | JFloat (Fin q) \<Rightarrow> Inr (if 0 \<le> q then \<lfloor>q\<rfloor> else \<lceil>q\<rceil>)
      | JFloat NotANumber \<Rightarrow> Inl ValueError
      | JFloat _ \<Rightarrow> Inl OverflowError
      | JStr s \<Rightarrow> (case int_literal s of Some i \<Rightarrow> Inr i | None \<Rightarrow> Inl ValueError)
      | _ \<Rightarrow> Inl TypeError)"

definition py_iter :: "json \<Rightarrow> (py_error, json list) result" where
  "py_iter v =
     (case v of
        JList xs \<Rightarrow> Inr xs
      | JStr s \<Rightarrow> Inr (map (\<lambda>c. JStr [c]) s)
      | JDict d \<Rightarrow> Inr (map (\<lambda>(k, _). JStr k) d)
      | _ \<Rightarrow> Inl TypeError)"

text \<open>\<open>for ... in value or []\<close>.\<close>

definition py_iter_or_empty :: "json \<Rightarrow> (py_error, json list) result" where
  "py_iter_or_empty v = (if truthy v then py_iter v else Inr [])"

section \<open>The cursor\<close>

definition dialect_item :: string where "dialect_item = ''item''"
definition dialect_legacy :: string where "dialect_legacy = ''legacy''"

record backfill_cursor =
  bc_dialect :: string
  bc_high_id :: "int option"
  bc_width :: int
  bc_next_hi :: int
  bc_covered :: int
  bc_open :: "range_stream list"

definition fresh_backfill :: "string \<Rightarrow> backfill_cursor" where
  "fresh_backfill name =
     \<lparr>bc_dialect = name, bc_high_id = None, bc_width = 0, bc_next_hi = 0, bc_covered = 0, bc_open = []\<rparr>"

definition is_headed :: "backfill_cursor \<Rightarrow> bool" where
  "is_headed c \<longleftrightarrow> bc_high_id c \<noteq> None"

definition backfill_finished :: "backfill_cursor \<Rightarrow> bool" where
  "backfill_finished c \<longleftrightarrow> bc_high_id c \<noteq> None \<and> bc_next_hi c \<le> 1 \<and> bc_open c = []"

definition backfill_progress :: "backfill_cursor \<Rightarrow> int \<times> int option" where
  "backfill_progress c =
     (case bc_high_id c of None \<Rightarrow> (0, None) | Some h \<Rightarrow> (max 0 (h + 1 - bc_covered c), Some h))"

definition stream_json :: "range_stream \<Rightarrow> json" where
  "stream_json s = JList [JInt (rs_lo s), JInt (rs_hi s), JInt (rs_cursor s), JBool (rs_done s)]"

definition backfill_to_json :: "backfill_cursor \<Rightarrow> (string, json) dict" where
  "backfill_to_json c =
     [(''dialect'', JStr (bc_dialect c)),
      (''high_id'', (case bc_high_id c of None \<Rightarrow> JNone | Some h \<Rightarrow> JInt h)),
      (''width'', JInt (bc_width c)),
      (''next_hi'', JInt (bc_next_hi c)),
      (''covered'', JInt (bc_covered c)),
      (''open'', JList (map stream_json (bc_open c)))]"

definition stream_of_json :: "json \<Rightarrow> (py_error, range_stream) result" where
  "stream_of_json v =
     rbind (py_iter v) (\<lambda>parts.
       case parts of
         [a, b, c, d] \<Rightarrow> rbind (py_int a) (\<lambda>lo. rbind (py_int b) (\<lambda>hi. rbind (py_int c) (\<lambda>cursor.
                          range_stream lo hi cursor (truthy d))))
       | _ \<Rightarrow> Inl ValueError)"

text \<open>\<open>raw[key]\<close> raises where \<open>raw.get(key)\<close> answers \<open>None\<close>.\<close>

definition int_at :: "(string, json) dict \<Rightarrow> string \<Rightarrow> (py_error, int) result" where
  "int_at raw key = rbind (lookup_key raw key) py_int"

definition caught :: "py_error \<Rightarrow> bool" where
  "caught e \<longleftrightarrow> e \<in> {KeyError, TypeError, ValueError}"

definition backfill_from_json :: "(string, json) dict \<Rightarrow> (py_error, backfill_cursor) result" where
  "backfill_from_json raw =
     (let named = (case get_field raw ''dialect'' of JStr s \<Rightarrow> s | _ \<Rightarrow> dialect_item);
          name = (if named \<in> {dialect_item, dialect_legacy} then named else dialect_item);
          high = get_field raw ''high_id''
      in if high = JNone then Inr (fresh_backfill name)
         else
           (case rbind (py_iter_or_empty (get_field raw ''open'')) (\<lambda>parts.
                 rbind (rmap stream_of_json parts) (\<lambda>streams.
                 rbind (py_int high) (\<lambda>h.
                 rbind (int_at raw ''width'') (\<lambda>w.
                 rbind (int_at raw ''next_hi'') (\<lambda>n.
                 rbind (int_at raw ''covered'') (\<lambda>c.
                   Inr \<lparr>bc_dialect = name, bc_high_id = Some h, bc_width = w, bc_next_hi = n,
                        bc_covered = c, bc_open = streams\<rparr>)))))) of
              Inl e \<Rightarrow> if caught e then Inr (fresh_backfill name) else Inl e
            | Inr c \<Rightarrow>
                if bc_width c \<le> 0 \<or> (case bc_high_id c of None \<Rightarrow> True | Some h \<Rightarrow> h < 0)
                then Inr (fresh_backfill name) else Inr c))"

section \<open>Steps\<close>

text \<open>\<open>-(-a // b)\<close>.\<close>

definition ceil_div :: "int \<Rightarrow> int \<Rightarrow> int" where
  "ceil_div a b = - ((- a) div b)"

definition headed :: "backfill_cursor \<Rightarrow> int \<Rightarrow> int \<Rightarrow> int \<Rightarrow> backfill_cursor" where
  "headed c high_id cmds max_width =
     c\<lparr>bc_high_id := Some high_id,
       bc_width := max (int mirror_page_size) (min max_width (ceil_div (max high_id 1) (max 1 cmds))),
       bc_next_hi := high_id + 1, bc_covered := high_id + 1, bc_open := []\<rparr>"

function open_from ::
  "int \<Rightarrow> int \<Rightarrow> range_stream list \<Rightarrow> int \<Rightarrow> (py_error, range_stream list \<times> int) result" where
  "open_from width streams opened next_hi =
     (if int (length opened) < streams \<and> 1 < next_hi
      then (let lo = max 1 (next_hi - width)
            in rbind (range_stream lo next_hi (lo - 1) False) (\<lambda>s.
               open_from width streams (opened @ [s]) lo))
      else Inr (opened, next_hi))"
  by pat_completeness auto

termination
  by (relation "measure (\<lambda>(width, streams, opened, next_hi). nat (streams - int (length opened)))") auto

declare open_from.simps [simp del]

definition plan :: "backfill_cursor \<Rightarrow> int \<Rightarrow> (py_error, backfill_cursor) result" where
  "plan c streams =
     rbind (open_from (bc_width c) streams (bc_open c) (bc_next_hi c)) (\<lambda>(opened, next_hi).
       Inr (c\<lparr>bc_open := opened, bc_next_hi := next_hi\<rparr>))"

fun drop_done :: "int \<Rightarrow> range_stream list \<Rightarrow> int \<times> range_stream list" where
  "drop_done covered [] = (covered, [])"
| "drop_done covered (s # ss) = (if rs_done s then drop_done (rs_lo s) ss else (covered, s # ss))"

definition settle :: "backfill_cursor \<Rightarrow> range_stream list \<Rightarrow> backfill_cursor" where
  "settle c streams =
     (let (covered, remaining) = drop_done (bc_covered c) streams
      in c\<lparr>bc_open := remaining, bc_covered := covered\<rparr>)"

definition read_high_id :: "mirror_dialect \<Rightarrow> json \<Rightarrow> (py_error, int option) result" where
  "read_high_id d v =
     (case mirror_page_rows d v of
        None \<Rightarrow> Inr None
      | Some [] \<Rightarrow> Inr (Some 0)
      | Some page \<Rightarrow> rbind (page_ids d page) (\<lambda>ids. Inr (max_opt ids)))"

text \<open>One batch over the open ranges, or nothing when every range is done.\<close>

definition fetch_ranges ::
  "'o outside_scheme \<Rightarrow> (string \<Rightarrow> (rat \<times> rat option) option) \<Rightarrow> client \<Rightarrow> mirror_dialect \<Rightarrow>
   range_stream list \<Rightarrow> int \<Rightarrow> int \<Rightarrow> bool \<Rightarrow> ('n net_scheme, exn, range_outcome option) prog" where
  "fetch_ranges w isod cl d streams max_commands utm_max ids_only =
     andThen (lift_result (lift_py (range_commands d streams max_commands ids_only))) (\<lambda>sent.
       if sent = [] then ret None
       else andThen (batch w cl (map snd sent) False) (\<lambda>b.
            lift_result (lift_py (rbind (apply_range_batch isod d utm_max streams sent b)
              (\<lambda>out. Inr (Some out))))))"

text \<open>
  A turn of the backfill's loop once the head is known, given the answer to what it sends:
  nothing to send, a violation that parks the lane, or the next cursor and the rows to store.
\<close>

datatype backfill_turn =
    Nothing backfill_cursor
  | Parked string
  | Advanced backfill_cursor "item_row list" rejected "(nat \<times> bitrix_error) list"

definition backfill_step ::
  "(string \<Rightarrow> (rat \<times> rat option) option) \<Rightarrow> mirror_dialect \<Rightarrow> int \<Rightarrow> int \<Rightarrow> (sent \<Rightarrow> batch_result) \<Rightarrow>
   backfill_cursor \<Rightarrow> (py_error, backfill_turn) result" where
  "backfill_step isod d utm_max cmds answer cursor =
     rbind (plan cursor cmds) (\<lambda>c.
       if bc_open c = [] then Inr (Nothing c)
       else rbind (range_commands d (bc_open c) cmds False) (\<lambda>sent.
         if sent = [] then Inr (Nothing c)
         else rbind (apply_range_batch isod d utm_max (bc_open c) sent (answer sent)) (\<lambda>out.
           case ro_violation out of
             Some v \<Rightarrow> Inr (Parked v)
           | None \<Rightarrow> Inr (Advanced (settle c (ro_streams out)) (ro_rows out) (ro_rejected out) (ro_errors out)))))"

section \<open>The round trip of the stored cursor\<close>

lemma py_int_JInt [simp]: "py_int (JInt i) = Inr i"
  by (simp add: py_int_def)

lemma stream_roundtrip: "stream_ok s \<Longrightarrow> stream_of_json (stream_json s) = Inr s"
  by (simp add: stream_of_json_def stream_json_def py_iter_def range_stream_Inr stream_ok_def)

definition cursor_ok :: "backfill_cursor \<Rightarrow> bool" where
  "cursor_ok c \<longleftrightarrow> bc_dialect c \<in> {dialect_item, dialect_legacy} \<and>
     (case bc_high_id c of
        None \<Rightarrow> c = fresh_backfill (bc_dialect c)
      | Some h \<Rightarrow> 0 \<le> h \<and> 0 < bc_width c \<and> 1 \<le> bc_next_hi c \<and> bc_covered c \<le> h + 1 \<and>
          list_all stream_ok (bc_open c) \<and> chain (bc_covered c) (bc_open c) (bc_next_hi c))"

lemma rmap_roundtrip: "list_all stream_ok ss \<Longrightarrow> rmap stream_of_json (map stream_json ss) = Inr ss"
  by (induction ss) (simp_all add: stream_roundtrip)

lemma open_roundtrip:
  assumes "list_all stream_ok ss"
  shows "rbind (py_iter_or_empty (JList (map stream_json ss))) (rmap stream_of_json) = Inr ss"
  using rmap_roundtrip [OF assms] by (simp add: py_iter_or_empty_def py_iter_def)

lemma backfill_roundtrip_lemma:
  assumes "cursor_ok c"
  shows "backfill_from_json (backfill_to_json c) = Inr c"
proof (cases "bc_high_id c")
  case None
  with assms show ?thesis
    by (auto simp: cursor_ok_def backfill_from_json_def backfill_to_json_def get_field_def Let_def)
next
  case (Some h)
  with assms have ok: "bc_dialect c \<in> {dialect_item, dialect_legacy}" "0 \<le> h" "0 < bc_width c"
    "list_all stream_ok (bc_open c)"
    by (simp_all add: cursor_ok_def)
  have "py_iter_or_empty (JList (map stream_json (bc_open c))) = Inr (map stream_json (bc_open c))"
    by (simp add: py_iter_or_empty_def py_iter_def)
  with Some ok rmap_roundtrip [OF ok(4)] show ?thesis
    by (auto simp: backfill_from_json_def backfill_to_json_def get_field_def Let_def int_at_def lookup_key_def)
qed


section \<open>The walk reads everything\<close>

lemma open_from_inv:
  assumes "open_from width streams opened next_hi = Inr (opened', next_hi')"
    and "0 < width" and "1 \<le> next_hi" and "chain covered opened next_hi"
  shows "1 \<le> next_hi' \<and> next_hi' \<le> next_hi \<and> chain covered opened' next_hi' \<and>
    (\<exists>new. opened' = opened @ new \<and> chain next_hi new next_hi' \<and>
       (\<forall>s \<in> set new. stream_ok s \<and> \<not> rs_done s \<and> rs_cursor s = rs_lo s - 1)) \<and>
    (next_hi' = 1 \<or> streams \<le> int (length opened'))"
  using assms
proof (induction width streams opened next_hi rule: open_from.induct)
  case (1 width streams opened next_hi)
  show ?case
  proof (cases "int (length opened) < streams \<and> 1 < next_hi")
    case False
    with "1.prems" show ?thesis by (auto simp: open_from.simps)
  next
    case True
    define lo where "lo = max 1 (next_hi - width)"
    have lo: "1 \<le> lo" "lo < next_hi"
      using True "1.prems"(2) by (auto simp: lo_def)
    obtain s where s: "range_stream lo next_hi (lo - 1) False = Inr s"
      and rest: "open_from width streams (opened @ [s]) lo = Inr (opened', next_hi')"
      using "1.prems"(1) True
      by (subst (asm) open_from.simps) (auto simp: Let_def lo_def rbind_Inr_iff)
    have s': "rs_lo s = lo" "rs_hi s = next_hi" "stream_ok s" "\<not> rs_done s" "rs_cursor s = lo - 1"
      using s lo by (auto simp: range_stream_Inr stream_ok_def)
    have "chain covered (opened @ [s]) lo"
      using "1.prems"(4) s' lo by (auto simp: chain_append)
    note tail = "1.IH" [OF True lo_def rest "1.prems"(2) lo(1) this]
    then obtain new where new: "opened' = (opened @ [s]) @ new" "chain lo new next_hi'"
        "\<forall>s \<in> set new. stream_ok s \<and> \<not> rs_done s \<and> rs_cursor s = rs_lo s - 1"
      by blast
    have "opened' = opened @ (s # new)" "chain next_hi (s # new) next_hi'"
        "\<forall>s \<in> set (s # new). stream_ok s \<and> \<not> rs_done s \<and> rs_cursor s = rs_lo s - 1"
      using new s' lo by auto
    moreover from tail lo have "1 \<le> next_hi'" "next_hi' \<le> next_hi" "chain covered opened' next_hi'"
      "next_hi' = 1 \<or> streams \<le> int (length opened')"
      by simp_all
    ultimately show ?thesis by blast
  qed
qed

lemma open_from_total:
  assumes "0 < width"
  shows "\<exists>r. open_from width streams opened next_hi = Inr r"
  using assms
proof (induction width streams opened next_hi rule: open_from.induct)
  case (1 width streams opened next_hi)
  show ?case
  proof (cases "int (length opened) < streams \<and> 1 < next_hi")
    case False
    then show ?thesis by (subst open_from.simps) auto
  next
    case True
    define lo where "lo = max 1 (next_hi - width)"
    obtain s where s: "range_stream lo next_hi (lo - 1) False = Inr s"
      using True "1.prems" by (auto simp: range_stream_Inr lo_def)
    from "1.IH" [OF True lo_def "1.prems", of s] obtain r
      where "open_from width streams (opened @ [s]) lo = Inr r" by blast
    with s True show ?thesis
      by (subst open_from.simps) (simp add: Let_def lo_def)
  qed
qed

text \<open>Every record of \<open>T\<close> at or above \<open>covered\<close>, and every one an open range has passed, was read.\<close>

definition walk_inv :: "int set \<Rightarrow> int set \<Rightarrow> backfill_cursor \<Rightarrow> bool" where
  "walk_inv T seen c \<longleftrightarrow>
     (\<exists>h. bc_high_id c = Some h \<and> 0 < bc_width c \<and> 1 \<le> bc_next_hi c \<and> bc_covered c \<le> h + 1 \<and>
        chain (bc_covered c) (bc_open c) (bc_next_hi c) \<and>
        list_all (\<lambda>s. stream_ok s \<and> stream_read T seen s) (bc_open c) \<and>
        (\<forall>i \<in> T. bc_covered c \<le> i \<and> i \<le> h \<longrightarrow> i \<in> seen))"

lemma plan_inv:
  assumes "plan c streams = Inr c'" and "walk_inv T seen c" and pos: "\<forall>i \<in> T. 1 \<le> i"
  shows "walk_inv T seen c'"
proof -
  obtain opened next_hi where o: "open_from (bc_width c) streams (bc_open c) (bc_next_hi c) = Inr (opened, next_hi)"
    and c': "c' = c\<lparr>bc_open := opened, bc_next_hi := next_hi\<rparr>"
    using assms(1) by (auto simp: plan_def rbind_Inr_iff)
  have "0 < bc_width c" "1 \<le> bc_next_hi c" "chain (bc_covered c) (bc_open c) (bc_next_hi c)"
    using assms(2) by (auto simp: walk_inv_def)
  note inv = open_from_inv [OF o this]
  then obtain new where new: "opened = bc_open c @ new"
    "\<forall>s \<in> set new. stream_ok s \<and> \<not> rs_done s \<and> rs_cursor s = rs_lo s - 1" by blast
  have "stream_read T seen s" if "s \<in> set new" for s
    using new(2) that by (auto simp: stream_read_def)
  with inv new assms(2) show ?thesis
    by (auto simp: walk_inv_def c' list_all_iff)
qed

lemma drop_done_inv:
  assumes "drop_done covered ss = (covered', ss')" and "chain covered ss lwr"
  shows "chain covered' ss' lwr \<and> covered' \<le> covered \<and> set ss' \<subseteq> set ss \<and>
    (ss' \<noteq> [] \<longrightarrow> \<not> rs_done (hd ss')) \<and>
    (\<forall>i. covered' \<le> i \<and> i < covered \<longrightarrow> (\<exists>s \<in> set ss. rs_done s \<and> rs_lo s \<le> i \<and> i < rs_hi s))"
  using assms
proof (induction ss arbitrary: covered)
  case Nil
  then show ?case by simp
next
  case (Cons s ss)
  show ?case
  proof (cases "rs_done s")
    case True
    with Cons.prems have "drop_done (rs_lo s) ss = (covered', ss')" and "chain (rs_lo s) ss lwr" by simp_all
    note tail = Cons.IH [OF this]
    have "\<exists>t \<in> set (s # ss). rs_done t \<and> rs_lo t \<le> i \<and> i < rs_hi t" if "covered' \<le> i" "i < covered" for i
    proof (cases "rs_lo s \<le> i")
      case True
      with \<open>rs_done s\<close> Cons.prems(2) that show ?thesis by auto
    next
      case False
      with tail that show ?thesis by auto
    qed
    with tail Cons.prems(2) show ?thesis by auto
  next
    case False
    with Cons.prems show ?thesis by auto
  qed
qed

lemma chain_cong:
  "list_all2 (\<lambda>s s'. rs_lo s' = rs_lo s \<and> rs_hi s' = rs_hi s) ss ss' \<Longrightarrow> chain upr ss lwr \<Longrightarrow> chain upr ss' lwr"
  by (induction ss ss' arbitrary: upr rule: list_all2_induct) auto

lemma settle_inv:
  assumes inv: "walk_inv T seen c" and sub: "seen \<subseteq> seen'"
    and streams: "list_all2 (\<lambda>s s'. rs_lo s' = rs_lo s \<and> rs_hi s' = rs_hi s \<and> stream_ok s' \<and>
        rs_cursor s \<le> rs_cursor s' \<and> stream_read T seen' s') (bc_open c) streams"
  shows "walk_inv T seen' (settle c streams)"
proof -
  obtain covered open' where drop: "drop_done (bc_covered c) streams = (covered, open')"
    by (cases "drop_done (bc_covered c) streams") auto
  obtain h where h: "bc_high_id c = Some h" "0 < bc_width c" "1 \<le> bc_next_hi c" "bc_covered c \<le> h + 1"
    "chain (bc_covered c) (bc_open c) (bc_next_hi c)"
    and seen: "\<forall>i \<in> T. bc_covered c \<le> i \<and> i \<le> h \<longrightarrow> i \<in> seen"
    using inv by (auto simp: walk_inv_def)
  have "chain (bc_covered c) streams (bc_next_hi c)"
    by (rule chain_cong [OF _ h(5)]) (use streams in \<open>auto elim: list_all2_mono\<close>)
  note dropped = drop_done_inv [OF drop this]
  have read: "stream_ok s \<and> stream_read T seen' s" if "s \<in> set streams" for s
    using streams that by (auto simp: list_all2_conv_all_nth in_set_conv_nth)
  have "i \<in> seen'" if "i \<in> T" "covered \<le> i" "i \<le> h" for i
  proof (cases "bc_covered c \<le> i")
    case True
    with seen sub that show ?thesis by blast
  next
    case False
    with dropped that(2) obtain s where "s \<in> set streams" "rs_done s" "rs_lo s \<le> i" "i < rs_hi s"
      by (metis not_le)
    with read that(1) show ?thesis
      by (auto simp: stream_read_def)
  qed
  moreover have "list_all (\<lambda>s. stream_ok s \<and> stream_read T seen' s) open'"
    using read dropped by (auto simp: list_all_iff)
  ultimately show ?thesis
    using h dropped by (auto simp: walk_inv_def settle_def drop)
qed

text \<open>
  The cursors reachable from a head: each turn's answer is honest about the records \<open>T\<close>, those
  that exist and stay readable during the whole walk; the others may come and go.
\<close>

inductive backfill_walk ::
  "(string \<Rightarrow> (rat \<times> rat option) option) \<Rightarrow> mirror_dialect \<Rightarrow> int \<Rightarrow> int \<Rightarrow> int \<Rightarrow> int set \<Rightarrow>
   backfill_cursor \<Rightarrow> int set \<Rightarrow> bool"
  for isod d utm_max cmds h T where
  head: "0 \<le> h \<Longrightarrow> backfill_walk isod d utm_max cmds h T (headed c h n w) {}"
| turn: "backfill_walk isod d utm_max cmds h T c seen \<Longrightarrow>
    plan c cmds = Inr c1 \<Longrightarrow> range_commands d (bc_open c1) cmds False = Inr sent \<Longrightarrow>
    honest_batch d T (bc_open c1) sent (answer sent) \<Longrightarrow>
    backfill_step isod d utm_max cmds answer c = Inr (Advanced c' rows bad errors) \<Longrightarrow>
    backfill_walk isod d utm_max cmds h T c' (seen \<union> ir_id ` set rows)"

lemma headed_inv: "0 \<le> h \<Longrightarrow> walk_inv T {} (headed c h n w)"
  by (auto simp: walk_inv_def headed_def mirror_page_size_def)

lemma settle_high [simp]: "bc_high_id (settle c ss) = bc_high_id c"
  by (simp add: settle_def split: prod.split)

lemma plan_high: "plan c n = Inr c' \<Longrightarrow> bc_high_id c' = bc_high_id c"
  by (auto simp: plan_def rbind_Inr_iff)

lemma backfill_walk_inv:
  assumes "backfill_walk isod d utm_max cmds h T c seen" and "\<forall>i \<in> T. 1 \<le> i"
  shows "walk_inv T seen c \<and> bc_high_id c = Some h"
  using assms
proof (induction rule: backfill_walk.induct)
  case (head c n w)
  then show ?case by (simp add: headed_inv) (simp add: headed_def)
next
  case (turn c seen c1 sent answer c' rows bad errors)
  then have "walk_inv T seen c" and high: "bc_high_id c = Some h" by simp_all
  note inv = plan_inv [OF turn.hyps(2) this(1) turn.prems]
  from turn.hyps(2,3,5) obtain out where
    out: "apply_range_batch isod d utm_max (bc_open c1) sent (answer sent) = Inr out"
    and c': "c' = settle c1 (ro_streams out)" and rows: "rows = ro_rows out"
    by (auto simp: backfill_step_def rbind_Inr_iff split: if_splits option.splits)
  have "list_all (\<lambda>s. stream_ok s \<and> stream_read T seen s) (bc_open c1)"
    using inv by (auto simp: walk_inv_def)
  note streams = apply_range_batch_inv [OF out turn.hyps(4) this]
  show ?case
    using settle_inv [OF inv _ streams] plan_high [OF turn.hyps(2)] high by (simp add: c' rows)
qed

lemma backfill_walk_reads:
  assumes "backfill_walk isod d utm_max cmds h T c seen" and "\<forall>i \<in> T. 1 \<le> i" and "i \<in> T" and "i \<le> h"
  shows "bc_covered c \<le> i \<Longrightarrow> i \<in> seen" and "backfill_finished c \<Longrightarrow> i \<in> seen"
proof -
  have inv: "walk_inv T seen c" and high: "bc_high_id c = Some h"
    using backfill_walk_inv [OF assms(1,2)] by simp_all
  then show above: "bc_covered c \<le> i \<Longrightarrow> i \<in> seen"
    using assms(3,4) by (auto simp: walk_inv_def)
  assume "backfill_finished c"
  then have "bc_covered c \<le> 1"
    using inv by (auto simp: walk_inv_def backfill_finished_def)
  with assms(2,3) show "i \<in> seen"
    by (intro above) (meson order_trans)
qed

section \<open>The walk ends\<close>

text \<open>
  What is left: two for every id not planned yet, and one for every id an open range has not
  passed.
\<close>

definition stream_left :: "range_stream \<Rightarrow> nat" where
  "stream_left s = (if rs_done s then 0 else nat (rs_hi s - rs_cursor s))"

definition walk_left :: "backfill_cursor \<Rightarrow> nat" where
  "walk_left c = 2 * nat (bc_next_hi c) + sum_list (map stream_left (bc_open c))"

text \<open>A batch that brings every range forward: a page in order, and a full one with an id.\<close>

definition full_batch :: "mirror_dialect \<Rightarrow> range_stream list \<Rightarrow> sent \<Rightarrow> batch_result \<Rightarrow> bool" where
  "full_batch d streams sent b \<longleftrightarrow>
     (\<forall>(index, key, _) \<in> set sent. \<exists>page ids. range_page d b key = Inr page \<and> page_ids d page = Inr ids \<and>
        range_violation ids (streams ! index) = None \<and> (length page < mirror_page_size \<or> ids \<noteq> []))"

lemma open_from_left:
  assumes "open_from width streams opened next_hi = Inr (opened', next_hi')" and "0 < width" and "1 \<le> next_hi"
  shows "2 * nat next_hi' + sum_list (map stream_left opened') \<le> 2 * nat next_hi + sum_list (map stream_left opened)"
  using assms
proof (induction width streams opened next_hi rule: open_from.induct)
  case (1 width streams opened next_hi)
  show ?case
  proof (cases "int (length opened) < streams \<and> 1 < next_hi")
    case False
    with "1.prems" show ?thesis by (auto simp: open_from.simps)
  next
    case True
    define lo where "lo = max 1 (next_hi - width)"
    have lo: "1 \<le> lo" "lo < next_hi"
      using True "1.prems"(2) by (auto simp: lo_def)
    obtain s where s: "range_stream lo next_hi (lo - 1) False = Inr s"
      and rest: "open_from width streams (opened @ [s]) lo = Inr (opened', next_hi')"
      using "1.prems"(1) True
      by (subst (asm) open_from.simps) (auto simp: Let_def lo_def rbind_Inr_iff)
    have "stream_left s = nat (next_hi - lo + 1)"
      using s by (auto simp: range_stream_Inr stream_left_def)
    with "1.IH" [OF True lo_def rest "1.prems"(2) lo(1)] lo show ?thesis by simp
  qed
qed

text \<open>One page brings its stream forward.\<close>

lemma range_item_left:
  assumes item: "range_item isod d n streams b (index, key, m, p) acc = Inr acc'"
    and full: "full_batch d streams [(index, key, m, p)] b"
    and len: "length (ra_streams acc) = length streams" and ok: "stream_ok (streams ! index)"
    and "\<not> rs_done (streams ! index)"
  shows "\<exists>s'. ra_streams acc' = (ra_streams acc)[index := s'] \<and> index < length streams \<and>
    stream_left s' < stream_left (streams ! index)"
proof -
  define s where "s = streams ! index"
  have index: "index < length streams"
    using item by (auto simp: range_item_def split: if_splits)
  obtain page ids where page: "range_page d b key = Inr page" and ids: "page_ids d page = Inr ids"
    and fine: "range_violation ids s = None" and some: "length page < mirror_page_size \<or> ids \<noteq> []"
    using full by (auto simp: full_batch_def s_def)
  obtain s' where s': "range_stream (rs_lo s) (rs_hi s) (if ids = [] then rs_cursor s else last ids)
        (length page < mirror_page_size \<or> rs_hi s - 1 \<le> (if ids = [] then rs_cursor s else last ids)) = Inr s'"
    and acc': "ra_streams acc' = (ra_streams acc)[index := s']"
    using item index page ids fine unfolding s_def
    by (auto simp: range_item_def Let_def rbind_Inr_iff)
  have "rs_cursor s < last ids" if "ids \<noteq> []"
    using fine that by (auto simp: range_violation_def violation_from_None)
  with s' some assms(5) ok have "stream_left s' < stream_left s"
    by (auto simp: range_stream_Inr stream_left_def s_def [symmetric] stream_ok_def)
  with acc' index show ?thesis by (auto simp: s_def)
qed


lemma range_items_left:
  assumes "rfold (range_item isod d n streams b) sent acc = Inr acc'"
    and "full_batch d streams sent b" and "length (ra_streams acc) = length streams"
    and "distinct (map fst sent)"
    and "\<forall>(k, _) \<in> set sent. stream_ok (streams ! k) \<and> \<not> rs_done (streams ! k)"
  shows "length (ra_streams acc') = length streams \<and>
    (\<forall>k < length streams. if k \<in> fst ` set sent then stream_left (ra_streams acc' ! k) < stream_left (streams ! k)
       else ra_streams acc' ! k = ra_streams acc ! k)"
  using assms
proof (induction sent arbitrary: acc)
  case Nil
  then show ?case by simp
next
  case (Cons x sent)
  obtain index key m p where x: "x = (index, key, m, p)"
    by (cases x) auto
  from Cons.prems(1) obtain acc1 where item: "range_item isod d n streams b x acc = Inr acc1"
    and rest: "rfold (range_item isod d n streams b) sent acc1 = Inr acc'"
    by (auto simp: rbind_Inr_iff)
  have "full_batch d streams [(index, key, m, p)] b" and full: "full_batch d streams sent b"
    using Cons.prems(2) by (auto simp: full_batch_def x)
  then obtain s' where s': "ra_streams acc1 = (ra_streams acc)[index := s']" "index < length streams"
      "stream_left s' < stream_left (streams ! index)"
    using range_item_left [OF item [unfolded x]] Cons.prems(3,5) by (auto simp: x)
  have "length (ra_streams acc1) = length streams"
    using s' Cons.prems(3) by simp
  from Cons.IH [OF rest full this] Cons.prems(4,5) s' show ?case
    using Cons.prems(3) by (auto simp: x nth_list_update)
qed

lemma sum_left_less:
  assumes "length ss' = length ss" and "\<forall>k < length ss. stream_left (ss' ! k) \<le> stream_left (ss ! k)"
    and "k < length ss" and "stream_left (ss' ! k) < stream_left (ss ! k)"
  shows "sum_list (map stream_left ss') < sum_list (map stream_left ss)"
proof -
  have "(\<Sum>i = 0..<length ss. stream_left (ss' ! i)) < (\<Sum>i = 0..<length ss. stream_left (ss ! i))"
    using assms(2-4) by (intro sum_strict_mono_ex1) auto
  then show ?thesis
    using assms(1) by (simp add: sum_list_sum_nth)
qed

lemma drop_done_left:
  "drop_done covered ss = (covered', ss') \<Longrightarrow> sum_list (map stream_left ss') = sum_list (map stream_left ss)"
  by (induction ss arbitrary: covered) (auto split: if_splits simp: stream_left_def)

text \<open>Between turns the first open range is not done.\<close>

definition settled :: "backfill_cursor \<Rightarrow> bool" where
  "settled c \<longleftrightarrow> bc_open c \<noteq> [] \<longrightarrow> \<not> rs_done (hd (bc_open c))"

lemma settle_settled: "settled (settle c streams)"
proof -
  have "ss' \<noteq> [] \<longrightarrow> \<not> rs_done (hd ss')" if "drop_done covered streams = (covered', ss')" for covered covered' ss'
    using that by (induction streams arbitrary: covered) (auto split: if_splits)
  then show ?thesis
    by (auto simp: settled_def settle_def split: prod.split)
qed

text \<open>A portal whose every answer to such a batch is readable and full.\<close>

definition good_answers ::
  "(string \<Rightarrow> (rat \<times> rat option) option) \<Rightarrow> mirror_dialect \<Rightarrow> int \<Rightarrow> (sent \<Rightarrow> batch_result) \<Rightarrow> bool" where
  "good_answers isod d cmds answer \<longleftrightarrow>
     (\<forall>streams sent. list_all stream_ok streams \<longrightarrow> range_commands d streams cmds False = Inr sent \<longrightarrow>
        full_batch d streams sent (answer sent) \<and> readable_batch d (answer sent) \<and>
        (\<exists>t. merge_time_blocks isod (batch_time (answer sent) # map cmd_time (commands (answer sent))) = Inr t))"

lemma backfill_step_left:
  assumes inv: "walk_inv T seen c" and pos: "\<forall>i \<in> T. 1 \<le> i" and "settled c"
    and "\<not> backfill_finished c" and d: "d \<in> set mirror_dialects"
    and cmds: "1 \<le> cmds" "cmds \<le> int max_batch_commands" and good: "good_answers isod d cmds answer"
  shows "\<exists>c' rows bad errors. backfill_step isod d n cmds answer c = Inr (Advanced c' rows bad errors) \<and>
    walk_left c' < walk_left c \<and> settled c'"
proof -
  have width: "0 < bc_width c" "1 \<le> bc_next_hi c" and head: "bc_high_id c \<noteq> None"
    using inv by (auto simp: walk_inv_def)
  obtain opened next_hi where o: "open_from (bc_width c) cmds (bc_open c) (bc_next_hi c) = Inr (opened, next_hi)"
    using open_from_total [OF width(1)] by fastforce
  define c1 where "c1 = c\<lparr>bc_open := opened, bc_next_hi := next_hi\<rparr>"
  have plan: "plan c cmds = Inr c1"
    using o by (simp add: plan_def c1_def)
  have "chain (bc_covered c) (bc_open c) (bc_next_hi c)"
    using inv by (auto simp: walk_inv_def)
  note open_inv = open_from_inv [OF o width this]
  then obtain new where new: "opened = bc_open c @ new"
    "\<forall>s \<in> set new. stream_ok s \<and> \<not> rs_done s \<and> rs_cursor s = rs_lo s - 1" by blast
  have ok: "list_all stream_ok opened"
    using plan_inv [OF plan inv pos] by (auto simp: walk_inv_def c1_def list_all_iff)
  have "opened \<noteq> []"
  proof
    assume none: "opened = []"
    with open_inv cmds have "next_hi = 1" by auto
    moreover have "bc_open c = []" and "chain (bc_next_hi c) new next_hi" and "new = []"
      using none new open_inv by auto
    ultimately show False
      using assms(4) head by (auto simp: backfill_finished_def)
  qed
  then have "\<not> rs_done (hd opened)"
    using new assms(3) by (cases "bc_open c") (auto simp: settled_def)
  with \<open>opened \<noteq> []\<close> have some: "\<exists>s \<in> set opened. \<not> rs_done s"
    by (cases opened) auto
  obtain sent where sent: "range_commands d opened cmds False = Inr sent"
    using commands_from_total [OF d ok] cmds by (fastforce simp: range_commands_def)
  then have from_open: "commands_from d False 0 (nat cmds) opened = Inr sent"
    by (auto simp: range_commands_def split: if_splits)
  note what = commands_from_sent [OF this]
  have idx: "\<forall>(k, _) \<in> set sent. k < length opened \<and> stream_ok (opened ! k) \<and> \<not> rs_done (opened ! k)"
    using what ok by (fastforce simp: list_all_length)
  have full: "full_batch d opened sent (answer sent)" and readable: "readable_batch d (answer sent)"
    and time: "\<exists>t. merge_time_blocks isod (batch_time (answer sent) # map cmd_time (commands (answer sent))) = Inr t"
    using good ok sent by (auto simp: good_answers_def)
  obtain out where out: "apply_range_batch isod d n opened sent (answer sent) = Inr out"
    using apply_range_batch_total [OF d readable ok _ time] idx by fastforce
  have "ro_violation out = None"
    using apply_range_batch_violation(1) [OF out] full
    by (fastforce simp: page_violates_def full_batch_def)
  moreover from out obtain acc where fold: "rfold (range_item isod d n opened (answer sent)) sent
      \<lparr>ra_streams = opened, ra_rows = [], ra_rejected = [], ra_errors = [], ra_violation = None\<rparr> = Inr acc"
    and acc: "ro_streams out = (if ra_violation acc \<noteq> None then opened else ra_streams acc)"
      "ro_violation out = ra_violation acc" "ro_errors out = ra_errors acc"
    by (auto simp: apply_range_batch_def rbind_Inr_iff)
  ultimately have streams: "ro_streams out = ra_streams acc" by simp
  have "distinct (map fst sent)"
    using what by (simp add: strict_sorted_iff)
  with full idx have less: "length (ra_streams acc) = length opened \<and>
    (\<forall>k < length opened. if k \<in> fst ` set sent then stream_left (ra_streams acc ! k) < stream_left (opened ! k)
       else ra_streams acc ! k = opened ! k)"
    using range_items_left [OF fold full] by fastforce
  define k where "k = fst (hd sent)"
  have "hd sent \<in> set sent"
    using what some by simp
  then have "k \<in> fst ` set sent" and "k < length opened"
    using idx by (auto simp: k_def)
  then have "sum_list (map stream_left (ra_streams acc)) < sum_list (map stream_left opened)"
    using less by (intro sum_left_less [of _ _ k]) (auto split: if_splits)
  moreover have "2 * nat next_hi + sum_list (map stream_left opened) \<le> walk_left c"
    using open_from_left [OF o width] by (simp add: walk_left_def)
  moreover have "walk_left (settle c1 (ra_streams acc)) = 2 * nat next_hi + sum_list (map stream_left (ra_streams acc))"
    using drop_done_left [of "bc_covered c1" "ra_streams acc"]
    by (auto simp: walk_left_def settle_def c1_def split: prod.split)
  ultimately have "walk_left (settle c1 (ra_streams acc)) < walk_left c" by simp
  moreover have "backfill_step isod d n cmds answer c =
      Inr (Advanced (settle c1 (ra_streams acc)) (ro_rows out) (ro_rejected out) (ro_errors out))"
    using plan sent out \<open>opened \<noteq> []\<close> \<open>ro_violation out = None\<close> streams what some
    by (auto simp: backfill_step_def c1_def)
  ultimately show ?thesis
    using settle_settled by auto
qed

text \<open>The loop over the turns, each with the portal's answers of its moment.\<close>

fun backfill_turns ::
  "(string \<Rightarrow> (rat \<times> rat option) option) \<Rightarrow> mirror_dialect \<Rightarrow> int \<Rightarrow> int \<Rightarrow> (nat \<Rightarrow> sent \<Rightarrow> batch_result) \<Rightarrow>
   nat \<Rightarrow> backfill_cursor \<Rightarrow> (py_error, backfill_cursor) result" where
  "backfill_turns isod d utm_max cmds answers 0 c = Inr c"
| "backfill_turns isod d utm_max cmds answers (Suc n) c =
     (if backfill_finished c then Inr c
      else rbind (backfill_step isod d utm_max cmds (answers n) c) (\<lambda>turn.
        case turn of
          Advanced c' _ _ _ \<Rightarrow> backfill_turns isod d utm_max cmds answers n c'
        | Nothing c' \<Rightarrow> Inr c'
        | Parked _ \<Rightarrow> Inr c))"

lemma backfill_step_inv:
  assumes "walk_inv {} {} c" and "backfill_step isod d n cmds answer c = Inr (Advanced c' rows bad errors)"
  shows "walk_inv {} {} c'"
proof -
  obtain c1 sent out where plan: "plan c cmds = Inr c1"
    and out: "apply_range_batch isod d n (bc_open c1) sent (answer sent) = Inr out"
    and c': "c' = settle c1 (ro_streams out)"
    using assms(2) by (auto simp: backfill_step_def rbind_Inr_iff split: if_splits option.splits)
  have inv: "walk_inv {} {} c1"
    by (rule plan_inv [OF plan assms(1)]) simp
  then have "list_all (\<lambda>s. stream_ok s \<and> stream_read {} {} s) (bc_open c1)"
    by (auto simp: walk_inv_def)
  moreover have "honest_batch d {} (bc_open c1) sent (answer sent)"
    by (auto simp: honest_batch_def honest_page_def)
  ultimately have streams: "list_all2 (\<lambda>s s'. rs_lo s' = rs_lo s \<and> rs_hi s' = rs_hi s \<and> stream_ok s' \<and>
        rs_cursor s \<le> rs_cursor s' \<and> stream_read {} ({} \<union> ir_id ` set (ro_rows out)) s')
      (bc_open c1) (ro_streams out)"
    using apply_range_batch_inv [OF out, of "{}" "{}"] by blast
  have "walk_inv {} {} (settle c1 (ro_streams out))"
    by (rule settle_inv [OF inv]) (use streams in \<open>auto simp: stream_read_def elim: list_all2_mono\<close>)
  then show ?thesis by (simp add: c')
qed

lemma backfill_turns_finish:
  assumes "walk_inv {} {} c" and "settled c" and "d \<in> set mirror_dialects"
    and "1 \<le> cmds" and "cmds \<le> int max_batch_commands" and "\<forall>k. good_answers isod d cmds (answers k)"
    and "walk_left c \<le> m"
  shows "\<exists>c'. backfill_turns isod d utm_max cmds answers m c = Inr c' \<and> backfill_finished c'"
  using assms
proof (induction m arbitrary: c)
  case 0
  then have "bc_next_hi c \<le> 0" and "walk_inv {} {} c" by (simp_all add: walk_left_def)
  then show ?case by (auto simp: walk_inv_def)
next
  case (Suc m)
  show ?case
  proof (cases "backfill_finished c")
    case True
    then show ?thesis by simp
  next
    case False
    obtain c' rows bad errors where
      step: "backfill_step isod d utm_max cmds (answers m) c = Inr (Advanced c' rows bad errors)"
      and less: "walk_left c' < walk_left c" and settled: "settled c'"
      using backfill_step_left [OF Suc.prems(1) _ Suc.prems(2) False Suc.prems(3-5), of isod "answers m" utm_max]
        Suc.prems(6) by auto
    have "\<exists>c''. backfill_turns isod d utm_max cmds answers m c' = Inr c'' \<and> backfill_finished c''"
      using Suc.IH [OF backfill_step_inv [OF Suc.prems(1) step] settled Suc.prems(3-6)] less Suc.prems(7)
      by simp
    with step False show ?thesis by simp
  qed
qed

section \<open>A table that answers\<close>

text \<open>
  A portal holding the deals of a list of ids, as \<open>crm.item.list\<close> documents its answer to a
  keyset page: the first fifty ids inside the filter's window, ascending.
\<close>

definition table_rows :: "int list \<Rightarrow> int \<Rightarrow> int \<Rightarrow> json list" where
  "table_rows ids start bnd =
     map (\<lambda>i. JDict [(''id'', JInt i)])
       (take mirror_page_size (filter (\<lambda>i. start < i \<and> i < bnd) (sorted_ids ids)))"

definition json_int :: "json \<Rightarrow> int" where
  "json_int v = (case v of JInt i \<Rightarrow> i | _ \<Rightarrow> 0)"

definition table_answer :: "int list \<Rightarrow> sent \<Rightarrow> batch_result" where
  "table_answer ids sent =
     \<lparr>commands = map (\<lambda>(_, key, _, params).
        (let window = dict_or_empty (get_field params ''filter'')
         in \<lparr>cmd_key = key,
             cmd_result = JDict [(''items'', JList (table_rows ids
               (json_int (get_field window ''>id'')) (json_int (get_field window ''<id''))))],
             cmd_error = None, cmd_time = None, cmd_next = None, cmd_total = None\<rparr>)) sent,
      batch_time = None\<rparr>"

lemma keyset_window:
  assumes "keyset_command deal_item key start (Some bnd) None False = Inr (key', m, params)"
  shows "key' = key" and "get_field params ''filter'' = JDict [(''>id'', JInt start), (''<id'', JInt bnd)]"
  using assms
  by (auto simp: keyset_command_def list_command_def filter_op_def wire_at_def id_field_def lookup_key_def
      mirror_dialect_defs base_params_def get_field_def rbind_Inr_iff split: if_splits)

lemma range_key_inj [simp]: "range_key i = range_key j \<longleftrightarrow> i = j"
  by (simp add: range_key_def)

lemma table_page:
  assumes "range_commands deal_item streams n False = Inr sent" and "(k, key, m, params) \<in> set sent"
  shows "range_page deal_item (table_answer ids sent) key =
    Inr (table_rows ids (rs_cursor (streams ! k)) (rs_hi (streams ! k)))"
proof -
  from assms(1) have "commands_from deal_item False 0 (nat n) streams = Inr sent"
    by (auto simp: range_commands_def split: if_splits)
  note what = commands_from_sent [OF this]
  have keys: "c = (range_key j, fst (snd c), snd (snd c)) \<and>
      get_field (snd (snd c)) ''filter'' = JDict [(''>id'', JInt (rs_cursor (streams ! j))), (''<id'', JInt (rs_hi (streams ! j)))]"
    if "(j, c) \<in> set sent" for j c
  proof -
    obtain key m params where c: "c = (key, m, params)" by (cases c) auto
    have "keyset_command deal_item (range_key j) (rs_cursor (streams ! j)) (Some (rs_hi (streams ! j))) None False = Inr c"
      using what that by fastforce
    from keyset_window [OF this [unfolded c]] show ?thesis by (simp add: c)
  qed
  define result where "result = (\<lambda>c :: nat \<times> command. \<lparr>cmd_key = range_key (fst c),
    cmd_result = JDict [(''items'', JList (table_rows ids (rs_cursor (streams ! fst c)) (rs_hi (streams ! fst c))))],
    cmd_error = None :: bitrix_error option, cmd_time = None, cmd_next = None, cmd_total = None\<rparr>)"
  have "commands (table_answer ids sent) = map result sent"
    using keys by (fastforce simp: table_answer_def result_def Let_def dict_or_empty_def get_field_def json_int_def)
  then have "command_by_key (table_answer ids sent) key = map_of (rev (map (\<lambda>x. (range_key (fst x), result x)) sent)) key"
    by (simp add: command_by_key_def o_def result_def)
  also have "\<dots> = Some (result (k, key, m, params))"
  proof (rule map_of_is_SomeI)
    show "distinct (map fst (rev (map (\<lambda>x. (range_key (fst x), result x)) sent)))"
      using what by (simp add: rev_map [symmetric] o_def strict_sorted_iff distinct_map inj_on_def)
    show "(key, result (k, key, m, params)) \<in> set (rev (map (\<lambda>x. (range_key (fst x), result x)) sent))"
      using keys [OF assms(2)] assms(2) by force
  qed
  finally show ?thesis
    by (simp add: range_page_def result_def mirror_page_rows_def get_field_def deal_item_def)
qed


lemma table_row_id: "0 < i \<Longrightarrow> row_id deal_item (JDict [(''id'', JInt i)]) = Inr (Some i)"
  by (simp add: row_id_def id_field_def wire_at_def lookup_key_def mirror_dialect_defs get_field_def
      positive_def)

lemma table_page_ids:
  assumes "\<forall>i \<in> set ids. 0 < i"
  shows "page_ids deal_item (table_rows ids start bnd) =
    Inr (take mirror_page_size (filter (\<lambda>i. start < i \<and> i < bnd) (sorted_ids ids)))"
proof -
  have rows: "rmap (row_id deal_item) (map (\<lambda>i. JDict [(''id'', JInt i)]) xs) = Inr (map Some xs)"
    if "\<forall>i \<in> set xs. 0 < i" for xs
    using that by (induction xs) (simp_all add: table_row_id)
  have filt: "List.map_filter id (map Some xs) = xs" for xs :: "int list"
    by (induction xs) simp_all
  have "\<forall>i \<in> set (take mirror_page_size (filter (\<lambda>i. start < i \<and> i < bnd) (sorted_ids ids))). 0 < i"
    using assms by (auto dest!: in_set_takeD)
  from rows [OF this] show ?thesis
    by (simp add: page_ids_def table_rows_def filt)
qed

text \<open>A sorted list cut after fifty: what is not above its last element is on it.\<close>

lemma in_take_sorted:
  assumes "sorted_wrt (<) (xs :: int list)" and "i \<in> set xs"
    and "length (take n xs) < n \<or> (\<exists>j \<in> set (take n xs). i \<le> j)"
  shows "i \<in> set (take n xs)"
proof (cases "length xs \<le> n")
  case True
  with assms(2) show ?thesis by simp
next
  case False
  with assms(3) obtain j where j: "j \<in> set (take n xs)" "i \<le> j" by auto
  have xs: "sorted_wrt (<) (take n xs @ drop n xs)" using assms(1) by simp
  show ?thesis
  proof (rule ccontr)
    assume "i \<notin> set (take n xs)"
    then have "i \<in> set (drop n xs)"
      using assms(2) by (metis UnE append_take_drop_id set_append)
    with xs j have "j < i" by (simp only: sorted_wrt_append)
    with j(2) show False by simp
  qed
qed

lemma table_batch:
  assumes pos: "\<forall>i \<in> set ids. 0 < i" and sent: "range_commands deal_item streams n False = Inr sent"
    and ok: "list_all stream_ok streams"
  shows "full_batch deal_item streams sent (table_answer ids sent)"
    and "honest_batch deal_item (set ids) streams sent (table_answer ids sent)"
proof -
  from sent have "commands_from deal_item False 0 (nat n) streams = Inr sent"
    by (auto simp: range_commands_def split: if_splits)
  note what = commands_from_sent [OF this]
  have each: "honest_page deal_item (set ids) (rs_cursor s) (rs_hi s) (table_rows ids (rs_cursor s) (rs_hi s)) \<and>
      (\<exists>xs. page_ids deal_item (table_rows ids (rs_cursor s) (rs_hi s)) = Inr xs \<and> range_violation xs s = None \<and>
         (length (table_rows ids (rs_cursor s) (rs_hi s)) < mirror_page_size \<or> xs \<noteq> []))"
    if "stream_ok s" for s
  proof -
    let ?w = "filter (\<lambda>i. rs_cursor s < i \<and> i < rs_hi s) (sorted_ids ids)"
    let ?xs = "take mirror_page_size ?w"
    have len: "length (table_rows ids (rs_cursor s) (rs_hi s)) = length ?xs"
      by (simp add: table_rows_def)
    have asc: "sorted_wrt (<) ?w"
      by (rule sorted_wrt_filter [OF sorted_ids_strict])
    have "range_violation ?xs s = None"
      using that sorted_wrt_take [OF asc, of mirror_page_size]
      by (auto simp: range_violation_def violation_from_None stream_ok_def dest!: in_set_takeD)
    moreover have "honest_page deal_item (set ids) (rs_cursor s) (rs_hi s) (table_rows ids (rs_cursor s) (rs_hi s))"
      using in_take_sorted [OF asc, of _ mirror_page_size]
      by (auto simp: honest_page_def table_page_ids [OF pos] len)
    moreover have "length ?xs < mirror_page_size \<or> ?xs \<noteq> []"
      by (cases ?xs) (auto simp: mirror_page_size_def)
    ultimately show ?thesis
      by (auto simp: table_page_ids [OF pos] len)
  qed
  have stream: "stream_ok (streams ! k)" if "(k, c) \<in> set sent" for k c
    using what that ok by (fastforce simp: list_all_length)
  show "full_batch deal_item streams sent (table_answer ids sent)"
    using table_page [OF sent] each [OF stream] by (fastforce simp: full_batch_def)
  show "honest_batch deal_item (set ids) streams sent (table_answer ids sent)"
    using table_page [OF sent] each [OF stream] by (fastforce simp: honest_batch_def)
qed

lemma table_good:
  assumes pos: "\<forall>i \<in> set ids. 0 < i"
  shows "good_answers isod deal_item n (table_answer ids)"
proof -
  have "readable_row deal_item (JDict [(''id'', JInt i)])" for i
    by (simp add: readable_row_def readable_ids_def readable_int_def readable_amount_def mirror_field_def
        mirror_dialect_defs get_field_def parse_money_def)
  then have "readable_batch deal_item (table_answer ids sent)" for sent
    by (auto simp: readable_batch_def table_answer_def Let_def mirror_page_rows_def get_field_def deal_item_def
        table_rows_def list_all_iff dest!: in_set_takeD)
  moreover have "\<exists>t. merge_time_blocks isod (batch_time (table_answer ids sent)
      # map cmd_time (commands (table_answer ids sent))) = Inr t" for sent
  proof -
    have "rfold (merge_step isod) (map cmd_time (commands (table_answer ids sent))) st = Inr st" for st
      by (induction sent) (auto simp: table_answer_def merge_step_def Let_def)
    then show ?thesis
      by (simp add: merge_time_blocks_def table_answer_def merge_step_def)
  qed
  ultimately show ?thesis
    using table_batch(1) [OF pos] by (auto simp: good_answers_def)
qed

end
