(* ===== verification/Crm_Properties.thy ===== *)
theory Crm_Properties
  imports Crm_Backfill
begin

text \<open>What the CRM mirror's readers promise: the walk over an entity's history.\<close>

section \<open>The newest-first walk\<close>

definition demo_head :: backfill_cursor where
  "demo_head = headed (fresh_backfill dialect_item) 7 20 20000"

definition demo_turn :: "(py_error, backfill_turn) result" where
  "demo_turn = backfill_step (\<lambda>_. None) deal_item 255 20 (table_answer [7, 3]) demo_head"

definition demo_end :: backfill_cursor where
  "demo_end = \<lparr>bc_dialect = dialect_item, bc_high_id = Some 7, bc_width = 50, bc_next_hi = 1,
     bc_covered = 1, bc_open = []\<rparr>"

lemma demo_plan:
  "(case plan demo_head 20 of Inr c \<Rightarrow> bc_open c = [\<lparr>rs_lo = 1, rs_hi = 8, rs_cursor = 0, rs_done = False\<rparr>] | Inl _ \<Rightarrow> False)"
  by code_simp

lemma demo_turn_rows:
  "(case demo_turn of Inr (Advanced c rows bad errors) \<Rightarrow> c = demo_end \<and> map ir_id rows = [3, 7] | _ \<Rightarrow> False)"
  by code_simp

lemma demo_walk: "backfill_walk (\<lambda>_. None) deal_item 255 20 7 {3, 7} demo_end {3, 7}"
proof -
  obtain c1 where c1: "plan demo_head 20 = Inr c1"
    "bc_open c1 = [\<lparr>rs_lo = 1, rs_hi = 8, rs_cursor = 0, rs_done = False\<rparr>]"
    using demo_plan by (auto split: sum.splits)
  have ok: "list_all stream_ok (bc_open c1)"
    by (simp add: c1 stream_ok_def)
  obtain sent where sent: "range_commands deal_item (bc_open c1) 20 False = Inr sent"
    using commands_from_total [of deal_item "bc_open c1"] ok
    by (fastforce simp: range_commands_def mirror_dialects_def max_batch_commands_def)
  obtain rows bad errors where turn: "demo_turn = Inr (Advanced demo_end rows bad errors)"
    and ids: "map ir_id rows = [3, 7]"
    using demo_turn_rows by (auto split: sum.splits backfill_turn.splits)
  have "honest_batch deal_item {3, 7} (bc_open c1) sent (table_answer [7, 3] sent)"
    using table_batch(2) [OF _ sent ok, of "[7, 3]"] by (simp add: insert_commute)
  moreover have "backfill_walk (\<lambda>_. None) deal_item 255 20 7 {3, 7} demo_head {}"
    by (simp add: demo_head_def backfill_walk.head)
  ultimately have "backfill_walk (\<lambda>_. None) deal_item 255 20 7 {3, 7} demo_end ({} \<union> ir_id ` set rows)"
    using c1(1) sent turn unfolding demo_turn_def by (intro backfill_walk.turn)
  moreover have "ir_id ` set rows = {3, 7}"
    using arg_cong [OF ids, of set] by simp
  ultimately show ?thesis by simp
qed

text \<open>
  C3 The backfill reads every record. Whatever the pages bring, a record that exists and stays
  readable during the walk has been handed to the store once the cursor's contiguous claim
  reaches it, and every such record once the walk is finished; records created or deleted
  meanwhile and commands that fail do not matter.
\<close>

theorem crm_backfill_reads_all:
  assumes "backfill_walk isod d utm_max cmds h T c seen"
    and "\<forall>i \<in> T. 1 \<le> i" and "i \<in> T" and "i \<le> h"
    and "bc_covered c \<le> i \<or> backfill_finished c"
  shows "i \<in> seen"
  using backfill_walk_reads [OF assms(1-4)] assms(5) by blast

theorem crm_backfill_reads_all_witness: "(3::int) \<in> {3, 7} \<and> backfill_finished demo_end"
proof -
  have "backfill_finished demo_end"
    by (simp add: backfill_finished_def demo_end_def)
  with crm_backfill_reads_all [OF demo_walk, of 3] show ?thesis
    by simp
qed

text \<open>
  C4 The backfill ends. On a portal that answers every page in order, and whose full pages carry
  an id, the walk over the ids up to \<open>h\<close> is finished after at most two turns for each id,
  with no range left open; no cursor repeats for ever.
\<close>

theorem crm_backfill_ends:
  assumes "0 \<le> h" and "d \<in> set mirror_dialects" and "1 \<le> cmds" and "cmds \<le> int max_batch_commands"
    and "\<forall>k. good_answers isod d cmds (answers k)" and "2 * nat (h + 1) \<le> turns"
  shows "\<exists>c. backfill_turns isod d utm_max cmds answers turns (headed c0 h cmds w) = Inr c \<and>
    backfill_finished c"
proof (rule backfill_turns_finish)
  show "walk_inv {} {} (headed c0 h cmds w)"
    using assms(1) by (rule headed_inv)
  show "walk_left (headed c0 h cmds w) \<le> turns"
    using assms(6) by (simp add: walk_left_def headed_def)
qed (use assms(2-5) in \<open>simp_all add: settled_def headed_def\<close>)

theorem crm_backfill_ends_witness:
  "\<exists>c. backfill_turns (\<lambda>_. None) deal_item 255 20 (\<lambda>_. table_answer [7, 3]) 16 demo_head = Inr c \<and>
    backfill_finished c"
  unfolding demo_head_def
  by (rule crm_backfill_ends)
     (simp_all add: mirror_dialects_def max_batch_commands_def table_good)

text \<open>
  One page out of order neuters the batch. The batch reports a violation exactly when some
  answered page holds an id outside its range, not above its cursor, or not above the id before
  it; then no cursor moves.
\<close>

theorem crm_violation_neuters:
  assumes "apply_range_batch isod d utm_max streams sent b = Inr out"
  shows "(ro_violation out \<noteq> None \<longleftrightarrow>
      (\<exists>(index, key, rest) \<in> set sent. \<exists>page ids. range_page d b key = Inr page \<and> page_ids d page = Inr ids \<and>
        \<not> (sorted_wrt (<) (rs_cursor (streams ! index) # ids) \<and>
           (\<forall>i \<in> set ids. rs_lo (streams ! index) \<le> i \<and> i < rs_hi (streams ! index))))) \<and>
    (ro_violation out \<noteq> None \<longrightarrow> ro_streams out = streams)"
proof -
  have "(\<exists>x \<in> set sent. page_violates d b streams x) \<longleftrightarrow>
    (\<exists>(index, key, rest) \<in> set sent. \<exists>page ids. range_page d b key = Inr page \<and> page_ids d page = Inr ids \<and>
        \<not> (sorted_wrt (<) (rs_cursor (streams ! index) # ids) \<and>
           (\<forall>i \<in> set ids. rs_lo (streams ! index) \<le> i \<and> i < rs_hi (streams ! index))))"
    unfolding page_violates_def range_violation_def
    by (rule bex_cong [OF refl]) (clarsimp simp only: violation_from_None split: prod.splits)
  with apply_range_batch_violation [OF assms] show ?thesis by simp
qed

definition backward_page :: batch_result where
  "backward_page = \<lparr>commands = [\<lparr>cmd_key = ''r0'',
     cmd_result = JDict [(''items'', JList [JDict [(''id'', JInt 4)], JDict [(''id'', JInt 4)]])],
     cmd_error = None, cmd_time = None, cmd_next = None, cmd_total = None\<rparr>], batch_time = None\<rparr>"

definition demo_stream :: range_stream where
  "demo_stream = \<lparr>rs_lo = 1, rs_hi = 9, rs_cursor = 2, rs_done = False\<rparr>"

lemma backward_page_run:
  "(case apply_range_batch (\<lambda>_. None) deal_item 255 [demo_stream] [(0, ''r0'', ''m'', [])] backward_page of
      Inr out \<Rightarrow> ro_violation out \<noteq> None | Inl _ \<Rightarrow> False)"
  by code_simp

theorem crm_violation_neuters_witness:
  "case apply_range_batch (\<lambda>_. None) deal_item 255 [demo_stream] [(0, ''r0'', ''m'', [])] backward_page of
     Inr out \<Rightarrow> ro_violation out \<noteq> None \<and> ro_streams out = [demo_stream] | Inl _ \<Rightarrow> False"
proof -
  obtain out where out: "apply_range_batch (\<lambda>_. None) deal_item 255 [demo_stream] [(0, ''r0'', ''m'', [])] backward_page = Inr out"
    and bad: "ro_violation out \<noteq> None"
    using backward_page_run by (auto split: sum.splits)
  from crm_violation_neuters [OF out] bad show ?thesis
    by (simp add: out)
qed

lemma walk_high: "backfill_walk isod d utm_max cmds h T c seen \<Longrightarrow> 0 \<le> h"
  by (induction rule: backfill_walk.induct) simp_all

text \<open>
  The stored cursor comes back. Every cursor the walk reaches is read from its JSON exactly as
  it was written, so a visit that starts from the stored one goes on where the last one ended.
\<close>

theorem backfill_cursor_roundtrip:
  assumes "backfill_walk isod d utm_max cmds h T c seen" and "\<forall>i \<in> T. 1 \<le> i"
    and "bc_dialect c = dialect_item \<or> bc_dialect c = dialect_legacy"
  shows "backfill_from_json (backfill_to_json c) = Inr c"
proof (rule backfill_roundtrip_lemma)
  show "cursor_ok c"
    using backfill_walk_inv [OF assms(1,2)] walk_high [OF assms(1)] assms(3)
    by (auto simp: cursor_ok_def walk_inv_def list_all_iff)
qed

theorem backfill_cursor_roundtrip_witness: "backfill_from_json (backfill_to_json demo_end) = Inr demo_end"
  by (rule backfill_cursor_roundtrip [OF demo_walk]) (simp_all add: demo_end_def)

definition stuck_cursor :: backfill_cursor where
  "stuck_cursor = \<lparr>bc_dialect = dialect_item, bc_high_id = Some 50, bc_width = 50, bc_next_hi = 1,
     bc_covered = 51, bc_open = [\<lparr>rs_lo = 1, rs_hi = 51, rs_cursor = 50, rs_done = False\<rparr>]\<rparr>"

text \<open>
  A stored range that has passed its last id but is not marked done is accepted by
  \<open>from_json\<close> and then makes every visit raise: the page after it is a range with no ids, which
  the command builder refuses. The module says such a hand-edited cursor restarts the walk.
\<close>

theorem stored_cursor_can_raise:
  "backfill_from_json (backfill_to_json stuck_cursor) = Inr stuck_cursor \<and>
   backfill_step isod deal_item utm_max 20 answer stuck_cursor = Inl ValueError"
proof
  show "backfill_from_json (backfill_to_json stuck_cursor) = Inr stuck_cursor"
    by code_simp
  have "plan stuck_cursor 20 = Inr stuck_cursor"
    by (simp add: plan_def stuck_cursor_def open_from.simps)
  moreover have "filter_op deal_item ''>'' ''id'' = Inr ''>id''"
    by (simp add: filter_op_def wire_at_def lookup_key_def mirror_dialect_defs)
  then have "range_commands deal_item (bc_open stuck_cursor) 20 False = Inl ValueError"
    by (simp add: range_commands_def max_batch_commands_def stuck_cursor_def keyset_command_def)
  ultimately show "backfill_step isod deal_item utm_max 20 answer stuck_cursor = Inl ValueError"
    by (simp add: backfill_step_def) (simp add: stuck_cursor_def)
qed

section \<open>Rows\<close>

text \<open>
  C40 The parser never drops a record for one odd value. A row whose numbers can be converted is
  stored as soon as it carries a positive id; its contacts are distinct positive ids, its
  outcome is one of three letters and its five tags keep the length the database column allows.
\<close>

theorem item_row_well_typed:
  assumes "d \<in> set mirror_dialects" and "readable_row d v" and "row_id d v = Inr (Some i)" and "0 \<le> n"
  shows "\<exists>row. parse_item isod d n v = Inr (Inr row) \<and> ir_id row = i \<and> 0 < i \<and>
    ir_entity_type_id row = md_entity_type_id d \<and>
    distinct (ir_contact_ids row) \<and> (\<forall>c \<in> set (ir_contact_ids row). 0 < c) \<and>
    ir_stage_semantic row \<in> {''S'', ''F'', ''P''} \<and>
    length (ir_utm row) = 5 \<and> (\<forall>tag \<in> set (ir_utm row). int (length tag) \<le> n)"
proof -
  obtain row where row: "parse_item isod d n v = Inr (Inr row)" and i: "ir_id row = i"
    "ir_entity_type_id row = md_entity_type_id d"
    using parse_item_accepts(2) [OF assms(1,2,3)] by blast
  from item_row_shape [OF row assms(4)] row i parse_item_row(2) [OF row] show ?thesis
    by blast
qed

definition odd_row :: json where
  "odd_row = JDict [(''id'', JStr ''17''), (''stageSemanticId'', JStr ''won''),
     (''contactIds'', JList [JInt 5, JStr ''x'', JInt 5, JInt (-1)]), (''createdTime'', JStr ''yesterday''),
     (''opportunity'', JStr ''a lot'')]"

theorem item_row_well_typed_witness:
  "\<exists>row. parse_item (\<lambda>_. None) deal_item 255 odd_row = Inr (Inr row) \<and> ir_id row = 17"
proof -
  have "readable_row deal_item odd_row" and "row_id deal_item odd_row = Inr (Some 17)"
    by code_simp+
  with item_row_well_typed [of deal_item odd_row 17 255 "\<lambda>_. None"] show ?thesis
    by (auto simp: mirror_dialects_def)
qed

definition huge_row :: json where
  "huge_row = JDict [(''id'', JInt 17), (''opportunity'', JStr ''1E+26'')]"

lemma huge_amount: "parse_money (JStr ''1E+26'') = Inl InvalidOperation"
  by code_simp

lemma read_page_raises:
  assumes "parse_item isod d n raw = Inl e" and "raw \<in> set page"
  shows "read_mirror_page isod d n page \<noteq> Inr r"
  using assms(2)
proof (induction page arbitrary: r)
  case Nil
  then show ?case by simp
next
  case (Cons x page)
  show ?case
  proof (cases "raw = x")
    case True
    with assms(1) show ?thesis by simp
  next
    case False
    with Cons show ?thesis
      by (auto simp: rbind_Inr_iff split: sum.splits)
  qed
qed

text \<open>
  An amount too large for the decimal context is not emptied but raises: the rounding to cents
  stands outside the parser's \<open>try\<close>, so one such row makes the whole page, and the batch it is
  in, raise \<open>InvalidOperation\<close>.
\<close>

theorem huge_amount_raises:
  "parse_item isod deal_item n huge_row = Inl InvalidOperation \<and>
   read_mirror_page isod deal_item n (page @ huge_row # rest) \<noteq> Inr r"
proof -
  have "parse_item isod deal_item n huge_row = Inl InvalidOperation"
    using huge_amount
    by (simp add: parse_item_def huge_row_def row_id_def id_field_def wire_at_def lookup_key_def
        mirror_dialect_defs get_field_def mirror_field_def as_positive_def positive_def)
  then show ?thesis
    by (simp add: read_page_raises)
qed

end
