(* ===== verification/Crm_Clock.thy ===== *)
theory Crm_Clock
  imports Crm_Backfill Fetch
begin

text \<open>
  \<open>sync/crm_clock.py\<close>: how far a portal shifts a datetime it is given in a filter, measured with
  one record, and the aware datetimes the sweep works with. An aware datetime is its instant and
  its offset from UTC, both in seconds.
\<close>

section \<open>Aware datetimes\<close>

type_synonym zoned = "rat \<times> rat"

definition instant :: "zoned \<Rightarrow> rat" where
  "instant z = fst z"

definition utc :: "rat \<Rightarrow> zoned" where
  "utc t = (t, 0)"

definition parse_zoned :: "(string \<Rightarrow> (rat \<times> rat option) option) \<Rightarrow> json \<Rightarrow> zoned option" where
  "parse_zoned isod v =
     (case v of
        JStr s \<Rightarrow>
          if strip s = [] then None
          else (case isod (strip s) of Some (local, Some offset) \<Rightarrow> Some (local - offset, offset) | _ \<Rightarrow> None)
      | _ \<Rightarrow> None)"

text \<open>Adding a duration keeps the offset and raises outside the calendar.\<close>

definition shift_time :: "zoned \<Rightarrow> rat \<Rightarrow> (py_error, zoned) result" where
  "shift_time z d =
     (if in_datetime (fst z + snd z + d) then Inr (fst z + d, snd z) else Inl OverflowError)"

definition drop_micros :: "zoned \<Rightarrow> zoned" where
  "drop_micros z = (of_int \<lfloor>fst z + snd z\<rfloor> - snd z, snd z)"

definition pad :: "nat \<Rightarrow> int \<Rightarrow> string" where
  "pad n i = (let s = show_nat (nat i) in replicate (n - length s) CHR ''0'' @ s)"

text \<open>Year, month and day of a day number, the proleptic Gregorian calendar from 1970-01-01.\<close>

definition civil :: "int \<Rightarrow> int \<times> int \<times> int" where
  "civil days =
     (let z = days + 719468; era = z div 146097; doe = z mod 146097;
          yoe = (doe - doe div 1460 + doe div 36524 - doe div 146096) div 365;
          doy = doe - (365 * yoe + yoe div 4 - yoe div 100);
          mp = (5 * doy + 2) div 153;
          d = doy - (153 * mp + 2) div 5 + 1;
          m = (if mp < 10 then mp + 3 else mp - 9)
      in (yoe + era * 400 + (if m \<le> 2 then 1 else 0), m, d))"

definition iso_clock :: "bool \<Rightarrow> int \<Rightarrow> string" where
  "iso_clock seconds micros =
     (let s = micros div 1000000; f = micros mod 1000000
      in pad 2 (s div 3600) @ '':'' @ pad 2 (s div 60 mod 60) @
         (if seconds \<or> s mod 60 \<noteq> 0 \<or> f \<noteq> 0 then '':'' @ pad 2 (s mod 60) else []) @
         (if f = 0 then [] else ''.'' @ pad 6 f))"

definition isoformat :: "zoned \<Rightarrow> string" where
  "isoformat z =
     (let local = \<lfloor>(fst z + snd z) * 1000000\<rfloor>; day = 86400 * 1000000;
          (y, m, d) = civil (local div day); offset = \<lfloor>snd z * 1000000\<rfloor>
      in pad 4 y @ ''-'' @ pad 2 m @ ''-'' @ pad 2 d @ ''T'' @ iso_clock True (local mod day) @
         (if offset < 0 then ''-'' else ''+'') @ iso_clock False \<bar>offset\<bar>)"

section \<open>When to measure\<close>

definition max_shift :: rat where "max_shift = 14 * 3600"
definition hour_step :: rat where "hour_step = 3600"
definition quarter_step :: rat where "quarter_step = 15 * 60"
definition fresh_measurement :: rat where "fresh_measurement = 10 * 60"

definition clock_due :: "rat \<Rightarrow> zoned option \<Rightarrow> zoned \<Rightarrow> bool" where
  "clock_due interval calibrated now =
     (case calibrated of None \<Rightarrow> True | Some t \<Rightarrow> interval \<le> instant now - instant t)"

definition clock_fresh :: "zoned option \<Rightarrow> zoned \<Rightarrow> bool" where
  "clock_fresh calibrated now =
     (case calibrated of None \<Rightarrow> False | Some t \<Rightarrow> instant now - instant t < fresh_measurement)"

section \<open>The measurement\<close>

definition probe_key :: "nat \<Rightarrow> string" where
  "probe_key index = ''clk'' @ show_nat index"

definition current_key :: string where
  "current_key = ''clk_now''"

fun probes_from ::
  "mirror_dialect \<Rightarrow> int \<Rightarrow> zoned \<Rightarrow> nat \<Rightarrow> rat list \<Rightarrow> (py_error, command list) result" where
  "probes_from d record_id updated index [] = Inr []"
| "probes_from d record_id updated index (offset # rest) =
     rbind (shift_time updated offset) (\<lambda>bnd.
     rbind (keyset_command d (probe_key index) (record_id - 1) (Some (record_id + 1))
              (Some (isoformat bnd)) True) (\<lambda>cmd.
     rbind (probes_from d record_id updated (Suc index) rest) (\<lambda>cmds. Inr (cmd # cmds))))"

definition probe_commands ::
  "mirror_dialect \<Rightarrow> int \<Rightarrow> zoned \<Rightarrow> rat list \<Rightarrow> (py_error, command list) result" where
  "probe_commands d record_id updated offsets = probes_from d record_id updated 0 offsets"

definition prefix_length :: "bool list \<Rightarrow> nat option" where
  "prefix_length flags =
     (let n = length (takeWhile id flags) in if list_ex id (drop n flags) then None else Some n)"

text \<open>\<open>any(row_id(row, dialect) == record_id for row in rows)\<close>.\<close>

fun any_row :: "mirror_dialect \<Rightarrow> int \<Rightarrow> json list \<Rightarrow> (py_error, bool) result" where
  "any_row d record_id [] = Inr False"
| "any_row d record_id (raw # rest) =
     rbind (row_id d raw) (\<lambda>i. if i = Some record_id then Inr True else any_row d record_id rest)"

definition probe_answer ::
  "batch_result \<Rightarrow> mirror_dialect \<Rightarrow> int \<Rightarrow> nat \<Rightarrow> (py_error, bitrix_error + bool) result" where
  "probe_answer b d record_id index =
     (let key = probe_key index
      in case find_command b key of
           None \<Rightarrow> Inr (Inl (classify None None (''batch answered no '' @ key) []))
         | Some c \<Rightarrow>
             (case cmd_error c of
                Some e \<Rightarrow> Inr (Inl e)
              | None \<Rightarrow>
                  (case mirror_page_rows d (cmd_result c) of
                     None \<Rightarrow> Inr (Inl (classify None None (key @ '': unexpected result shape'') []))
                   | Some page \<Rightarrow> rbind (any_row d record_id page) (\<lambda>hit. Inr (Inr hit)))))"

fun matched_from ::
  "batch_result \<Rightarrow> mirror_dialect \<Rightarrow> int \<Rightarrow> nat list \<Rightarrow> (py_error, bitrix_error + bool list) result" where
  "matched_from b d record_id [] = Inr (Inr [])"
| "matched_from b d record_id (index # rest) =
     rbind (probe_answer b d record_id index) (\<lambda>answer.
       case answer of
         Inl e \<Rightarrow> Inr (Inl e)
       | Inr hit \<Rightarrow> rbind (matched_from b d record_id rest) (\<lambda>others.
           Inr (case others of Inl e \<Rightarrow> Inl e | Inr flags \<Rightarrow> Inr (hit # flags))))"

definition matched_flags ::
  "batch_result \<Rightarrow> mirror_dialect \<Rightarrow> int \<Rightarrow> nat \<Rightarrow> (py_error, bitrix_error + bool list) result" where
  "matched_flags b d record_id count = matched_from b d record_id [0..<count]"

definition any_tag_length :: int where "any_tag_length = 255"

definition current_record ::
  "(string \<Rightarrow> (rat \<times> rat option) option) \<Rightarrow> batch_result \<Rightarrow> mirror_dialect \<Rightarrow>
   (py_error, bitrix_error + item_row option) result" where
  "current_record isod b d =
     (case find_command b current_key of
        None \<Rightarrow> Inr (Inl (classify None None (''batch answered no '' @ current_key) []))
      | Some c \<Rightarrow>
          (case cmd_error c of
             Some e \<Rightarrow> Inr (Inl e)
           | None \<Rightarrow>
               (case mirror_page_rows d (cmd_result c) of
                  Some (raw # _) \<Rightarrow> rbind (parse_item isod d any_tag_length raw) (\<lambda>parsed.
                    Inr (Inr (case parsed of Inl _ \<Rightarrow> None | Inr row \<Rightarrow> Some row)))
                | _ \<Rightarrow> Inr (Inr None))))"

record measurement =
  ms_shift :: "rat option"
  ms_batches :: int
  ms_error :: "bitrix_error option"
  ms_reason :: string
  ms_time :: "block option"

definition unmeasured :: "int \<Rightarrow> bitrix_error option \<Rightarrow> string \<Rightarrow> block option \<Rightarrow> measurement" where
  "unmeasured n error reason blk =
     \<lparr>ms_shift = None, ms_batches = n, ms_error = error, ms_reason = reason, ms_time = blk\<rparr>"

definition hour_offsets :: "rat list" where
  "hour_offsets = map (\<lambda>k. hour_step * of_int k) [-14..14]"

definition quarter_offsets :: "rat \<Rightarrow> rat list" where
  "quarter_offsets hour = map (\<lambda>k. hour + quarter_step * of_int k) [1..3]"

text \<open>What the first batch says: the last hour that matched, or why there is none.\<close>

definition read_hours ::
  "mirror_dialect \<Rightarrow> int \<Rightarrow> batch_result \<Rightarrow> (py_error, (bitrix_error option \<times> string) + rat) result" where
  "read_hours d record_id b =
     rbind (matched_flags b d record_id (length hour_offsets)) (\<lambda>got.
       Inr (case got of
          Inl e \<Rightarrow> Inl (Some e, [])
        | Inr flags \<Rightarrow>
            (case prefix_length flags of
               None \<Rightarrow> Inl (None, ''no clean hour boundary'')
             | Some n \<Rightarrow>
                 if n = 0 \<or> n = length hour_offsets then Inl (None, ''no clean hour boundary'')
                 else Inr (hour_offsets ! (n - 1)))))"

definition read_quarters ::
  "(string \<Rightarrow> (rat \<times> rat option) option) \<Rightarrow> mirror_dialect \<Rightarrow> int \<Rightarrow> zoned \<Rightarrow> rat \<Rightarrow> block option \<Rightarrow>
   batch_result \<Rightarrow> (py_error, measurement) result" where
  "read_quarters isod d record_id updated hour blk b =
     rbind (current_record isod b d) (\<lambda>got.
       case got of
         Inl e \<Rightarrow> Inr (unmeasured 2 (Some e) [] blk)
       | Inr current \<Rightarrow>
           if (case current of None \<Rightarrow> True | Some row \<Rightarrow> ir_updated_time row \<noteq> Some (instant updated))
           then Inr (unmeasured 2 None ''the reference record changed while it was measured'' blk)
           else rbind (matched_flags b d record_id 3) (\<lambda>flagged.
             Inr (case flagged of
                Inl e \<Rightarrow> unmeasured 2 (Some e) [] blk
              | Inr flags \<Rightarrow>
                  (case prefix_length flags of
                     None \<Rightarrow> unmeasured 2 None ''no clean quarter boundary'' blk
                   | Some n \<Rightarrow> (unmeasured 2 None [] blk)
                               \<lparr>ms_shift := Some (hour + quarter_step * of_nat n)\<rparr>))))"

definition measure_clock ::
  "'o fetch_outside_scheme \<Rightarrow> client \<Rightarrow> mirror_dialect \<Rightarrow> int \<Rightarrow> zoned \<Rightarrow>
   ('n net_scheme, exn, measurement) prog" where
  "measure_clock c cl d record_id updated =
     andThen (lift_result (lift_py (probe_commands d record_id updated hour_offsets))) (\<lambda>cmds.
     andThen (batch c cl cmds False) (\<lambda>first.
     andThen (lift_result (lift_py (read_hours d record_id first))) (\<lambda>got.
     case got of
       Inl (error, reason) \<Rightarrow> lift_result (lift_py
         (rbind (merge_time_blocks (iso_date c) [batch_time first]) (\<lambda>blk. Inr (unmeasured 1 error reason blk))))
     | Inr hour \<Rightarrow>
         andThen (lift_result (lift_py
           (rbind (probe_commands d record_id updated (quarter_offsets hour)) (\<lambda>probes.
            rbind (ids_command d current_key [record_id]) (\<lambda>again. Inr (probes @ [again])))))) (\<lambda>cmds2.
         andThen (batch c cl cmds2 False) (\<lambda>second.
         lift_result (lift_py
           (rbind (merge_time_blocks (iso_date c) [batch_time first, batch_time second]) (\<lambda>blk.
            read_quarters (iso_date c) d record_id updated hour blk second))))))))"

section \<open>What the measurement finds\<close>

lemma prefix_length_split: "prefix_length (replicate n True @ replicate m False) = Some n"
  by (simp add: prefix_length_def Let_def takeWhile_append list_ex_iff)

lemma upto_cut:
  assumes "a - 1 \<le> j" and "j \<le> b"
  shows "[a..b] = [a..j] @ [j + 1..b]"
proof (cases "j = b")
  case False
  with assms show ?thesis using upto_split1 [of a "j + 1" b] by simp
qed simp

text \<open>The answers on an evenly spaced grid, of which the points up to \<open>j\<close> lie below \<open>s\<close>.\<close>

lemma prefix_length_grid:
  assumes "a - 1 \<le> j" and "j \<le> b"
    and "\<And>k. a \<le> k \<Longrightarrow> k \<le> b \<Longrightarrow> P (f k) \<longleftrightarrow> k \<le> j"
  shows "prefix_length (map P (map f [a..b])) = Some (nat (j - a + 1))"
proof -
  have "map P (map f [a..b]) = map (\<lambda>k. k \<le> j) [a..b]"
    using assms(3) by simp
  also have "\<dots> = map (\<lambda>k. True) [a..j] @ map (\<lambda>k. False) [j + 1..b]"
    unfolding upto_cut [OF assms(1,2)] map_append by (intro arg_cong2 [of _ _ _ _ "(@)"] map_cong refl) auto
  also have "\<dots> = replicate (nat (j - a + 1)) True @ replicate (nat (b - j)) False"
    by (simp add: map_replicate_const)
  finally show ?thesis
    by (simp only: prefix_length_split)
qed

lemma matched_from_all:
  "\<forall>k \<in> set ks. probe_answer b d r k = Inr (Inr (f k)) \<Longrightarrow> matched_from b d r ks = Inr (Inr (map f ks))"
  by (induction ks) simp_all

lemma matched_flags_all:
  assumes "\<forall>k < length xs. probe_answer b d r k = Inr (Inr (P (xs ! k)))"
  shows "matched_flags b d r (length xs) = Inr (Inr (map P xs))"
proof -
  have "matched_flags b d r (length xs) = Inr (Inr (map (\<lambda>k. P (xs ! k)) [0..<length xs]))"
    unfolding matched_flags_def by (rule matched_from_all) (use assms in simp)
  also have "map (\<lambda>k. P (xs ! k)) [0..<length xs] = map P (map ((!) xs) [0..<length xs])"
    by simp
  also have "\<dots> = map P xs"
    by (simp only: map_nth)
  finally show ?thesis .
qed

lemma nth_map_upto: "k < nat (b - a + 1) \<Longrightarrow> map f [a..b] ! k = f (a + int k)"
  by simp

lemma grid_below:
  assumes "0 < (step :: rat)"
  shows "base + step * of_int k \<le> s \<longleftrightarrow> k \<le> \<lfloor>(s - base) / step\<rfloor>"
  using assms by (simp add: le_floor_iff field_simps)

lemma read_hours_shift:
  assumes "\<forall>k < length hour_offsets. probe_answer b d r k = Inr (Inr (hour_offsets ! k \<le> s))"
  shows "read_hours d r b =
    Inr (if - max_shift \<le> s \<and> s < max_shift then Inr (3600 * of_int \<lfloor>s / 3600\<rfloor>)
         else Inl (None, ''no clean hour boundary''))"
proof -
  define j where "j = max (-15) (min 14 \<lfloor>s / 3600\<rfloor>)"
  have flags: "matched_flags b d r (length hour_offsets) = Inr (Inr (map (\<lambda>x. x \<le> s) hour_offsets))"
    using assms by (rule matched_flags_all)
  have len: "length hour_offsets = 29"
    by (simp add: hour_offsets_def)
  have below: "hour_step * of_int k \<le> s \<longleftrightarrow> k \<le> \<lfloor>s / 3600\<rfloor>" for k
    using grid_below [of hour_step 0 k s] by (simp add: hour_step_def)
  have n: "prefix_length (map (\<lambda>x. x \<le> s) hour_offsets) = Some (nat (j + 15))"
    unfolding hour_offsets_def
    by (subst prefix_length_grid [where j = j]) (auto simp: below j_def)
  have range: "- max_shift \<le> s \<longleftrightarrow> -14 \<le> \<lfloor>s / 3600\<rfloor>" "s < max_shift \<longleftrightarrow> \<lfloor>s / 3600\<rfloor> < 14"
    by (simp_all add: max_shift_def le_floor_iff floor_less_iff field_simps)
  have pick: "hour_offsets ! (nat (j + 15) - 1) = 3600 * of_int j" if "-14 \<le> j" "j \<le> 14"
    using that nth_map_upto [of "nat (j + 15) - 1" 14 "-14" "\<lambda>k. hour_step * of_int k"]
    unfolding hour_offsets_def by (auto simp del: upto_rec_numeral simp: hour_step_def nat_diff_distrib)
  obtain F where F: "F = \<lfloor>s / 3600\<rfloor>" by blast
  show ?thesis
  proof (cases "-14 \<le> F \<and> F < 14")
    case True
    then have "j = F" by (simp add: j_def F)
    with True flags n pick show ?thesis
      unfolding read_hours_def range len F [symmetric] by (auto simp: nat_eq_iff)
  next
    case False
    then have "j = -15 \<or> j = 14" by (auto simp: j_def F)
    with False flags n show ?thesis
      unfolding read_hours_def range len F [symmetric] by auto
  qed
qed

lemma read_quarters_shift:
  assumes "\<forall>k < 3. probe_answer b d r k = Inr (Inr (quarter_offsets (3600 * of_int h) ! k \<le> s))"
    and "current_record isod b d = Inr (Inr (Some row))" and "ir_updated_time row = Some (instant updated)"
    and "h = \<lfloor>s / 3600\<rfloor>"
  shows "read_quarters isod d r updated (3600 * of_int h) blk b =
    Inr ((unmeasured 2 None [] blk)\<lparr>ms_shift := Some (900 * of_int \<lfloor>s / 900\<rfloor>)\<rparr>)"
proof -
  define j where "j = \<lfloor>(s - 3600 * of_int h) / 900\<rfloor>"
  have "of_int h \<le> s / 3600" "s / 3600 < of_int h + 1"
    using assms(4) by linarith+
  then have j: "0 \<le> j" "j \<le> 3"
    by (simp_all add: j_def le_floor_iff floor_le_iff field_simps)
  have len: "length (quarter_offsets (3600 * of_int h)) = 3"
    by (simp add: quarter_offsets_def)
  have flags: "matched_flags b d r 3 = Inr (Inr (map (\<lambda>x. x \<le> s) (quarter_offsets (3600 * of_int h))))"
    using matched_flags_all [of "quarter_offsets (3600 * of_int h)" b d r "\<lambda>x. x \<le> s"] assms(1) len by simp
  have below: "3600 * of_int h + quarter_step * of_int k \<le> s \<longleftrightarrow> k \<le> j" for k
    using grid_below [of quarter_step "3600 * of_int h" k s] by (simp add: quarter_step_def j_def)
  have n: "prefix_length (map (\<lambda>x. x \<le> s) (quarter_offsets (3600 * of_int h))) = Some (nat j)"
    unfolding quarter_offsets_def using j by (subst prefix_length_grid [where j = j]) (auto simp: below)
  have "(s - 3600 * of_int h) / 900 = s / 900 - of_int (4 * h)"
    by (simp add: field_simps)
  then have "j = \<lfloor>s / 900\<rfloor> - 4 * h"
    by (simp only: j_def) linarith
  then have "3600 * of_int h + quarter_step * of_nat (nat j) = 900 * of_int \<lfloor>s / 900\<rfloor>"
    using j by (simp add: quarter_step_def)
  with flags n assms(2,3) show ?thesis
    by (simp add: read_quarters_def unmeasured_def)
qed

end
