(* ===== verification/Crm_Sweep.thy ===== *)
theory Crm_Sweep
  imports Crm_Clock
begin

text \<open>
  \<open>sync/crm_sweep.py\<close>: the keyset walk over the records updated since the last pass, its stored
  cursor, the bound it sends and what one page means; and that no edit falls between passes.
\<close>

section \<open>The cursor\<close>

definition initial_lookback :: rat where "initial_lookback = 3600"
definition sweep_key :: string where "sweep_key = ''sw''"
definition clock_slack :: rat where "clock_slack = 1"

record sweep_cursor =
  sc_dialect :: string
  sc_since :: zoned
  sc_after_id :: int
  sc_pass_started :: "zoned option"
  sc_shift_seconds :: "int option"
  sc_calibrated_at :: "zoned option"

definition json_time :: "zoned option \<Rightarrow> json" where
  "json_time t = (case t of None \<Rightarrow> JNone | Some z \<Rightarrow> JStr (isoformat z))"

definition sweep_to_json :: "sweep_cursor \<Rightarrow> (string, json) dict" where
  "sweep_to_json c =
     [(''dialect'', JStr (sc_dialect c)), (''since'', JStr (isoformat (sc_since c))),
      (''after_id'', JInt (sc_after_id c)), (''pass_started'', json_time (sc_pass_started c)),
      (''shift_seconds'', (case sc_shift_seconds c of None \<Rightarrow> JNone | Some n \<Rightarrow> JInt n)),
      (''calibrated_at'', json_time (sc_calibrated_at c))]"

definition fresh_sweep :: "string \<Rightarrow> zoned \<Rightarrow> sweep_cursor" where
  "fresh_sweep name since =
     \<lparr>sc_dialect = name, sc_since = since, sc_after_id = 0, sc_pass_started = None,
      sc_shift_seconds = None, sc_calibrated_at = None\<rparr>"

definition stored_dialect :: "(string, json) dict \<Rightarrow> string" where
  "stored_dialect raw =
     (case get_field raw ''dialect'' of
        JStr s \<Rightarrow> if s \<in> {dialect_item, dialect_legacy} then s else dialect_item
      | _ \<Rightarrow> dialect_item)"

text \<open>\<open>max(0, int(raw.get(key) or 0))\<close>, a value without an integer counting as zero.\<close>

definition stored_count :: "json \<Rightarrow> (py_error, int) result" where
  "stored_count v =
     (case (if truthy v then py_int v else Inr 0) of
        Inl e \<Rightarrow> if e \<in> {TypeError, ValueError} then Inr 0 else Inl e
      | Inr n \<Rightarrow> Inr (max 0 n))"

definition sweep_from_json ::
  "(string \<Rightarrow> (rat \<times> rat option) option) \<Rightarrow> (string, json) dict \<Rightarrow> zoned \<Rightarrow>
   (py_error, sweep_cursor) result" where
  "sweep_from_json isod raw now =
     (case parse_zoned isod (get_field raw ''since'') of
        None \<Rightarrow> rbind (shift_time now (- initial_lookback)) (\<lambda>since.
                  Inr (fresh_sweep (stored_dialect raw) since))
      | Some since \<Rightarrow>
          rbind (stored_count (get_field raw ''after_id'')) (\<lambda>after_id.
            Inr \<lparr>sc_dialect = stored_dialect raw, sc_since = since, sc_after_id = after_id,
                 sc_pass_started = parse_zoned isod (get_field raw ''pass_started''),
                 sc_shift_seconds = (case get_field raw ''shift_seconds'' of JInt n \<Rightarrow> Some n | _ \<Rightarrow> None),
                 sc_calibrated_at = parse_zoned isod (get_field raw ''calibrated_at'')\<rparr>))"

section \<open>One page\<close>

definition sweep_bound :: "sweep_cursor \<Rightarrow> rat \<Rightarrow> (py_error, zoned) result" where
  "sweep_bound c overlap =
     rbind (shift_time (sc_since c) (- overlap)) (\<lambda>wanted.
     rbind (case sc_shift_seconds c of
              None \<Rightarrow> shift_time wanted (- max_shift)
            | Some n \<Rightarrow> shift_time wanted (of_int n)) (\<lambda>shifted.
       Inr (drop_micros shifted)))"

definition sweep_command ::
  "sweep_cursor \<Rightarrow> mirror_dialect \<Rightarrow> rat \<Rightarrow> (py_error, command) result" where
  "sweep_command c d overlap =
     rbind (sweep_bound c overlap) (\<lambda>bnd.
       keyset_command d sweep_key (sc_after_id c) None (Some (isoformat bnd)) False)"

record sweep_step =
  ss_cursor :: sweep_cursor
  ss_rows :: "item_row list"
  ss_rejected :: rejected
  ss_error :: "bitrix_error option"
  ss_violation :: "string option"
  ss_complete :: bool
  ss_time :: "block option"

definition still :: "sweep_cursor \<Rightarrow> block option \<Rightarrow> sweep_step" where
  "still c blk =
     \<lparr>ss_cursor = c, ss_rows = [], ss_rejected = [], ss_error = None, ss_violation = None,
      ss_complete = False, ss_time = blk\<rparr>"

fun server_clock ::
  "(string \<Rightarrow> (rat \<times> rat option) option) \<Rightarrow> block option list \<Rightarrow> zoned option" where
  "server_clock isod [] = None"
| "server_clock isod (None # bs) = server_clock isod bs"
| "server_clock isod (Some b # bs) =
     (case parse_zoned isod (get_field b ''date_start'') of
        Some t \<Rightarrow> Some t | None \<Rightarrow> server_clock isod bs)"

fun sweep_order :: "int \<Rightarrow> int \<Rightarrow> int list \<Rightarrow> string option" where
  "sweep_order after_id previous [] = None"
| "sweep_order after_id previous (v # vs) =
     (if v \<le> previous
      then Some (''sweep after id '' @ show_int after_id @ '' returned id '' @ show_int v @
                 '' following '' @ show_int previous)
      else sweep_order after_id v vs)"

definition too_old :: "zoned \<Rightarrow> item_row \<Rightarrow> bool" where
  "too_old flr row = (case ir_updated_time row of None \<Rightarrow> False | Some u \<Rightarrow> u < instant flr)"

definition sweep_floor :: "sweep_cursor \<Rightarrow> rat \<Rightarrow> (py_error, zoned) result" where
  "sweep_floor c overlap =
     rbind (shift_time (sc_since c) (- overlap)) (\<lambda>t.
     rbind (shift_time t (- clock_slack)) (\<lambda>flr.
       case sc_shift_seconds c of
         None \<Rightarrow> shift_time flr (- (2 * max_shift))
       | Some _ \<Rightarrow> Inr flr))"

text \<open>What a readable page means.\<close>

definition sweep_page ::
  "(string \<Rightarrow> (rat \<times> rat option) option) \<Rightarrow> int \<Rightarrow> rat \<Rightarrow> zoned \<Rightarrow> sweep_cursor \<Rightarrow> mirror_dialect \<Rightarrow>
   block option list \<Rightarrow> block option \<Rightarrow> json list \<Rightarrow> (py_error, sweep_step) result" where
  "sweep_page isod utm_max overlap now c d blocks blk page =
     rbind (read_mirror_page isod d utm_max page) (\<lambda>(rows, bad).
     rbind (page_ids d page) (\<lambda>ids.
     rbind (sweep_floor c overlap) (\<lambda>flr.
       case sweep_order (sc_after_id c) (sc_after_id c) ids of
         Some v \<Rightarrow> Inr ((still c blk)\<lparr>ss_violation := Some v\<rparr>)
       | None \<Rightarrow>
           (case find (too_old flr) rows of
              Some row \<Rightarrow> Inr ((still c blk)\<lparr>ss_violation := Some (''sweep since '' @ isoformat flr @
                            '' returned id '' @ show_int (ir_id row) @ '' updated earlier'')\<rparr>)
            | None \<Rightarrow>
                if mirror_page_size \<le> length page \<and> ids = []
                then Inr ((still c blk)\<lparr>ss_error :=
                       Some (classify None None (sweep_key @ '': a full page without a usable id'') [])\<rparr>)
                else
                  (let started = (case sc_pass_started c of Some t \<Rightarrow> t
                                  | None \<Rightarrow> (case server_clock isod blocks of Some t \<Rightarrow> t | None \<Rightarrow> now));
                       c' = (if length page < mirror_page_size
                             then c\<lparr>sc_since := started, sc_after_id := 0, sc_pass_started := None\<rparr>
                             else c\<lparr>sc_after_id := last ids, sc_pass_started := Some started\<rparr>)
                   in Inr ((still c' blk)\<lparr>ss_rows := rows, ss_rejected := bad,
                             ss_complete := (length page < mirror_page_size)\<rparr>))))))"

definition sweep_apply ::
  "(string \<Rightarrow> (rat \<times> rat option) option) \<Rightarrow> int \<Rightarrow> rat \<Rightarrow> zoned \<Rightarrow> sweep_cursor \<Rightarrow> mirror_dialect \<Rightarrow>
   batch_result \<Rightarrow> (py_error, sweep_step) result" where
  "sweep_apply isod utm_max overlap now c d b =
     (let answered = find_command b sweep_key;
          command_time = (case answered of None \<Rightarrow> None | Some a \<Rightarrow> cmd_time a)
      in rbind (merge_time_blocks isod [batch_time b, command_time]) (\<lambda>blk.
         case answered of
           None \<Rightarrow> Inr ((still c blk)\<lparr>ss_error :=
                     Some (classify None None (''batch answered no '' @ sweep_key) [])\<rparr>)
         | Some a \<Rightarrow>
             (case cmd_error a of
                Some e \<Rightarrow> Inr ((still c blk)\<lparr>ss_error := Some e\<rparr>)
              | None \<Rightarrow>
                  (case mirror_page_rows d (cmd_result a) of
                     None \<Rightarrow> Inr ((still c blk)\<lparr>ss_error :=
                               Some (classify None None (sweep_key @ '': unexpected result shape'') [])\<rparr>)
                   | Some page \<Rightarrow> sweep_page isod utm_max overlap now c d [cmd_time a, batch_time b] blk page))))"

section \<open>The bound is never too late\<close>

text \<open>
  A portal that shifts filter values by \<open>s\<close> seconds selects the records updated at or after
  the value sent less \<open>s\<close>. A measured shift is at most \<open>s\<close>; an unmeasured one at least
  fourteen hours west.
\<close>

definition shift_known :: "rat \<Rightarrow> sweep_cursor \<Rightarrow> bool" where
  "shift_known s c = (case sc_shift_seconds c of None \<Rightarrow> - max_shift \<le> s | Some n \<Rightarrow> of_int n \<le> s)"

lemma shift_time_Inr: "shift_time z d = Inr z' \<Longrightarrow> z' = (fst z + d, snd z)"
  by (auto simp: shift_time_def split: if_splits)

lemma drop_micros_le: "instant (drop_micros z) \<le> instant z"
  using of_int_floor_le [of "fst z + snd z"] by (simp add: drop_micros_def instant_def algebra_simps)

lemma drop_micros_gt: "instant z < instant (drop_micros z) + 1"
  using floor_correct [of "fst z + snd z"] by (simp add: drop_micros_def instant_def algebra_simps)

lemma sweep_bound_early:
  assumes "sweep_bound c overlap = Inr bnd" and "shift_known s c"
  shows "instant bnd - s \<le> instant (sc_since c) - overlap"
proof -
  define d where "d = (case sc_shift_seconds c of None \<Rightarrow> - max_shift | Some n \<Rightarrow> of_int n)"
  have "bnd = drop_micros (fst (sc_since c) - overlap + d, snd (sc_since c))"
    using assms(1) unfolding d_def
    by (cases "sc_shift_seconds c") (auto simp: sweep_bound_def rbind_Inr_iff dest!: shift_time_Inr)
  moreover have "d \<le> s"
    using assms(2) by (simp add: d_def shift_known_def split: option.splits)
  ultimately show ?thesis
    using drop_micros_le [of "(fst (sc_since c) - overlap + d, snd (sc_since c))"]
    by (simp add: instant_def)
qed

section \<open>No edit falls between two passes\<close>

text \<open>
  The records the portal would list, each with its \<open>updatedTime\<close>. A page is honest for the
  bound sent when it holds every matching record up to its last id, or all of them when it is
  short, and renders each with its time.
\<close>

type_synonym versions = "int \<Rightarrow> rat option"

definition honest_sweep ::
  "(string \<Rightarrow> (rat \<times> rat option) option) \<Rightarrow> mirror_dialect \<Rightarrow> int \<Rightarrow> rat \<Rightarrow> versions \<Rightarrow>
   int \<Rightarrow> json list \<Rightarrow> bool" where
  "honest_sweep isod d utm_max bnd tbl after_id page \<longleftrightarrow>
     (\<forall>rows bad. read_mirror_page isod d utm_max page = Inr (rows, bad) \<longrightarrow>
        (\<forall>row \<in> set rows. ir_updated_time row = tbl (ir_id row)) \<and>
        (\<forall>i u. tbl i = Some u \<and> bnd \<le> u \<and> after_id < i \<and>
           (length page < mirror_page_size \<or> (\<exists>row \<in> set rows. i \<le> ir_id row)) \<longrightarrow> i \<in> ir_id ` set rows))"

definition versions_of :: "item_row list \<Rightarrow> (int \<times> rat) set" where
  "versions_of rs = {(ir_id row, u) |row u. row \<in> set rs \<and> ir_updated_time row = Some u}"

text \<open>
  The portal and the sweep side by side: a record is edited, created or deleted, its new time
  at most the overlap behind the portal's clock; the shift is measured; a page is asked for and
  answered. The page's own clock is not ahead of the portal's.
\<close>

inductive sweeping ::
  "(string \<Rightarrow> (rat \<times> rat option) option) \<Rightarrow> mirror_dialect \<Rightarrow> int \<Rightarrow> rat \<Rightarrow> rat \<Rightarrow> sweep_cursor \<Rightarrow>
   versions \<Rightarrow> rat \<Rightarrow> sweep_cursor \<Rightarrow> versions \<Rightarrow> rat \<Rightarrow> (int \<times> rat) set \<Rightarrow> bool"
  for isod d utm_max overlap s c0 tbl0 clk0
where
  begin_pass: "sc_after_id c0 = 0 \<Longrightarrow> sc_pass_started c0 = None \<Longrightarrow> instant (sc_since c0) \<le> clk0 \<Longrightarrow>
    \<forall>i. tbl0 i \<noteq> None \<longrightarrow> 0 < i \<Longrightarrow> sweeping isod d utm_max overlap s c0 tbl0 clk0 c0 tbl0 clk0 {}"
| edit: "sweeping isod d utm_max overlap s c0 tbl0 clk0 c tbl clk seen \<Longrightarrow> clk \<le> clk' \<Longrightarrow> 0 < i \<Longrightarrow>
    clk' - overlap \<le> u \<Longrightarrow>
    sweeping isod d utm_max overlap s c0 tbl0 clk0 c (tbl(i := Some u)) clk' seen"
| gone: "sweeping isod d utm_max overlap s c0 tbl0 clk0 c tbl clk seen \<Longrightarrow>
    sweeping isod d utm_max overlap s c0 tbl0 clk0 c (tbl(i := None)) clk seen"
| measured: "sweeping isod d utm_max overlap s c0 tbl0 clk0 c tbl clk seen \<Longrightarrow>
    sweeping isod d utm_max overlap s c0 tbl0 clk0
      (c\<lparr>sc_shift_seconds := shift, sc_calibrated_at := calibrated\<rparr>) tbl clk seen"
| page: "sweeping isod d utm_max overlap s c0 tbl0 clk0 c tbl clk seen \<Longrightarrow> clk \<le> clk' \<Longrightarrow>
    shift_known s c \<Longrightarrow> sweep_bound c overlap = Inr bnd \<Longrightarrow>
    sweep_page isod utm_max overlap now c d blocks blk page = Inr step \<Longrightarrow>
    honest_sweep isod d utm_max (instant bnd - s) tbl (sc_after_id c) page \<Longrightarrow>
    instant (case server_clock isod blocks of Some t \<Rightarrow> t | None \<Rightarrow> now) \<le> clk' \<Longrightarrow>
    sweeping isod d utm_max overlap s c0 tbl0 clk0 (ss_cursor step) tbl clk'
      (seen \<union> versions_of (ss_rows step))"

text \<open>What has not been read yet but will be: in this pass, or in the next one.\<close>

definition still_due :: "rat \<Rightarrow> sweep_cursor \<Rightarrow> int \<Rightarrow> rat \<Rightarrow> bool" where
  "still_due overlap c i u \<longleftrightarrow>
     (instant (sc_since c) - overlap \<le> u \<and> sc_after_id c < i) \<or>
     (case sc_pass_started c of None \<Rightarrow> False | Some t \<Rightarrow> instant t - overlap \<le> u)"

definition sweep_inv ::
  "rat \<Rightarrow> rat \<Rightarrow> sweep_cursor \<Rightarrow> versions \<Rightarrow> rat \<Rightarrow> (int \<times> rat) set \<Rightarrow> bool" where
  "sweep_inv overlap since0 c tbl clk seen \<longleftrightarrow>
     instant (sc_since c) \<le> clk \<and> (\<forall>i. tbl i \<noteq> None \<longrightarrow> 0 < i) \<and>
     (case sc_pass_started c of None \<Rightarrow> sc_after_id c = 0 | Some t \<Rightarrow> instant t \<le> clk) \<and>
     (\<forall>i u. tbl i = Some u \<longrightarrow> since0 - overlap \<le> u \<longrightarrow> (i, u) \<in> seen \<or> still_due overlap c i u)"

lemma sweep_order_None: "sweep_order a p ids = None \<Longrightarrow> sorted_wrt (<) (p # ids)"
proof (induction ids arbitrary: p)
  case (Cons v ids)
  then have "p < v" and "sorted_wrt (<) (v # ids)"
    by (auto split: if_splits)
  then show ?case by (auto dest: order.strict_trans)
qed simp

text \<open>A page either leaves the cursor and brings nothing, or moves it and brings its rs.\<close>

lemma sweep_page_cases:
  assumes "sweep_page isod utm_max overlap now c d blocks blk page = Inr step"
  obtains (nothing) "ss_cursor step = c" "ss_rows step = []" "ss_rejected step = []" "\<not> ss_complete step"
      "ss_error step \<noteq> None \<or> ss_violation step \<noteq> None"
  | (moves) rs bad started where "read_mirror_page isod d utm_max page = Inr (rs, bad)"
      "ss_rows step = rs" "ss_rejected step = bad" "ss_error step = None" "ss_violation step = None"
      "sorted_wrt (<) (sc_after_id c # map ir_id rs)"
      "length page < mirror_page_size \<or> rs \<noteq> []"
      "started = (case sc_pass_started c of Some t \<Rightarrow> t
         | None \<Rightarrow> (case server_clock isod blocks of Some t \<Rightarrow> t | None \<Rightarrow> now))"
      "ss_complete step = (length page < mirror_page_size)"
      "ss_cursor step = (if length page < mirror_page_size
         then c\<lparr>sc_since := started, sc_after_id := 0, sc_pass_started := None\<rparr>
         else c\<lparr>sc_after_id := ir_id (last rs), sc_pass_started := Some started\<rparr>)"
proof -
  from assms obtain rs bad ids flr where got: "read_mirror_page isod d utm_max page = Inr (rs, bad)"
    "page_ids d page = Inr ids" "sweep_floor c overlap = Inr flr"
    by (auto simp: sweep_page_def rbind_Inr_iff)
  then have ids: "ids = map ir_id rs"
    using page_rows_ids by blast
  note step = assms [unfolded sweep_page_def got rbind.simps prod.case]
  show thesis
  proof (cases "sweep_order (sc_after_id c) (sc_after_id c) ids")
    case (Some v)
    with step show ?thesis by - (rule nothing, auto simp: still_def)
  next
    case None
    note fine = sweep_order_None [OF this]
    show ?thesis
    proof (cases "find (too_old flr) rs")
      case (Some row)
      with None step show ?thesis by - (rule nothing, auto simp: still_def)
    next
      case young: None
      show ?thesis
      proof (cases "mirror_page_size \<le> length page \<and> ids = []")
        case True
        with None young step show ?thesis by - (rule nothing, auto simp: still_def)
      next
        case False
        then have "length page < mirror_page_size \<or> rs \<noteq> []"
          by (auto simp: ids)
        with None young step fine got False show ?thesis
          by - (rule moves [OF got(1)], auto simp: still_def ids Let_def last_map split: if_splits)
      qed
    qed
  qed
qed

text \<open>A version pending before a page is read by it or still pending after it.\<close>

lemma sweep_page_due:
  assumes step: "sweep_page isod utm_max overlap now c d blocks blk page = Inr step"
    and bnd: "sweep_bound c overlap = Inr bnd" "shift_known s c"
    and honest: "honest_sweep isod d utm_max (instant bnd - s) tbl (sc_after_id c) page"
    and due: "tbl i = Some u" "still_due overlap c i u" and pos: "0 < i"
  shows "(i, u) \<in> versions_of (ss_rows step) \<or> still_due overlap (ss_cursor step) i u"
  using step
proof (cases rule: sweep_page_cases)
  case nothing
  with due show ?thesis by simp
next
  case (moves rs bad started)
  have read: "(i, u) \<in> versions_of rs" if "i \<in> ir_id ` set rs"
    using that honest moves(1) due(1) unfolding honest_sweep_def versions_of_def by force
  have pending: "i \<in> ir_id ` set rs"
    if "instant (sc_since c) - overlap \<le> u" "sc_after_id c < i"
      "length page < mirror_page_size \<or> (\<exists>row \<in> set rs. i \<le> ir_id row)"
  proof -
    have "instant bnd - s \<le> u"
      using sweep_bound_early [OF bnd] that(1) by simp
    with honest moves(1) due(1) that show ?thesis
      unfolding honest_sweep_def by blast
  qed
  show ?thesis
  proof (cases "length page < mirror_page_size")
    case True
    with due(2) pos read pending moves show ?thesis
      by (auto simp: still_due_def split: option.splits)
  next
    case False
    with moves(7) have "rs \<noteq> []" by simp
    then have "last rs \<in> set rs" by simp
    then have "i \<in> ir_id ` set rs \<or> ir_id (last rs) < i"
      if "instant (sc_since c) - overlap \<le> u" "sc_after_id c < i"
      using pending [OF that] by (metis not_le)
    with False due(2) read moves(2,8,10) show ?thesis
      by (cases "sc_pass_started c") (auto simp: still_due_def)
  qed
qed

lemma sweep_page_clock:
  assumes step: "sweep_page isod utm_max overlap now c d blocks blk page = Inr step"
    and inv: "sweep_inv overlap since0 c tbl clk seen" and "clk \<le> clk'"
    and "instant (case server_clock isod blocks of Some t \<Rightarrow> t | None \<Rightarrow> now) \<le> clk'"
  shows "instant (sc_since (ss_cursor step)) \<le> clk' \<and>
    (case sc_pass_started (ss_cursor step) of None \<Rightarrow> sc_after_id (ss_cursor step) = 0 | Some t \<Rightarrow> instant t \<le> clk')"
  using step
proof (cases rule: sweep_page_cases)
  case nothing
  with assms show ?thesis by (auto simp: sweep_inv_def split: option.splits)
next
  case (moves rs bad started)
  with assms show ?thesis by (auto simp: sweep_inv_def split: option.splits)
qed

lemma sweeping_inv:
  assumes "sweeping isod d utm_max overlap s c0 tbl0 clk0 c tbl clk seen"
  shows "sweep_inv overlap (instant (sc_since c0)) c tbl clk seen"
  using assms
proof (induction rule: sweeping.induct)
  case begin_pass
  then show ?case by (auto simp: sweep_inv_def still_due_def)
next
  case (edit c tbl clk seen clk' i u)
  then have "still_due overlap c i u"
    by (auto simp: sweep_inv_def still_due_def split: option.splits)
  with edit show ?case
    by (auto simp: sweep_inv_def split: option.splits)
next
  case (gone c tbl clk seen i)
  then show ?case by (auto simp: sweep_inv_def split: option.splits)
next
  case (measured c tbl clk seen shift calibrated)
  from measured.IH show ?case
    by (cases "sc_pass_started c") (auto simp: sweep_inv_def still_due_def)
next
  case (page c tbl clk seen clk' bnd now blocks blk page step)
  have "(i, u) \<in> seen \<union> versions_of (ss_rows step) \<or> still_due overlap (ss_cursor step) i u"
    if "tbl i = Some u" "instant (sc_since c0) - overlap \<le> u" for i u
  proof -
    have "0 < i" and "(i, u) \<in> seen \<or> still_due overlap c i u"
      using page.IH that by (auto simp: sweep_inv_def)
    with sweep_page_due [OF page.hyps(5,4,3,6) that(1)] show ?thesis by blast
  qed
  with page.IH sweep_page_clock [OF page.hyps(5) page.IH page.hyps(2,7)] show ?case
    by (simp add: sweep_inv_def)
qed

lemma sweeping_loses_nothing:
  assumes "sweeping isod d utm_max overlap s c0 tbl0 clk0 c tbl clk seen" and "sc_pass_started c = None"
    and "tbl i = Some u" and "instant (sc_since c0) - overlap \<le> u"
  shows "(i, u) \<in> seen \<or> instant (sc_since c) - overlap \<le> u"
  using sweeping_inv [OF assms(1)] assms(2-) by (auto simp: sweep_inv_def still_due_def)

section \<open>The round trip of the stored cursor\<close>

lemma strip_solid: "list_all (\<lambda>c. \<not> is_space c) s \<Longrightarrow> strip s = s"
proof -
  have "dropWhile is_space t = t" if "list_all (\<lambda>c. \<not> is_space c) t" for t
    using that by (cases t) simp_all
  then show "list_all (\<lambda>c. \<not> is_space c) s \<Longrightarrow> strip s = s"
    by (simp add: strip_def lstrip_def)
qed

lemma digit_solid: "is_digit c \<Longrightarrow> \<not> is_space c"
  by (auto simp: is_digit_def is_space_def Let_def)

lemma pad_solid: "list_all (\<lambda>c. \<not> is_space c) (pad n i)"
  by (auto simp: pad_def Let_def list_all_iff is_space_def code_def dest!: show_nat_digits digit_solid)

lemma pad_not_empty: "pad n i \<noteq> []"
  by (simp add: pad_def Let_def)

lemma sign_solid:
  "list_all (\<lambda>c. \<not> is_space c) ''-''" "list_all (\<lambda>c. \<not> is_space c) ''+''"
  "list_all (\<lambda>c. \<not> is_space c) '':''" "list_all (\<lambda>c. \<not> is_space c) ''.''"
  "list_all (\<lambda>c. \<not> is_space c) ''T''" "list_all (\<lambda>c. \<not> is_space c) []"
  by (simp_all add: is_space_def code_def)

lemma iso_clock_solid: "list_all (\<lambda>c. \<not> is_space c) (iso_clock b n)"
  by (simp only: iso_clock_def Let_def list_all_append pad_solid sign_solid split: if_split) simp

lemma isoformat_solid: "list_all (\<lambda>c. \<not> is_space c) (isoformat z)"
  by (simp only: isoformat_def Let_def split_beta list_all_append pad_solid sign_solid iso_clock_solid
      split: if_split) simp

lemma isoformat_not_empty: "isoformat z \<noteq> []"
  by (simp only: isoformat_def Let_def split_beta append_is_Nil_conv pad_not_empty) simp

text \<open>A parser that reads what \<open>isoformat\<close> writes.\<close>

definition reads_back :: "(string \<Rightarrow> (rat \<times> rat option) option) \<Rightarrow> zoned \<Rightarrow> bool" where
  "reads_back isod z \<longleftrightarrow> isod (isoformat z) = Some (fst z + snd z, Some (snd z))"

lemma parse_zoned_isoformat: "reads_back isod z \<Longrightarrow> parse_zoned isod (JStr (isoformat z)) = Some z"
  by (simp add: parse_zoned_def reads_back_def strip_solid [OF isoformat_solid] isoformat_not_empty)

lemma parse_zoned_json:
  "pred_option (reads_back isod) t \<Longrightarrow> parse_zoned isod (json_time t) = t"
  by (cases t) (simp_all add: json_time_def parse_zoned_isoformat, simp add: parse_zoned_def)

lemma sweep_roundtrip_lemma:
  assumes "sc_dialect c \<in> {dialect_item, dialect_legacy}" and "0 \<le> sc_after_id c"
    and "reads_back isod (sc_since c)" and "pred_option (reads_back isod) (sc_pass_started c)"
    and "pred_option (reads_back isod) (sc_calibrated_at c)"
  shows "sweep_from_json isod (sweep_to_json c) now = Inr c"
proof -
  have "stored_count (JInt (sc_after_id c)) = Inr (sc_after_id c)"
    using assms(2) by (simp add: stored_count_def)
  moreover have "stored_dialect (sweep_to_json c) = sc_dialect c"
    using assms(1) by (auto simp: stored_dialect_def sweep_to_json_def get_field_def)
  moreover have "(case (case sc_shift_seconds c of None \<Rightarrow> JNone | Some n \<Rightarrow> JInt n) of JInt n \<Rightarrow> Some n | _ \<Rightarrow> None)
      = sc_shift_seconds c"
    by (cases "sc_shift_seconds c") simp_all
  ultimately show ?thesis
    using assms(3-5)
    by (simp add: sweep_from_json_def parse_zoned_isoformat parse_zoned_json)
       (simp add: sweep_to_json_def get_field_def parse_zoned_isoformat parse_zoned_json)
qed

end
