(* ===== verification/Crm_Fetch.thy ===== *)
theory Crm_Fetch
  imports Crm_Sweep
begin

text \<open>
  \<open>sync/crm_fetch.py\<close>: the reads of the dirty refresh, each one batch. A re-read of known ids
  sorts them into returned, missing and unresolved; \<open>crm.item.get\<close> sorts the missing ones by what
  its answer proves.
\<close>

section \<open>Re-reading known ids\<close>

record ids_outcome =
  io_rows :: "item_row list"
  io_rejected :: rejected
  io_missing :: "int set"
  io_unresolved :: "int set"
  io_errors :: "bitrix_error list"
  io_time :: "block option"

definition no_ids :: "block option \<Rightarrow> ids_outcome" where
  "no_ids blk =
     \<lparr>io_rows = [], io_rejected = [], io_missing = {}, io_unresolved = {}, io_errors = [], io_time = blk\<rparr>"

function id_chunks :: "int list \<Rightarrow> int list list" where
  "id_chunks ids =
     (if ids = [] then [] else take max_ids_per_command ids # id_chunks (drop max_ids_per_command ids))"
  by pat_completeness auto

termination
  by (relation "measure length") (auto simp: max_ids_per_command_def)

declare id_chunks.simps [simp del]

definition wanted_ids :: "int list \<Rightarrow> int list" where
  "wanted_ids ids = sorted_ids (filter (\<lambda>i. 0 < i) ids)"

definition ids_key :: "nat \<Rightarrow> string" where
  "ids_key index = ''i'' @ show_nat index"

fun ids_commands ::
  "mirror_dialect \<Rightarrow> nat \<Rightarrow> int list list \<Rightarrow> (py_error, command list) result" where
  "ids_commands d index [] = Inr []"
| "ids_commands d index (chunk # rest) =
     rbind (ids_command d (ids_key index) chunk) (\<lambda>cmd.
     rbind (ids_commands d (Suc index) rest) (\<lambda>cmds. Inr (cmd # cmds)))"

text \<open>
  The rows of one command: what was refused, and the rows kept, or the first id that nobody
  asked for, at which the reading stops.
\<close>

fun asked_rows ::
  "(string \<Rightarrow> (rat \<times> rat option) option) \<Rightarrow> mirror_dialect \<Rightarrow> int \<Rightarrow> int set \<Rightarrow> json list \<Rightarrow>
   (py_error, rejected \<times> (int + item_row list)) result" where
  "asked_rows isod d utm_max asked [] = Inr ([], Inr [])"
| "asked_rows isod d utm_max asked (raw # rest) =
     rbind (parse_item isod d utm_max raw) (\<lambda>parsed.
       case parsed of
         Inl reason \<Rightarrow> rbind (row_id d raw) (\<lambda>i.
                        rbind (asked_rows isod d utm_max asked rest) (\<lambda>(bad, out).
                        Inr ((i, reason) # bad, out)))
       | Inr row \<Rightarrow>
           if ir_id row \<notin> asked then Inr ([], Inl (ir_id row))
           else rbind (asked_rows isod d utm_max asked rest) (\<lambda>(bad, out).
                Inr (bad, (case out of Inl stray \<Rightarrow> Inl stray | Inr kept \<Rightarrow> Inr (row # kept)))))"

definition ids_page :: "mirror_dialect \<Rightarrow> batch_result \<Rightarrow> string \<Rightarrow> bitrix_error + json list" where
  "ids_page d b key =
     (case command_by_key b key of
        None \<Rightarrow> Inl (classify None None (''batch answered no '' @ key) [])
      | Some c \<Rightarrow>
          (case cmd_error c of
             Some e \<Rightarrow> Inl e
           | None \<Rightarrow>
               (case mirror_page_rows d (cmd_result c) of
                  None \<Rightarrow> Inl (classify None None (key @ '': unexpected result shape'') [])
                | Some page \<Rightarrow> Inr page)))"

definition ids_item ::
  "(string \<Rightarrow> (rat \<times> rat option) option) \<Rightarrow> mirror_dialect \<Rightarrow> int \<Rightarrow> batch_result \<Rightarrow>
   string \<times> int list \<Rightarrow> ids_outcome \<Rightarrow> (py_error, ids_outcome) result" where
  "ids_item isod d utm_max b = (\<lambda>(key, chunk) out.
     case ids_page d b key of
       Inl e \<Rightarrow> Inr (out\<lparr>io_errors := io_errors out @ [e], io_unresolved := io_unresolved out \<union> set chunk\<rparr>)
     | Inr page \<Rightarrow>
         rbind (asked_rows isod d utm_max (set chunk) page) (\<lambda>(bad, got).
           let out' = out\<lparr>io_rejected := io_rejected out @ bad\<rparr>
           in case got of
                Inl stray \<Rightarrow> Inr (out'\<lparr>
                  io_errors := io_errors out @ [classify None None
                    (key @ '': returned id '' @ show_int stray @ '' it was not asked for'') []],
                  io_unresolved := io_unresolved out \<union> set chunk\<rparr>)
              | Inr kept \<Rightarrow> Inr (out'\<lparr>
                  io_rows := io_rows out @ kept,
                  io_missing := io_missing out \<union> (set chunk - ir_id ` set kept)\<rparr>)))"

definition read_ids_batch ::
  "(string \<Rightarrow> (rat \<times> rat option) option) \<Rightarrow> mirror_dialect \<Rightarrow> int \<Rightarrow> (string \<times> int list) list \<Rightarrow>
   batch_result \<Rightarrow> (py_error, ids_outcome) result" where
  "read_ids_batch isod d utm_max asked b =
     rbind (merge_time_blocks isod (batch_time b # map cmd_time (commands b))) (\<lambda>blk.
       rfold (ids_item isod d utm_max b) asked (no_ids blk))"

definition fetch_by_ids ::
  "'o fetch_outside_scheme \<Rightarrow> client \<Rightarrow> mirror_dialect \<Rightarrow> int list \<Rightarrow> int \<Rightarrow>
   ('n net_scheme, exn, ids_outcome) prog" where
  "fetch_by_ids c cl d ids utm_max =
     (let chunks = id_chunks (wanted_ids ids)
      in if chunks = [] then ret (no_ids None)
         else if max_batch_commands < length chunks then throw (Py ValueError)
         else andThen (lift_result (lift_py (ids_commands d 0 chunks))) (\<lambda>cmds.
              andThen (batch c cl cmds False) (\<lambda>b.
              lift_result (lift_py
                (read_ids_batch (iso_date c) d utm_max (zip (map fst cmds) chunks) b)))))"

section \<open>Confirming an absence\<close>

record confirm_outcome =
  co_not_found :: "int set"
  co_access_denied :: "int set"
  co_present :: "int set"
  co_unresolved :: "(int, bitrix_error) dict"
  co_time :: "block option"

definition nothing_confirmed :: "block option \<Rightarrow> confirm_outcome" where
  "nothing_confirmed blk =
     \<lparr>co_not_found = {}, co_access_denied = {}, co_present = {}, co_unresolved = [], co_time = blk\<rparr>"

definition rights_errors :: "error_class set" where
  "rights_errors = {AccessDenied, UserAccessError, InvalidCredentials}"

definition get_key :: "int \<Rightarrow> string" where
  "get_key item_id = ''g'' @ show_int item_id"

definition confirm_item :: "batch_result \<Rightarrow> int \<Rightarrow> confirm_outcome \<Rightarrow> confirm_outcome" where
  "confirm_item b item_id out =
     (case command_by_key b (get_key item_id) of
        None \<Rightarrow> out\<lparr>co_unresolved := dict_set item_id
                  (classify None None (''batch answered no '' @ get_key item_id) []) (co_unresolved out)\<rparr>
      | Some c \<Rightarrow>
          (case cmd_error c of
             None \<Rightarrow> out\<lparr>co_present := insert item_id (co_present out)\<rparr>
           | Some e \<Rightarrow>
               if err_class e = NotFound then out\<lparr>co_not_found := insert item_id (co_not_found out)\<rparr>
               else if err_class e \<in> rights_errors
               then out\<lparr>co_access_denied := insert item_id (co_access_denied out)\<rparr>
               else out\<lparr>co_unresolved := dict_set item_id e (co_unresolved out)\<rparr>))"

definition read_confirmation ::
  "(string \<Rightarrow> (rat \<times> rat option) option) \<Rightarrow> int list \<Rightarrow> batch_result \<Rightarrow>
   (py_error, confirm_outcome) result" where
  "read_confirmation isod wanted b =
     rbind (merge_time_blocks isod (batch_time b # map cmd_time (commands b))) (\<lambda>blk.
       Inr (fold (confirm_item b) wanted (nothing_confirmed blk)))"

definition confirm_absent ::
  "'o fetch_outside_scheme \<Rightarrow> client \<Rightarrow> int \<Rightarrow> int list \<Rightarrow> ('n net_scheme, exn, confirm_outcome) prog" where
  "confirm_absent c cl entity ids =
     (let wanted = wanted_ids ids
      in if wanted = [] then ret (nothing_confirmed None)
         else if max_batch_commands < length wanted then throw (Py ValueError)
         else andThen (batch c cl (map (\<lambda>i. get_command entity (get_key i) i) wanted) False) (\<lambda>b.
              lift_result (lift_py (read_confirmation (iso_date c) wanted b))))"

section \<open>What a re-read says of every id\<close>

lemma id_chunks_concat: "concat (id_chunks ids) = ids"
  by (induction ids rule: id_chunks.induct) (subst id_chunks.simps, simp)

lemma id_chunks_short: "chunk \<in> set (id_chunks ids) \<Longrightarrow> chunk \<noteq> [] \<and> length chunk \<le> max_ids_per_command"
proof (induction ids rule: id_chunks.induct)
  case (1 ids)
  show ?case
  proof (cases "ids = []")
    case True
    with 1(2) show ?thesis by (subst (asm) id_chunks.simps) simp
  next
    case False
    with 1(2) have "chunk = take max_ids_per_command ids \<or> chunk \<in> set (id_chunks (drop max_ids_per_command ids))"
      by (simp add: id_chunks.simps [of ids])
    with False 1(1) show ?thesis by (auto simp: max_ids_per_command_def)
  qed
qed

lemma wanted_ids_mem: "i \<in> set (wanted_ids ids) \<longleftrightarrow> i \<in> set ids \<and> 0 < i"
  by (auto simp: wanted_ids_def sorted_ids_def)

lemma wanted_ids_distinct: "distinct (wanted_ids ids)"
  by (simp add: wanted_ids_def sorted_ids_def)

text \<open>A kept row is an asked one, and everything on the page is kept, refused or stray.\<close>

lemma asked_rows_sound:
  assumes "asked_rows isod d n asked page = Inr (bad, Inr kept)"
  shows "ir_id ` set kept \<subseteq> asked"
    and "\<forall>raw \<in> set page. \<forall>i. row_id d raw = Inr (Some i) \<longrightarrow> i \<in> ir_id ` set kept"
    and "\<forall>row \<in> set kept. \<exists>raw \<in> set page. parse_item isod d n raw = Inr (Inr row)"
proof -
  have "ir_id ` set kept \<subseteq> asked \<and>
    (\<forall>raw \<in> set page. \<forall>i. row_id d raw = Inr (Some i) \<longrightarrow> i \<in> ir_id ` set kept) \<and>
    (\<forall>row \<in> set kept. \<exists>raw \<in> set page. parse_item isod d n raw = Inr (Inr row))"
    using assms
  proof (induction page arbitrary: bad kept)
    case (Cons raw page)
    from Cons.prems obtain parsed where parsed: "parse_item isod d n raw = Inr parsed"
      by (auto simp: rbind_Inr_iff)
    show ?case
    proof (cases parsed)
      case (Inl reason)
      with Cons.prems parsed obtain bad' where "asked_rows isod d n asked page = Inr (bad', Inr kept)"
        by (auto simp: rbind_Inr_iff)
      with Cons.IH Inl parsed parse_item_refused [of isod d n raw reason] show ?thesis by auto
    next
      case (Inr row)
      with Cons.prems parsed have "ir_id row \<in> asked"
        by (auto split: if_splits)
      with Cons.prems parsed Inr obtain bad' kept' where
        rest: "asked_rows isod d n asked page = Inr (bad', Inr kept')" and kept: "kept = row # kept'"
        by (clarsimp simp: rbind_Inr_iff split: sum.splits) (metis sum.exhaust)
      with Cons.IH [OF rest] \<open>ir_id row \<in> asked\<close> parse_item_row(1) [of isod d n raw row] parsed Inr
      show ?thesis by auto
    qed
  qed simp
  then show "ir_id ` set kept \<subseteq> asked"
    and "\<forall>raw \<in> set page. \<forall>i. row_id d raw = Inr (Some i) \<longrightarrow> i \<in> ir_id ` set kept"
    and "\<forall>row \<in> set kept. \<exists>raw \<in> set page. parse_item isod d n raw = Inr (Inr row)"
    by blast+
qed

definition ids_sorted :: "int set \<Rightarrow> ids_outcome \<Rightarrow> bool" where
  "ids_sorted asked out \<longleftrightarrow>
     ir_id ` set (io_rows out) \<union> io_missing out \<union> io_unresolved out = asked \<and>
     ir_id ` set (io_rows out) \<inter> io_missing out = {} \<and>
     io_unresolved out \<inter> (ir_id ` set (io_rows out) \<union> io_missing out) = {}"

lemma ids_item_sorted:
  assumes item: "ids_item isod d n b (key, chunk) out = Inr out'" and before: "ids_sorted asked out"
    and apart: "set chunk \<inter> asked = {}"
  shows "ids_sorted (asked \<union> set chunk) out'"
proof -
  define R where "R = ir_id ` set (io_rows out)"
  have sets: "R \<union> io_missing out \<union> io_unresolved out = asked" "R \<inter> io_missing out = {}"
    "io_unresolved out \<inter> (R \<union> io_missing out) = {}"
    using before by (simp_all add: ids_sorted_def R_def)
  have unresolved: "ids_sorted (asked \<union> set chunk) out'"
    if "io_rows out' = io_rows out" "io_missing out' = io_missing out"
      "io_unresolved out' = io_unresolved out \<union> set chunk"
    unfolding ids_sorted_def that R_def [symmetric] using sets apart by blast
  show ?thesis
  proof (cases "ids_page d b key")
    case (Inl e)
    with item show ?thesis
      by (intro unresolved) (auto simp: ids_item_def)
  next
    case (Inr page)
    with item obtain bad got where got: "asked_rows isod d n (set chunk) page = Inr (bad, got)"
      by (auto simp: ids_item_def rbind_Inr_iff)
    show ?thesis
    proof (cases got)
      case (Inl stray)
      with item Inr got show ?thesis
        by (intro unresolved) (auto simp: ids_item_def)
    next
      case kept: (Inr kept)
      with item Inr got have out': "io_rows out' = io_rows out @ kept"
        "io_missing out' = io_missing out \<union> (set chunk - ir_id ` set kept)"
        "io_unresolved out' = io_unresolved out"
        by (auto simp: ids_item_def)
      have "ir_id ` set kept \<subseteq> set chunk"
        using asked_rows_sound(1) [OF got [unfolded kept]] .
      then show ?thesis
        unfolding ids_sorted_def out' set_append image_Un R_def [symmetric] using sets apart by blast
    qed
  qed
qed

lemma ids_items_sorted:
  assumes "rfold (ids_item isod d n b) asked out = Inr out'" and "ids_sorted before out"
    and "distinct (concat (map snd asked))" and "set (concat (map snd asked)) \<inter> before = {}"
  shows "ids_sorted (before \<union> set (concat (map snd asked))) out'"
  using assms
proof (induction asked arbitrary: out before)
  case (Cons x asked)
  obtain key chunk where x: "x = (key, chunk)" by (cases x)
  from Cons.prems(1) obtain out1 where item: "ids_item isod d n b (key, chunk) out = Inr out1"
    and rest: "rfold (ids_item isod d n b) asked out1 = Inr out'"
    by (auto simp: x rbind_Inr_iff)
  have "ids_sorted (before \<union> set chunk) out1"
    using ids_item_sorted [OF item Cons.prems(2)] Cons.prems(4) by (auto simp: x)
  from Cons.IH [OF rest this] Cons.prems(3,4) show ?case
    by (auto simp: x Un_assoc)
qed simp

lemma read_ids_batch_sorted:
  assumes "read_ids_batch isod d n asked b = Inr out" and "distinct (concat (map snd asked))"
  shows "ids_sorted (set (concat (map snd asked))) out"
proof -
  obtain blk where "rfold (ids_item isod d n b) asked (no_ids blk) = Inr out"
    using assms(1) by (auto simp: read_ids_batch_def rbind_Inr_iff)
  from ids_items_sorted [OF this _ assms(2), of "{}"] show ?thesis
    by (simp add: no_ids_def ids_sorted_def)
qed

text \<open>An id is called missing only on a command answered without error, by a page that has no row of it.\<close>

lemma ids_item_missing:
  assumes "ids_item isod d n b (key, chunk) out = Inr out'" and "i \<in> io_missing out'" and "i \<notin> io_missing out"
  shows "i \<in> set chunk \<and> (\<exists>page. ids_page d b key = Inr page \<and> (\<forall>raw \<in> set page. row_id d raw \<noteq> Inr (Some i)))"
proof (cases "ids_page d b key")
  case (Inl e)
  with assms show ?thesis by (auto simp: ids_item_def)
next
  case (Inr page)
  with assms(1) obtain bad got where got: "asked_rows isod d n (set chunk) page = Inr (bad, got)"
    by (auto simp: ids_item_def rbind_Inr_iff)
  show ?thesis
  proof (cases got)
    case (Inl stray)
    with Inr got assms show ?thesis by (auto simp: ids_item_def)
  next
    case kept: (Inr kept)
    with Inr got assms have "i \<in> set chunk - ir_id ` set kept"
      by (auto simp: ids_item_def)
    with Inr asked_rows_sound(2) [OF got [unfolded kept]] show ?thesis by auto
  qed
qed

lemma ids_items_missing:
  assumes "rfold (ids_item isod d n b) asked out = Inr out'" and "i \<in> io_missing out'" and "i \<notin> io_missing out"
  shows "\<exists>(key, chunk) \<in> set asked. i \<in> set chunk \<and>
    (\<exists>page. ids_page d b key = Inr page \<and> (\<forall>raw \<in> set page. row_id d raw \<noteq> Inr (Some i)))"
  using assms
proof (induction asked arbitrary: out)
  case (Cons x asked)
  obtain key chunk where x: "x = (key, chunk)" by (cases x)
  from Cons.prems(1) obtain out1 where item: "ids_item isod d n b (key, chunk) out = Inr out1"
    and rest: "rfold (ids_item isod d n b) asked out1 = Inr out'"
    by (auto simp: x rbind_Inr_iff)
  show ?case
  proof (cases "i \<in> io_missing out1")
    case True
    from ids_item_missing [OF item this Cons.prems(3)] show ?thesis by (auto simp: x)
  next
    case False
    from Cons.IH [OF rest Cons.prems(2) this] show ?thesis by auto
  qed
qed simp

text \<open>The parser refuses only rows without an id.\<close>

lemma asked_rows_refused: "asked_rows isod d n asked page = Inr (bad, got) \<Longrightarrow> x \<in> set bad \<Longrightarrow> fst x = None"
proof (induction page arbitrary: bad got)
  case (Cons raw page)
  from Cons.prems(1) obtain parsed where parsed: "parse_item isod d n raw = Inr parsed"
    by (auto simp: rbind_Inr_iff)
  show ?case
  proof (cases parsed)
    case (Inl reason)
    with Cons.prems(1) parsed parse_item_refused [of isod d n raw reason] obtain bad' where
      "asked_rows isod d n asked page = Inr (bad', got)" "bad = (None, reason) # bad'"
      by (auto simp: rbind_Inr_iff)
    with Cons show ?thesis by auto
  next
    case (Inr row)
    show ?thesis
    proof (cases "ir_id row \<in> asked")
      case False
      with Inr Cons.prems parsed show ?thesis by simp
    next
      case True
      with Inr Cons.prems(1) parsed obtain out where "asked_rows isod d n asked page = Inr (bad, out)"
        by (auto simp: rbind_Inr_iff)
      with Cons show ?thesis by blast
    qed
  qed
qed simp

lemma ids_item_refused:
  assumes "ids_item isod d n b (key, chunk) out = Inr out'" and "\<forall>x \<in> set (io_rejected out). fst x = None"
  shows "\<forall>x \<in> set (io_rejected out'). fst x = None"
proof (cases "ids_page d b key")
  case (Inl e)
  with assms show ?thesis by (auto simp: ids_item_def)
next
  case (Inr page)
  with assms(1) obtain bad got where got: "asked_rows isod d n (set chunk) page = Inr (bad, got)"
    by (auto simp: ids_item_def rbind_Inr_iff)
  with assms(1) Inr have "io_rejected out' = io_rejected out @ bad"
    by (cases got) (auto simp: ids_item_def)
  with assms(2) asked_rows_refused [OF got] show ?thesis by auto
qed

lemma ids_items_refused:
  assumes "rfold (ids_item isod d n b) asked out = Inr out'" and "\<forall>x \<in> set (io_rejected out). fst x = None"
  shows "\<forall>x \<in> set (io_rejected out'). fst x = None"
  using assms(1,2) by (rule rfold_invariant) (metis ids_item_refused prod.exhaust)

lemma ids_commands_length: "ids_commands d k chunks = Inr cmds \<Longrightarrow> length cmds = length chunks"
  by (induction chunks arbitrary: k cmds) (auto simp: rbind_Inr_iff)

lemma fetch_by_ids_sorted:
  assumes "fetch_by_ids c cl d ids n w = (Inr got, w')"
  shows "ids_sorted (set (wanted_ids ids)) got \<and> (\<forall>x \<in> set (io_rejected got). fst x = None)"
proof (cases "id_chunks (wanted_ids ids) = []")
  case True
  with id_chunks_concat [of "wanted_ids ids"] have "wanted_ids ids = []" by simp
  with True assms show ?thesis
    by (auto simp: fetch_by_ids_def ret_def no_ids_def ids_sorted_def)
next
  case False
  with assms obtain cmds b where cmds: "ids_commands d 0 (id_chunks (wanted_ids ids)) = Inr cmds"
    and read: "read_ids_batch (iso_date c) d n (zip (map fst cmds) (id_chunks (wanted_ids ids))) b = Inr got"
    by (auto simp: fetch_by_ids_def Let_def prog_defs lift_py_def split: if_splits sum.splits prod.splits)
  have parts: "map snd (zip (map fst cmds) (id_chunks (wanted_ids ids))) = id_chunks (wanted_ids ids)"
    using ids_commands_length [OF cmds] by simp
  have "ids_sorted (set (wanted_ids ids)) got"
    using read_ids_batch_sorted [OF read] wanted_ids_distinct [of ids]
    unfolding parts id_chunks_concat by simp
  moreover obtain blk where "rfold (ids_item (iso_date c) d n b) (zip (map fst cmds) (id_chunks (wanted_ids ids))) (no_ids blk) = Inr got"
    using read by (auto simp: read_ids_batch_def rbind_Inr_iff)
  then have "\<forall>x \<in> set (io_rejected got). fst x = None"
    by (rule ids_items_refused) (simp add: no_ids_def)
  ultimately show ?thesis ..
qed

section \<open>What a confirmation says of every id\<close>

datatype verdict = Gone | Denied | There | Unknown

definition verdict :: "batch_result \<Rightarrow> int \<Rightarrow> verdict" where
  "verdict b i =
     (case command_by_key b (get_key i) of
        None \<Rightarrow> Unknown
      | Some c \<Rightarrow> (case cmd_error c of
          None \<Rightarrow> There
        | Some e \<Rightarrow> if err_class e = NotFound then Gone
                    else if err_class e \<in> rights_errors then Denied else Unknown))"

lemma confirm_item_sets:
  "co_not_found (confirm_item b i out) = (if verdict b i = Gone then {i} else {}) \<union> co_not_found out"
  "co_access_denied (confirm_item b i out) = (if verdict b i = Denied then {i} else {}) \<union> co_access_denied out"
  "co_present (confirm_item b i out) = (if verdict b i = There then {i} else {}) \<union> co_present out"
  "fst ` set (co_unresolved (confirm_item b i out)) =
     (if verdict b i = Unknown then {i} else {}) \<union> fst ` set (co_unresolved out)"
  by (simp_all add: confirm_item_def verdict_def dom_update dom_map_of_conv_image_fst [symmetric] update_conv'
      split: option.split)

lemma confirm_items_sets:
  "co_not_found (fold (confirm_item b) ids out) = co_not_found out \<union> {i \<in> set ids. verdict b i = Gone}"
  "co_access_denied (fold (confirm_item b) ids out) = co_access_denied out \<union> {i \<in> set ids. verdict b i = Denied}"
  "co_present (fold (confirm_item b) ids out) = co_present out \<union> {i \<in> set ids. verdict b i = There}"
  "fst ` set (co_unresolved (fold (confirm_item b) ids out)) =
     fst ` set (co_unresolved out) \<union> {i \<in> set ids. verdict b i = Unknown}"
  by (induction ids arbitrary: out) (auto simp: confirm_item_sets)

text \<open>What a confirmation that returned says: the verdict of its one batch on every id.\<close>

lemma confirm_absent_verdicts:
  assumes "confirm_absent c cl entity ids w = (Inr out, w')" and "wanted_ids ids \<noteq> []"
  obtains b where
    "batch c cl (map (\<lambda>i. get_command entity (get_key i) i) (wanted_ids ids)) False w = (Inr b, w')"
    "co_not_found out = {i \<in> set (wanted_ids ids). verdict b i = Gone}"
    "co_access_denied out = {i \<in> set (wanted_ids ids). verdict b i = Denied}"
    "co_present out = {i \<in> set (wanted_ids ids). verdict b i = There}"
    "fst ` set (co_unresolved out) = {i \<in> set (wanted_ids ids). verdict b i = Unknown}"
proof -
  from assms obtain b blk where
    "batch c cl (map (\<lambda>i. get_command entity (get_key i) i) (wanted_ids ids)) False w = (Inr b, w')"
    "out = fold (confirm_item b) (wanted_ids ids) (nothing_confirmed blk)"
    by (auto simp: confirm_absent_def Let_def prog_defs lift_py_def read_confirmation_def rbind_Inr_iff
        split: if_splits sum.splits prod.splits)
  then show thesis
    by (intro that [of b]) (auto simp: confirm_items_sets nothing_confirmed_def)
qed

end
