(* ===== verification/Crm_Lanes.thy ===== *)
theory Crm_Lanes
  imports Lease
begin

text \<open>
  \<open>sync/crm_lanes.py\<close>: the lanes of the CRM mirror, one kind of work each with a schedule, a
  cursor and a failure count of its own, and the table \<open>crm_lanes\<close> that keeps them. Instants
  are seconds; a \<open>timedelta\<close> keeps microseconds.
\<close>

section \<open>Lanes\<close>

definition lane_names :: "string list" where
  "lane_names =
     [''dict'', ''deal.sweep'', ''lead.sweep'', ''dirty'', ''deal.backfill'', ''lead.backfill'',
      ''deal.reconcile'', ''lead.reconcile'', ''deal.patrol'', ''lead.patrol'']"

definition lane_pending :: string where "lane_pending = ''pending''"
definition lane_active :: string where "lane_active = ''active''"
definition lane_done :: string where "lane_done = ''done''"
definition lane_parked :: string where "lane_parked = ''parked''"

lemmas lane_status_defs = lane_pending_def lane_active_def lane_done_def lane_parked_def

record lane =
  ln_name :: string
  ln_due_at :: rat
  ln_status :: string
  ln_cursor :: "(string, json) dict"
  ln_progress_done :: int
  ln_progress_total :: "int option"
  ln_last_clean_at :: "rat option"
  ln_failures :: int
  ln_paused_until :: "rat option"
  ln_block_reason :: "string option"
  ln_last_error_code :: "string option"
  ln_last_error_at :: "rat option"

text \<open>The row a missing lane is created as; the columns not named take their defaults.\<close>

definition fresh_lane :: "rat \<Rightarrow> string \<Rightarrow> lane" where
  "fresh_lane now name =
     \<lparr>ln_name = name, ln_due_at = now, ln_status = lane_pending, ln_cursor = [], ln_progress_done = 0,
      ln_progress_total = None, ln_last_clean_at = None, ln_failures = 0, ln_paused_until = None,
      ln_block_reason = None, ln_last_error_code = None, ln_last_error_at = None\<rparr>"

definition lane_runnable :: "lane \<Rightarrow> rat \<Rightarrow> bool" where
  "lane_runnable l now =
     (if ln_status l = lane_done \<or> ln_status l = lane_parked then False
      else if (case ln_paused_until l of None \<Rightarrow> False | Some t \<Rightarrow> now < t) then False
      else ln_due_at l \<le> now)"

definition lane_wakes_at :: "lane \<Rightarrow> rat option" where
  "lane_wakes_at l =
     (if ln_status l = lane_done \<or> ln_status l = lane_parked then None
      else case ln_paused_until l of
             None \<Rightarrow> Some (ln_due_at l)
           | Some t \<Rightarrow> if ln_due_at l < t then Some t else Some (ln_due_at l))"

section \<open>What a run leaves behind\<close>

definition lane_failures_before_pause :: int where "lane_failures_before_pause = 10"
definition lane_failure_base :: rat where "lane_failure_base = 60"
definition lane_failure_max :: rat where "lane_failure_max = 3600"
definition lane_failure_pause :: rat where "lane_failure_pause = 6 * 3600"
definition unavailable_retry_seconds :: rat where "unavailable_retry_seconds = 86400"
definition lane_code_max :: nat where "lane_code_max = 64"

definition to_micros :: "rat \<Rightarrow> rat" where
  "to_micros q = of_int (round_half_even (q * 1000000)) / 1000000"

definition lane_code :: "bitrix_error option \<Rightarrow> string option \<Rightarrow> string" where
  "lane_code error reason =
     (case reason of
        Some (c # cs) \<Rightarrow> take lane_code_max (c # cs)
      | _ \<Rightarrow> (case error of
                None \<Rightarrow> ''unknown''
              | Some e \<Rightarrow> take lane_code_max
                            (if err_code e = [] then class_name (err_class e) else err_code e)))"

definition lane_succeeded ::
  "lane \<Rightarrow> rat \<Rightarrow> rat \<Rightarrow> (string, json) dict option \<Rightarrow> string \<Rightarrow> int option \<Rightarrow> int option \<Rightarrow> lane" where
  "lane_succeeded l now due_time cursor new_status progress in_total =
     l\<lparr>ln_status := new_status, ln_due_at := due_time,
       ln_cursor := (case cursor of None \<Rightarrow> ln_cursor l | Some c \<Rightarrow> c),
       ln_progress_done := (case progress of None \<Rightarrow> ln_progress_done l | Some n \<Rightarrow> n),
       ln_progress_total := (case in_total of None \<Rightarrow> ln_progress_total l | Some n \<Rightarrow> Some n),
       ln_last_clean_at := Some now, ln_failures := 0, ln_paused_until := None,
       ln_block_reason := None, ln_last_error_code := None, ln_last_error_at := None\<rparr>"

definition lane_delay :: "int \<Rightarrow> rat" where
  "lane_delay failures =
     (if lane_failures_before_pause \<le> failures then lane_failure_pause
      else min lane_failure_max (lane_failure_base * 2 powi (failures - 1)))"

definition lane_failed ::
  "lane \<Rightarrow> bitrix_error option \<Rightarrow> rat \<Rightarrow> string option \<Rightarrow> (string, json) dict option \<Rightarrow> lane" where
  "lane_failed l error now reason cursor =
     (let failures = ln_failures l + 1; delay = lane_delay failures
      in l\<lparr>ln_status := lane_active,
           ln_cursor := (case cursor of None \<Rightarrow> ln_cursor l | Some c \<Rightarrow> c),
           ln_failures := failures, ln_paused_until := Some (now + to_micros delay),
           ln_last_error_code := Some (lane_code error reason), ln_last_error_at := Some now\<rparr>)"

definition lane_unavailable ::
  "lane \<Rightarrow> string \<Rightarrow> rat \<Rightarrow> (string, json) dict option \<Rightarrow> lane" where
  "lane_unavailable l reason now cursor =
     (let c = take lane_code_max reason
      in l\<lparr>ln_status := lane_active,
           ln_cursor := (case cursor of None \<Rightarrow> ln_cursor l | Some c \<Rightarrow> c),
           ln_paused_until := Some (now + unavailable_retry_seconds),
           ln_block_reason := Some c, ln_last_error_code := Some c, ln_last_error_at := Some now\<rparr>)"

definition lane_resting :: "lane \<Rightarrow> rat \<Rightarrow> lane" where
  "lane_resting l until = l\<lparr>ln_paused_until := Some until\<rparr>"

definition park_lane :: "lane \<Rightarrow> string \<Rightarrow> rat \<Rightarrow> lane" where
  "park_lane l reason now =
     (let c = take lane_code_max reason
      in l\<lparr>ln_status := lane_parked, ln_block_reason := Some c, ln_last_error_code := Some c,
           ln_last_error_at := Some now\<rparr>)"

definition lanes_next_wake :: "lane list \<Rightarrow> rat option" where
  "lanes_next_wake lanes = min_opt (List.map_filter lane_wakes_at lanes)"

section \<open>The table\<close>

type_synonym lane_table = "(int \<times> string, lane) dict"

text \<open>What the columns of \<open>crm_lanes\<close> hold, and its CHECK on the status.\<close>

definition text_fits :: "nat \<Rightarrow> string \<Rightarrow> bool" where
  "text_fits n s \<longleftrightarrow> length s \<le> n \<and> list_all (\<lambda>c. code c \<noteq> 0) s"

definition lane_fits :: "lane \<Rightarrow> bool" where
  "lane_fits l \<longleftrightarrow>
     text_fits 32 (ln_name l) \<and>
     ln_status l \<in> {lane_pending, lane_active, lane_done, lane_parked} \<and>
     - (2 ^ 63) \<le> ln_progress_done l \<and> ln_progress_done l < 2 ^ 63 \<and>
     pred_option (\<lambda>n. - (2 ^ 63) \<le> n \<and> n < 2 ^ 63) (ln_progress_total l) \<and>
     - (2 ^ 31) \<le> ln_failures l \<and> ln_failures l < 2 ^ 31 \<and>
     pred_option (text_fits 64) (ln_block_reason l) \<and> pred_option (text_fits 64) (ln_last_error_code l)"

definition load_lanes :: "int \<Rightarrow> lane_table \<Rightarrow> (string, lane) dict" where
  "load_lanes pid t = map (\<lambda>((p, name), l). (name, l\<lparr>ln_name := name\<rparr>)) (filter (\<lambda>((p, name), l). p = pid) t)"

definition add_lane :: "int \<Rightarrow> rat \<Rightarrow> string \<Rightarrow> lane_table \<Rightarrow> lane_table" where
  "add_lane pid now name t =
     (case map_of t (pid, name) of None \<Rightarrow> dict_set (pid, name) (fresh_lane now name) t | Some _ \<Rightarrow> t)"

definition ensure_lanes :: "int \<Rightarrow> rat \<Rightarrow> lane_table \<Rightarrow> (string, lane) dict \<times> lane_table" where
  "ensure_lanes pid now t = (let t' = fold (add_lane pid now) lane_names t in (load_lanes pid t', t'))"

text \<open>One upsert: the statement fails when a row does not fit or a lane is named twice.\<close>

definition store_lanes :: "int \<Rightarrow> lane list \<Rightarrow> lane_table \<Rightarrow> (exn, lane_table) result" where
  "store_lanes pid lanes t =
     (if lanes = [] then Inr t
      else if distinct (map ln_name lanes) \<and> list_all lane_fits lanes
      then Inr (fold (\<lambda>l. dict_set (pid, ln_name l) l) lanes t)
      else Inl DatabaseError)"

definition delete_lanes :: "int \<Rightarrow> lane_table \<Rightarrow> lane_table" where
  "delete_lanes pid t = filter (\<lambda>((p, name), l). p \<noteq> pid) t"

section \<open>Lemmas\<close>

lemmas lane_step_defs = lane_succeeded_def lane_failed_def lane_unavailable_def lane_resting_def park_lane_def

text \<open>A lane runs exactly from the moment it wakes.\<close>

lemma lane_runnable_iff: "lane_runnable l now \<longleftrightarrow> (case lane_wakes_at l of None \<Rightarrow> False | Some t \<Rightarrow> t \<le> now)"
  by (auto simp: lane_runnable_def lane_wakes_at_def split: option.splits)

lemma lanes_next_wake_Some:
  "lanes_next_wake lanes = Some t \<longleftrightarrow>
     (\<exists>l \<in> set lanes. lane_wakes_at l = Some t) \<and> (\<forall>l \<in> set lanes. \<forall>u. lane_wakes_at l = Some u \<longrightarrow> t \<le> u)"
  by (auto simp: lanes_next_wake_def min_opt_Some map_filter_def image_iff)

lemma lanes_next_wake_None:
  "lanes_next_wake lanes = None \<longleftrightarrow> (\<forall>l \<in> set lanes. lane_wakes_at l = None)"
  by (simp add: lanes_next_wake_def map_filter_Nil)

lemma to_micros_int [simp]: "to_micros (of_int n) = of_int n"
proof -
  have eq: "(of_int n * 1000000 :: rat) = of_int (n * 1000000)" by simp
  show ?thesis unfolding to_micros_def eq round_half_even_int by simp
qed

lemma lane_delay_positive:
  assumes "1 \<le> n"
  shows "lane_delay n = (if 10 \<le> n then 21600 else of_int (min 3600 (60 * 2 ^ nat (n - 1))))"
proof -
  have "(2::rat) powi (n - 1) = 2 ^ nat (n - 1)"
    using assms by (simp add: power_int_def)
  then show ?thesis
    by (simp add: lane_delay_def lane_failures_before_pause_def lane_failure_pause_def
        lane_failure_max_def lane_failure_base_def of_int_min)
qed

lemma to_micros_delay:
  assumes "1 \<le> n"
  shows "to_micros (lane_delay n) = lane_delay n"
proof -
  have "to_micros 21600 = 21600"
    using to_micros_int [of 21600] by simp
  then show ?thesis
    using assms by (simp only: lane_delay_positive to_micros_int split: if_split) simp
qed

lemma lane_delay_bounds:
  assumes "1 \<le> n"
  shows "60 \<le> lane_delay n" "lane_delay n \<le> 21600" "n < 10 \<Longrightarrow> lane_delay n \<le> 3600"
proof -
  have "(1::int) \<le> 2 ^ nat (n - 1)" by simp
  then have "60 \<le> min 3600 (60 * 2 ^ nat (n - 1) :: int)" "min 3600 (60 * 2 ^ nat (n - 1) :: int) \<le> 3600"
    by auto
  then have "(60::rat) \<le> of_int (min 3600 (60 * 2 ^ nat (n - 1)))" "of_int (min 3600 (60 * 2 ^ nat (n - 1))) \<le> (3600::rat)"
    by (metis of_int_le_iff of_int_numeral)+
  then show "60 \<le> lane_delay n" "lane_delay n \<le> 21600" "n < 10 \<Longrightarrow> lane_delay n \<le> 3600"
    using lane_delay_positive [OF assms] by auto
qed

text \<open>A streak of failures, each at its own time.\<close>

fun lane_streak :: "lane \<Rightarrow> (bitrix_error option \<times> rat) list \<Rightarrow> lane" where
  "lane_streak l [] = l"
| "lane_streak l ((e, now) # es) = lane_streak (lane_failed l e now None None) es"

lemma lane_streak_failures: "ln_failures (lane_streak l es) = ln_failures l + int (length es)"
  by (induction l es rule: lane_streak.induct) (simp_all add: lane_failed_def Let_def)

lemma lane_streak_append: "lane_streak l (es @ fs) = lane_streak (lane_streak l es) fs"
  by (induction l es rule: lane_streak.induct) simp_all

lemma lane_streak_pause:
  assumes "0 \<le> ln_failures l"
  shows "ln_paused_until (lane_streak l (es @ [(e, now)])) =
    Some (now + lane_delay (ln_failures l + int (length es) + 1))"
  using assms
  by (simp add: lane_streak_append lane_failed_def Let_def lane_streak_failures to_micros_delay)

subsection \<open>Rows fit their columns\<close>

lemma text_fits_take: "list_all (\<lambda>c. code c \<noteq> 0) s \<Longrightarrow> text_fits n (take n s)"
  by (auto simp: text_fits_def list_all_iff dest: in_set_takeD)

lemma class_name_fits: "list_all (\<lambda>c. code c \<noteq> 0) (class_name c)"
  by (cases c) (simp_all add: code_def)

lemma lane_code_fits:
  assumes "pred_option (list_all (\<lambda>c. code c \<noteq> 0)) reason"
    and "pred_option (\<lambda>e. list_all (\<lambda>c. code c \<noteq> 0) (err_code e)) error"
  shows "text_fits 64 (lane_code error reason)"
proof -
  have "text_fits 64 ''unknown''"
    by (simp add: text_fits_def code_def)
  moreover have "text_fits 64 (take 64 (class_name c))" for c
    by (rule text_fits_take) (rule class_name_fits)
  ultimately show ?thesis
    using assms text_fits_take [of _ 64]
    by (auto simp: lane_code_def lane_code_max_def split: option.splits list.splits
        simp del: take_Cons_numeral list.pred_inject)
qed

lemma fresh_lane_fits: "name \<in> set lane_names \<Longrightarrow> lane_fits (fresh_lane now name)"
  by (auto simp: lane_names_def lane_fits_def fresh_lane_def text_fits_def code_def lane_pending_def)

subsection \<open>The table\<close>

lemma map_of_fold_lanes:
  "distinct (map ln_name lanes) \<Longrightarrow>
   map_of (fold (\<lambda>l. dict_set (pid, ln_name l) l) lanes t) (p, name) =
     (if p = pid then (case find (\<lambda>l. ln_name l = name) lanes of Some l \<Rightarrow> Some l | None \<Rightarrow> map_of t (p, name))
      else map_of t (p, name))"
proof (induction lanes arbitrary: t)
  case (Cons l lanes)
  have "find (\<lambda>k. ln_name k = name) lanes = None" if "ln_name l = name"
    using Cons.prems that by (auto simp: find_None_iff image_iff)
  with Cons show ?case
    by (auto simp: map_of_dict_set split: option.splits)
qed simp

lemma load_lanes_lookup:
  "map_of (load_lanes pid t) name = map_option (\<lambda>l. l\<lparr>ln_name := name\<rparr>) (map_of t (pid, name))"
  by (induction t) (auto simp: load_lanes_def)

lemma add_lane_lookup:
  "map_of (add_lane pid now name t) (p, n) =
     (if (p, n) = (pid, name) \<and> map_of t (p, n) = None then Some (fresh_lane now name) else map_of t (p, n))"
  by (auto simp: add_lane_def map_of_dict_set split: option.splits)

lemma add_lanes_lookup:
  "map_of (fold (add_lane pid now) names t) (p, n) =
     (if p = pid \<and> n \<in> set names \<and> map_of t (p, n) = None then Some (fresh_lane now n) else map_of t (p, n))"
  by (induction names arbitrary: t) (auto simp: add_lane_lookup)

lemma delete_lanes_lookup:
  "map_of (delete_lanes pid t) (p, n) = (if p = pid then None else map_of t (p, n))"
  by (induction t) (auto simp: delete_lanes_def)

end
