(* ===== verification/Crm_Dirty.thy ===== *)
theory Crm_Dirty
  imports Crm_Lanes Crm_Items
begin

text \<open>
  \<open>services/crm_dirty.py\<close>: the queue of record ids waiting for a re-read, one portal's rows of
  \<open>crm_dirty\<close>. A mark holds the reasons, a sequence number that every new mark raises, and when
  the id may be read. Statements over chunks of a thousand ids are one statement here: they
  touch different rows.
\<close>

section \<open>The table\<close>

definition reason_reconcile_local :: int where "reason_reconcile_local = 1"
definition reason_reconcile_remote :: int where "reason_reconcile_remote = 2"
definition reason_signal :: int where "reason_signal = 4"
definition reason_signal_delete :: int where "reason_signal_delete = 8"

definition attempts_before_hold :: int where "attempts_before_hold = 10"
definition retry_base_seconds :: rat where "retry_base_seconds = 60"
definition retry_max_seconds :: rat where "retry_max_seconds = 3600"
definition hold_seconds :: rat where "hold_seconds = 86400"
definition attempts_max :: int where "attempts_max = 32000"

record dirty_mark =
  dm_reasons :: int
  dm_seq :: int
  dm_first_marked_at :: rat
  dm_not_before :: rat
  dm_held_until :: "rat option"
  dm_attempts :: int

text \<open>Keyed by the portal, the entity type and the record.\<close>

type_synonym dirty_table = "(int \<times> int \<times> int, dirty_mark) dict"

record dirty_id =
  di_entity :: int
  di_id :: int
  di_seq :: int
  di_reasons :: int
  di_attempts :: int

section \<open>Operations\<close>

definition mark_one :: "int \<Rightarrow> int \<Rightarrow> int \<Rightarrow> rat \<Rightarrow> int \<Rightarrow> dirty_table \<Rightarrow> dirty_table" where
  "mark_one pid entity reasons now item_id t =
     dict_set (pid, entity, item_id)
       (case map_of t (pid, entity, item_id) of
          None \<Rightarrow> \<lparr>dm_reasons = reasons, dm_seq = 1, dm_first_marked_at = now, dm_not_before = now,
                  dm_held_until = None, dm_attempts = 0\<rparr>
        | Some m \<Rightarrow> m\<lparr>dm_reasons := or (dm_reasons m) reasons, dm_seq := dm_seq m + 1,
                     dm_not_before := min (dm_not_before m) now\<rparr>) t"

definition mark_dirty :: "int \<Rightarrow> int \<Rightarrow> int list \<Rightarrow> int \<Rightarrow> rat \<Rightarrow> dirty_table \<Rightarrow> int \<times> dirty_table" where
  "mark_dirty pid entity ids reasons now t =
     (let wanted = sorted_ids (filter (\<lambda>i. 0 < i) ids)
      in (int (length wanted), fold (mark_one pid entity reasons now) wanted t))"

definition mark_ready :: "rat \<Rightarrow> dirty_mark \<Rightarrow> bool" where
  "mark_ready now m \<longleftrightarrow> dm_not_before m \<le> now \<and>
     (case dm_held_until m of None \<Rightarrow> True | Some t \<Rightarrow> t \<le> now)"

definition due_dirty :: "int \<Rightarrow> int \<Rightarrow> rat \<Rightarrow> int \<Rightarrow> dirty_table \<Rightarrow> dirty_id list" where
  "due_dirty pid entity now limit t =
     map (\<lambda>((p, e, i), m). \<lparr>di_entity = e, di_id = i, di_seq = dm_seq m, di_reasons = dm_reasons m,
                           di_attempts = dm_attempts m\<rparr>)
       (take (nat limit) (sort_key (\<lambda>((p, e, i), m). (dm_first_marked_at m, i))
         (filter (\<lambda>((p, e, i), m). p = pid \<and> e = entity \<and> mark_ready now m) t)))"

definition consume_dirty :: "int \<Rightarrow> dirty_id list \<Rightarrow> dirty_table \<Rightarrow> dirty_table" where
  "consume_dirty pid items t =
     filter (\<lambda>((p, e, i), m). \<not> (p = pid \<and> (e, i, dm_seq m) \<in> set (map (\<lambda>d. (di_entity d, di_id d, di_seq d)) items))) t"

definition retry_delay :: "int \<Rightarrow> rat" where
  "retry_delay attempts = min retry_max_seconds (retry_base_seconds * 2 powi (min attempts 12))"

definition defer_times :: "rat \<Rightarrow> dirty_id \<Rightarrow> rat \<times> rat option" where
  "defer_times now d =
     (now + to_micros (retry_delay (di_attempts d)),
      if attempts_before_hold \<le> di_attempts d + 1 then Some (now + hold_seconds) else None)"

text \<open>The ids of each pair of times, in the order the pairs first appear.\<close>

definition defer_groups ::
  "rat \<Rightarrow> dirty_id list \<Rightarrow> (rat \<times> rat option, (int \<times> int) list) dict" where
  "defer_groups now items =
     fold (\<lambda>d g. dict_set (defer_times now d)
             ((case map_of g (defer_times now d) of None \<Rightarrow> [] | Some keys \<Rightarrow> keys) @ [(di_entity d, di_id d)]) g)
       items []"

definition update_marks ::
  "int \<Rightarrow> (int \<times> int) list \<Rightarrow> (dirty_mark \<Rightarrow> dirty_mark) \<Rightarrow> dirty_table \<Rightarrow> dirty_table" where
  "update_marks pid keys f t =
     map (\<lambda>((p, e, i), m). ((p, e, i), if p = pid \<and> (e, i) \<in> set keys then f m else m)) t"

definition defer_dirty :: "int \<Rightarrow> dirty_id list \<Rightarrow> rat \<Rightarrow> dirty_table \<Rightarrow> dirty_table" where
  "defer_dirty pid items now t =
     fold (\<lambda>((not_before, held), keys). update_marks pid keys (\<lambda>m.
             (case held of None \<Rightarrow> m | Some h \<Rightarrow> m\<lparr>dm_held_until := Some h\<rparr>)
               \<lparr>dm_attempts := min (dm_attempts m + 1) attempts_max, dm_not_before := not_before\<rparr>))
       (defer_groups now items) t"

definition hold_dirty :: "int \<Rightarrow> dirty_id list \<Rightarrow> rat \<Rightarrow> dirty_table \<Rightarrow> dirty_table" where
  "hold_dirty pid items until t =
     update_marks pid (map (\<lambda>d. (di_entity d, di_id d)) items) (\<lambda>m. m\<lparr>dm_held_until := Some until\<rparr>) t"

section \<open>Lookups\<close>

lemma mark_one_lookup:
  "map_of (mark_one pid entity reasons now i t) k =
     (if k = (pid, entity, i)
      then Some (case map_of t k of
          None \<Rightarrow> \<lparr>dm_reasons = reasons, dm_seq = 1, dm_first_marked_at = now, dm_not_before = now,
                  dm_held_until = None, dm_attempts = 0\<rparr>
        | Some m \<Rightarrow> m\<lparr>dm_reasons := or (dm_reasons m) reasons, dm_seq := dm_seq m + 1,
                     dm_not_before := min (dm_not_before m) now\<rparr>)
      else map_of t k)"
  by (simp add: mark_one_def map_of_dict_set)

lemma mark_one_distinct: "distinct (map fst t) \<Longrightarrow> distinct (map fst (mark_one pid entity reasons now i t))"
  by (simp add: mark_one_def distinct_dict_set)

lemma marks_distinct:
  "distinct (map fst t) \<Longrightarrow> distinct (map fst (fold (mark_one pid entity reasons now) ids t))"
  by (induction ids arbitrary: t) (simp_all add: mark_one_distinct)

lemma marks_lookup_other:
  "k \<notin> (\<lambda>i. (pid, entity, i)) ` set ids \<Longrightarrow>
   map_of (fold (mark_one pid entity reasons now) ids t) k = map_of t k"
  by (induction ids arbitrary: t) (auto simp: mark_one_lookup)

lemma marks_lookup:
  "distinct ids \<Longrightarrow> i \<in> set ids \<Longrightarrow>
   map_of (fold (mark_one pid entity reasons now) ids t) (pid, entity, i) =
     map_of (mark_one pid entity reasons now i t) (pid, entity, i)"
proof (induction ids arbitrary: t)
  case (Cons j ids)
  show ?case
  proof (cases "i = j")
    case True
    with Cons.prems have "(pid, entity, i) \<notin> (\<lambda>i. (pid, entity, i)) ` set ids" by auto
    from marks_lookup_other [OF this] True show ?thesis by simp
  next
    case False
    with Cons show ?thesis by (simp add: mark_one_lookup)
  qed
qed simp

lemma mark_dirty_lookup:
  "map_of (snd (mark_dirty pid entity ids reasons now t)) (p, e, i) =
     (if p = pid \<and> e = entity \<and> i \<in> set ids \<and> 0 < i
      then map_of (mark_one pid entity reasons now i t) (p, e, i) else map_of t (p, e, i))"
proof -
  have w: "set (sorted_ids (filter (\<lambda>i. 0 < i) ids)) = {i \<in> set ids. 0 < i}"
    "distinct (sorted_ids (filter (\<lambda>i. 0 < i) ids))"
    by (auto simp: sorted_ids_def)
  show ?thesis
  proof (cases "p = pid \<and> e = entity \<and> i \<in> set ids \<and> 0 < i")
    case True
    with marks_lookup [OF w(2), of i] w(1) show ?thesis
      by (simp add: mark_dirty_def Let_def)
  next
    case False
    with w(1) have "(p, e, i) \<notin> (\<lambda>i. (pid, entity, i)) ` set (sorted_ids (filter (\<lambda>i. 0 < i) ids))"
      by auto
    from marks_lookup_other [OF this, of reasons now t] False show ?thesis
      by (auto simp: mark_dirty_def Let_def)
  qed
qed

lemma map_of_filter_distinct:
  "distinct (map fst t) \<Longrightarrow> map_of (filter P t) k =
     (case map_of t k of None \<Rightarrow> None | Some v \<Rightarrow> if P (k, v) then Some v else None)"
proof (induction t)
  case (Cons x t)
  obtain a v where x: "x = (a, v)" by (cases x)
  have "a = k \<Longrightarrow> map_of t k = None"
    using Cons.prems by (auto simp: x map_of_eq_None_iff)
  with Cons show ?case by (auto simp: x split: option.splits)
qed simp

lemma filter_keys_distinct: "distinct (map fst t) \<Longrightarrow> distinct (map fst (filter P t))"
  by (induction t) auto

lemma consume_lookup:
  assumes "distinct (map fst t)"
  shows "map_of (consume_dirty pid items t) (p, e, i) =
    (case map_of t (p, e, i) of None \<Rightarrow> None
     | Some m \<Rightarrow> if p = pid \<and> (\<exists>d \<in> set items. di_entity d = e \<and> di_id d = i \<and> di_seq d = dm_seq m)
                 then None else Some m)"
  unfolding consume_dirty_def map_of_filter_distinct [OF assms]
  by (auto split: option.splits)

lemma update_marks_lookup:
  "map_of (update_marks pid keys f t) (p, e, i) =
     map_option (\<lambda>m. if p = pid \<and> (e, i) \<in> set keys then f m else m) (map_of t (p, e, i))"
  by (induction t) (auto simp: update_marks_def)

lemma update_marks_keys: "map fst (update_marks pid keys f t) = map fst t"
  by (auto simp: update_marks_def)

section \<open>A mark that arrives while its record is read survives\<close>

text \<open>What other writers do to the queue between the read of a mark and its consumption.\<close>

datatype dirty_op =
    Mark int "int list" int rat
  | Consume "dirty_id list"
  | Defer "dirty_id list" rat
  | Hold "dirty_id list" rat

fun run_dirty :: "int \<Rightarrow> dirty_op \<Rightarrow> dirty_table \<Rightarrow> dirty_table" where
  "run_dirty pid (Mark entity ids reasons now) t = snd (mark_dirty pid entity ids reasons now t)"
| "run_dirty pid (Consume items) t = consume_dirty pid items t"
| "run_dirty pid (Defer items now) t = defer_dirty pid items now t"
| "run_dirty pid (Hold items until) t = hold_dirty pid items until t"

definition marks :: "int \<Rightarrow> int \<Rightarrow> dirty_op \<Rightarrow> bool" where
  "marks e i a \<longleftrightarrow> (case a of Mark entity ids reasons now \<Rightarrow> entity = e \<and> i \<in> set ids \<and> 0 < i | _ \<Rightarrow> False)"

lemma defer_seq:
  "map_option dm_seq (map_of (defer_dirty pid items now t) k) = map_option dm_seq (map_of t k)"
proof -
  have "map_option dm_seq (map_of (fold (\<lambda>((not_before, held), keys). update_marks pid keys (\<lambda>m.
             (case held of None \<Rightarrow> m | Some h \<Rightarrow> m\<lparr>dm_held_until := Some h\<rparr>)
               \<lparr>dm_attempts := min (dm_attempts m + 1) attempts_max, dm_not_before := not_before\<rparr>)) gs t) k) =
        map_option dm_seq (map_of t k)" for gs
  proof (induction gs arbitrary: t)
    case (Cons g gs)
    obtain p e i where k: "k = (p, e, i)" by (cases k)
    obtain nb held keys where g: "g = ((nb, held), keys)" by (metis prod.exhaust)
    show ?case
      by (simp add: Cons.IH g) (auto simp: k update_marks_lookup option.map_comp o_def split: option.splits
          intro!: option.map_cong)
  qed simp
  then show ?thesis by (simp add: defer_dirty_def)
qed

lemma defer_keys: "map fst (defer_dirty pid items now t) = map fst t"
proof -
  have "map fst (fold (\<lambda>((not_before, held), keys). update_marks pid keys (\<lambda>m.
             (case held of None \<Rightarrow> m | Some h \<Rightarrow> m\<lparr>dm_held_until := Some h\<rparr>)
               \<lparr>dm_attempts := min (dm_attempts m + 1) attempts_max, dm_not_before := not_before\<rparr>)) gs t) = map fst t"
    for gs
    by (induction gs arbitrary: t) (auto simp: update_marks_keys split: prod.split)
  then show ?thesis by (simp add: defer_dirty_def)
qed

lemma run_dirty_distinct: "distinct (map fst t) \<Longrightarrow> distinct (map fst (run_dirty pid a t))"
  by (cases a) (simp_all add: mark_dirty_def Let_def marks_distinct consume_dirty_def filter_keys_distinct
      defer_keys hold_dirty_def update_marks_keys)

lemma run_dirty_seq:
  assumes "\<not> (\<exists>items. a = Consume items)" and "map_of t (pid, e, i) = Some m"
  shows "\<exists>m'. map_of (run_dirty pid a t) (pid, e, i) = Some m' \<and>
    dm_seq m' = dm_seq m + (if marks e i a then 1 else 0)"
proof (cases a)
  case (Mark entity ids reasons now)
  with assms(2) show ?thesis
    by (auto simp: marks_def mark_dirty_lookup mark_one_lookup)
next
  case (Defer items now)
  with assms(2) defer_seq [of pid items now t "(pid, e, i)"] show ?thesis
    by (auto simp: marks_def)
next
  case (Hold items until)
  with assms(2) show ?thesis
    by (simp add: marks_def hold_dirty_def update_marks_lookup)
qed (use assms in simp)

lemma run_dirties_seq:
  assumes "\<forall>a \<in> set ops. \<not> (\<exists>items. a = Consume items)" and "map_of t (pid, e, i) = Some m"
  shows "\<exists>m'. map_of (fold (run_dirty pid) ops t) (pid, e, i) = Some m' \<and>
    dm_seq m' = dm_seq m + int (length (filter (marks e i) ops))"
  using assms
proof (induction ops arbitrary: t m)
  case (Cons a ops)
  obtain m1 where m1: "map_of (run_dirty pid a t) (pid, e, i) = Some m1"
    "dm_seq m1 = dm_seq m + (if marks e i a then 1 else 0)"
    using run_dirty_seq [of a t pid e i m] Cons.prems by auto
  with Cons.IH [of "run_dirty pid a t" m1] Cons.prems(1) show ?case by auto
qed simp

lemma run_dirties_distinct:
  "distinct (map fst t) \<Longrightarrow> distinct (map fst (fold (run_dirty pid) ops t))"
  by (induction ops arbitrary: t) (simp_all add: run_dirty_distinct)

lemma due_dirty_mem:
  assumes "d \<in> set (due_dirty pid entity now limit t)" and "distinct (map fst t)"
  shows "di_entity d = entity \<and> (\<exists>m. map_of t (pid, entity, di_id d) = Some m \<and> dm_seq m = di_seq d \<and>
    di_attempts d = dm_attempts m \<and> mark_ready now m)"
  using assms by (auto simp: due_dirty_def dest!: in_set_takeD)

lemma late_mark_lemma:
  assumes "distinct (map fst t)" and "d \<in> set (due_dirty pid entity now limit t)"
    and "\<forall>a \<in> set ops. \<not> (\<exists>items. a = Consume items)"
  shows "map_of (consume_dirty pid (due_dirty pid entity now limit t) (fold (run_dirty pid) ops t))
      (pid, entity, di_id d) = None \<longleftrightarrow> \<not> (\<exists>a \<in> set ops. marks entity (di_id d) a)"
proof -
  obtain m where m: "map_of t (pid, entity, di_id d) = Some m" "dm_seq m = di_seq d" and e: "di_entity d = entity"
    using due_dirty_mem [OF assms(2,1)] by blast
  obtain m' where m': "map_of (fold (run_dirty pid) ops t) (pid, entity, di_id d) = Some m'"
    "dm_seq m' = di_seq d + int (length (filter (marks entity (di_id d)) ops))"
    using run_dirties_seq [OF assms(3) m(1)] m(2) by auto
  have same: "di_seq x = di_seq d" if "x \<in> set (due_dirty pid entity now limit t)" "di_id x = di_id d" for x
    using due_dirty_mem [OF that(1) assms(1)] that(2) m by auto
  have hit: "(\<exists>x \<in> set (due_dirty pid entity now limit t). di_entity x = entity \<and> di_id x = di_id d \<and> di_seq x = dm_seq m')
      \<longleftrightarrow> dm_seq m' = di_seq d"
    using same assms(2) e by metis
  have "length (filter (marks entity (di_id d)) ops) = 0 \<longleftrightarrow> \<not> (\<exists>a \<in> set ops. marks entity (di_id d) a)"
    by (simp add: filter_empty_conv)
  then have unmoved: "dm_seq m' = di_seq d \<longleftrightarrow> \<not> (\<exists>a \<in> set ops. marks entity (di_id d) a)"
    unfolding m'(2) by linarith
  show ?thesis
    unfolding consume_lookup [OF run_dirties_distinct [OF assms(1)]] m'(1) option.case hit unmoved by simp
qed

text \<open>The back-off of an id that cannot be resolved.\<close>

lemma retry_delay_bounds:
  assumes "0 \<le> n"
  shows "60 \<le> retry_delay n" "retry_delay n \<le> 3600" "to_micros (retry_delay n) = retry_delay n"
proof -
  define k where "k = nat (min n 12)"
  have k: "(2::rat) powi (min n 12) = 2 ^ k"
    using assms by (simp add: power_int_def k_def)
  have eq: "retry_delay n = of_int (min 3600 (60 * 2 ^ k))"
    by (simp add: retry_delay_def retry_max_seconds_def retry_base_seconds_def k of_int_min)
  have "(1::int) \<le> 2 ^ k" by simp
  then have "60 \<le> min 3600 (60 * 2 ^ k :: int)" "min 3600 (60 * 2 ^ k :: int) \<le> 3600" by auto
  then show "60 \<le> retry_delay n" "retry_delay n \<le> 3600"
    unfolding eq by (metis of_int_le_iff of_int_numeral)+
  show "to_micros (retry_delay n) = retry_delay n"
    unfolding eq by (rule to_micros_int)
qed

end
