(* ===== verification/Crm_Upsert.thy ===== *)
theory Crm_Upsert
  imports Crm_Dirty Upsert "HOL-Library.Multiset"
begin

text \<open>
  \<open>sync/crm_upsert.py\<close> and \<open>sync/crm_deletes.py\<close>: the table \<open>crm_items\<close>, the version-guarded upsert
  of rows with the lanes and marks they move, and the two ways a confirmed absence changes a
  row. One portal's writes run in one transaction, behind the fence.
\<close>

section \<open>Tables\<close>

text \<open>The columns \<open>CRM_ITEM_DATA_COLUMNS\<close>; the five tags in the order of \<open>DIMENSIONS\<close>.\<close>

record item_data =
  cd_category_id :: "int option"
  cd_stage_id :: "string option"
  cd_stage_semantic :: "string option"
  cd_assigned_by_id :: "int option"
  cd_created_time :: "rat option"
  cd_updated_time :: "rat option"
  cd_moved_time :: "rat option"
  cd_closed :: "bool option"
  cd_opportunity :: "rat option"
  cd_currency_id :: "string option"
  cd_lead_id :: "int option"
  cd_contact_ids :: "int list option"
  cd_company_id :: "int option"
  cd_utm :: "string option list"

definition no_data :: item_data where
  "no_data =
     \<lparr>cd_category_id = None, cd_stage_id = None, cd_stage_semantic = None, cd_assigned_by_id = None,
      cd_created_time = None, cd_updated_time = None, cd_moved_time = None, cd_closed = None,
      cd_opportunity = None, cd_currency_id = None, cd_lead_id = None, cd_contact_ids = None,
      cd_company_id = None, cd_utm = replicate 5 None\<rparr>"

record stored_item =
  si_data :: item_data
  si_read_at :: rat
  si_synced_at :: rat
  si_content_changed_at :: "rat option"
  si_deleted_at :: "rat option"
  si_delete_reason :: "string option"
  si_unreadable_since :: "rat option"

type_synonym item_table = "(int \<times> int \<times> int, stored_item) dict"

record crm_store =
  cs_base :: store
  cs_items :: item_table
  cs_dirty :: dirty_table
  cs_lanes :: lane_table

text \<open>\<open>tenant_txn\<close>: the statements commit together or not at all.\<close>

definition crm_txn :: "(crm_store \<Rightarrow> (exn, 'a \<times> crm_store) result) \<Rightarrow> crm_store \<Rightarrow> (exn, 'a) result \<times> crm_store" where
  "crm_txn action s = (case action s of Inl e \<Rightarrow> (Inl e, s) | Inr (a, s') \<Rightarrow> (Inr a, s'))"

section \<open>The upsert\<close>

definition proven_deleted :: string where "proven_deleted = ''not_found''"
definition evicted :: string where "evicted = ''evicted''"

record new_item =
  ni_entity :: int
  ni_id :: int
  ni_data :: item_data
  ni_read_at :: rat

definition none_if_empty :: "string \<Rightarrow> string option" where
  "none_if_empty s = (if s = [] then None else Some s)"

definition item_values :: "item_row \<Rightarrow> rat \<Rightarrow> (py_error, new_item) result" where
  "item_values row read_at =
     (if length (ir_utm row) \<noteq> 5 then Inl ValueError
      else Inr \<lparr>ni_entity = ir_entity_type_id row, ni_id = ir_id row,
        ni_data = \<lparr>cd_category_id = ir_category_id row, cd_stage_id = none_if_empty (ir_stage_id row),
          cd_stage_semantic = none_if_empty (ir_stage_semantic row),
          cd_assigned_by_id = ir_assigned_by_id row, cd_created_time = ir_created_time row,
          cd_updated_time = ir_updated_time row, cd_moved_time = ir_moved_time row,
          cd_closed = ir_closed row, cd_opportunity = ir_opportunity row,
          cd_currency_id = none_if_empty (ir_currency_id row), cd_lead_id = ir_lead_id row,
          cd_contact_ids = Some (ir_contact_ids row), cd_company_id = ir_company_id row,
          cd_utm = map Some (ir_utm row)\<rparr>,
        ni_read_at = read_at\<rparr>)"

definition item_key :: "new_item \<Rightarrow> int \<times> int" where
  "item_key r = (ni_entity r, ni_id r)"

definition prepare_items :: "item_row list \<Rightarrow> rat \<Rightarrow> (py_error, new_item list) result" where
  "prepare_items rs read_at =
     rbind (rmap (\<lambda>row. item_values row read_at) rs) (\<lambda>vs.
       Inr (map snd (fold (\<lambda>v. dict_set (item_key v) v) vs [])))"

text \<open>The conflict update, with its guard.\<close>

definition overwrites :: "rat \<Rightarrow> stored_item \<Rightarrow> bool" where
  "overwrites read_at old \<longleftrightarrow> si_read_at old \<le> read_at \<and> si_delete_reason old \<noteq> Some proven_deleted"

definition put_item :: "rat \<Rightarrow> new_item \<Rightarrow> stored_item option \<Rightarrow> stored_item" where
  "put_item now r old =
     (case old of
        None \<Rightarrow> \<lparr>si_data = ni_data r, si_read_at = ni_read_at r, si_synced_at = now,
                si_content_changed_at = None, si_deleted_at = None, si_delete_reason = None,
                si_unreadable_since = None\<rparr>
      | Some o' \<Rightarrow>
          if overwrites (ni_read_at r) o'
          then o'\<lparr>si_data := ni_data r, si_read_at := ni_read_at r, si_synced_at := now,
                 si_content_changed_at := (if si_data o' \<noteq> ni_data r then Some now
                                           else si_content_changed_at o'),
                 si_deleted_at := None, si_delete_reason := None, si_unreadable_since := None\<rparr>
          else o')"

definition put_row :: "rat \<Rightarrow> int \<Rightarrow> new_item \<Rightarrow> item_table \<Rightarrow> item_table" where
  "put_row now pid r t =
     dict_set (pid, ni_entity r, ni_id r) (put_item now r (map_of t (pid, ni_entity r, ni_id r))) t"

definition insert_items ::
  "(new_item \<Rightarrow> db_fault option) \<Rightarrow> rat \<Rightarrow> int \<Rightarrow> new_item list \<Rightarrow> item_table \<Rightarrow> db_fault + item_table" where
  "insert_items refused now pid rs t =
     (if \<not> distinct (map item_key rs) then Inl OtherFault
      else case List.map_filter refused rs of
             fault # _ \<Rightarrow> Inl fault
           | [] \<Rightarrow> Inr (fold (put_row now pid) rs t))"

type_synonym item_reject = "int \<times> int option \<times> string"

fun retry_items ::
  "(new_item \<Rightarrow> db_fault option) \<Rightarrow> rat \<Rightarrow> int \<Rightarrow> new_item list \<Rightarrow> item_table \<Rightarrow>
   (exn, int \<times> item_reject list \<times> item_table) result" where
  "retry_items refused now pid [] t = Inr (0, [], t)"
| "retry_items refused now pid (r # rs) t =
     (case insert_items refused now pid [r] t of
        Inr t' \<Rightarrow> rbind (retry_items refused now pid rs t') (\<lambda>(n, bad, t2). Inr (n + 1, bad, t2))
      | Inl OtherFault \<Rightarrow> Inl DatabaseError
      | Inl (RowFault reason) \<Rightarrow>
          rbind (retry_items refused now pid rs t) (\<lambda>(n, bad, t2).
            Inr (n, (ni_entity r, Some (ni_id r), reason) # bad, t2)))"

definition write_item_chunk ::
  "(new_item \<Rightarrow> db_fault option) \<Rightarrow> rat \<Rightarrow> int \<Rightarrow> new_item list \<Rightarrow> item_table \<Rightarrow>
   (exn, int \<times> item_reject list \<times> item_table) result" where
  "write_item_chunk refused now pid chunk t =
     (case insert_items refused now pid chunk t of
        Inr t' \<Rightarrow> Inr (int (length chunk), [], t')
      | Inl OtherFault \<Rightarrow> Inl DatabaseError
      | Inl (RowFault _) \<Rightarrow> retry_items refused now pid chunk t)"

definition item_chunk_size :: nat where
  "item_chunk_size = 500"

function write_item_chunks ::
  "(new_item \<Rightarrow> db_fault option) \<Rightarrow> rat \<Rightarrow> int \<Rightarrow> new_item list \<Rightarrow> item_table \<Rightarrow>
   (exn, int \<times> item_reject list \<times> item_table) result" where
  "write_item_chunks refused now pid rs t =
     (if rs = [] then Inr (0, [], t)
      else rbind (write_item_chunk refused now pid (take item_chunk_size rs) t) (\<lambda>(n, bad, t1).
           rbind (write_item_chunks refused now pid (drop item_chunk_size rs) t1) (\<lambda>(m, bad', t2).
           Inr (n + m, bad @ bad', t2))))"
  by pat_completeness auto

termination
  by (relation "measure (\<lambda>(_, _, _, rs, _). length rs)") (auto simp: item_chunk_size_def)

declare write_item_chunks.simps [simp del]

definition max_item_events :: nat where
  "max_item_events = 20"

definition record_item_rejections :: "int \<Rightarrow> item_reject list \<Rightarrow> store \<Rightarrow> store" where
  "record_item_rejections pid bad s =
     (let listed = fold (\<lambda>(entity, the_id, reason). record_event pid ''row_rejected''
                          [(''entity_type_id'', JInt entity),
                           (''id'', (case the_id of None \<Rightarrow> JNone | Some i \<Rightarrow> JInt i)),
                           (''reason'', JStr reason)])
                        (take max_item_events bad) s;
          overflow = int (length bad) - int max_item_events
      in if 0 < overflow
         then record_event pid ''row_rejected''
                [(''suppressed'', JInt overflow), (''reason'', JStr ''reject_event_cap'')] listed
         else listed)"

record items_written =
  iw_written :: int
  iw_quarantined :: int

definition item_assignees :: "new_item list \<Rightarrow> item_reject list \<Rightarrow> int list" where
  "item_assignees vs bad =
     List.map_filter (\<lambda>v. case cd_assigned_by_id (ni_data v) of
         None \<Rightarrow> None
       | Some uid \<Rightarrow> if uid \<noteq> 0 \<and> item_key v \<notin> set (List.map_filter
             (\<lambda>(entity, the_id, _). case the_id of Some i \<Rightarrow> if i \<noteq> 0 then Some (entity, i) else None | None \<Rightarrow> None) bad)
           then Some uid else None) vs"

definition upsert_items_body ::
  "(new_item \<Rightarrow> db_fault option) \<Rightarrow> fence \<Rightarrow> new_item list \<Rightarrow> lane list \<Rightarrow> item_reject list \<Rightarrow>
   dirty_id list \<Rightarrow> crm_store \<Rightarrow> (exn, items_written \<times> crm_store) result" where
  "upsert_items_body refused f vs lanes refusals consume s =
     (let pid = portal_id f; now = db_now (cs_base s)
      in rbind (write_item_chunks refused now pid vs (cs_items s)) (\<lambda>(written, bad, items).
         let all_bad = refusals @ bad;
             base1 = (if written \<noteq> 0 then upsert_placeholders pid (item_assignees vs bad) (cs_base s)
                      else cs_base s);
             base2 = (if all_bad = [] then base1 else record_item_rejections pid all_bad base1);
             dirty = (if consume = [] then cs_dirty s else consume_dirty pid consume (cs_dirty s))
         in rbind (store_lanes pid lanes (cs_lanes s)) (\<lambda>ls.
            rbind (fenced_update f (\<lambda>_ r. r) base2) (\<lambda>base3.
            Inr (\<lparr>iw_written = written, iw_quarantined = int (length all_bad)\<rparr>,
                 \<lparr>cs_base = base3, cs_items = items, cs_dirty = dirty, cs_lanes = ls\<rparr>)))))"

definition upsert_items ::
  "(new_item \<Rightarrow> db_fault option) \<Rightarrow> fence \<Rightarrow> item_row list \<Rightarrow> rat \<Rightarrow> lane list \<Rightarrow> item_reject list \<Rightarrow>
   dirty_id list \<Rightarrow> crm_store \<Rightarrow> (exn, items_written) result \<times> crm_store" where
  "upsert_items refused f rs read_at lanes refusals consume s =
     (case prepare_items rs read_at of
        Inl e \<Rightarrow> (Inl (Py e), s)
      | Inr vs \<Rightarrow> crm_txn (upsert_items_body refused f vs lanes refusals consume) s)"

section \<open>Confirmed absences\<close>

definition bury :: "rat \<Rightarrow> rat \<Rightarrow> stored_item option \<Rightarrow> stored_item" where
  "bury now read_at old =
     (case old of
        None \<Rightarrow> \<lparr>si_data = no_data, si_read_at = read_at, si_synced_at = now,
                si_content_changed_at = None, si_deleted_at = Some read_at,
                si_delete_reason = Some proven_deleted, si_unreadable_since = None\<rparr>
      | Some o' \<Rightarrow>
          if overwrites read_at o'
          then \<lparr>si_data = no_data, si_read_at = read_at, si_synced_at = now,
                si_content_changed_at = Some now, si_deleted_at = Some read_at,
                si_delete_reason = Some proven_deleted, si_unreadable_since = None\<rparr>
          else o')"

definition buries :: "rat \<Rightarrow> stored_item option \<Rightarrow> bool" where
  "buries read_at old = (case old of None \<Rightarrow> True | Some o' \<Rightarrow> overwrites read_at o')"

definition bury_one :: "rat \<Rightarrow> int \<Rightarrow> int \<Rightarrow> rat \<Rightarrow> int \<Rightarrow> int \<times> item_table \<Rightarrow> int \<times> item_table" where
  "bury_one now pid entity read_at i st =
     (let (n, t) = st; old = map_of t (pid, entity, i)
      in (if buries read_at old then n + 1 else n,
          dict_set (pid, entity, i) (bury now read_at old) t))"

definition tombstone :: "rat \<Rightarrow> int \<Rightarrow> int \<Rightarrow> int list \<Rightarrow> rat \<Rightarrow> item_table \<Rightarrow> int \<times> item_table" where
  "tombstone now pid entity ids read_at t =
     fold (bury_one now pid entity read_at) (sorted_ids (filter (\<lambda>i. 0 < i) ids)) (0, t)"

definition stamp_unreadable :: "rat \<Rightarrow> stored_item \<Rightarrow> stored_item" where
  "stamp_unreadable now r =
     r\<lparr>si_unreadable_since := (case si_unreadable_since r of None \<Rightarrow> Some now | Some t \<Rightarrow> Some t)\<rparr>"

definition refused_live :: "int \<Rightarrow> int \<Rightarrow> int list \<Rightarrow> (int \<times> int \<times> int) \<times> stored_item \<Rightarrow> bool" where
  "refused_live pid entity ids = (\<lambda>((p, e, i), r).
     p = pid \<and> e = entity \<and> i \<in> set ids \<and> 0 < i \<and> si_deleted_at r = None)"

definition mark_unreadable :: "int \<Rightarrow> int \<Rightarrow> int list \<Rightarrow> rat \<Rightarrow> item_table \<Rightarrow> int \<times> item_table" where
  "mark_unreadable pid entity ids now t =
     (int (length (filter (refused_live pid entity ids) t)),
      map (\<lambda>(k, r). (k, if refused_live pid entity ids (k, r) then stamp_unreadable now r else r)) t)"

definition live_count :: "int \<Rightarrow> int \<Rightarrow> item_table \<Rightarrow> int" where
  "live_count pid entity t =
     int (length (filter (\<lambda>((p, e, i), r). p = pid \<and> e = entity \<and> si_deleted_at r = None) t))"

section \<open>What the statements write\<close>

lemma put_row_lookup:
  "map_of (put_row now pid r t) (p, e, i) =
     (if p = pid \<and> (e, i) = item_key r then Some (put_item now r (map_of t (p, e, i))) else map_of t (p, e, i))"
  by (auto simp: put_row_def map_of_dict_set item_key_def)

lemma put_rows_other:
  "p \<noteq> pid \<or> (e, i) \<notin> item_key ` set rs \<Longrightarrow> map_of (fold (put_row now pid) rs t) (p, e, i) = map_of t (p, e, i)"
  by (induction rs arbitrary: t) (auto simp: put_row_lookup)

lemma put_rows_lookup:
  "distinct (map item_key rs) \<Longrightarrow> r \<in> set rs \<Longrightarrow>
   map_of (fold (put_row now pid) rs t) (pid, ni_entity r, ni_id r) =
     Some (put_item now r (map_of t (pid, ni_entity r, ni_id r)))"
proof (induction rs arbitrary: t)
  case (Cons x rs)
  show ?case
  proof (cases "r = x")
    case True
    with Cons.prems have "(ni_entity r, ni_id r) \<notin> item_key ` set rs"
      by (auto simp: item_key_def)
    with put_rows_other [of pid pid "ni_entity r" "ni_id r" rs now] True show ?thesis
      by (simp add: put_row_lookup item_key_def)
  next
    case False
    with Cons.prems have "item_key r \<noteq> item_key x" by (auto simp: image_iff)
    with Cons False show ?thesis by (auto simp: put_row_lookup item_key_def)
  qed
qed simp

text \<open>Every chunk writes the rows the database takes and reports the others.\<close>

definition taken :: "(new_item \<Rightarrow> db_fault option) \<Rightarrow> new_item list \<Rightarrow> new_item list" where
  "taken refused rs = filter (\<lambda>r. refused r = None) rs"

definition reports :: "(new_item \<Rightarrow> db_fault option) \<Rightarrow> new_item list \<Rightarrow> item_reject list" where
  "reports refused rs = List.map_filter
     (\<lambda>r. case refused r of Some (RowFault reason) \<Rightarrow> Some (ni_entity r, Some (ni_id r), reason) | _ \<Rightarrow> None) rs"

definition rows_only :: "(new_item \<Rightarrow> db_fault option) \<Rightarrow> new_item list \<Rightarrow> bool" where
  "rows_only refused rs \<longleftrightarrow> (\<forall>r \<in> set rs. refused r \<noteq> Some OtherFault)"

lemma insert_one: "insert_items refused now pid [r] t =
    (case refused r of None \<Rightarrow> Inr (put_row now pid r t) | Some fault \<Rightarrow> Inl fault)"
  by (simp add: insert_items_def List.map_filter_simps split: option.split)

lemma retry_items_ok:
  "rows_only refused rs \<Longrightarrow> retry_items refused now pid rs t =
     Inr (int (length (taken refused rs)), reports refused rs, fold (put_row now pid) (taken refused rs) t)"
proof (induction rs arbitrary: t)
  case (Cons r rs)
  then have rest: "rows_only refused rs" and r: "refused r \<noteq> Some OtherFault"
    by (auto simp: rows_only_def)
  show ?case
  proof (cases "refused r")
    case None
    with Cons.IH [OF rest] show ?thesis
      by (simp add: insert_one taken_def reports_def List.map_filter_simps)
  next
    case (Some fault)
    with r obtain reason where "fault = RowFault reason" by (cases fault) auto
    with Some Cons.IH [OF rest] show ?thesis
      by (simp add: insert_one taken_def reports_def List.map_filter_simps)
  qed
qed (simp add: taken_def reports_def List.map_filter_simps)

lemma all_taken:
  assumes "List.map_filter refused rs = []"
  shows "taken refused rs = rs" "reports refused rs = []"
  using assms by (auto simp: map_filter_Nil taken_def reports_def)

lemma write_item_chunk_ok:
  assumes "rows_only refused rs" and "distinct (map item_key rs)"
  shows "write_item_chunk refused now pid rs t =
     Inr (int (length (taken refused rs)), reports refused rs, fold (put_row now pid) (taken refused rs) t)"
proof (cases "List.map_filter refused rs")
  case Nil
  with assms(2) all_taken [OF Nil] show ?thesis
    by (simp add: write_item_chunk_def insert_items_def)
next
  case (Cons fault rest)
  then obtain r where "r \<in> set rs" "refused r = Some fault"
    using map_filter_head by metis
  with assms(1) obtain reason where "fault = RowFault reason"
    by (cases fault) (auto simp: rows_only_def)
  with Cons assms retry_items_ok [OF assms(1)] show ?thesis
    by (simp add: write_item_chunk_def insert_items_def)
qed

lemma write_item_chunks_ok:
  "rows_only refused rs \<Longrightarrow> distinct (map item_key rs) \<Longrightarrow> write_item_chunks refused now pid rs t =
     Inr (int (length (taken refused rs)), reports refused rs, fold (put_row now pid) (taken refused rs) t)"
proof (induction refused now pid rs t rule: write_item_chunks.induct)
  case (1 refused now pid rs t)
  show ?case
  proof (cases "rs = []")
    case True
    then show ?thesis
      by (subst write_item_chunks.simps) (simp add: taken_def reports_def List.map_filter_simps)
  next
    case False
    define xs ys where "xs = take item_chunk_size rs" and "ys = drop item_chunk_size rs"
    have rs: "rs = xs @ ys" by (simp add: xs_def ys_def)
    have parts: "rows_only refused xs" "distinct (map item_key xs)" "rows_only refused ys" "distinct (map item_key ys)"
      using 1(2,3) unfolding rs by (auto simp: rows_only_def)
    have join: "taken refused rs = taken refused xs @ taken refused ys" "reports refused rs = reports refused xs @ reports refused ys"
      by (simp_all add: rs taken_def reports_def)
    note first = write_item_chunk_ok [OF parts(1,2), of now pid t]
    have second: "write_item_chunks refused now pid ys (fold (put_row now pid) (taken refused xs) t) =
      Inr (int (length (taken refused ys)), reports refused ys,
           fold (put_row now pid) (taken refused ys) (fold (put_row now pid) (taken refused xs) t))"
      using 1(1) [OF False] parts(3,4) unfolding ys_def by blast
    show ?thesis
      unfolding write_item_chunks.simps [of refused now pid rs t] xs_def [symmetric] ys_def [symmetric] first
      using False second join by simp
  qed
qed

section \<open>The newest read wins, in whatever order reads are stored\<close>

text \<open>
  What a row says of its record, without the times of the writes. Storing a read is, seen this
  way, the update of a register that only a read at least as new may overwrite.
\<close>

type_synonym version = "item_data \<times> rat \<times> rat option \<times> string option \<times> rat option"

definition version_of :: "stored_item \<Rightarrow> version" where
  "version_of r = (si_data r, si_read_at r, si_deleted_at r, si_delete_reason r, si_unreadable_since r)"

definition mirror_view :: "item_table \<Rightarrow> int \<times> int \<times> int \<Rightarrow> version option" where
  "mirror_view t k = map_option version_of (map_of t k)"

definition newer :: "new_item \<Rightarrow> version option \<Rightarrow> version" where
  "newer r v =
     (case v of
        None \<Rightarrow> (ni_data r, ni_read_at r, None, None, None)
      | Some (d, t, gone, why, unread) \<Rightarrow>
          if t \<le> ni_read_at r \<and> why \<noteq> Some proven_deleted then (ni_data r, ni_read_at r, None, None, None)
          else (d, t, gone, why, unread))"

definition store_read ::
  "int \<Rightarrow> new_item \<Rightarrow> (int \<times> int \<times> int \<Rightarrow> version option) \<Rightarrow> int \<times> int \<times> int \<Rightarrow> version option" where
  "store_read pid r v = v((pid, ni_entity r, ni_id r) \<mapsto> newer r (v (pid, ni_entity r, ni_id r)))"

lemma put_item_version: "version_of (put_item now r old) = newer r (map_option version_of old)"
  by (auto simp: put_item_def newer_def version_of_def overwrites_def split: option.split)

lemma put_row_refines: "mirror_view (put_row now pid r t) = store_read pid r (mirror_view t)"
  by (rule ext) (auto simp: mirror_view_def store_read_def put_row_def map_of_dict_set put_item_version)

lemma put_rows_refine: "mirror_view (fold (put_row now pid) rs t) = fold (store_read pid) rs (mirror_view t)"
  by (induction rs arbitrary: t) (simp_all add: put_row_refines)

definition agree :: "new_item \<Rightarrow> new_item \<Rightarrow> bool" where
  "agree r s \<longleftrightarrow> (item_key r = item_key s \<and> ni_read_at r = ni_read_at s \<longrightarrow> ni_data r = ni_data s)"

lemma newer_commutes: "item_key r = item_key s \<Longrightarrow> agree r s \<Longrightarrow> newer r (Some (newer s v)) = newer s (Some (newer r v))"
  by (auto simp: newer_def agree_def proven_deleted_def split: option.split)

lemma store_read_commutes:
  assumes "agree r s"
  shows "store_read pid r \<circ> store_read pid s = store_read pid s \<circ> store_read pid r"
proof (cases "item_key r = item_key s")
  case True
  then show ?thesis
    using newer_commutes [OF True assms]
    by (auto simp: store_read_def item_key_def fun_eq_iff)
next
  case False
  then show ?thesis
    by (auto simp: store_read_def item_key_def fun_eq_iff)
qed

lemma reads_converge_lemma:
  assumes "mset rs = mset ss" and "\<forall>r \<in> set rs. \<forall>s \<in> set rs. agree r s"
  shows "mirror_view (fold (put_row now pid) rs t) = mirror_view (fold (put_row now' pid) ss t)"
proof -
  have "fold (store_read pid) rs = fold (store_read pid) ss"
    using assms by (intro fold_multiset_equiv) (auto intro: store_read_commutes)
  then show ?thesis
    by (simp add: put_rows_refine)
qed

section \<open>Deleted rows\<close>

text \<open>The CHECK of the table: a tombstone has a reason and no data, a live row neither.\<close>

definition tombstone_chk :: "stored_item \<Rightarrow> bool" where
  "tombstone_chk r \<longleftrightarrow>
     (si_deleted_at r = None \<and> si_delete_reason r = None) \<or>
     (si_deleted_at r \<noteq> None \<and> si_delete_reason r \<noteq> None \<and> si_data r = no_data)"

definition items_ok :: "item_table \<Rightarrow> bool" where
  "items_ok t \<longleftrightarrow> distinct (map fst t) \<and> (\<forall>k r. map_of t k = Some r \<longrightarrow> tombstone_chk r)"

lemma put_item_chk: "pred_option tombstone_chk old \<Longrightarrow> tombstone_chk (put_item now r old)"
  by (auto simp: put_item_def tombstone_chk_def split: option.splits)

lemma bury_chk: "pred_option tombstone_chk old \<Longrightarrow> tombstone_chk (bury now read_at old)"
  by (auto simp: bury_def tombstone_chk_def split: option.splits)

lemma dict_set_ok:
  assumes "items_ok t" and "pred_option tombstone_chk (map_of t k) \<Longrightarrow> tombstone_chk r"
  shows "items_ok (dict_set k r t)"
  using assms by (cases "map_of t k") (auto simp: items_ok_def map_of_dict_set distinct_dict_set)

lemma put_rows_ok: "items_ok t \<Longrightarrow> items_ok (fold (put_row now pid) rs t)"
  by (induction rs arbitrary: t) (auto simp: put_row_def intro!: dict_set_ok put_item_chk)

lemma bury_one_ok: "items_ok (snd st) \<Longrightarrow> items_ok (snd (bury_one now pid entity read_at i st))"
  by (cases st) (auto simp: bury_one_def Let_def intro!: dict_set_ok bury_chk)

lemma tombstone_ok: "items_ok t \<Longrightarrow> items_ok (snd (tombstone now pid entity ids read_at t))"
proof -
  have "items_ok (snd st) \<Longrightarrow> items_ok (snd (fold (bury_one now pid entity read_at) is st))" for "is" st
    by (induction "is" arbitrary: st) (simp_all add: bury_one_ok)
  then show "items_ok t \<Longrightarrow> ?thesis"
    by (simp add: tombstone_def)
qed

lemma mark_unreadable_lookup:
  "map_of (snd (mark_unreadable pid entity ids now t)) k =
     map_option (\<lambda>r. if refused_live pid entity ids (k, r) then stamp_unreadable now r else r) (map_of t k)"
  by (induction t) (auto simp: mark_unreadable_def)

lemma stamp_chk: "tombstone_chk (stamp_unreadable now r) \<longleftrightarrow> tombstone_chk r"
  by (simp add: tombstone_chk_def stamp_unreadable_def)

lemma mark_unreadable_ok:
  assumes "items_ok t"
  shows "items_ok (snd (mark_unreadable pid entity ids now t))"
proof -
  have "map fst (snd (mark_unreadable pid entity ids now t)) = map fst t"
    by (auto simp: mark_unreadable_def)
  moreover have "tombstone_chk r" if found: "map_of (snd (mark_unreadable pid entity ids now t)) k = Some r" for k r
  proof -
    obtain q where q: "map_of t k = Some q"
      and r: "r = (if refused_live pid entity ids (k, q) then stamp_unreadable now q else q)"
      using found unfolding mark_unreadable_lookup by (cases "map_of t k") simp_all
    have "tombstone_chk q"
      using assms q unfolding items_ok_def by blast
    then show ?thesis by (simp add: r stamp_chk)
  qed
  ultimately show ?thesis
    using assms by (simp only: items_ok_def) blast
qed

lemma bury_one_lookup:
  "map_of (snd (bury_one now pid entity read_at i st)) k =
     (if k = (pid, entity, i) then Some (bury now read_at (map_of (snd st) k)) else map_of (snd st) k)"
  by (cases st) (simp add: bury_one_def Let_def map_of_dict_set)

text \<open>What a proven deletion left behind, nothing below changes.\<close>

definition proven_gone :: "stored_item \<Rightarrow> bool" where
  "proven_gone r \<longleftrightarrow> si_delete_reason r = Some proven_deleted \<and> si_deleted_at r \<noteq> None"

lemma put_row_gone: "map_of t k = Some r \<Longrightarrow> proven_gone r \<Longrightarrow> map_of (put_row now pid a t) k = Some r"
  by (auto simp: put_row_def map_of_dict_set put_item_def overwrites_def proven_gone_def)

lemma bury_one_gone:
  "map_of (snd st) k = Some r \<Longrightarrow> proven_gone r \<Longrightarrow> map_of (snd (bury_one now pid entity read_at i st)) k = Some r"
  by (auto simp: bury_one_lookup bury_def overwrites_def proven_gone_def)

lemma put_rows_gone:
  assumes "map_of t k = Some r" and "proven_gone r"
  shows "map_of (fold (put_row now pid) rs t) k = Some r"
  using assms
  by (induction rs arbitrary: t) (simp_all add: put_row_gone)

lemma tombstone_gone:
  assumes "map_of t k = Some r" and "proven_gone r"
  shows "map_of (snd (tombstone now pid entity ids read_at t)) k = Some r"
proof -
  have "map_of (snd st) k = Some r \<Longrightarrow> map_of (snd (fold (bury_one now pid entity read_at) is st)) k = Some r" for "is" st
    using assms(2) by (induction "is" arbitrary: st) (simp_all add: bury_one_gone)
  with assms(1) show ?thesis by (simp add: tombstone_def)
qed

lemma unreadable_gone:
  assumes "map_of t k = Some r" and "proven_gone r"
  shows "map_of (snd (mark_unreadable pid entity ids now t)) k = Some r"
  using assms by (cases k) (auto simp: mark_unreadable_lookup refused_live_def proven_gone_def)

section \<open>The contract of a write to the mirror\<close>

text \<open>
  What every transaction on the mirror promises, whatever it writes: it commits only under its
  fence and leaves the fences alone, touches one portal, keeps the table's CHECK and never
  changes the row of a proven deletion.
\<close>

locale crm_write =
  fixes f :: fence and action :: "crm_store \<Rightarrow> (exn, 'a \<times> crm_store) result"
  assumes needs_fence: "action s = Inr (a, s') \<Longrightarrow> fence_holds f (cs_base s)"
    and keeps_fences: "action s = Inr (a, s') \<Longrightarrow> sync (cs_base s') = sync (cs_base s) \<and> db_now (cs_base s') = db_now (cs_base s)"
    and own_portal: "action s = Inr (a, s') \<Longrightarrow> p \<noteq> portal_id f \<Longrightarrow>
      map_of (cs_items s') (p, e, i) = map_of (cs_items s) (p, e, i) \<and>
      map_of (cs_dirty s') (p, e, i) = map_of (cs_dirty s) (p, e, i) \<and>
      map_of (cs_lanes s') (p, name) = map_of (cs_lanes s) (p, name)"
    and keeps_chk: "action s = Inr (a, s') \<Longrightarrow> items_ok (cs_items s) \<Longrightarrow> items_ok (cs_items s')"
    and keeps_gone: "action s = Inr (a, s') \<Longrightarrow> map_of (cs_items s) k = Some r \<Longrightarrow> proven_gone r \<Longrightarrow>
      map_of (cs_items s') k = Some r"
begin

lemma commits: "crm_txn action s = (Inr a, s') \<longleftrightarrow> action s = Inr (a, s')"
  by (auto simp: crm_txn_def split: sum.splits)

lemma rolls_back: "crm_txn action s = (Inl e, s') \<longleftrightarrow> action s = Inl e \<and> s' = s"
  by (auto simp: crm_txn_def split: sum.splits)

lemma outcomes:
  obtains (committed) a s' where "action s = Inr (a, s')" "crm_txn action s = (Inr a, s')"
  | (rolled_back) e where "crm_txn action s = (Inl e, s)"
  by (cases "action s") (auto simp: crm_txn_def)

lemma lost_fence: "\<not> fence_holds f (cs_base s) \<Longrightarrow> snd (crm_txn action s) = s"
  by (cases rule: outcomes [of s]) (auto dest: needs_fence)

lemma fences_kept: "fence_holds g (cs_base (snd (crm_txn action s))) \<longleftrightarrow> fence_holds g (cs_base s)"
  by (cases rule: outcomes [of s]) (auto dest: keeps_fences fence_holds_cong)

lemma chk_kept: "items_ok (cs_items s) \<Longrightarrow> items_ok (cs_items (snd (crm_txn action s)))"
  by (cases rule: outcomes [of s]) (auto dest: keeps_chk)

lemma gone_kept:
  "map_of (cs_items s) k = Some r \<Longrightarrow> proven_gone r \<Longrightarrow> map_of (cs_items (snd (crm_txn action s))) k = Some r"
  by (cases rule: outcomes [of s]) (auto dest: keeps_gone)

lemma others_kept: "p \<noteq> portal_id f \<Longrightarrow>
    map_of (cs_items (snd (crm_txn action s))) (p, e, i) = map_of (cs_items s) (p, e, i)"
  by (cases rule: outcomes [of s]) (auto dest: own_portal)

end

lemma map_of_filter_kept: "(\<And>v. P (k, v)) \<Longrightarrow> map_of (filter P t) k = map_of t k"
  by (induction t) auto

lemma consume_other: "p \<noteq> pid \<Longrightarrow> map_of (consume_dirty pid items t) (p, e, i) = map_of t (p, e, i)"
  unfolding consume_dirty_def by (rule map_of_filter_kept) simp

lemma store_lanes_other:
  "store_lanes pid ls t = Inr t' \<Longrightarrow> p \<noteq> pid \<Longrightarrow> map_of t' (p, name) = map_of t (p, name)"
  by (auto simp: store_lanes_def map_of_fold_lanes split: if_splits)

lemma event_sync [simp]: "sync (record_event pid kind details s) = sync s" "db_now (record_event pid kind details s) = db_now s"
  by (simp_all add: record_event_def)

lemma item_rejections_sync [simp]:
  "sync (record_item_rejections pid bad s) = sync s" "db_now (record_item_rejections pid bad s) = db_now s"
proof -
  have "sync (fold (\<lambda>(entity, the_id, reason). record_event pid ''row_rejected'' (g entity the_id reason)) xs s) = sync s \<and>
    db_now (fold (\<lambda>(entity, the_id, reason). record_event pid ''row_rejected'' (g entity the_id reason)) xs s) = db_now s"
    for g and xs :: "item_reject list"
    by (induction xs arbitrary: s) (auto split: prod.split)
  then show "sync (record_item_rejections pid bad s) = sync s" "db_now (record_item_rejections pid bad s) = db_now s"
    by (simp_all add: record_item_rejections_def Let_def)
qed

lemma placeholders_sync [simp]:
  "sync (upsert_placeholders pid us s) = sync s" "db_now (upsert_placeholders pid us s) = db_now s"
  by (simp_all add: upsert_placeholders_def)

text \<open>The empty fenced update only checks the fence.\<close>

lemma fence_check:
  assumes "fenced_update f (\<lambda>_ r. r) s = Inr s'"
  shows "fence_holds f s" "sync s' = sync s" "db_now s' = db_now s" "portals s' = portals s"
proof -
  have set_same: "map_of d k = Some v \<Longrightarrow> dict_set k v d = d" for k :: int and v :: sync_row and d
    by (rule update_triv)
  show "fence_holds f s" "sync s' = sync s" "db_now s' = db_now s" "portals s' = portals s"
    using assms by (auto simp: fenced_update_Inr update_sync_def set_same split: option.splits)
qed

text \<open>A committed upsert, piece by piece.\<close>

lemma upsert_body_Inr:
  assumes "upsert_items_body refused f vs lanes refusals consume s = Inr (a, s')"
  obtains bad where
    "write_item_chunks refused (db_now (cs_base s)) (portal_id f) vs (cs_items s) = Inr (iw_written a, bad, cs_items s')"
    "cs_dirty s' = (if consume = [] then cs_dirty s else consume_dirty (portal_id f) consume (cs_dirty s))"
    "store_lanes (portal_id f) lanes (cs_lanes s) = Inr (cs_lanes s')"
    "iw_quarantined a = int (length (refusals @ bad))" "fence_holds f (cs_base s)"
    "sync (cs_base s') = sync (cs_base s)" "db_now (cs_base s') = db_now (cs_base s)"
proof -
  let ?pid = "portal_id f" and ?now = "db_now (cs_base s)"
  obtain n bad items where w: "write_item_chunks refused ?now ?pid vs (cs_items s) = Inr (n, bad, items)"
    using assms by (auto simp: upsert_items_body_def Let_def rbind_Inr_iff)
  define base2 where "base2 = (let base1 = (if n \<noteq> 0 then upsert_placeholders ?pid (item_assignees vs bad) (cs_base s)
      else cs_base s) in if refusals @ bad = [] then base1 else record_item_rejections ?pid (refusals @ bad) base1)"
  have same: "sync base2 = sync (cs_base s)" "db_now base2 = db_now (cs_base s)"
    by (simp_all add: base2_def Let_def)
  from assms w obtain ls base3 where ls: "store_lanes ?pid lanes (cs_lanes s) = Inr ls"
    and b3: "fenced_update f (\<lambda>_ r. r) base2 = Inr base3"
    and a: "a = \<lparr>iw_written = n, iw_quarantined = int (length (refusals @ bad))\<rparr>"
    and s': "s' = \<lparr>cs_base = base3, cs_items = items,
      cs_dirty = (if consume = [] then cs_dirty s else consume_dirty ?pid consume (cs_dirty s)), cs_lanes = ls\<rparr>"
    by (auto simp: upsert_items_body_def Let_def base2_def rbind_Inr_iff)
  from fence_check [OF b3] have "fence_holds f (cs_base s)" "sync base3 = sync (cs_base s)" "db_now base3 = db_now (cs_base s)"
    using same fence_holds_cong [OF same] by auto
  with w ls show thesis
    by (intro that [of bad]) (simp_all add: a s')
qed

text \<open>Whatever the database refuses, the chunks only put rows of this portal.\<close>

lemma retry_items_puts:
  "retry_items refused now pid rs t = Inr (n, bad, t') \<Longrightarrow> \<exists>xs. t' = fold (put_row now pid) xs t"
proof (induction rs arbitrary: t n bad)
  case (Cons r rs)
  show ?case
  proof (cases "refused r")
    case None
    with Cons.prems obtain m where "retry_items refused now pid rs (put_row now pid r t) = Inr (m, bad, t')"
      by (auto simp: insert_one rbind_Inr_iff)
    from Cons.IH [OF this] obtain xs where "t' = fold (put_row now pid) xs (put_row now pid r t)" by blast
    then have "t' = fold (put_row now pid) (r # xs) t" by simp
    then show ?thesis by blast
  next
    case (Some fault)
    with Cons.prems obtain bad' where "retry_items refused now pid rs t = Inr (n, bad', t')"
      by (cases fault) (auto simp: insert_one rbind_Inr_iff)
    from Cons.IH [OF this] show ?thesis .
  qed
qed (auto intro: exI [of _ "[]"])

lemma write_item_chunk_puts:
  "write_item_chunk refused now pid rs t = Inr (n, bad, t') \<Longrightarrow> \<exists>xs. t' = fold (put_row now pid) xs t"
  by (auto simp: write_item_chunk_def insert_items_def split: if_splits list.splits sum.splits db_fault.splits
      dest: retry_items_puts)

lemma write_item_chunks_puts:
  "write_item_chunks refused now pid rs t = Inr (n, bad, t') \<Longrightarrow> \<exists>xs. t' = fold (put_row now pid) xs t"
proof (induction refused now pid rs t arbitrary: n bad rule: write_item_chunks.induct)
  case (1 refused now pid rs t)
  show ?case
  proof (cases "rs = []")
    case True
    with 1(2) have "t' = fold (put_row now pid) [] t"
      by (simp add: write_item_chunks.simps [of refused now pid "[]" t])
    then show ?thesis by blast
  next
    case False
    with 1(2) obtain n1 bad1 t1 n2 bad2 where
      first: "write_item_chunk refused now pid (take item_chunk_size rs) t = Inr (n1, bad1, t1)" and
      second: "write_item_chunks refused now pid (drop item_chunk_size rs) t1 = Inr (n2, bad2, t')"
      by (subst (asm) write_item_chunks.simps) (auto simp: rbind_Inr_iff)
    from write_item_chunk_puts [OF first] 1(1) [OF False second]
    obtain xs ys where "t1 = fold (put_row now pid) xs t" "t' = fold (put_row now pid) ys t1" by blast
    then have "t' = fold (put_row now pid) (xs @ ys) t" by simp
    then show ?thesis by blast
  qed
qed

interpretation ups_items: crm_write f "upsert_items_body refused f vs lanes refusals consume"
proof
  fix s a s'
  assume run: "upsert_items_body refused f vs lanes refusals consume s = Inr (a, s')"
  obtain bad where parts:
    "write_item_chunks refused (db_now (cs_base s)) (portal_id f) vs (cs_items s) = Inr (iw_written a, bad, cs_items s')"
    "cs_dirty s' = (if consume = [] then cs_dirty s else consume_dirty (portal_id f) consume (cs_dirty s))"
    "store_lanes (portal_id f) lanes (cs_lanes s) = Inr (cs_lanes s')" "fence_holds f (cs_base s)"
    "sync (cs_base s') = sync (cs_base s)" "db_now (cs_base s') = db_now (cs_base s)"
    using run by (rule upsert_body_Inr) blast
  obtain xs where xs: "cs_items s' = fold (put_row (db_now (cs_base s)) (portal_id f)) xs (cs_items s)"
    using write_item_chunks_puts [OF parts(1)] by blast
  show "fence_holds f (cs_base s)" by (rule parts(4))
  show "sync (cs_base s') = sync (cs_base s) \<and> db_now (cs_base s') = db_now (cs_base s)"
    using parts(5,6) by simp
  show "items_ok (cs_items s) \<Longrightarrow> items_ok (cs_items s')"
    by (simp add: xs put_rows_ok)
  show "map_of (cs_items s) k = Some r \<Longrightarrow> proven_gone r \<Longrightarrow> map_of (cs_items s') k = Some r" for k r
    by (simp add: xs put_rows_gone)
  show "p \<noteq> portal_id f \<Longrightarrow> map_of (cs_items s') (p, e, i) = map_of (cs_items s) (p, e, i) \<and>
      map_of (cs_dirty s') (p, e, i) = map_of (cs_dirty s) (p, e, i) \<and>
      map_of (cs_lanes s') (p, name) = map_of (cs_lanes s) (p, name)" for p e i name
    using parts(2) store_lanes_other [OF parts(3)] by (simp add: xs put_rows_other consume_other)
qed

end
