(* ===== verification/Crm_Refresh.thy ===== *)
theory Crm_Refresh
  imports Crm_Fetch Crm_Upsert
begin

text \<open>
  \<open>sync/crm_dirty_refresh.py\<close>: one pass over the dirty queue. The queued ids are read again, the
  absent ones confirmed one by one, and only then, behind two guards, deleted.
\<close>

section \<open>Reading\<close>

definition max_ids_per_pass :: nat where "max_ids_per_pass = 2500"
definition delete_floor :: int where "delete_floor = 50"
definition refresh_hold :: rat where "refresh_hold = 3600"

record refresh_outcome =
  rf_read_at :: rat
  rf_rows :: "item_row list"
  rf_rejected :: rejected
  rf_present :: "dirty_id list"
  rf_deleted :: "dirty_id list"
  rf_unreadable :: "dirty_id list"
  rf_retry :: "dirty_id list"
  rf_errors :: "bitrix_error list"
  rf_batches :: int
  rf_time :: "block option"

definition no_refresh :: "rat \<Rightarrow> refresh_outcome" where
  "no_refresh now =
     \<lparr>rf_read_at = now, rf_rows = [], rf_rejected = [], rf_present = [], rf_deleted = [],
      rf_unreadable = [], rf_retry = [], rf_errors = [], rf_batches = 0, rf_time = None\<rparr>"

definition dirty_by_id :: "dirty_id list \<Rightarrow> (int, dirty_id) dict" where
  "dirty_by_id items = fold (\<lambda>d. dict_set (di_id d) d) (take max_ids_per_pass items) []"

text \<open>\<open>[by_id[i] for i in sorted(ids) if i in by_id]\<close>, and the same without the test, which raises.\<close>

definition known_ids :: "(int, dirty_id) dict \<Rightarrow> int set \<Rightarrow> dirty_id list" where
  "known_ids by_id ids = List.map_filter (map_of by_id) (sorted_list_of_set ids)"

definition ids_at :: "(int, dirty_id) dict \<Rightarrow> int list \<Rightarrow> (py_error, dirty_id list) result" where
  "ids_at by_id ids = rmap (lookup_key by_id) ids"

definition after_fetch ::
  "(int, dirty_id) dict \<Rightarrow> rat \<Rightarrow> ids_outcome \<Rightarrow> refresh_outcome \<times> int list" where
  "after_fetch by_id now got =
     (let returned = ir_id ` set (io_rows got) \<union> set (List.map_filter fst (io_rejected got))
      in ((no_refresh now)\<lparr>rf_batches := 1, rf_time := io_time got, rf_rows := io_rows got,
            rf_rejected := io_rejected got, rf_errors := io_errors got,
            rf_present := known_ids by_id returned,
            rf_retry := known_ids by_id (io_unresolved got)\<rparr>,
          sorted_list_of_set (io_missing got - returned)))"

definition after_confirm ::
  "(int, dirty_id) dict \<Rightarrow> confirm_outcome \<Rightarrow> refresh_outcome \<Rightarrow> (py_error, refresh_outcome) result" where
  "after_confirm by_id confirmed out =
     rbind (ids_at by_id (sorted_list_of_set (co_not_found confirmed))) (\<lambda>gone.
     rbind (ids_at by_id (sorted_list_of_set (co_access_denied confirmed))) (\<lambda>denied.
     rbind (ids_at by_id (sorted_list_of_set (co_present confirmed \<union> set (map fst (co_unresolved confirmed))))) (\<lambda>again.
       Inr (out\<lparr>rf_batches := rf_batches out + 1, rf_time := co_time confirmed,
                rf_deleted := rf_deleted out @ gone, rf_unreadable := rf_unreadable out @ denied,
                rf_retry := rf_retry out @ again,
                rf_errors := rf_errors out @ map snd (co_unresolved confirmed)\<rparr>))))"

text \<open>\<open>pace_ok n block\<close>: whether the visit may make its \<open>n\<close>-th request.\<close>

fun confirm_chunks ::
  "'o fetch_outside_scheme \<Rightarrow> (nat \<Rightarrow> block option \<Rightarrow> bool) \<Rightarrow> client \<Rightarrow> int \<Rightarrow> (int, dirty_id) dict \<Rightarrow>
   int \<Rightarrow> int list list \<Rightarrow> refresh_outcome \<Rightarrow> ('n net_scheme, exn, refresh_outcome) prog" where
  "confirm_chunks c pace_ok cl entity by_id max_batches [] out = ret out"
| "confirm_chunks c pace_ok cl entity by_id max_batches (chunk # rest) out =
     andThen (if max_batches \<le> rf_batches out then ret False
              else reads (\<lambda>w. pace_ok (length (requests w)) (rf_time out))) (\<lambda>go.
       if \<not> go
       then lift_result (lift_py (rbind (ids_at by_id (concat (chunk # rest))) (\<lambda>again.
              Inr (out\<lparr>rf_retry := rf_retry out @ again\<rparr>))))
       else andThen (confirm_absent c cl entity chunk) (\<lambda>confirmed.
            andThen (lift_result (lift_py (after_confirm by_id confirmed out))) (\<lambda>out'.
            confirm_chunks c pace_ok cl entity by_id max_batches rest out')))"

definition refresh ::
  "'o fetch_outside_scheme \<Rightarrow> (nat \<Rightarrow> block option \<Rightarrow> bool) \<Rightarrow> client \<Rightarrow> mirror_dialect \<Rightarrow> dirty_id list \<Rightarrow>
   int \<Rightarrow> int \<Rightarrow> rat \<Rightarrow> ('n net_scheme, exn, refresh_outcome) prog" where
  "refresh c pace_ok cl d items utm_max max_batches now =
     (let by_id = dirty_by_id items
      in if by_id = [] \<or> max_batches \<le> 0 then ret (no_refresh now)
         else andThen (fetch_by_ids c cl d (map fst by_id) utm_max) (\<lambda>got.
              let (out, missing) = after_fetch by_id now got
              in confirm_chunks c pace_ok cl (md_entity_type_id d) by_id max_batches (id_chunks missing) out))"

section \<open>Storing\<close>

text \<open>At most fifty records or two in a hundred of the live ones.\<close>

definition delete_ceiling :: "int \<Rightarrow> int" where
  "delete_ceiling live = max delete_floor (live div 50)"

definition held_details :: "int \<Rightarrow> int \<Rightarrow> int \<Rightarrow> bool \<Rightarrow> (string, json) dict" where
  "held_details entity confirmed most allow_deletes =
     [(''entity_type_id'', JInt entity), (''confirmed'', JInt confirmed), (''ceiling'', JInt most),
      (''admin_verified'', JBool allow_deletes)]"

definition store_deletes :: "int \<Rightarrow> int \<Rightarrow> refresh_outcome \<Rightarrow> bool \<Rightarrow> rat \<Rightarrow> crm_store \<Rightarrow> bool \<times> crm_store" where
  "store_deletes pid entity out allow_deletes now s =
     (if rf_deleted out = [] then (False, s)
      else
        (let most = delete_ceiling (live_count pid entity (cs_items s));
             confirmed = int (length (rf_deleted out))
         in if \<not> allow_deletes \<or> most < confirmed
            then (True, s\<lparr>cs_dirty := hold_dirty pid (rf_deleted out) (now + refresh_hold) (cs_dirty s),
                          cs_base := record_event pid ''crm_delete_held''
                            (held_details entity confirmed most allow_deletes) (cs_base s)\<rparr>)
            else (False, s\<lparr>cs_items := snd (tombstone (db_now (cs_base s)) pid entity (map di_id (rf_deleted out))
                                              (rf_read_at out) (cs_items s)),
                           cs_dirty := consume_dirty pid (rf_deleted out) (cs_dirty s)\<rparr>)))"

definition store_unreadable :: "int \<Rightarrow> int \<Rightarrow> refresh_outcome \<Rightarrow> rat \<Rightarrow> crm_store \<Rightarrow> crm_store" where
  "store_unreadable pid entity out now s =
     (if rf_unreadable out = [] then s
      else s\<lparr>cs_items := snd (mark_unreadable pid entity (map di_id (rf_unreadable out)) now (cs_items s)),
             cs_dirty := consume_dirty pid (rf_unreadable out) (cs_dirty s)\<rparr>)"

definition store_refresh_body ::
  "fence \<Rightarrow> int \<Rightarrow> refresh_outcome \<Rightarrow> bool \<Rightarrow> rat \<Rightarrow> lane list \<Rightarrow> crm_store \<Rightarrow>
   (exn, bool \<times> crm_store) result" where
  "store_refresh_body f entity out allow_deletes now lanes s =
     (let pid = portal_id f;
          (held, s1) = store_deletes pid entity out allow_deletes now s;
          s2 = store_unreadable pid entity out now s1;
          s3 = (if rf_retry out = [] then s2
                else s2\<lparr>cs_dirty := defer_dirty pid (rf_retry out) now (cs_dirty s2)\<rparr>)
      in rbind (store_lanes pid lanes (cs_lanes s3)) (\<lambda>ls.
         rbind (fenced_update f (\<lambda>_ r. r) (cs_base s3)) (\<lambda>base.
         Inr (held, s3\<lparr>cs_lanes := ls, cs_base := base\<rparr>))))"

definition store_refresh ::
  "fence \<Rightarrow> int \<Rightarrow> refresh_outcome \<Rightarrow> bool \<Rightarrow> rat \<Rightarrow> lane list \<Rightarrow> crm_store \<Rightarrow>
   (exn, bool) result \<times> crm_store" where
  "store_refresh f entity out allow_deletes now lanes s =
     crm_txn (store_refresh_body f entity out allow_deletes now lanes) s"

section \<open>The contract of the write\<close>

lemma bury_one_other:
  "p \<noteq> pid \<Longrightarrow> map_of (snd (bury_one now pid entity read_at i st)) (p, e, j) = map_of (snd st) (p, e, j)"
  by (simp add: bury_one_lookup)

lemma tombstone_other:
  assumes "p \<noteq> pid"
  shows "map_of (snd (tombstone now pid entity ids read_at t)) (p, e, j) = map_of t (p, e, j)"
proof -
  have "map_of (snd (fold (bury_one now pid entity read_at) is st)) (p, e, j) = map_of (snd st) (p, e, j)" for "is" st
    by (induction "is" arbitrary: st) (simp_all add: bury_one_other [OF assms])
  then show ?thesis by (simp add: tombstone_def)
qed

lemma unreadable_other:
  "p \<noteq> pid \<Longrightarrow> map_of (snd (mark_unreadable pid entity ids now t)) (p, e, j) = map_of t (p, e, j)"
  by (cases "map_of t (p, e, j)") (simp_all add: mark_unreadable_lookup refused_live_def)

lemma update_marks_other:
  "p \<noteq> pid \<Longrightarrow> map_of (update_marks pid keys g t) (p, e, j) = map_of t (p, e, j)"
  by (cases "map_of t (p, e, j)") (simp_all add: update_marks_lookup)

lemma defer_other:
  assumes "p \<noteq> pid"
  shows "map_of (defer_dirty pid items now t) (p, e, j) = map_of t (p, e, j)"
proof -
  have "map_of (fold (\<lambda>((not_before, held), keys). update_marks pid keys (g not_before held)) gs t) (p, e, j) =
    map_of t (p, e, j)" for g and gs :: "(('a \<times> 'b) \<times> (int \<times> int) list) list"
    by (induction gs arbitrary: t) (auto simp: update_marks_other [OF assms])
  then show ?thesis by (simp add: defer_dirty_def)
qed

lemma store_deletes_keeps:
  assumes "store_deletes pid entity out allow now s = (held, s1)"
  shows "sync (cs_base s1) = sync (cs_base s)" "db_now (cs_base s1) = db_now (cs_base s)"
    "cs_lanes s1 = cs_lanes s"
    "p \<noteq> pid \<Longrightarrow> map_of (cs_items s1) (p, e, i) = map_of (cs_items s) (p, e, i) \<and>
       map_of (cs_dirty s1) (p, e, i) = map_of (cs_dirty s) (p, e, i)"
    "items_ok (cs_items s) \<Longrightarrow> items_ok (cs_items s1)"
    "map_of (cs_items s) k = Some r \<Longrightarrow> proven_gone r \<Longrightarrow> map_of (cs_items s1) k = Some r"
  using assms
  by (auto simp: store_deletes_def Let_def hold_dirty_def update_marks_other tombstone_other consume_other
      tombstone_ok tombstone_gone split: if_splits)

lemma store_unreadable_keeps:
  "cs_base (store_unreadable pid entity out now s) = cs_base s"
  "cs_lanes (store_unreadable pid entity out now s) = cs_lanes s"
  "p \<noteq> pid \<Longrightarrow> map_of (cs_items (store_unreadable pid entity out now s)) (p, e, i) = map_of (cs_items s) (p, e, i) \<and>
     map_of (cs_dirty (store_unreadable pid entity out now s)) (p, e, i) = map_of (cs_dirty s) (p, e, i)"
  "items_ok (cs_items s) \<Longrightarrow> items_ok (cs_items (store_unreadable pid entity out now s))"
  "map_of (cs_items s) k = Some r \<Longrightarrow> proven_gone r \<Longrightarrow>
     map_of (cs_items (store_unreadable pid entity out now s)) k = Some r"
  by (simp_all add: store_unreadable_def unreadable_other consume_other mark_unreadable_ok unreadable_gone)

lemma store_refresh_Inr:
  assumes "store_refresh_body f entity out allow now lanes s = Inr (held, s')"
  obtains s1 where "store_deletes (portal_id f) entity out allow now s = (held, s1)"
    "cs_items s' = cs_items (store_unreadable (portal_id f) entity out now s1)"
    "cs_dirty s' = (let t = cs_dirty (store_unreadable (portal_id f) entity out now s1)
       in if rf_retry out = [] then t else defer_dirty (portal_id f) (rf_retry out) now t)"
    "store_lanes (portal_id f) lanes (cs_lanes s) = Inr (cs_lanes s')"
    "fence_holds f (cs_base s)" "sync (cs_base s') = sync (cs_base s)" "db_now (cs_base s') = db_now (cs_base s)"
proof -
  obtain held1 s1 where d: "store_deletes (portal_id f) entity out allow now s = (held1, s1)" by fastforce
  note k = store_deletes_keeps(1-3) [OF d] store_unreadable_keeps(1,2) [of "portal_id f" entity out now s1]
  from assms d obtain ls base where ls: "store_lanes (portal_id f) lanes (cs_lanes s) = Inr ls"
    and b: "fenced_update f (\<lambda>_ r. r) (cs_base s1) = Inr base" and h: "held = held1"
    and s': "cs_items s' = cs_items (store_unreadable (portal_id f) entity out now s1)" "cs_lanes s' = ls" "cs_base s' = base"
      "cs_dirty s' = (let t = cs_dirty (store_unreadable (portal_id f) entity out now s1)
         in if rf_retry out = [] then t else defer_dirty (portal_id f) (rf_retry out) now t)"
    by (auto simp: store_refresh_body_def Let_def rbind_Inr_iff k split: if_splits)
  from fence_check [OF b] fence_holds_cong [OF k(1,2)] have
    "fence_holds f (cs_base s)" "sync base = sync (cs_base s)" "db_now base = db_now (cs_base s)"
    by (simp_all add: k)
  with d ls show thesis
    by (intro that [of s1]) (simp_all only: s' h)
qed

interpretation ref_items: crm_write f "store_refresh_body f entity out allow now lanes"
proof
  fix s a s'
  assume run: "store_refresh_body f entity out allow now lanes s = Inr (a, s')"
  obtain s1 where parts: "store_deletes (portal_id f) entity out allow now s = (a, s1)"
    "cs_items s' = cs_items (store_unreadable (portal_id f) entity out now s1)"
    "cs_dirty s' = (let t = cs_dirty (store_unreadable (portal_id f) entity out now s1)
       in if rf_retry out = [] then t else defer_dirty (portal_id f) (rf_retry out) now t)"
    "store_lanes (portal_id f) lanes (cs_lanes s) = Inr (cs_lanes s')"
    "fence_holds f (cs_base s)" "sync (cs_base s') = sync (cs_base s)" "db_now (cs_base s') = db_now (cs_base s)"
    using run by (rule store_refresh_Inr) blast
  show "fence_holds f (cs_base s)" by (rule parts(5))
  show "sync (cs_base s') = sync (cs_base s) \<and> db_now (cs_base s') = db_now (cs_base s)"
    using parts(6,7) by simp
  show "items_ok (cs_items s) \<Longrightarrow> items_ok (cs_items s')"
    by (simp add: parts(2) store_unreadable_keeps(4) store_deletes_keeps(5) [OF parts(1)])
  show "map_of (cs_items s) k = Some r \<Longrightarrow> proven_gone r \<Longrightarrow> map_of (cs_items s') k = Some r" for k r
    by (simp add: parts(2) store_unreadable_keeps(5) store_deletes_keeps(6) [OF parts(1)])
  show "p \<noteq> portal_id f \<Longrightarrow> map_of (cs_items s') (p, e, i) = map_of (cs_items s) (p, e, i) \<and>
      map_of (cs_dirty s') (p, e, i) = map_of (cs_dirty s) (p, e, i) \<and>
      map_of (cs_lanes s') (p, name) = map_of (cs_lanes s) (p, name)" for p e i name
    using store_lanes_other [OF parts(4)] store_deletes_keeps(4) [OF parts(1)]
      store_unreadable_keeps(3) [of p "portal_id f" entity out now s1]
    by (simp add: parts(2,3) Let_def defer_other)
qed

section \<open>Every queued id is settled\<close>

definition settled_ids :: "refresh_outcome \<Rightarrow> int list" where
  "settled_ids out =
     map di_id (rf_present out) @ map di_id (rf_deleted out) @ map di_id (rf_unreadable out) @ map di_id (rf_retry out)"

definition ids_of_themselves :: "(int, dirty_id) dict \<Rightarrow> bool" where
  "ids_of_themselves by_id \<longleftrightarrow> (\<forall>i d. map_of by_id i = Some d \<longrightarrow> di_id d = i)"

lemma dirty_by_id_self: "ids_of_themselves (dirty_by_id items)"
proof -
  have step: "ids_of_themselves g \<Longrightarrow> ids_of_themselves (dict_set (di_id d) d g)" for d g
    by (auto simp: ids_of_themselves_def map_of_dict_set)
  have many: "ids_of_themselves g \<Longrightarrow> ids_of_themselves (fold (\<lambda>d. dict_set (di_id d) d) ds g)" for ds g
    by (induction ds arbitrary: g) (simp_all add: step)
  show ?thesis
    unfolding dirty_by_id_def by (rule many) (simp add: ids_of_themselves_def)
qed

lemma dirty_by_id_keys: "fst ` set (dirty_by_id items) = di_id ` set (take max_ids_per_pass items)"
proof -
  have "fst ` set (fold (\<lambda>d. dict_set (di_id d) d) ds g) = fst ` set g \<union> di_id ` set ds"
    for ds and g :: "(int, dirty_id) dict"
    by (induction ds arbitrary: g) (auto simp: dom_map_of_conv_image_fst [symmetric] update_conv')
  then show ?thesis by (simp add: dirty_by_id_def)
qed

lemma ids_at_ids:
  assumes "ids_at by_id ids = Inr ds" and "ids_of_themselves by_id"
  shows "map di_id ds = ids"
  using assms(1)
proof (induction ids arbitrary: ds)
  case (Cons i ids)
  then obtain d ds' where "lookup_key by_id i = Inr d" "ids_at by_id ids = Inr ds'" "ds = d # ds'"
    by (auto simp: ids_at_def rbind_Inr_iff)
  with Cons.IH assms(2) show ?case
    by (auto simp: lookup_key_def ids_of_themselves_def split: option.splits)
qed (simp add: ids_at_def)

lemma known_ids_ids:
  assumes "ids_of_themselves by_id" and "finite A" and "A \<subseteq> fst ` set by_id"
  shows "map di_id (known_ids by_id A) = sorted_list_of_set A"
proof -
  have "map di_id (List.map_filter (map_of by_id) xs) = xs" if "set xs \<subseteq> fst ` set by_id" for xs
    using that assms(1)
  proof (induction xs)
    case (Cons x xs)
    then obtain d where "map_of by_id x = Some d" "di_id d = x"
      by (auto simp: ids_of_themselves_def dom_map_of_conv_image_fst [symmetric])
    with Cons show ?case by (simp add: List.map_filter_simps)
  qed (simp add: List.map_filter_simps)
  with assms(2,3) show ?thesis by (simp add: known_ids_def)
qed

lemma mset_sorted_list: "mset (sorted_list_of_set (A :: int set)) = mset_set A"
  by (metis mset_set_set mset_sorted_list_of_multiset sorted_list_of_mset_set sorted_list_of_set.sorted_key_list_of_set_empty) 

text \<open>One confirmed chunk settles its ids.\<close>

lemma after_confirm_settles:
  assumes out': "after_confirm by_id confirmed out = Inr out'" and self: "ids_of_themselves by_id"
    and parts: "co_not_found confirmed = {i \<in> set chunk. verdict b i = Gone}"
      "co_access_denied confirmed = {i \<in> set chunk. verdict b i = Denied}"
      "co_present confirmed = {i \<in> set chunk. verdict b i = There}"
      "fst ` set (co_unresolved confirmed) = {i \<in> set chunk. verdict b i = Unknown}"
    and "distinct chunk"
  shows "mset (settled_ids out') = mset (settled_ids out) + mset chunk"
    and "\<forall>d \<in> set (rf_deleted out'). d \<in> set (rf_deleted out) \<or> (di_id d \<in> set chunk \<and> verdict b (di_id d) = Gone)"
proof -
  from out' obtain gone denied again where got: "ids_at by_id (sorted_list_of_set (co_not_found confirmed)) = Inr gone"
    "ids_at by_id (sorted_list_of_set (co_access_denied confirmed)) = Inr denied"
    "ids_at by_id (sorted_list_of_set (co_present confirmed \<union> set (map fst (co_unresolved confirmed)))) = Inr again"
    and o': "rf_present out' = rf_present out" "rf_deleted out' = rf_deleted out @ gone"
      "rf_unreadable out' = rf_unreadable out @ denied" "rf_retry out' = rf_retry out @ again"
    by (auto simp: after_confirm_def rbind_Inr_iff)
  note ids = ids_at_ids [OF got(1) self] ids_at_ids [OF got(2) self] ids_at_ids [OF got(3) self]
  define A B C where "A = {i \<in> set chunk. verdict b i = Gone}" and "B = {i \<in> set chunk. verdict b i = Denied}"
    and "C = {i \<in> set chunk. verdict b i = There} \<union> {i \<in> set chunk. verdict b i = Unknown}"
  have fin: "finite A" "finite B" "finite C" by (simp_all add: A_def B_def C_def)
  have all: "set chunk = A \<union> B \<union> C"
  proof -
    have "verdict b i = Gone \<or> verdict b i = Denied \<or> verdict b i = There \<or> verdict b i = Unknown" for i
      by (cases "verdict b i") simp_all
    then show ?thesis by (auto simp: A_def B_def C_def)
  qed
  have apart: "A \<inter> B = {}" "(A \<union> B) \<inter> C = {}" by (auto simp: A_def B_def C_def)
  have sets: "co_not_found confirmed = A" "co_access_denied confirmed = B"
    "co_present confirmed \<union> fst ` set (co_unresolved confirmed) = C"
    using parts by (simp_all add: A_def B_def C_def)
  have "mset chunk = mset_set (set chunk)"
    using assms(7) by (simp add: mset_set_set)
  also have "\<dots> = mset_set A + mset_set B + mset_set C"
    unfolding all using fin apart by (simp add: mset_set_Union)
  finally show "mset (settled_ids out') = mset (settled_ids out) + mset chunk"
    by (simp add: settled_ids_def o' ids sets mset_sorted_list)
  have "di_id d \<in> A" if "d \<in> set gone" for d
  proof -
    have "di_id d \<in> set (map di_id gone)" using that by simp
    then show ?thesis using fin(1) by (simp add: ids sets)
  qed
  then show "\<forall>d \<in> set (rf_deleted out'). d \<in> set (rf_deleted out) \<or> (di_id d \<in> set chunk \<and> verdict b (di_id d) = Gone)"
    by (auto simp: o' A_def)
qed

text \<open>
  What the portal answered for an id: the command \<open>crm.item.get\<close> was sent in a batch that came
  back with NOT_FOUND for it.
\<close>

definition answered_gone ::
  "'o fetch_outside_scheme \<Rightarrow> client \<Rightarrow> int \<Rightarrow> 'n itself \<Rightarrow> int \<Rightarrow> bool" where
  "answered_gone c cl entity t i \<longleftrightarrow>
     (\<exists>cmds (w :: 'n net_scheme) b w'. batch c cl cmds False w = (Inr b, w') \<and>
        get_command entity (get_key i) i \<in> set cmds \<and> verdict b i = Gone)"

lemma wanted_ids_perm:
  assumes "distinct ids" and "\<forall>i \<in> set ids. 0 < i"
  shows "mset (wanted_ids ids) = mset ids" "set (wanted_ids ids) = set ids"
proof -
  show set: "set (wanted_ids ids) = set ids"
    using assms(2) by (auto simp: wanted_ids_mem)
  show "mset (wanted_ids ids) = mset ids"
    using set assms(1) wanted_ids_distinct [of ids] by (metis mset_set_set)
qed

lemma confirm_chunks_settle:
  fixes w :: "'n net_scheme"
  assumes "confirm_chunks c pace_ok cl entity by_id max_batches chunks out w = (Inr out', w')"
    and self: "ids_of_themselves by_id"
    and "\<forall>chunk \<in> set chunks. chunk \<noteq> [] \<and> distinct chunk \<and> (\<forall>i \<in> set chunk. 0 < i)"
  shows "mset (settled_ids out') = mset (settled_ids out) + mset (concat chunks) \<and>
    (\<forall>d \<in> set (rf_deleted out'). d \<in> set (rf_deleted out) \<or> answered_gone c cl entity TYPE('n) (di_id d))"
  using assms(1,3)
proof (induction chunks arbitrary: out w)
  case Nil
  then show ?case by (simp add: ret_def)
next
  case (Cons chunk rest)
  define go where "go = (\<not> max_batches \<le> rf_batches out \<and> pace_ok (length (requests w)) (rf_time out))"
  show ?case
  proof (cases go)
    case False
    with Cons.prems(1) obtain again where "ids_at by_id (concat (chunk # rest)) = Inr again"
      "out' = out\<lparr>rf_retry := rf_retry out @ again\<rparr>"
      by (auto simp: go_def prog_defs lift_py_def rbind_Inr_iff split: if_splits sum.splits)
    with ids_at_ids [OF this(1) self] show ?thesis
      by (simp add: settled_ids_def)
  next
    case True
    have chunk: "chunk \<noteq> []" "distinct chunk" "\<forall>i \<in> set chunk. 0 < i"
      using Cons.prems(2) by auto
    obtain confirmed out1 w1 where conf: "confirm_absent c cl entity chunk w = (Inr confirmed, w1)"
      and aft: "after_confirm by_id confirmed out = Inr out1"
      and rest: "confirm_chunks c pace_ok cl entity by_id max_batches rest out1 w1 = (Inr out', w')"
      using Cons.prems(1) True by (auto simp: go_def prog_defs lift_py_def split: if_splits sum.splits prod.splits)
    note perm = wanted_ids_perm [OF chunk(2,3)]
    have "wanted_ids chunk \<noteq> []"
      using perm(2) chunk(1) by auto
    from confirm_absent_verdicts [OF conf this] obtain b where b:
      "batch c cl (map (\<lambda>i. get_command entity (get_key i) i) (wanted_ids chunk)) False w = (Inr b, w1)"
      and parts: "co_not_found confirmed = {i \<in> set chunk. verdict b i = Gone}"
      "co_access_denied confirmed = {i \<in> set chunk. verdict b i = Denied}"
      "co_present confirmed = {i \<in> set chunk. verdict b i = There}"
      "fst ` set (co_unresolved confirmed) = {i \<in> set chunk. verdict b i = Unknown}"
      unfolding perm(2) by blast
    note one = after_confirm_settles [OF aft self parts chunk(2)]
    have gone: "answered_gone c cl entity TYPE('n) i" if "i \<in> set chunk" "verdict b i = Gone" for i
      unfolding answered_gone_def
      using b that perm(2) by (intro exI [of _ "map (\<lambda>i. get_command entity (get_key i) i) (wanted_ids chunk)"]
          exI [of _ w] exI [of _ b] exI [of _ w1]) auto
    from Cons.IH [OF rest] Cons.prems(2) one gone show ?thesis
      by auto
  qed
qed

lemma after_fetch_settles:
  assumes sorted: "ids_sorted (fst ` set by_id) got" and none: "\<forall>x \<in> set (io_rejected got). fst x = None"
    and self: "ids_of_themselves by_id" and aft: "after_fetch by_id now got = (out, missing)"
  shows "mset (settled_ids out) + mset missing = mset_set (fst ` set by_id)" and "rf_deleted out = []"
    and "distinct missing" and "set missing \<subseteq> fst ` set by_id"
proof -
  define R where "R = ir_id ` set (io_rows got)"
  have sets: "R \<union> io_missing got \<union> io_unresolved got = fst ` set by_id" "R \<inter> io_missing got = {}"
    "io_unresolved got \<inter> (R \<union> io_missing got) = {}"
    using sorted by (simp_all add: ids_sorted_def R_def)
  have fin: "finite R" "finite (io_missing got)" "finite (io_unresolved got)"
    using sets(1) by (metis List.finite_set finite_Un finite_imageI)+
  have none': "List.map_filter fst (io_rejected got) = []"
    using none by (simp add: map_filter_Nil)
  have gone: "io_missing got - R = io_missing got"
    using sets(2) by blast
  have known: "map di_id (known_ids by_id R) = sorted_list_of_set R"
    using known_ids_ids [OF self fin(1)] sets(1) by blast
  have known': "map di_id (known_ids by_id (io_unresolved got)) = sorted_list_of_set (io_unresolved got)"
    using known_ids_ids [OF self fin(3)] sets(1) by blast
  have out: "map di_id (rf_present out) = sorted_list_of_set R" "rf_deleted out = []" "rf_unreadable out = []"
    "map di_id (rf_retry out) = sorted_list_of_set (io_unresolved got)" "missing = sorted_list_of_set (io_missing got)"
    using aft none' gone known known'
    by (auto simp: after_fetch_def Let_def no_refresh_def R_def)
  have "mset_set (fst ` set by_id) = mset_set R + mset_set (io_missing got) + mset_set (io_unresolved got)"
    using sets fin by (metis Int_commute finite_UnI mset_set_Union)
  then show "mset (settled_ids out) + mset missing = mset_set (fst ` set by_id)"
    by (simp add: settled_ids_def out mset_sorted_list)
  show "rf_deleted out = []" by (rule out(2))
  show "distinct missing" by (simp add: out)
  show "set missing \<subseteq> fst ` set by_id"
    using sets(1) fin(2) by (auto simp: out)
qed

lemma refresh_settles_lemma:
  fixes w :: "'n net_scheme"
  assumes run: "refresh c pace_ok cl d items n max_batches now w = (Inr out, w')" and "0 < max_batches"
    and pos: "\<forall>x \<in> set items. 0 < di_id x"
  shows "mset (settled_ids out) = mset_set (di_id ` set (take max_ids_per_pass items)) \<and>
    (\<forall>x \<in> set (rf_deleted out). answered_gone c cl (md_entity_type_id d) TYPE('n) (di_id x))"
proof (cases "dirty_by_id items = []")
  case True
  with run have "out = no_refresh now"
    by (auto simp: refresh_def ret_def)
  with True dirty_by_id_keys [of items] show ?thesis
    by (auto simp: no_refresh_def settled_ids_def)
next
  case False
  define by_id where "by_id = dirty_by_id items"
  have keys: "fst ` set by_id = di_id ` set (take max_ids_per_pass items)"
    by (simp add: by_id_def dirty_by_id_keys)
  have keys_pos: "\<forall>i \<in> fst ` set by_id. 0 < i"
    unfolding keys using pos by (auto dest: in_set_takeD)
  obtain got w1 where fetch: "fetch_by_ids c cl d (map fst by_id) n w = (Inr got, w1)"
    and rest: "(case after_fetch by_id now got of (o1, missing) \<Rightarrow>
      confirm_chunks c pace_ok cl (md_entity_type_id d) by_id max_batches (id_chunks missing) o1) w1 = (Inr out, w')"
    using run False assms(2) by (auto simp: refresh_def by_id_def prog_defs Let_def split: sum.splits prod.splits)
  obtain o1 missing where aft: "after_fetch by_id now got = (o1, missing)" by fastforce
  have "set (wanted_ids (map fst by_id)) = fst ` set by_id"
    using keys_pos by (force simp: wanted_ids_mem)
  with fetch_by_ids_sorted [OF fetch] have
    "ids_sorted (fst ` set by_id) got" "\<forall>x \<in> set (io_rejected got). fst x = None" by simp_all
  note first = after_fetch_settles [OF this _ aft, unfolded by_id_def, OF dirty_by_id_self, folded by_id_def]
  have chunks: "\<forall>chunk \<in> set (id_chunks missing). chunk \<noteq> [] \<and> distinct chunk \<and> (\<forall>i \<in> set chunk. 0 < i)"
  proof
    fix chunk
    assume mem: "chunk \<in> set (id_chunks missing)"
    have "set chunk \<subseteq> set missing"
      using mem id_chunks_concat [of missing] by (metis UN_upper set_concat)
    moreover have "distinct chunk"
      using mem first(3) id_chunks_concat [of missing] by (metis distinct_concat_iff)
    ultimately show "chunk \<noteq> [] \<and> distinct chunk \<and> (\<forall>i \<in> set chunk. 0 < i)"
      using first(4) keys_pos id_chunks_short [OF mem] by blast
  qed
  have "confirm_chunks c pace_ok cl (md_entity_type_id d) by_id max_batches (id_chunks missing) o1 w1 = (Inr out, w')"
    using rest by (simp add: aft)
  from confirm_chunks_settle [OF this _ chunks] dirty_by_id_self [of items] have
    "mset (settled_ids out) = mset (settled_ids o1) + mset missing"
    "\<forall>x \<in> set (rf_deleted out). x \<in> set (rf_deleted o1) \<or> answered_gone c cl (md_entity_type_id d) TYPE('n) (di_id x)"
    by (simp_all add: by_id_def id_chunks_concat)
  with first(1,2) show ?thesis by (simp add: keys)
qed

section \<open>The guards of a deletion\<close>

lemma bury_again: "bury now read_at (Some (bury now read_at old)) = bury now read_at old"
  by (auto simp: bury_def overwrites_def split: option.splits)

lemma tombstone_lookup:
  "map_of (snd (tombstone now pid entity ids read_at t)) k =
     (if \<exists>i \<in> set ids. 0 < i \<and> k = (pid, entity, i) then Some (bury now read_at (map_of t k)) else map_of t k)"
proof -
  have "map_of (snd (fold (bury_one now pid entity read_at) is st)) k =
     (if \<exists>i \<in> set is. k = (pid, entity, i) then Some (bury now read_at (map_of (snd st) k)) else map_of (snd st) k)"
    for "is" st
    by (induction "is" arbitrary: st) (auto simp: bury_one_lookup bury_again)
  then show ?thesis
    by (auto simp: tombstone_def sorted_ids_def)
qed

definition gone_in :: "item_table \<Rightarrow> int \<times> int \<times> int \<Rightarrow> bool" where
  "gone_in t k = (case map_of t k of None \<Rightarrow> False | Some r \<Rightarrow> si_deleted_at r \<noteq> None)"

lemma unreadable_keeps_gone: "gone_in (cs_items (store_unreadable pid entity out now s)) k = gone_in (cs_items s) k"
  by (cases "map_of (cs_items s) k")
     (simp_all add: gone_in_def store_unreadable_def mark_unreadable_lookup stamp_unreadable_def)

lemma store_deletes_gone:
  assumes "store_deletes pid entity out allow now s = (held, s1)"
  shows "held \<longleftrightarrow> rf_deleted out \<noteq> [] \<and> \<not> (allow \<and>
      int (length (rf_deleted out)) \<le> delete_ceiling (live_count pid entity (cs_items s)))"
    and "gone_in (cs_items s1) k \<Longrightarrow> \<not> gone_in (cs_items s) k \<Longrightarrow>
      \<not> held \<and> allow \<and> int (length (rf_deleted out)) \<le> delete_ceiling (live_count pid entity (cs_items s)) \<and>
      (\<exists>d \<in> set (rf_deleted out). k = (pid, entity, di_id d))"
  using assms
  by (auto simp: store_deletes_def Let_def tombstone_lookup gone_in_def split: if_splits)

lemma store_refresh_gone:
  assumes "store_refresh_body f entity out allow now lanes s = Inr (held, s')"
  shows "held \<longleftrightarrow> rf_deleted out \<noteq> [] \<and> \<not> (allow \<and>
      int (length (rf_deleted out)) \<le> delete_ceiling (live_count (portal_id f) entity (cs_items s)))"
    and "gone_in (cs_items s') k \<Longrightarrow> \<not> gone_in (cs_items s) k \<Longrightarrow>
      \<not> held \<and> allow \<and> int (length (rf_deleted out)) \<le> delete_ceiling (live_count (portal_id f) entity (cs_items s)) \<and>
      (\<exists>d \<in> set (rf_deleted out). k = (portal_id f, entity, di_id d))"
proof -
  obtain s1 where "store_deletes (portal_id f) entity out allow now s = (held, s1)"
    "cs_items s' = cs_items (store_unreadable (portal_id f) entity out now s1)"
    using assms by (rule store_refresh_Inr) blast
  with store_deletes_gone [OF this(1)] unreadable_keeps_gone [of "portal_id f" entity out now s1 k]
  show "held \<longleftrightarrow> rf_deleted out \<noteq> [] \<and> \<not> (allow \<and>
      int (length (rf_deleted out)) \<le> delete_ceiling (live_count (portal_id f) entity (cs_items s)))"
    and "gone_in (cs_items s') k \<Longrightarrow> \<not> gone_in (cs_items s) k \<Longrightarrow>
      \<not> held \<and> allow \<and> int (length (rf_deleted out)) \<le> delete_ceiling (live_count (portal_id f) entity (cs_items s)) \<and>
      (\<exists>d \<in> set (rf_deleted out). k = (portal_id f, entity, di_id d))"
    by simp_all
qed

end
