(* ===== verification/Crm_Reconcile.thy ===== *)
theory Crm_Reconcile
  imports Crm_Refresh
begin

text \<open>
  \<open>sync/crm_reconcile.py\<close>: the daily comparison of the mirror with the portal. Ids are counted in
  ranges on both sides, ranges that disagree are split until they are small enough to list, and
  what one side lacks is marked for a re-read; nothing is deleted here.
\<close>

section \<open>The cursor\<close>

definition leaf_size :: int where "leaf_size = 2000"

record reconcile_cursor =
  rc_dialect :: string
  rc_started :: bool
  rc_queue :: "(int \<times> int) list"
  rc_leaves :: "(int \<times> int \<times> int) list"
  rc_marked :: int

definition fresh_reconcile :: "string \<Rightarrow> reconcile_cursor" where
  "fresh_reconcile name =
     \<lparr>rc_dialect = name, rc_started = False, rc_queue = [], rc_leaves = [], rc_marked = 0\<rparr>"

definition reconcile_finished :: "reconcile_cursor \<Rightarrow> bool" where
  "reconcile_finished c \<longleftrightarrow> rc_started c \<and> rc_queue c = [] \<and> rc_leaves c = []"

definition reconcile_to_json :: "reconcile_cursor \<Rightarrow> (string, json) dict" where
  "reconcile_to_json c =
     [(''dialect'', JStr (rc_dialect c)), (''started'', JBool (rc_started c)),
      (''queue'', JList (map (\<lambda>(lo, hi). JList [JInt lo, JInt hi]) (rc_queue c))),
      (''leaves'', JList (map (\<lambda>(lo, hi, after). JList [JInt lo, JInt hi, JInt after]) (rc_leaves c))),
      (''marked'', JInt (rc_marked c))]"

definition pair_of_json :: "json \<Rightarrow> (py_error, int \<times> int) result" where
  "pair_of_json v =
     rbind (py_iter v) (\<lambda>parts.
       case parts of
         [a, b] \<Rightarrow> rbind (py_int a) (\<lambda>lo. rbind (py_int b) (\<lambda>hi. Inr (lo, hi)))
       | _ \<Rightarrow> Inl ValueError)"

definition leaf_of_json :: "json \<Rightarrow> (py_error, int \<times> int \<times> int) result" where
  "leaf_of_json v =
     rbind (py_iter v) (\<lambda>parts.
       case parts of
         [a, b, c] \<Rightarrow> rbind (py_int a) (\<lambda>lo. rbind (py_int b) (\<lambda>hi. rbind (py_int c) (\<lambda>after.
                        Inr (lo, hi, after))))
       | _ \<Rightarrow> Inl ValueError)"

definition reconcile_from_json :: "(string, json) dict \<Rightarrow> (py_error, reconcile_cursor) result" where
  "reconcile_from_json raw =
     (let name = stored_dialect raw
      in if \<not> truthy (get_field raw ''started'') then Inr (fresh_reconcile name)
         else
           (case rbind (py_iter_or_empty (get_field raw ''queue'')) (\<lambda>qs.
                 rbind (rmap pair_of_json qs) (\<lambda>queue.
                 rbind (py_iter_or_empty (get_field raw ''leaves'')) (\<lambda>ls.
                 rbind (rmap leaf_of_json ls) (\<lambda>leaves.
                 rbind (if truthy (get_field raw ''marked'') then py_int (get_field raw ''marked'') else Inr 0) (\<lambda>marked.
                   Inr (queue, leaves, marked)))))) of
              Inl e \<Rightarrow> if e \<in> {TypeError, ValueError} then Inr (fresh_reconcile name) else Inl e
            | Inr (queue, leaves, marked) \<Rightarrow>
                if list_ex (\<lambda>(lo, hi). hi \<le> lo) queue \<or>
                   list_ex (\<lambda>(lo, hi, after). \<not> (lo - 1 \<le> after \<and> after < hi)) leaves
                then Inr (fresh_reconcile name)
                else Inr \<lparr>rc_dialect = name, rc_started = True, rc_queue = queue, rc_leaves = leaves,
                          rc_marked = marked\<rparr>))"

section \<open>Steps\<close>

definition start_reconcile :: "reconcile_cursor \<Rightarrow> int \<Rightarrow> int \<Rightarrow> (py_error, reconcile_cursor) result" where
  "start_reconcile c newest ranges =
     (let width = max leaf_size (ceil_div (max newest 1) (max 1 ranges))
      in rbind (plan_ranges newest width 1) (\<lambda>streams.
           Inr (c\<lparr>rc_started := True, rc_queue := map (\<lambda>s. (rs_lo s, rs_hi s)) streams,
                  rc_leaves := [], rc_marked := 0\<rparr>)))"

fun split_ranges ::
  "((int \<times> int) \<times> int \<times> int) list \<Rightarrow> (int \<times> int) list \<times> (int \<times> int \<times> int) list \<Rightarrow>
   (int \<times> int) list \<times> (int \<times> int \<times> int) list" where
  "split_ranges [] st = st"
| "split_ranges (((lo, hi), mine, theirs) # rest) (queue, leaves) =
     (if mine = theirs then split_ranges rest (queue, leaves)
      else if hi - lo \<le> leaf_size then split_ranges rest (queue, leaves @ [(lo, hi, lo - 1)])
      else (let middle = (lo + hi) div 2
            in split_ranges rest (queue @ [(lo, middle), (middle, hi)], leaves)))"

text \<open>\<open>zip(..., strict=True)\<close> raises when the lengths differ.\<close>

definition after_counts ::
  "reconcile_cursor \<Rightarrow> (int \<times> int) list \<Rightarrow> int list \<Rightarrow> int list \<Rightarrow> (py_error, reconcile_cursor) result" where
  "after_counts c compared mine theirs =
     (if length mine \<noteq> length compared \<or> length theirs \<noteq> length compared then Inl ValueError
      else (let (queue, leaves) = split_ranges (zip compared (zip mine theirs))
                                    (drop (length compared) (rc_queue c), rc_leaves c)
            in Inr (c\<lparr>rc_queue := queue, rc_leaves := leaves\<rparr>)))"

definition count_key :: "nat \<Rightarrow> string" where
  "count_key index = ''c'' @ show_nat index"

fun counts_from ::
  "mirror_dialect \<Rightarrow> nat \<Rightarrow> (int \<times> int) list \<Rightarrow> (py_error, command list) result" where
  "counts_from d index [] = Inr []"
| "counts_from d index ((lo, hi) # rest) =
     rbind (range_count_command d (count_key index) lo hi) (\<lambda>cmd.
     rbind (counts_from d (Suc index) rest) (\<lambda>cmds. Inr (cmd # cmds)))"

definition count_commands :: "mirror_dialect \<Rightarrow> (int \<times> int) list \<Rightarrow> (py_error, command list) result" where
  "count_commands d ranges = counts_from d 0 ranges"

definition count_answer :: "batch_result \<Rightarrow> string \<Rightarrow> bitrix_error + int" where
  "count_answer b key =
     (case command_by_key b key of
        None \<Rightarrow> Inl (classify None None (''batch answered no '' @ key) [])
      | Some c \<Rightarrow>
          (case cmd_error c of
             Some e \<Rightarrow> Inl e
           | None \<Rightarrow> (case cmd_total c of
                        None \<Rightarrow> Inl (classify None None (key @ '': no total'') [])
                      | Some n \<Rightarrow> Inr n)))"

definition sum_left :: "'a + 'b \<Rightarrow> 'a option" where
  "sum_left x = (case x of Inl a \<Rightarrow> Some a | Inr _ \<Rightarrow> None)"

definition sum_right :: "'a + 'b \<Rightarrow> 'b option" where
  "sum_right x = (case x of Inl _ \<Rightarrow> None | Inr b \<Rightarrow> Some b)"

definition read_counts :: "batch_result \<Rightarrow> command list \<Rightarrow> int list option \<times> bitrix_error list" where
  "read_counts b cmds =
     (let answers = map (\<lambda>(key, _, _). count_answer b key) cmds;
          errs = List.map_filter sum_left answers
      in if errs \<noteq> [] then (None, errs) else (Some (List.map_filter sum_right answers), []))"

section \<open>The mirror's side\<close>

definition readable_live :: "int \<Rightarrow> int \<Rightarrow> (int \<times> int \<times> int) \<times> stored_item \<Rightarrow> bool" where
  "readable_live pid entity = (\<lambda>((p, e, i), r).
     p = pid \<and> e = entity \<and> si_deleted_at r = None \<and> si_unreadable_since r = None)"

definition local_high_id :: "int \<Rightarrow> int \<Rightarrow> item_table \<Rightarrow> int" where
  "local_high_id pid entity t =
     (case max_opt (map (\<lambda>((p, e, i), r). i)
        (filter (\<lambda>((p, e, i), r). p = pid \<and> e = entity \<and> si_deleted_at r = None) t)) of
        None \<Rightarrow> 0 | Some i \<Rightarrow> i)"

definition local_counts :: "int \<Rightarrow> int \<Rightarrow> (int \<times> int) list \<Rightarrow> item_table \<Rightarrow> int list" where
  "local_counts pid entity ranges t =
     map (\<lambda>(lo, hi). int (length (filter (\<lambda>((p, e, i), r).
            readable_live pid entity ((p, e, i), r) \<and> lo \<le> i \<and> i < hi) t))) ranges"

definition local_ids :: "int \<Rightarrow> int \<Rightarrow> int \<Rightarrow> int \<Rightarrow> item_table \<Rightarrow> int set" where
  "local_ids pid entity after_id newest t =
     (if newest \<le> after_id then {}
      else (\<lambda>((p, e, i), r). i) ` set (filter (\<lambda>((p, e, i), r).
             readable_live pid entity ((p, e, i), r) \<and> after_id < i \<and> i \<le> newest) t))"

definition mark_set :: "int \<Rightarrow> int \<Rightarrow> int set \<Rightarrow> int \<Rightarrow> rat \<Rightarrow> dirty_table \<Rightarrow> dirty_table" where
  "mark_set pid entity ids reason now t =
     (if ids = {} then t else snd (mark_dirty pid entity (sorted_list_of_set ids) reason now t))"

definition store_marks_body ::
  "fence \<Rightarrow> int \<Rightarrow> int set \<Rightarrow> int set \<Rightarrow> rat \<Rightarrow> lane list \<Rightarrow> crm_store \<Rightarrow> (exn, unit \<times> crm_store) result" where
  "store_marks_body f entity local_only remote_only now lanes s =
     (let pid = portal_id f;
          dirty = mark_set pid entity remote_only reason_reconcile_remote now
                    (mark_set pid entity local_only reason_reconcile_local now (cs_dirty s))
      in rbind (store_lanes pid lanes (cs_lanes s)) (\<lambda>ls.
         rbind (fenced_update f (\<lambda>_ r. r) (cs_base s)) (\<lambda>base.
         Inr ((), s\<lparr>cs_base := base, cs_dirty := dirty, cs_lanes := ls\<rparr>))))"

definition store_marks ::
  "fence \<Rightarrow> int \<Rightarrow> int set \<Rightarrow> int set \<Rightarrow> rat \<Rightarrow> lane list \<Rightarrow> crm_store \<Rightarrow> (exn, unit) result \<times> crm_store" where
  "store_marks f entity local_only remote_only now lanes s =
     crm_txn (store_marks_body f entity local_only remote_only now lanes) s"

section \<open>The contract of the write\<close>

lemma mark_dirty_other: "p \<noteq> pid \<Longrightarrow> map_of (snd (mark_dirty pid entity ids reason now t)) (p, e, i) = map_of t (p, e, i)"
  by (simp add: mark_dirty_lookup)

lemma mark_set_other: "p \<noteq> pid \<Longrightarrow> map_of (mark_set pid entity ids reason now t) (p, e, i) = map_of t (p, e, i)"
  by (simp add: mark_set_def mark_dirty_other)

interpretation mark_items: crm_write f "store_marks_body f entity local_only remote_only now lanes"
proof
  fix s s' and a :: unit
  assume run: "store_marks_body f entity local_only remote_only now lanes s = Inr (a, s')"
  then obtain ls base where ls: "store_lanes (portal_id f) lanes (cs_lanes s) = Inr ls"
    and base: "fenced_update f (\<lambda>_ r. r) (cs_base s) = Inr base"
    and s': "cs_base s' = base" "cs_lanes s' = ls" "cs_items s' = cs_items s"
      "cs_dirty s' = mark_set (portal_id f) entity remote_only reason_reconcile_remote now
         (mark_set (portal_id f) entity local_only reason_reconcile_local now (cs_dirty s))"
    by (auto simp: store_marks_body_def Let_def rbind_Inr_iff)
  note check = fence_check [OF base]
  show "fence_holds f (cs_base s)" by (rule check(1))
  show "sync (cs_base s') = sync (cs_base s) \<and> db_now (cs_base s') = db_now (cs_base s)"
    using check by (simp add: s')
  show "items_ok (cs_items s) \<Longrightarrow> items_ok (cs_items s')" by (simp add: s')
  show "map_of (cs_items s) k = Some r \<Longrightarrow> proven_gone r \<Longrightarrow> map_of (cs_items s') k = Some r" for k r
    by (simp add: s')
  show "p \<noteq> portal_id f \<Longrightarrow> map_of (cs_items s') (p, e, i) = map_of (cs_items s) (p, e, i) \<and>
      map_of (cs_dirty s') (p, e, i) = map_of (cs_dirty s) (p, e, i) \<and>
      map_of (cs_lanes s') (p, name) = map_of (cs_lanes s) (p, name)" for p e i name
    using store_lanes_other [OF ls] by (simp add: s' mark_set_other)
qed

section \<open>Counting ends, and finds what differs\<close>

definition count_in :: "int set \<Rightarrow> int \<times> int \<Rightarrow> int" where
  "count_in S = (\<lambda>(lo, hi). int (card (S \<inter> {lo..<hi})))"

text \<open>A round on unchanging sides: the first \<open>n\<close> ranges are counted on both.\<close>

definition compare_round :: "nat \<Rightarrow> int set \<Rightarrow> int set \<Rightarrow> reconcile_cursor \<Rightarrow> (py_error, reconcile_cursor) result" where
  "compare_round n L R c =
     after_counts c (take n (rc_queue c)) (map (count_in L) (take n (rc_queue c))) (map (count_in R) (take n (rc_queue c)))"

fun compare_rounds :: "nat \<Rightarrow> nat \<Rightarrow> int set \<Rightarrow> int set \<Rightarrow> reconcile_cursor \<Rightarrow> (py_error, reconcile_cursor) result" where
  "compare_rounds 0 n L R c = Inr c"
| "compare_rounds (Suc k) n L R c = rbind (compare_round n L R c) (compare_rounds k n L R)"

definition range_left :: "int \<times> int \<Rightarrow> nat" where
  "range_left = (\<lambda>(lo, hi). nat (2 * (hi - lo) - 1))"

definition in_ranges :: "(int \<times> int) list \<Rightarrow> int \<Rightarrow> bool" where
  "in_ranges queue i \<longleftrightarrow> (\<exists>(lo, hi) \<in> set queue. lo \<le> i \<and> i < hi)"

definition in_leaves :: "(int \<times> int \<times> int) list \<Rightarrow> int \<Rightarrow> bool" where
  "in_leaves leaves i \<longleftrightarrow> (\<exists>(lo, hi, after) \<in> set leaves. lo \<le> i \<and> i < hi)"

lemma range_left_split:
  assumes "leaf_size < hi - lo" and "middle = (lo + hi) div 2"
  shows "lo < middle \<and> middle < hi \<and> range_left (lo, middle) + range_left (middle, hi) < range_left (lo, hi)"
proof -
  have "2 * middle \<le> lo + hi" "lo + hi \<le> 2 * middle + 1"
    using assms(2) by linarith+
  then have mid: "lo < middle" "middle < hi"
    using assms(1) by (simp_all add: leaf_size_def)
  then show ?thesis
    using assms(1) by (simp add: range_left_def leaf_size_def)
qed

text \<open>What a split keeps: well-formed ranges, small leaves, and less left to do.\<close>

lemma split_ranges_left:
  assumes "split_ranges xs (queue, leaves) = (queue', leaves')"
    and "\<forall>((lo, hi), _) \<in> set xs. lo < hi"
  shows "sum_list (map range_left queue') + length xs \<le>
      sum_list (map range_left queue) + sum_list (map (range_left \<circ> fst) xs)"
    and "(\<forall>(lo, hi) \<in> set queue. lo < hi) \<Longrightarrow> (\<forall>(lo, hi) \<in> set queue'. lo < hi)"
    and "(\<forall>(lo, hi, after) \<in> set leaves. lo < hi \<and> hi - lo \<le> leaf_size \<and> after = lo - 1) \<Longrightarrow>
      (\<forall>(lo, hi, after) \<in> set leaves'. lo < hi \<and> hi - lo \<le> leaf_size \<and> after = lo - 1)"
proof -
  have "sum_list (map range_left queue') + length xs \<le>
      sum_list (map range_left queue) + sum_list (map (range_left \<circ> fst) xs) \<and>
    ((\<forall>(lo, hi) \<in> set queue. lo < hi) \<longrightarrow> (\<forall>(lo, hi) \<in> set queue'. lo < hi)) \<and>
    ((\<forall>(lo, hi, after) \<in> set leaves. lo < hi \<and> hi - lo \<le> leaf_size \<and> after = lo - 1) \<longrightarrow>
      (\<forall>(lo, hi, after) \<in> set leaves'. lo < hi \<and> hi - lo \<le> leaf_size \<and> after = lo - 1))"
    using assms
  proof (induction xs arbitrary: queue leaves)
    case (Cons x xs)
    obtain lo hi mine theirs where x: "x = ((lo, hi), mine, theirs)" by (metis prod.exhaust)
    have pos: "lo < hi" "0 < range_left (lo, hi)" and rest: "\<forall>((lo, hi), _) \<in> set xs. lo < hi"
      using Cons.prems(2) by (auto simp: x range_left_def)
    show ?case
    proof (cases "mine = theirs")
      case True
      with Cons.IH [OF _ rest, of queue leaves] Cons.prems(1) pos show ?thesis
        by (auto simp: x)
    next
      case differ: False
      show ?thesis
      proof (cases "hi - lo \<le> leaf_size")
        case True
        with Cons.IH [OF _ rest, of queue "leaves @ [(lo, hi, lo - 1)]"] Cons.prems(1) pos differ show ?thesis
          by (auto simp: x)
      next
        case False
        define middle where "middle = (lo + hi) div 2"
        have "lo < middle" "middle < hi" "range_left (lo, middle) + range_left (middle, hi) < range_left (lo, hi)"
          using range_left_split [of hi lo middle] False by (simp_all add: middle_def)
        with Cons.IH [OF _ rest, of "queue @ [(lo, middle), (middle, hi)]" leaves] Cons.prems(1) differ False
        show ?thesis
          by (auto simp: x Let_def middle_def)
      qed
    qed
  qed simp
  then show "sum_list (map range_left queue') + length xs \<le>
      sum_list (map range_left queue) + sum_list (map (range_left \<circ> fst) xs)"
    and "(\<forall>(lo, hi) \<in> set queue. lo < hi) \<Longrightarrow> (\<forall>(lo, hi) \<in> set queue'. lo < hi)"
    and "(\<forall>(lo, hi, after) \<in> set leaves. lo < hi \<and> hi - lo \<le> leaf_size \<and> after = lo - 1) \<Longrightarrow>
      (\<forall>(lo, hi, after) \<in> set leaves'. lo < hi \<and> hi - lo \<le> leaf_size \<and> after = lo - 1)"
    by blast+
qed

text \<open>An id the two sides disagree on stays in what is still to do, when one side has all of the other's.\<close>

lemma balanced:
  assumes "R \<subseteq> L" and "finite L" and "count_in L (lo, hi) = count_in R (lo, hi)" and "lo \<le> i" and "i < hi" and "i \<in> L"
  shows "i \<in> R"
proof -
  have "card (R \<inter> {lo..<hi}) = card (L \<inter> {lo..<hi})"
    using assms(3) by (simp add: count_in_def)
  moreover have "R \<inter> {lo..<hi} \<subseteq> L \<inter> {lo..<hi}" and "finite (L \<inter> {lo..<hi})"
    using assms(1,2) by blast+
  ultimately have "R \<inter> {lo..<hi} = L \<inter> {lo..<hi}"
    by (metis card_subset_eq)
  moreover have "i \<in> L \<inter> {lo..<hi}"
    using assms(4-6) by simp
  ultimately show ?thesis by blast
qed

lemma split_ranges_keeps:
  assumes "split_ranges xs (queue, leaves) = (queue', leaves')" and "R \<subseteq> L" and "finite L"
    and "\<forall>(r, mine, theirs) \<in> set xs. mine = count_in L r \<and> theirs = count_in R r"
    and "i \<in> L" and "i \<notin> R" and "in_ranges (map fst xs) i \<or> in_ranges queue i \<or> in_leaves leaves i"
  shows "in_ranges queue' i \<or> in_leaves leaves' i"
  using assms(1,4,7)
proof (induction xs arbitrary: queue leaves)
  case Nil
  then show ?case by (simp add: in_ranges_def)
next
  case (Cons x xs)
  obtain lo hi mine theirs where x: "x = ((lo, hi), mine, theirs)" by (metis prod.exhaust)
  have counts: "mine = count_in L (lo, hi)" "theirs = count_in R (lo, hi)"
    and rest: "\<forall>(r, mine, theirs) \<in> set xs. mine = count_in L r \<and> theirs = count_in R r"
    using Cons.prems(2) by (auto simp: x)
  have this_one: "in_ranges (map fst (x # xs)) i \<longleftrightarrow> (lo \<le> i \<and> i < hi) \<or> in_ranges (map fst xs) i"
    by (auto simp: in_ranges_def x)
  show ?case
  proof (cases "mine = theirs")
    case True
    then have "\<not> (lo \<le> i \<and> i < hi)"
      using balanced [OF assms(2,3), of lo hi i] counts assms(5,6) by auto
    with Cons.IH [OF _ rest, of queue leaves] Cons.prems(1,3) True this_one show ?thesis
      by (simp add: x)
  next
    case differ: False
    show ?thesis
    proof (cases "hi - lo \<le> leaf_size")
      case True
      have "in_leaves (leaves @ [(lo, hi, lo - 1)]) i \<longleftrightarrow> in_leaves leaves i \<or> (lo \<le> i \<and> i < hi)"
        by (auto simp: in_leaves_def)
      with Cons.IH [OF _ rest, of queue "leaves @ [(lo, hi, lo - 1)]"] Cons.prems(1,3) True differ this_one
      show ?thesis by (auto simp: x)
    next
      case False
      define middle where "middle = (lo + hi) div 2"
      have "in_ranges (queue @ [(lo, middle), (middle, hi)]) i \<longleftrightarrow> in_ranges queue i \<or> (lo \<le> i \<and> i < hi)"
        using range_left_split [of hi lo middle] False by (auto simp: in_ranges_def middle_def)
      with Cons.IH [OF _ rest, of "queue @ [(lo, middle), (middle, hi)]" leaves] Cons.prems(1,3) False differ this_one
      show ?thesis by (auto simp: x Let_def middle_def)
    qed
  qed
qed

definition reconcile_inv :: "int set \<Rightarrow> int set \<Rightarrow> int \<Rightarrow> reconcile_cursor \<Rightarrow> bool" where
  "reconcile_inv L R newest c \<longleftrightarrow>
     (\<forall>(lo, hi) \<in> set (rc_queue c). lo < hi) \<and>
     (\<forall>(lo, hi, after) \<in> set (rc_leaves c). lo < hi \<and> hi - lo \<le> leaf_size \<and> after = lo - 1) \<and>
     (\<forall>i \<in> L - R. 1 \<le> i \<and> i \<le> newest \<longrightarrow> in_ranges (rc_queue c) i \<or> in_leaves (rc_leaves c) i)"

definition queue_left :: "reconcile_cursor \<Rightarrow> nat" where
  "queue_left c = sum_list (map range_left (rc_queue c))"

lemma compare_round_step:
  assumes inv: "reconcile_inv L R newest c" and "R \<subseteq> L" and "finite L" and "0 < n"
  shows "\<exists>c'. compare_round n L R c = Inr c' \<and> reconcile_inv L R newest c' \<and>
    (rc_queue c = [] \<and> rc_queue c' = [] \<or> queue_left c' < queue_left c)"
proof -
  define now where "now = take n (rc_queue c)"
  define later where "later = drop (length now) (rc_queue c)"
  have queue: "rc_queue c = now @ later"
    by (cases "n \<le> length (rc_queue c)") (simp_all add: now_def later_def min_def)
  obtain queue' leaves' where split: "split_ranges (zip now (zip (map (count_in L) now) (map (count_in R) now))) (later, rc_leaves c) = (queue', leaves')"
    by fastforce
  define c' where "c' = c\<lparr>rc_queue := queue', rc_leaves := leaves'\<rparr>"
  have run: "compare_round n L R c = Inr c'"
    using split by (simp add: compare_round_def after_counts_def c'_def now_def later_def)
  define xs where "xs = zip now (zip (map (count_in L) now) (map (count_in R) now))"
  have fsts: "map fst xs = now" and len: "length xs = length now"
    by (simp_all add: xs_def)
  have counts: "\<forall>(r, mine, theirs) \<in> set xs. mine = count_in L r \<and> theirs = count_in R r"
    by (auto simp: xs_def set_zip)
  have wf: "\<forall>((lo, hi), _) \<in> set xs. lo < hi"
  proof -
    have "lo < hi" if "((lo, hi), z) \<in> set xs" for lo hi z
    proof -
      have "(lo, hi) \<in> set (map fst xs)" using that by force
      then have "(lo, hi) \<in> set (rc_queue c)" by (simp add: fsts queue)
      with inv show ?thesis by (auto simp: reconcile_inv_def)
    qed
    then show ?thesis by blast
  qed
  note left = split_ranges_left [OF split [folded xs_def] wf]
  have less: "rc_queue c = [] \<and> rc_queue c' = [] \<or> queue_left c' < queue_left c"
  proof (cases "now = []")
    case True
    then have "rc_queue c = []" using assms(4) by (auto simp: now_def)
    moreover from this split True have "queue' = []" by (simp add: later_def)
    ultimately show ?thesis by (simp add: c'_def)
  next
    case False
    then have "0 < length xs" by (simp add: len)
    moreover have "sum_list (map range_left queue') + length xs \<le> sum_list (map range_left later) + sum_list (map range_left now)"
      using left(1) fsts by (metis map_map)
    ultimately have "sum_list (map range_left queue') < sum_list (map range_left now) + sum_list (map range_left later)"
      by linarith
    then show ?thesis
      by (simp add: queue_left_def c'_def queue)
  qed
  have kept: "in_ranges queue' i \<or> in_leaves leaves' i" if "i \<in> L - R" "1 \<le> i" "i \<le> newest" for i
  proof -
    have "in_ranges (rc_queue c) i \<or> in_leaves (rc_leaves c) i"
      using inv that by (auto simp: reconcile_inv_def)
    then have "in_ranges (map fst xs) i \<or> in_ranges later i \<or> in_leaves (rc_leaves c) i"
      unfolding fsts queue by (auto simp: in_ranges_def)
    with that(1) split_ranges_keeps [OF split [folded xs_def] assms(2,3) counts] show ?thesis by blast
  qed
  have "reconcile_inv L R newest c'"
    unfolding reconcile_inv_def c'_def
    using left(2,3) inv kept by (auto simp: reconcile_inv_def queue)
  with run less show ?thesis by blast
qed

lemma compare_rounds_end:
  assumes "reconcile_inv L R newest c" and "R \<subseteq> L" and "finite L" and "0 < n" and "queue_left c \<le> k"
  shows "\<exists>c'. compare_rounds k n L R c = Inr c' \<and> rc_queue c' = [] \<and> reconcile_inv L R newest c'"
  using assms
proof (induction k arbitrary: c)
  case 0
  then have "rc_queue c = []"
    by (cases "rc_queue c") (auto simp: queue_left_def range_left_def reconcile_inv_def)
  with 0 show ?case by simp
next
  case (Suc k)
  obtain c1 where c1: "compare_round n L R c = Inr c1" "reconcile_inv L R newest c1"
    "rc_queue c = [] \<and> rc_queue c1 = [] \<or> queue_left c1 < queue_left c"
    using compare_round_step [OF Suc.prems(1-4)] by blast
  then have "queue_left c1 \<le> k"
    using Suc.prems(5) by (auto simp: queue_left_def)
  from Suc.IH [OF c1(2) Suc.prems(2-4) this] c1(1) show ?case by simp
qed

lemma chain_left: "chain upr ss lwr \<Longrightarrow> sum_list (map (\<lambda>s. range_left (rs_lo s, rs_hi s)) ss) \<le> 2 * nat (upr - lwr)"
proof (induction ss arbitrary: upr)
  case (Cons s ss)
  then have "rs_hi s = upr" "rs_lo s < upr" "lwr \<le> rs_lo s"
    by (auto dest: chain_below)
  moreover have "sum_list (map (\<lambda>s. range_left (rs_lo s, rs_hi s)) ss) \<le> 2 * nat (rs_lo s - lwr)"
    using Cons by simp
  moreover have "range_left (rs_lo s, rs_hi s) \<le> 2 * nat (rs_hi s - rs_lo s)"
    by (simp add: range_left_def)
  ultimately show ?case
    by (simp add: nat_diff_distrib' [symmetric])
qed simp

lemma start_reconcile_ok:
  assumes "0 \<le> newest"
  shows "\<exists>c0. start_reconcile c newest ranges = Inr c0 \<and> reconcile_inv L R newest c0 \<and> queue_left c0 \<le> 2 * nat newest"
proof -
  define width where "width = max leaf_size (ceil_div (max newest 1) (max 1 ranges))"
  have width: "0 < width" by (simp add: width_def leaf_size_def)
  obtain ss where ss: "plan_from width 1 (newest + 1) = Inr ss"
    using plan_from_total by blast
  have chain: "chain (newest + 1) ss 1"
    using plan_from_chain [OF ss width] assms by simp
  define c0 where "c0 = c\<lparr>rc_started := True, rc_queue := map (\<lambda>s. (rs_lo s, rs_hi s)) ss, rc_leaves := [], rc_marked := 0\<rparr>"
  have "start_reconcile c newest ranges = Inr c0"
    using ss width by (simp add: start_reconcile_def plan_ranges_def width_def [symmetric] c0_def)
  moreover have "reconcile_inv L R newest c0"
  proof -
    have "in_ranges (rc_queue c0) i" if i: "1 \<le> i" "i \<le> newest" for i
    proof -
      obtain k where "k < length ss" "rs_lo (ss ! k) \<le> i" "i < rs_hi (ss ! k)"
        using chain_covers [OF chain, of i] i by auto
      then show ?thesis
        by (force simp: in_ranges_def c0_def)
    qed
    moreover have "\<forall>(lo, hi) \<in> set (rc_queue c0). lo < hi"
      using chain_bounds [OF chain] by (auto simp: c0_def)
    ultimately show ?thesis
      by (simp add: reconcile_inv_def c0_def)
  qed
  moreover have "queue_left c0 \<le> 2 * nat newest"
    using chain_left [OF chain] by (simp add: queue_left_def c0_def o_def)
  ultimately show ?thesis by blast
qed

section \<open>Counts are read all or not at all\<close>

lemma all_right:
  "(\<forall>x \<in> set xs. \<exists>n. f x = Inr n) \<and> List.map_filter sum_right (map f xs) = ns \<longleftrightarrow>
   list_all2 (\<lambda>x n. f x = Inr n) xs ns"
proof (induction xs arbitrary: ns)
  case (Cons x xs)
  then show ?case
    by (cases "f x") (auto simp: List.map_filter_simps sum_right_def list_all2_Cons1)
qed (auto simp: List.map_filter_simps)

lemma read_counts_Some:
  "read_counts b cmds = (Some ns, errs) \<longleftrightarrow> errs = [] \<and> list_all2 (\<lambda>cmd n. count_answer b (fst cmd) = Inr n) cmds ns"
proof -
  have f: "(\<lambda>(key, _, _). count_answer b key) = (\<lambda>cmd :: command. count_answer b (fst cmd))"
    by (auto simp: fun_eq_iff)
  have "List.map_filter sum_left (map (\<lambda>cmd. count_answer b (fst cmd)) cmds) = [] \<longleftrightarrow>
      (\<forall>cmd \<in> set cmds. \<exists>n. count_answer b (fst cmd) = Inr n)"
    unfolding map_filter_Nil set_map ball_simps
    by (intro ball_cong refl) (auto simp: sum_left_def split: sum.splits)
  then show ?thesis
    using all_right [of cmds "\<lambda>cmd. count_answer b (fst cmd)" ns]
    unfolding read_counts_def Let_def f by auto
qed

section \<open>The round trip of the stored cursor\<close>

definition reconcile_ok :: "reconcile_cursor \<Rightarrow> bool" where
  "reconcile_ok c \<longleftrightarrow> rc_dialect c \<in> {dialect_item, dialect_legacy} \<and>
     (\<forall>(lo, hi) \<in> set (rc_queue c). lo < hi) \<and>
     (\<forall>(lo, hi, after) \<in> set (rc_leaves c). lo - 1 \<le> after \<and> after < hi) \<and>
     (\<not> rc_started c \<longrightarrow> c = fresh_reconcile (rc_dialect c))"

lemma pairs_roundtrip: "rmap pair_of_json (map (\<lambda>(lo, hi). JList [JInt lo, JInt hi]) qs) = Inr qs"
  by (induction qs) (auto simp: pair_of_json_def py_iter_def)

lemma leaves_roundtrip: "rmap leaf_of_json (map (\<lambda>(lo, hi, after). JList [JInt lo, JInt hi, JInt after]) ls) = Inr ls"
  by (induction ls) (auto simp: leaf_of_json_def py_iter_def)

lemma py_iter_or_empty_list [simp]: "py_iter_or_empty (JList xs) = Inr xs"
  by (cases xs) (simp_all add: py_iter_or_empty_def py_iter_def)

lemma reconcile_roundtrip_lemma:
  assumes "reconcile_ok c"
  shows "reconcile_from_json (reconcile_to_json c) = Inr c"
proof -
  have dialect: "stored_dialect (reconcile_to_json c) = rc_dialect c"
    using assms by (auto simp: reconcile_ok_def stored_dialect_def reconcile_to_json_def get_field_def)
  have get: "get_field (reconcile_to_json c) ''started'' = JBool (rc_started c)"
    "get_field (reconcile_to_json c) ''queue'' = JList (map (\<lambda>(lo, hi). JList [JInt lo, JInt hi]) (rc_queue c))"
    "get_field (reconcile_to_json c) ''leaves'' = JList (map (\<lambda>(lo, hi, after). JList [JInt lo, JInt hi, JInt after]) (rc_leaves c))"
    "get_field (reconcile_to_json c) ''marked'' = JInt (rc_marked c)"
    by (simp_all add: reconcile_to_json_def get_field_def)
  have marked: "(if truthy (JInt (rc_marked c)) then py_int (JInt (rc_marked c)) else Inr 0) = Inr (rc_marked c)"
    by simp
  have ok: "\<not> list_ex (\<lambda>(lo, hi). hi \<le> lo) (rc_queue c)"
    "\<not> list_ex (\<lambda>(lo, hi, after). \<not> (lo - 1 \<le> after \<and> after < hi)) (rc_leaves c)"
    using assms by (force simp: reconcile_ok_def list_ex_iff)+
  show ?thesis
  proof (cases "rc_started c")
    case False
    with assms dialect get(1) show ?thesis
      by (simp add: reconcile_from_json_def Let_def reconcile_ok_def)
  next
    case True
    then show ?thesis
      using ok unfolding reconcile_from_json_def Let_def dialect get py_iter_or_empty_list marked pairs_roundtrip leaves_roundtrip rbind.simps
      by simp
  qed
qed

end
