(* ===== verification/Crm_Sync_Properties.thy ===== *)
theory Crm_Sync_Properties
  imports Crm_Reconcile Demo
begin

text \<open>
  What the lanes of the CRM mirror promise: the sweep loses no edit, reads are stored so that the
  newest wins, deletions are proven, guarded and final, and the comparison with the portal ends.
\<close>

section \<open>The sweep\<close>

definition sweep_start :: sweep_cursor where
  "sweep_start = (fresh_sweep dialect_item (utc 1000))\<lparr>sc_shift_seconds := Some 0\<rparr>"

definition sweep_table :: "int \<Rightarrow> rat option" where
  "sweep_table = (\<lambda>i. if i = 3 then Some 900 else None)"

definition sweep_demo_page :: "json list" where
  "sweep_demo_page = [JDict [(''id'', JInt 3), (''updatedTime'', JStr ''t'')]]"

definition demo_iso :: "string \<Rightarrow> (rat \<times> rat option) option" where
  "demo_iso s = Some (900, Some 0)"

definition sweep_demo_step :: "(py_error, sweep_step) result" where
  "sweep_demo_step = sweep_page demo_iso 255 300 (utc 2000) sweep_start deal_item [] None sweep_demo_page"

lemma sweep_demo_moves:
  "(case sweep_demo_step of
      Inr st \<Rightarrow> sc_since (ss_cursor st) = utc 2000 \<and> sc_pass_started (ss_cursor st) = None \<and>
        sc_after_id (ss_cursor st) = 0 \<and> map (\<lambda>row. (ir_id row, ir_updated_time row)) (ss_rows st) = [(3, Some 900)]
    | Inl _ \<Rightarrow> False)"
  by code_simp

lemma sweep_demo_bound: "sweep_bound sweep_start 300 = Inr (utc 700)"
  by (simp add: sweep_bound_def sweep_start_def fresh_sweep_def utc_def shift_time_def drop_micros_def
      in_datetime_def datetime_min_def datetime_max_def)

lemma sweep_demo_read:
  "(case read_mirror_page demo_iso deal_item 255 sweep_demo_page of
      Inr (got, bad) \<Rightarrow> map (\<lambda>row. (ir_id row, ir_updated_time row)) got = [(3, Some 900)] | Inl _ \<Rightarrow> False)"
  by code_simp

lemma sweep_demo_honest: "honest_sweep demo_iso deal_item 255 700 sweep_table 0 sweep_demo_page"
  using sweep_demo_read
  by (auto simp: honest_sweep_def sweep_table_def split: sum.splits if_splits)

lemma sweep_demo_run:
  "\<exists>st seen. sweep_demo_step = Inr st \<and> seen = versions_of (ss_rows st) \<and>
     sweeping demo_iso deal_item 255 300 0 sweep_start sweep_table 1000 (ss_cursor st) sweep_table 2000 seen"
proof -
  obtain st where st: "sweep_demo_step = Inr st"
    using sweep_demo_moves by (auto split: sum.splits)
  have "sweeping demo_iso deal_item 255 300 0 sweep_start sweep_table 1000 sweep_start sweep_table 1000 {}"
    by (rule sweeping.begin_pass)
       (auto simp: sweep_start_def fresh_sweep_def utc_def instant_def sweep_table_def split: if_splits)
  then have "sweeping demo_iso deal_item 255 300 0 sweep_start sweep_table 1000 (ss_cursor st) sweep_table 2000
      ({} \<union> versions_of (ss_rows st))"
    using st sweep_demo_bound sweep_demo_honest unfolding sweep_demo_step_def
    by (rule_tac sweeping.page)
       (auto simp: shift_known_def sweep_start_def fresh_sweep_def utc_def instant_def)
  with st show ?thesis by auto
qed

text \<open>
  C5 The sweep loses no edit. Between two passes, every record whose newest edit is not older
  than the overlap before the first pass began has been handed to the store with that edit,
  or will match the next pass; edits made during a pass, behind the id it has reached, failed
  pages and a shifted filter do not matter.
\<close>

theorem sweep_loses_no_edit:
  assumes "sweeping isod d utm_max overlap s c0 tbl0 clk0 c tbl clk seen"
    and "sc_pass_started c = None" and "tbl i = Some u" and "instant (sc_since c0) - overlap \<le> u"
  shows "(i, u) \<in> seen \<or> instant (sc_since c) - overlap \<le> u"
  using assms by (rule sweeping_loses_nothing)

theorem sweep_loses_no_edit_witness: "case sweep_demo_step of Inr st \<Rightarrow> (3, 900) \<in> versions_of (ss_rows st) | Inl _ \<Rightarrow> False"
proof -
  obtain st where st: "sweep_demo_step = Inr st"
    and run: "sweeping demo_iso deal_item 255 300 0 sweep_start sweep_table 1000 (ss_cursor st) sweep_table 2000
      (versions_of (ss_rows st))"
    using sweep_demo_run by auto
  have "(3, 900) \<in> versions_of (ss_rows st) \<or> instant (sc_since (ss_cursor st)) - 300 \<le> 900"
    using sweep_demo_moves
    by (intro sweep_loses_no_edit [OF run]) (auto simp: st sweep_table_def sweep_start_def fresh_sweep_def utc_def instant_def)
  moreover have "\<not> instant (sc_since (ss_cursor st)) - 300 \<le> 900"
    using sweep_demo_moves by (simp add: st utc_def instant_def)
  ultimately show ?thesis by (simp add: st)
qed









section \<open>Lanes\<close>

definition demo_lane :: "string \<Rightarrow> rat \<Rightarrow> rat option \<Rightarrow> lane" where
  "demo_lane name due_time paused = (fresh_lane due_time name)\<lparr>ln_paused_until := paused\<rparr>"

text \<open>
  The lanes wake exactly when one is due. No lane is runnable before the next wake-up, at
  least one is at that moment, and without a next wake-up none ever is; whatever their states,
  back-offs and due times.
\<close>

theorem lanes_wake_when_due:
  "case lanes_next_wake lanes of
     None \<Rightarrow> \<forall>now. \<forall>l \<in> set lanes. \<not> lane_runnable l now
   | Some t \<Rightarrow> (\<exists>l \<in> set lanes. lane_runnable l t) \<and> (\<forall>now < t. \<forall>l \<in> set lanes. \<not> lane_runnable l now)"
proof (cases "lanes_next_wake lanes")
  case None
  then have "\<forall>l \<in> set lanes. lane_wakes_at l = None"
    by (simp only: lanes_next_wake_None)
  with None show ?thesis by (simp add: lane_runnable_iff)
next
  case (Some t)
  note wake = Some [unfolded lanes_next_wake_Some]
  have "\<not> lane_runnable l now" if "l \<in> set lanes" "now < t" for l now
    using wake that by (force simp: lane_runnable_iff split: option.splits)
  moreover have "\<exists>l \<in> set lanes. lane_runnable l t"
    using wake by (force simp: lane_runnable_iff)
  ultimately show ?thesis
    by (simp add: Some)
qed

theorem lanes_wake_when_due_witness:
  "lanes_next_wake [demo_lane ''dict'' 5 (Some 9), demo_lane ''dirty'' 12 None] = Some 9 \<and>
   (\<exists>l \<in> set [demo_lane ''dict'' 5 (Some 9), demo_lane ''dirty'' 12 None]. lane_runnable l 9)"
proof -
  have wake: "lanes_next_wake [demo_lane ''dict'' 5 (Some 9), demo_lane ''dirty'' 12 None] = Some 9"
    by (simp add: lanes_next_wake_def demo_lane_def fresh_lane_def lane_wakes_at_def lane_status_defs
        min_opt_def List.map_filter_simps)
  with lanes_wake_when_due [of "[demo_lane ''dict'' 5 (Some 9), demo_lane ''dirty'' 12 None]"] show ?thesis
    by simp
qed

text \<open>
  A failing lane backs off. After \<open>n\<close> failures in a row the lane is paused for sixty seconds
  doubled \<open>n - 1\<close> times but never more than an hour, for six hours from the tenth on, and cannot
  run meanwhile; one success ends the pause and the count.
\<close>

theorem failing_lane_backs_off:
  assumes "ln_failures l = 0" and "n = int (length es) + 1" and "l' = lane_streak l (es @ [(e, now)])"
  shows "ln_failures l' = n \<and>
    ln_paused_until l' = Some (now + (if 10 \<le> n then 21600 else of_int (min 3600 (60 * 2 ^ length es)))) \<and>
    (\<forall>t < now + (if 10 \<le> n then 21600 else of_int (min 3600 (60 * 2 ^ length es))). \<not> lane_runnable l' t) \<and>
    ln_failures (lane_succeeded l' now due_time cursor st done total_done) = 0 \<and>
    ln_paused_until (lane_succeeded l' now due_time cursor st done total_done) = None"
proof -
  have n: "1 \<le> n" "nat (n - 1) = length es" using assms(2) by simp_all
  have pause: "ln_paused_until l' = Some (now + (if 10 \<le> n then 21600 else of_int (min 3600 (60 * 2 ^ length es))))"
    using lane_streak_pause [of l es e now] assms lane_delay_positive [OF n(1)] n(2) by simp
  then have "\<not> lane_runnable l' t" if "t < now + (if 10 \<le> n then 21600 else of_int (min 3600 (60 * 2 ^ length es)))" for t
    using that by (simp add: lane_runnable_def)
  with pause show ?thesis
    using assms by (simp add: lane_streak_failures lane_succeeded_def)
qed

theorem failing_lane_backs_off_witness:
  "\<not> lane_runnable (lane_streak (demo_lane ''dirty'' 0 None) ([(None, 10)] @ [(None, 80)])) 199"
proof -
  have fresh: "ln_failures (demo_lane ''dirty'' 0 None) = 0"
    by (simp add: demo_lane_def fresh_lane_def)
  have two: "(2 :: int) = int (length [(None :: bitrix_error option, 10 :: rat)]) + 1"
    by simp
  have early: "(199 :: rat) < 80 + (if 10 \<le> (2 :: int) then 21600
      else of_int (min 3600 (60 * 2 ^ length [(None :: bitrix_error option, 10 :: rat)])))"
    by simp
  show ?thesis
    using failing_lane_backs_off [OF fresh two refl] early by blast
qed

section \<open>Storing reads\<close>








definition demo_mirror :: crm_store where
  "demo_mirror = \<lparr>cs_base = demo_store, cs_items = [], cs_dirty = [], cs_lanes = []\<rparr>"


section \<open>Deletions\<close>

definition gone_payload :: json where
  "gone_payload = JDict [(''result'', JDict
     [(''result'', JDict [(''i0'', JDict [(''items'', JList [JDict [(''id'', JInt 3)]])])]),
      (''result_error'', JDict [(''g7'', JDict [(''error'', JStr ''NOT_FOUND''), (''error_description'', JStr ''gone'')])])])]"

definition gone_outside :: fetch_outside where
  "gone_outside =
     \<lparr>portal = (\<lambda>_ _. Answer 200 None (JsonBody gone_payload)), wall = (\<lambda>_. 1000), render = (\<lambda>_. []),
      http_date = (\<lambda>_. None), iso_date = (\<lambda>_. None), host_ok = (\<lambda>_. True)\<rparr>"

definition gone_net :: net where
  "gone_net = \<lparr>requests = [], rest_log = [], last_time = None\<rparr>"

definition waiting :: "int \<Rightarrow> dirty_id" where
  "waiting i = \<lparr>di_entity = 2, di_id = i, di_seq = 1, di_reasons = 1, di_attempts = 0\<rparr>"

definition gone_run :: "(exn, refresh_outcome) result \<times> net" where
  "gone_run = refresh gone_outside (\<lambda>_ _. True) demo_client deal_item [waiting 3, waiting 7] 255 5 1000 gone_net"

lemma gone_run_ids:
  "(case fst gone_run of
      Inr out \<Rightarrow> rf_deleted out = [waiting 7] \<and> rf_present out = [waiting 3] \<and> rf_retry out = [] \<and>
        rf_unreadable out = [] \<and> rf_read_at out = 1000
    | _ \<Rightarrow> False)"
  by code_simp

lemma gone_run_answers:
  obtains out w' where "refresh gone_outside (\<lambda>_ _. True) demo_client deal_item [waiting 3, waiting 7] 255 5 1000 gone_net = (Inr out, w')"
    "rf_deleted out = [waiting 7]" "rf_present out = [waiting 3]" "rf_retry out = []" "rf_unreadable out = []"
    "rf_read_at out = 1000"
  using gone_run_ids unfolding gone_run_def
  by (cases "refresh gone_outside (\<lambda>_ _. True) demo_client deal_item [waiting 3, waiting 7] 255 5 1000 gone_net")
    (auto split: sum.splits)

text \<open>
  C15 A pass settles every id it took. Of the first 2,500 queued ids, each is returned, proven
  gone, refused or to be retried, once and only in one of these ways; and only an id that the
  portal answered with NOT_FOUND, asked for by itself, is reported as gone.
\<close>

theorem refresh_settles_every_id:
  fixes w :: "'n net_scheme"
  assumes "refresh c pace_ok cl d items n max_batches now w = (Inr out, w')" and "0 < max_batches"
    and "\<forall>x \<in> set items. 0 < di_id x"
  shows "mset (map di_id (rf_present out @ rf_deleted out @ rf_unreadable out @ rf_retry out)) =
      mset_set (di_id ` set (take max_ids_per_pass items)) \<and>
    (\<forall>x \<in> set (rf_deleted out). answered_gone c cl (md_entity_type_id d) TYPE('n) (di_id x))"
  using refresh_settles_lemma [OF assms] by (simp add: settled_ids_def ac_simps)

theorem refresh_settles_every_id_witness:
  "answered_gone gone_outside demo_client 2 TYPE(unit) 7"
proof -
  obtain out w' where run: "refresh gone_outside (\<lambda>_ _. True) demo_client deal_item [waiting 3, waiting 7] 255 5 1000 gone_net = (Inr out, w')"
    and gone: "rf_deleted out = [waiting 7]"
    by (rule gone_run_answers) blast
  from refresh_settles_every_id [OF run] gone show ?thesis
    by (simp add: waiting_def deal_item_def entity_deal_def)
qed

text \<open>
  C6 A record is deleted from the mirror only on proof and behind both guards. When a committed
  store of a pass leaves a row deleted that was not, the portal answered NOT_FOUND for its id,
  an administrator's token had been verified, and the pass deletes at most fifty records or a
  fiftieth of the live ones; otherwise the whole group is held back.
\<close>

theorem deletes_are_proven:
  fixes w :: "'n net_scheme"
  assumes "refresh c pace_ok cl d items n max_batches now w = (Inr out, w')" and "0 < max_batches"
    and "\<forall>x \<in> set items. 0 < di_id x"
    and "store_refresh f (md_entity_type_id d) out allow stored_at lanes s = (Inr held, s')"
  shows "(\<forall>p e i. gone_in (cs_items s') (p, e, i) \<and> \<not> gone_in (cs_items s) (p, e, i) \<longrightarrow>
      p = portal_id f \<and> e = md_entity_type_id d \<and> answered_gone c cl e TYPE('n) i \<and> allow \<and> \<not> held) \<and>
    (held \<longleftrightarrow> rf_deleted out \<noteq> [] \<and> \<not> (allow \<and> int (length (rf_deleted out)) \<le>
      max 50 (live_count (portal_id f) (md_entity_type_id d) (cs_items s) div 50)))"
proof -
  have commit: "store_refresh_body f (md_entity_type_id d) out allow stored_at lanes s = Inr (held, s')"
    using assms(4) by (simp add: store_refresh_def ref_items.commits)
  have proof_of: "\<forall>x \<in> set (rf_deleted out). answered_gone c cl (md_entity_type_id d) TYPE('n) (di_id x)"
    using refresh_settles_lemma [OF assms(1-3)] by blast
  show ?thesis
    using store_refresh_gone(1) [OF commit] store_refresh_gone(2) [OF commit] proof_of
    unfolding delete_ceiling_def delete_floor_def by blast
qed

theorem deletes_are_proven_witness:
  "\<exists>out s'. fst gone_run = Inr out \<and>
     store_refresh demo_fence 2 out False 1000 [] demo_mirror = (Inr True, s') \<and> \<not> gone_in (cs_items s') (1, 2, 7)"
proof -
  obtain out w' where run: "refresh gone_outside (\<lambda>_ _. True) demo_client deal_item [waiting 3, waiting 7] 255 5 1000 gone_net = (Inr out, w')"
    and out: "rf_deleted out = [waiting 7]" "rf_present out = [waiting 3]" "rf_retry out = []" "rf_unreadable out = []"
    "rf_read_at out = 1000"
    by (rule gone_run_answers) blast
  have fence: "fence_holds demo_fence (record_event pid kind details demo_store)" for pid kind details
    using demo_store_fence fence_holds_cong [of "record_event pid kind details demo_store" demo_store] by simp
  obtain held s' where stored: "store_refresh demo_fence (md_entity_type_id deal_item) out False 1000 [] demo_mirror = (Inr held, s')"
    by (auto simp: store_refresh_def crm_txn_def store_refresh_body_def store_deletes_def out store_unreadable_def
        store_lanes_def fenced_update_def demo_mirror_def fence Let_def)
  from deletes_are_proven [OF run _ _ stored] out have "held" "\<not> gone_in (cs_items s') (1, 2, 7)"
    by (auto simp: waiting_def gone_in_def demo_mirror_def)
  with run stored show ?thesis
    by (auto simp: gone_run_def deal_item_def entity_deal_def)
qed

section \<open>Deleted rows stay deleted\<close>






section \<open>Marks\<close>

text \<open>
  C16 A mark that arrives while its record is being read survives. When a pass takes the due
  marks and consumes them afterwards, a mark is gone exactly when nobody marked the same record
  in between; deferring and holding do not matter.
\<close>

theorem late_mark_survives:
  assumes "distinct (map fst t)" and "d \<in> set (due_dirty pid entity now limit t)"
    and "\<forall>a \<in> set ops. \<not> (\<exists>items. a = Consume items)"
  shows "map_of (consume_dirty pid (due_dirty pid entity now limit t) (fold (run_dirty pid) ops t))
      (pid, entity, di_id d) = None \<longleftrightarrow> \<not> (\<exists>a \<in> set ops. marks entity (di_id d) a)"
  using assms by (rule late_mark_lemma)

definition marked_once :: dirty_table where
  "marked_once = snd (mark_dirty 1 2 [7] reason_signal 100 [])"

lemma marked_once_due: "map di_id (due_dirty 1 2 200 10 marked_once) = [7] \<and> distinct (map fst marked_once)"
  by code_simp

theorem late_mark_survives_witness:
  "map_of (consume_dirty 1 (due_dirty 1 2 200 10 marked_once)
      (fold (run_dirty 1) [Mark 2 [7] reason_signal 150] marked_once)) (1, 2, 7) \<noteq> None"
proof -
  obtain d where d: "d \<in> set (due_dirty 1 2 200 10 marked_once)" "di_id d = 7"
    using marked_once_due by fastforce
  from late_mark_survives [OF _ d(1), of "[Mark 2 [7] reason_signal 150]"] d(2) marked_once_due show ?thesis
    by (simp add: marks_def)
qed

section \<open>The comparison with the portal\<close>

lemma split_ranges_swap: "split_ranges (map (\<lambda>(r, a, b). (r, b, a)) xs) st = split_ranges xs st"
proof (induction xs arbitrary: st)
  case (Cons x xs)
  obtain lo hi mine theirs queue leaves where "x = ((lo, hi), mine, theirs)" "st = (queue, leaves)"
    by (metis prod.exhaust)
  with Cons.IH show ?case by (simp add: eq_commute [of theirs mine] Let_def)
qed simp

lemma zip_swap: "zip as (zip (map f as) (map g as)) = map (\<lambda>(r, a, b). (r, b, a)) (zip as (zip (map g as) (map f as)))"
  by (induction as) simp_all

lemma compare_rounds_swap: "compare_rounds k n L R c = compare_rounds k n R L c"
proof -
  have "compare_round n L R c = compare_round n R L c" for c
    unfolding compare_round_def after_counts_def
    by (subst zip_swap) (simp add: split_ranges_swap)
  then have "compare_round n L R = compare_round n R L" by (rule ext)
  moreover have "compare_rounds k n L R = compare_rounds k n R L" if "compare_round n L R = compare_round n R L"
  proof (induction k)
    case (Suc k)
    show ?case by (rule ext) (simp only: compare_rounds.simps that Suc.IH)
  qed (rule ext, simp)
  ultimately show ?thesis by simp
qed

text \<open>
  C17 Counting ends and finds the difference. For a mirror that only lacks, or only has too many
  of, the portal's ids, splitting ranges whose counts differ comes to an end within two rounds
  per id, with nothing left to count, and every id that one side lacks lies in a range short
  enough to be listed.
\<close>

theorem reconcile_finds_the_difference:
  assumes "0 \<le> newest" and "mine \<subseteq> theirs \<or> theirs \<subseteq> mine" and "finite mine" and "finite theirs"
    and "1 \<le> n" and "2 * nat newest \<le> k"
  shows "\<exists>c0 c'. start_reconcile c newest ranges = Inr c0 \<and> compare_rounds k n mine theirs c0 = Inr c' \<and>
    rc_queue c' = [] \<and> (\<forall>(lo, hi, after) \<in> set (rc_leaves c'). hi - lo \<le> leaf_size \<and> after = lo - 1) \<and>
    (\<forall>i \<in> (mine - theirs) \<union> (theirs - mine). 1 \<le> i \<and> i \<le> newest \<longrightarrow> in_leaves (rc_leaves c') i)"
proof -
  define more less where "more = mine \<union> theirs" and "less = mine \<inter> theirs"
  have sides: "less \<subseteq> more" "finite more" "(mine - theirs) \<union> (theirs - mine) = more - less"
    using assms(2-4) by (auto simp: more_def less_def)
  obtain c0 where c0: "start_reconcile c newest ranges = Inr c0" "reconcile_inv more less newest c0"
    "queue_left c0 \<le> 2 * nat newest"
    using start_reconcile_ok [OF assms(1)] by blast
  have "0 < n" and "queue_left c0 \<le> k"
    using assms(5,6) c0(3) by linarith+
  from compare_rounds_end [OF c0(2) sides(1,2) this] obtain c' where
    c': "compare_rounds k n more less c0 = Inr c'" "rc_queue c' = []" "reconcile_inv more less newest c'"
    by blast
  have "compare_rounds k n mine theirs c0 = compare_rounds k n more less c0"
  proof (cases "mine \<subseteq> theirs")
    case True
    then have "more = theirs" "less = mine" by (auto simp: more_def less_def)
    then show ?thesis by (simp only: compare_rounds_swap [of k n mine])
  next
    case False
    with assms(2) have "more = mine" "less = theirs" by (auto simp: more_def less_def)
    then show ?thesis by simp
  qed
  with c0(1) c' show ?thesis
    unfolding sides(3) by (auto simp: reconcile_inv_def in_ranges_def)
qed

theorem reconcile_finds_the_difference_witness:
  "\<exists>c0 c'. start_reconcile (fresh_reconcile dialect_item) 5000 40 = Inr c0 \<and>
    compare_rounds 10000 20 {1, 4000} {1, 3000, 4000} c0 = Inr c' \<and> in_leaves (rc_leaves c') 3000"
proof -
  have "\<exists>c0 c'. start_reconcile (fresh_reconcile dialect_item) 5000 40 = Inr c0 \<and>
    compare_rounds 10000 20 {1, 4000} {1, 3000, 4000} c0 = Inr c' \<and> rc_queue c' = [] \<and>
    (\<forall>(lo, hi, after) \<in> set (rc_leaves c'). hi - lo \<le> leaf_size \<and> after = lo - 1) \<and>
    (\<forall>i \<in> ({1, 4000} - {1, 3000, 4000}) \<union> ({1, 3000, 4000} - {1, 4000}). 1 \<le> i \<and> i \<le> 5000 \<longrightarrow> in_leaves (rc_leaves c') i)"
    by (rule reconcile_finds_the_difference) auto
  then show ?thesis by (auto simp: insert_Diff_if)
qed

section \<open>Stored cursors\<close>

text \<open>
  The stored cursors of the sweep and of the comparison are read back as they were written,
  when the ISO parser reads back the timestamps the program writes.
\<close>

theorem lane_cursors_roundtrip:
  assumes "sc_dialect c \<in> {dialect_item, dialect_legacy}" and "0 \<le> sc_after_id c"
    and "reads_back isod (sc_since c)" and "pred_option (reads_back isod) (sc_pass_started c)"
    and "pred_option (reads_back isod) (sc_calibrated_at c)" and "reconcile_ok r"
  shows "sweep_from_json isod (sweep_to_json c) now = Inr c \<and>
    reconcile_from_json (reconcile_to_json r) = Inr r"
  using sweep_roundtrip_lemma [OF assms(1-5)] reconcile_roundtrip_lemma [OF assms(6)] by simp

theorem lane_cursors_roundtrip_witness:
  "sweep_from_json (\<lambda>_. Some (1000, Some 0)) (sweep_to_json sweep_start) (utc 7) = Inr sweep_start"
  by (rule lane_cursors_roundtrip [THEN conjunct1, of _ _ "fresh_reconcile dialect_item"])
     (simp_all add: sweep_start_def fresh_sweep_def reads_back_def utc_def reconcile_ok_def fresh_reconcile_def)

end
