(* ===== verification/Session_Token.thy ===== *)
theory Session_Token
  imports Py_Value
begin

text \<open>
  \<open>security/session_token.py\<close>: the two kinds of signed token, issued and verified. The JWT
  library is a parameter: an encoder, and a decoder that is told which claims to require,
  whether to check the expiry, and the time. Both work under the session secret.
\<close>

section \<open>The library\<close>

type_synonym claim_set = "(string, json) dict"

record jwt =
  jwt_encode :: "claim_set \<Rightarrow> string"
  jwt_decode :: "rat \<Rightarrow> string \<Rightarrow> string list \<Rightarrow> bool \<Rightarrow> (string, claim_set) result"

datatype token_error = TokenError string

section \<open>Claims\<close>

definition typ_session :: string where "typ_session = ''s''"
definition typ_play :: string where "typ_play = ''p''"

definition access_levels :: "string set" where
  "access_levels = {''all'', ''own'', ''denied''}"

definition session_required :: "string list" where
  "session_required =
     [''typ'', ''pid'', ''mid'', ''sub'', ''adm'', ''acc'', ''tz'', ''lang'', ''plc'', ''iat'', ''exp'']"

definition play_required :: "string list" where
  "play_required = [''typ'', ''pid'', ''sub'', ''acc'', ''cid'', ''exp'']"

record session_claims =
  cl_pid :: int
  cl_mid :: string
  cl_sub :: int
  cl_adm :: bool
  cl_acc :: string
  cl_tz :: string
  cl_lang :: string
  cl_plc :: string
  cl_ent :: "claim_set option"
  cl_iat :: int
  cl_exp :: int

record play_claims =
  pc_pid :: int
  pc_sub :: int
  pc_acc :: string
  pc_cid :: int
  pc_exp :: int

definition decode_token ::
  "jwt \<Rightarrow> rat \<Rightarrow> string \<Rightarrow> string \<Rightarrow> string list \<Rightarrow> bool \<Rightarrow> (token_error, claim_set) result" where
  "decode_token j now token kind required verify_exp =
     (if token = [] then Inl (TokenError ''empty token'')
      else case jwt_decode j now token required verify_exp of
             Inl e \<Rightarrow> Inl (TokenError e)
           | Inr claims \<Rightarrow>
               if get_field claims ''typ'' \<noteq> JStr kind then Inl (TokenError ''wrong token type'')
               else Inr claims)"

text \<open>A JSON boolean is a \<open>JBool\<close>, so it is no integer here either.\<close>

definition quoted :: "string \<Rightarrow> string" where
  "quoted s = CHR 0x27 # s @ [CHR 0x27]"

definition claim_int :: "claim_set \<Rightarrow> string \<Rightarrow> (token_error, int) result" where
  "claim_int claims name =
     (case get_field claims name of
        JInt n \<Rightarrow> Inr n
      | _ \<Rightarrow> Inl (TokenError (''claim '' @ quoted name @ '' is not an integer'')))"

definition claim_str :: "claim_set \<Rightarrow> string \<Rightarrow> (token_error, string) result" where
  "claim_str claims name =
     (case get_field claims name of
        JStr s \<Rightarrow> Inr s
      | _ \<Rightarrow> Inl (TokenError (''claim '' @ quoted name @ '' is not a string'')))"

definition claim_access :: "claim_set \<Rightarrow> (token_error, string) result" where
  "claim_access claims =
     rbind (claim_str claims ''acc'') (\<lambda>acc.
       if acc \<notin> access_levels then Inl (TokenError (''claim '' @ quoted ''acc'' @ '' is not an access level'')) else Inr acc)"

definition claim_ent :: "claim_set \<Rightarrow> (token_error, claim_set option) result" where
  "claim_ent claims =
     (case get_field claims ''ent'' of
        JNone \<Rightarrow> Inr None
      | JDict d \<Rightarrow> Inr (Some d)
      | _ \<Rightarrow> Inl (TokenError (''claim '' @ quoted ''ent'' @ '' is neither null nor an object'')))"

definition claim_adm :: "claim_set \<Rightarrow> (token_error, bool) result" where
  "claim_adm claims =
     (case get_field claims ''adm'' of
        JBool b \<Rightarrow> Inr b
      | _ \<Rightarrow> Inl (TokenError (''claim '' @ quoted ''adm'' @ '' is not a boolean'')))"

section \<open>Issuing and verifying\<close>

definition py_trunc :: "rat \<Rightarrow> int" where
  "py_trunc t = (if 0 \<le> t then \<lfloor>t\<rfloor> else \<lceil>t\<rceil>)"

definition session_payload :: "session_claims \<Rightarrow> claim_set" where
  "session_payload c =
     [(''typ'', JStr typ_session), (''pid'', JInt (cl_pid c)), (''mid'', JStr (cl_mid c)),
      (''sub'', JInt (cl_sub c)), (''adm'', JBool (cl_adm c)), (''acc'', JStr (cl_acc c)),
      (''tz'', JStr (cl_tz c)), (''lang'', JStr (cl_lang c)), (''plc'', JStr (cl_plc c)),
      (''ent'', (case cl_ent c of None \<Rightarrow> JNone | Some d \<Rightarrow> JDict d)),
      (''iat'', JInt (cl_iat c)), (''exp'', JInt (cl_exp c))]"

text \<open>The arguments are those of the claims; \<open>iat\<close> and \<open>exp\<close> are set from the clock.\<close>

definition issued_at :: "rat \<Rightarrow> int \<Rightarrow> session_claims \<Rightarrow> session_claims" where
  "issued_at now ttl c = c\<lparr>cl_iat := py_trunc now, cl_exp := py_trunc now + ttl\<rparr>"

definition issue_session :: "jwt \<Rightarrow> rat \<Rightarrow> int \<Rightarrow> session_claims \<Rightarrow> (token_error, string) result" where
  "issue_session j now ttl c =
     (if cl_acc c \<notin> access_levels then Inl (TokenError ''acc must be one of all|own|denied'')
      else if ttl \<le> 0 then Inl (TokenError ''ttl_seconds must be positive'')
      else Inr (jwt_encode j (session_payload (issued_at now ttl c))))"

definition verify_session :: "jwt \<Rightarrow> rat \<Rightarrow> string \<Rightarrow> bool \<Rightarrow> (token_error, session_claims) result" where
  "verify_session j now token ignore_exp =
     rbind (decode_token j now token typ_session session_required (\<not> ignore_exp)) (\<lambda>claims.
     rbind (claim_ent claims) (\<lambda>ent.
     rbind (claim_adm claims) (\<lambda>adm.
     rbind (claim_int claims ''pid'') (\<lambda>pid.
     rbind (claim_str claims ''mid'') (\<lambda>mid.
     rbind (claim_int claims ''sub'') (\<lambda>sub.
     rbind (claim_access claims) (\<lambda>acc.
     rbind (claim_str claims ''tz'') (\<lambda>tz.
     rbind (claim_str claims ''lang'') (\<lambda>lang.
     rbind (claim_str claims ''plc'') (\<lambda>plc.
     rbind (claim_int claims ''iat'') (\<lambda>iat.
     rbind (claim_int claims ''exp'') (\<lambda>exp.
       Inr \<lparr>cl_pid = pid, cl_mid = mid, cl_sub = sub, cl_adm = adm, cl_acc = acc, cl_tz = tz,
            cl_lang = lang, cl_plc = plc, cl_ent = ent, cl_iat = iat, cl_exp = exp\<rparr>))))))))))))"

definition play_payload :: "play_claims \<Rightarrow> claim_set" where
  "play_payload c =
     [(''typ'', JStr typ_play), (''pid'', JInt (pc_pid c)), (''sub'', JInt (pc_sub c)),
      (''acc'', JStr (pc_acc c)), (''cid'', JInt (pc_cid c)), (''exp'', JInt (pc_exp c))]"

definition play_ttl :: int where
  "play_ttl = 300"

definition issue_play_token :: "jwt \<Rightarrow> rat \<Rightarrow> int \<Rightarrow> play_claims \<Rightarrow> (token_error, string) result" where
  "issue_play_token j now ttl c =
     (if pc_acc c \<notin> access_levels then Inl (TokenError ''acc must be one of all|own|denied'')
      else if ttl \<le> 0 then Inl (TokenError ''ttl_seconds must be positive'')
      else Inr (jwt_encode j (play_payload (c\<lparr>pc_exp := py_trunc now + ttl\<rparr>))))"

definition verify_play_token :: "jwt \<Rightarrow> rat \<Rightarrow> string \<Rightarrow> (token_error, play_claims) result" where
  "verify_play_token j now token =
     rbind (decode_token j now token typ_play play_required True) (\<lambda>claims.
     rbind (claim_int claims ''pid'') (\<lambda>pid.
     rbind (claim_int claims ''sub'') (\<lambda>sub.
     rbind (claim_access claims) (\<lambda>acc.
     rbind (claim_int claims ''cid'') (\<lambda>cid.
     rbind (claim_int claims ''exp'') (\<lambda>exp.
       Inr \<lparr>pc_pid = pid, pc_sub = sub, pc_acc = acc, pc_cid = cid, pc_exp = exp\<rparr>))))))"

section \<open>What the library documents\<close>

text \<open>
  A token it signed decodes to the claims signed exactly when every required claim is there,
  it was not issued in the future, and, where the expiry is checked, it has not expired.
\<close>

definition jwt_accepts :: "rat \<Rightarrow> string list \<Rightarrow> bool \<Rightarrow> claim_set \<Rightarrow> bool" where
  "jwt_accepts now required verify_exp claims \<longleftrightarrow>
     list_all (\<lambda>name. get_field claims name \<noteq> JNone) required \<and>
     (case get_field claims ''iat'' of JInt n \<Rightarrow> of_int n \<le> now | JNone \<Rightarrow> True | _ \<Rightarrow> False) \<and>
     (verify_exp \<longrightarrow> (case get_field claims ''exp'' of JInt n \<Rightarrow> now < of_int n | JNone \<Rightarrow> True | _ \<Rightarrow> False))"

definition honest_jwt :: "jwt \<Rightarrow> bool" where
  "honest_jwt j \<longleftrightarrow> (\<forall>claims now required verify_exp.
     jwt_encode j claims \<noteq> [] \<and>
     (case jwt_decode j now (jwt_encode j claims) required verify_exp of
        Inl _ \<Rightarrow> \<not> jwt_accepts now required verify_exp claims
      | Inr got \<Rightarrow> got = claims \<and> jwt_accepts now required verify_exp claims))"

lemma decode_signed:
  assumes "honest_jwt j"
  shows "decode_token j now (jwt_encode j claims) kind required verify_exp = Inr got \<longleftrightarrow>
    got = claims \<and> get_field claims ''typ'' = JStr kind \<and> jwt_accepts now required verify_exp claims"
proof -
  have "jwt_encode j claims \<noteq> []"
    and "case jwt_decode j now (jwt_encode j claims) required verify_exp of
        Inl _ \<Rightarrow> \<not> jwt_accepts now required verify_exp claims
      | Inr got \<Rightarrow> got = claims \<and> jwt_accepts now required verify_exp claims"
    using assms by (simp_all add: honest_jwt_def)
  then show ?thesis
    by (auto simp: decode_token_def split: sum.splits if_splits)
qed

lemma trunc_le: "0 \<le> now \<Longrightarrow> of_int (py_trunc now) \<le> now"
  by (simp add: py_trunc_def)

text \<open>The claims of a signed token, read back.\<close>

lemma session_claims_read:
  assumes "get_field claims ''typ'' = JStr typ_session"
    and "decode_token j now token typ_session session_required vexp = Inr claims"
    and "claims = session_payload c" and "cl_acc c \<in> access_levels"
  shows "verify_session j now token (\<not> vexp) = Inr c"
  using assms
  by (cases "cl_ent c")
     (simp_all add: verify_session_def claim_ent_def claim_adm_def claim_int_def claim_str_def claim_access_def
        session_payload_def get_field_def)

lemma session_accepts:
  "jwt_accepts now session_required vexp (session_payload c) \<longleftrightarrow>
     of_int (cl_iat c) \<le> now \<and> (vexp \<longrightarrow> now < of_int (cl_exp c))"
  by (simp add: jwt_accepts_def session_required_def session_payload_def get_field_def)

definition session_live :: "rat \<Rightarrow> bool \<Rightarrow> session_claims \<Rightarrow> bool" where
  "session_live now ignore_exp c \<longleftrightarrow> of_int (cl_iat c) \<le> now \<and> (ignore_exp \<or> now < of_int (cl_exp c))"

lemma verify_issued:
  assumes "honest_jwt j" and "cl_acc c \<in> access_levels"
  shows "session_live now ignore_exp c \<Longrightarrow> verify_session j now (jwt_encode j (session_payload c)) ignore_exp = Inr c"
    and "\<not> session_live now ignore_exp c \<Longrightarrow>
      \<exists>e. verify_session j now (jwt_encode j (session_payload c)) ignore_exp = Inl e"
proof -
  have kind: "get_field (session_payload c) ''typ'' = JStr typ_session"
    by (simp add: session_payload_def get_field_def)
  note decode = decode_signed [OF assms(1), of now "session_payload c" typ_session session_required "\<not> ignore_exp"]
  show "verify_session j now (jwt_encode j (session_payload c)) ignore_exp = Inr c" if "session_live now ignore_exp c"
    using that decode session_claims_read [OF kind _ refl assms(2), of j now _ "\<not> ignore_exp"]
    by (auto simp: kind session_accepts session_live_def)
  assume "\<not> session_live now ignore_exp c"
  with decode have "\<nexists>got. decode_token j now (jwt_encode j (session_payload c)) typ_session session_required (\<not> ignore_exp) = Inr got"
    by (auto simp: session_accepts session_live_def)
  then obtain e where
    "decode_token j now (jwt_encode j (session_payload c)) typ_session session_required (\<not> ignore_exp) = Inl e"
    by (meson sum.exhaust)
  then show "\<exists>e. verify_session j now (jwt_encode j (session_payload c)) ignore_exp = Inl e"
    by (simp add: verify_session_def)
qed

text \<open>Neither kind of token passes for the other.\<close>

lemma wrong_kind:
  assumes "honest_jwt j"
  shows "\<exists>e. verify_session j now (jwt_encode j (play_payload p)) ignore_exp = Inl e"
    and "\<exists>e. verify_play_token j now (jwt_encode j (session_payload c)) = Inl e"
proof -
  have "\<nexists>got. decode_token j now (jwt_encode j (play_payload p)) typ_session session_required (\<not> ignore_exp) = Inr got"
    using decode_signed [OF assms] by (simp add: play_payload_def get_field_def typ_session_def typ_play_def)
  then obtain e where "decode_token j now (jwt_encode j (play_payload p)) typ_session session_required (\<not> ignore_exp) = Inl e"
    by (meson sum.exhaust)
  then show "\<exists>e. verify_session j now (jwt_encode j (play_payload p)) ignore_exp = Inl e"
    by (simp add: verify_session_def)
  have "\<nexists>got. decode_token j now (jwt_encode j (session_payload c)) typ_play play_required True = Inr got"
    using decode_signed [OF assms] by (simp add: session_payload_def get_field_def typ_session_def typ_play_def)
  then obtain e where "decode_token j now (jwt_encode j (session_payload c)) typ_play play_required True = Inl e"
    by (meson sum.exhaust)
  then show "\<exists>e. verify_play_token j now (jwt_encode j (session_payload c)) = Inl e"
    by (simp add: verify_play_token_def)
qed

lemma verify_play_issued:
  assumes "honest_jwt j" and "pc_acc p \<in> access_levels" and "now < of_int (pc_exp p)"
  shows "verify_play_token j now (jwt_encode j (play_payload p)) = Inr p"
proof -
  have "decode_token j now (jwt_encode j (play_payload p)) typ_play play_required True = Inr (play_payload p)"
    using decode_signed [OF assms(1)] assms(3)
    by (simp add: play_payload_def get_field_def jwt_accepts_def play_required_def)
  then show ?thesis
    using assms(2)
    by (simp add: verify_play_token_def claim_int_def claim_str_def claim_access_def play_payload_def get_field_def)
qed

end
