(* ===== verification/Viewer.thy ===== *)
theory Viewer
  imports Session_Token Crm_Upsert Crm_Backfill
begin

text \<open>
  Who a request comes from and which calls it may read: the access decision of an open
  (\<open>services/access.py\<close>), the principal of a request (\<open>security/principal.py\<close>), the grants an
  administrator gives (\<open>services/crm_grants.py\<close>) and the scope of every read of calls
  (\<open>services/calls_repo.py\<close>). An SQL predicate is a function from a row to a truth value, a
  missing one is \<open>None\<close>, and a subquery reads the store the statement runs on.
\<close>

section \<open>The access decision\<close>

record access_decision =
  ad_level :: string
  ad_state :: "string option"

definition decide_access :: "bool \<Rightarrow> bitrix_error option \<Rightarrow> bool \<Rightarrow> bool \<Rightarrow> access_decision" where
  "decide_access is_admin probe_error probe_ran statistic_get =
     (if \<not> statistic_get then \<lparr>ad_level = ''denied'', ad_state = Some ''method_missing''\<rparr>
      else if is_admin then \<lparr>ad_level = ''all'', ad_state = None\<rparr>
      else if \<not> probe_ran then \<lparr>ad_level = ''denied'', ad_state = None\<rparr>
      else case probe_error of
             None \<Rightarrow> \<lparr>ad_level = ''own'', ad_state = None\<rparr>
           | Some e \<Rightarrow>
               \<lparr>ad_level = ''denied'',
                ad_state =
                  (if err_class e \<in> {AccessDenied, InvalidCredentials} then None
                   else if err_class e = InsufficientScope then Some ''scope''
                   else if err_class e = MethodNotFound then Some ''method_missing''
                   else Some ''retry'')\<rparr>)"

section \<open>Tables\<close>

record viewer_portal =
  vp_member :: string
  vp_status :: string
  vp_crm_mode :: string
  vp_opt_out :: "rat option"
  vp_purge :: bool
  vp_capabilities :: claim_set

record grant =
  gr_user :: int
  gr_kind :: string
  gr_departments :: "int list"
  gr_crm :: bool
  gr_calls :: bool
  gr_by :: int
  gr_at :: rat
  gr_note :: string

text \<open>The departments of each employee, by portal and user, as the employee refresh stores them.\<close>

record viewer_store =
  vs_crm :: crm_store
  vs_portals :: "(int, viewer_portal) dict"
  vs_departments :: "(int \<times> int, int list) dict"
  vs_grants :: "(int \<times> int, grant) dict"

section \<open>Grants\<close>

definition kind_portal :: string where "kind_portal = ''portal''"
definition kind_departments :: string where "kind_departments = ''departments''"
definition grant_kinds :: "string list" where "grant_kinds = [kind_portal, kind_departments]"
definition max_departments :: nat where "max_departments = 64"
definition max_note_chars :: nat where "max_note_chars = 500"

definition load_grant :: "int \<Rightarrow> int \<Rightarrow> 'a viewer_store_scheme \<Rightarrow> grant option" where
  "load_grant pid user st = map_of (vs_grants st) (pid, user)"

definition list_grants :: "int \<Rightarrow> 'a viewer_store_scheme \<Rightarrow> grant list" where
  "list_grants pid st =
     sort_key (\<lambda>g. (- gr_at g, gr_user g)) (map snd (filter (\<lambda>((p, u), g). p = pid) (vs_grants st)))"

definition check_grant ::
  "int \<Rightarrow> string \<Rightarrow> int list \<Rightarrow> bool \<Rightarrow> bool \<Rightarrow> int \<Rightarrow> (py_error, int list) result" where
  "check_grant user kind ids crm calls_too by_user =
     (if kind \<notin> set grant_kinds then Inl ValueError
      else (let departments = sorted_ids ids
            in if kind = kind_departments \<and> departments = [] then Inl ValueError
               else if kind = kind_portal \<and> departments \<noteq> [] then Inl ValueError
               else if max_departments < length departments then Inl ValueError
               else if \<not> crm \<and> \<not> calls_too then Inl ValueError
               else if user = by_user then Inl ValueError
               else Inr departments))"

text \<open>The integer columns are 32 bits wide and a text has no NUL; PostgreSQL refuses anything else.\<close>

definition int32_ok :: "int \<Rightarrow> bool" where
  "int32_ok n \<longleftrightarrow> - (2 ^ 31) \<le> n \<and> n < 2 ^ 31"

definition record_event_by :: "int \<Rightarrow> int \<Rightarrow> string \<Rightarrow> claim_set \<Rightarrow> store \<Rightarrow> store" where
  "record_event_by user pid kind details s =
     s\<lparr>portal_events := portal_events s @
         [\<lparr>event_portal = pid, event_kind = kind, event_details = details, event_user = Some user\<rparr>]\<rparr>"

definition audit :: "int \<Rightarrow> int \<Rightarrow> string \<Rightarrow> claim_set \<Rightarrow> 'a viewer_store_scheme \<Rightarrow> 'a viewer_store_scheme" where
  "audit user pid kind details st =
     st\<lparr>vs_crm := (vs_crm st)\<lparr>cs_base := record_event_by user pid kind details (cs_base (vs_crm st))\<rparr>\<rparr>"

definition grant_details :: "grant \<Rightarrow> claim_set" where
  "grant_details g =
     [(''subject'', JInt (gr_user g)), (''kind'', JStr (gr_kind g)),
      (''departments'', JList (map JInt (gr_departments g))),
      (''crm'', JBool (gr_crm g)), (''calls'', JBool (gr_calls g))]"

definition set_grant ::
  "int \<Rightarrow> int \<Rightarrow> string \<Rightarrow> int list \<Rightarrow> bool \<Rightarrow> bool \<Rightarrow> int \<Rightarrow> string \<Rightarrow> 'a viewer_store_scheme \<Rightarrow>
   (exn, grant) result \<times> 'a viewer_store_scheme" where
  "set_grant pid user kind ids crm calls_too by_user note st =
     (case check_grant user kind ids crm calls_too by_user of
        Inl e \<Rightarrow> (Inl (Py e), st)
      | Inr departments \<Rightarrow>
          if \<not> list_all int32_ok (user # by_user # departments) \<or> CHR 0x00 \<in> set (take max_note_chars (strip note))
          then (Inl DatabaseError, st)
          else
            (let g = \<lparr>gr_user = user, gr_kind = kind, gr_departments = departments, gr_crm = crm,
                      gr_calls = calls_too, gr_by = by_user, gr_at = db_now (cs_base (vs_crm st)),
                      gr_note = take max_note_chars (strip note)\<rparr>
             in (Inr g, audit by_user pid ''crm_grant_set'' (grant_details g)
                          (st\<lparr>vs_grants := dict_set (pid, user) g (vs_grants st)\<rparr>))))"

definition clear_grant ::
  "int \<Rightarrow> int \<Rightarrow> int \<Rightarrow> 'a viewer_store_scheme \<Rightarrow> bool \<times> 'a viewer_store_scheme" where
  "clear_grant pid user by_user st =
     (if map_of (vs_grants st) (pid, user) = None then (False, st)
      else (True, audit by_user pid ''crm_grant_cleared'' [(''subject'', JInt user)]
                    (st\<lparr>vs_grants := filter (\<lambda>(k, g). k \<noteq> (pid, user)) (vs_grants st)\<rparr>)))"

definition department_member :: "int \<Rightarrow> grant \<Rightarrow> 'a viewer_store_scheme \<Rightarrow> int option \<Rightarrow> bool" where
  "department_member pid g st who =
     (case who of
        None \<Rightarrow> False
      | Some user \<Rightarrow>
          (case map_of (vs_departments st) (pid, user) of
             None \<Rightarrow> False
           | Some ds \<Rightarrow> set ds \<inter> set (gr_departments g) \<noteq> {}))"

type_synonym call_predicate = "call_row \<Rightarrow> bool"

definition calls_scope :: "int \<Rightarrow> grant \<Rightarrow> 'a viewer_store_scheme \<Rightarrow> call_predicate option" where
  "calls_scope pid g st =
     (if gr_kind g = kind_portal then None else Some (\<lambda>row. department_member pid g st (portal_user_id row)))"

section \<open>The principal\<close>

datatype principal_error = PrincipalError string int

record principal =
  pr_portal :: int
  pr_member :: string
  pr_user :: int
  pr_admin :: bool
  pr_access :: string
  pr_timezone :: string
  pr_lang :: string
  pr_placement :: string
  pr_entity :: "(string \<times> int) option"
  pr_issued_at :: int
  pr_grant :: "grant option"

definition bearer_token :: "string option \<Rightarrow> (principal_error, string) result" where
  "bearer_token header =
     (case header of
        None \<Rightarrow> Inl (PrincipalError ''invalid_session'' 401)
      | Some h \<Rightarrow>
          (let scheme = takeWhile (\<lambda>c. c \<noteq> CHR '' '') h;
               token = strip (tl (dropWhile (\<lambda>c. c \<noteq> CHR '' '') h))
           in if lower (strip scheme) \<noteq> ''bearer'' \<or> token = []
              then Inl (PrincipalError ''invalid_session'' 401)
              else Inr token))"

definition entity_of :: "session_claims \<Rightarrow> (principal_error, (string \<times> int) option) result" where
  "entity_of c =
     (case cl_ent c of
        None \<Rightarrow> Inr None
      | Some ent \<Rightarrow>
          (case (get_field ent ''t'', get_field ent ''id'') of
             (JStr t, JInt i) \<Rightarrow> if t = [] \<or> i \<le> 0 then Inl (PrincipalError ''invalid_session'' 401)
                                else Inr (Some (t, i))
           | _ \<Rightarrow> Inl (PrincipalError ''invalid_session'' 401)))"

definition principal_of ::
  "session_claims \<Rightarrow> 'a viewer_store_scheme \<Rightarrow> (principal_error, principal) result" where
  "principal_of c st =
     (case map_of (vs_portals st) (cl_pid c) of
        None \<Rightarrow> Inl (PrincipalError ''portal_inactive'' 401)
      | Some p \<Rightarrow>
          if vp_member p \<noteq> cl_mid c \<or> vp_status p \<noteq> ''active''
          then Inl (PrincipalError ''portal_inactive'' 401)
          else
            (let found = (if cl_adm c \<or> cl_acc c = ''all'' then None else load_grant (cl_pid c) (cl_sub c) st)
             in rbind (entity_of c) (\<lambda>ent.
                Inr \<lparr>pr_portal = cl_pid c, pr_member = vp_member p, pr_user = cl_sub c,
                     pr_admin = cl_adm c, pr_access = cl_acc c, pr_timezone = cl_tz c,
                     pr_lang = cl_lang c, pr_placement = cl_plc c, pr_entity = ent,
                     pr_issued_at = cl_iat c, pr_grant = found\<rparr>)))"

definition get_principal ::
  "jwt \<Rightarrow> rat \<Rightarrow> string option \<Rightarrow> 'a viewer_store_scheme \<Rightarrow> (principal_error, principal) result" where
  "get_principal j now header st =
     rbind (bearer_token header) (\<lambda>token.
       case verify_session j now token False of
         Inl _ \<Rightarrow> Inl (PrincipalError ''invalid_session'' 401)
       | Inr claims \<Rightarrow> principal_of claims st)"

definition require_data_access :: "principal \<Rightarrow> (principal_error, unit) result" where
  "require_data_access p =
     (if pr_access p = ''denied'' then Inl (PrincipalError ''no_stats_permission'' 403) else Inr ())"

section \<open>The scope of a read of calls\<close>

definition scope_filter ::
  "principal \<Rightarrow> 'a viewer_store_scheme \<Rightarrow> (principal_error, call_predicate option) result" where
  "scope_filter p st =
     (if pr_access p = ''all'' then Inr None
      else if pr_access p = ''own''
      then (case pr_grant p of
              Some g \<Rightarrow> if gr_calls g then Inr (calls_scope (pr_portal p) g st)
                        else Inr (Some (\<lambda>row. portal_user_id row = Some (pr_user p)))
            | None \<Rightarrow> Inr (Some (\<lambda>row. portal_user_id row = Some (pr_user p))))
      else Inl (PrincipalError ''no_stats_permission'' 403))"

definition base_select ::
  "principal \<Rightarrow> 'a viewer_store_scheme \<Rightarrow> (principal_error, call_row list) result" where
  "base_select p st =
     rbind (scope_filter p st) (\<lambda>scope.
       Inr (filter (\<lambda>row. case scope of None \<Rightarrow> True | Some f \<Rightarrow> f row)
              (map (\<lambda>(k, c). call_data c)
                (filter (\<lambda>((pid, i), c). pid = pr_portal p) (calls (cs_base (vs_crm st)))))))"

section \<open>The match of a CRM tab\<close>

text \<open>
  The pairs of the context, the activities bound to it, and the entity itself. A key that is
  not a pair of a type and a number is skipped.
\<close>

definition entity_clause :: "json \<Rightarrow> (py_error, (string \<times> int) option) result" where
  "entity_clause v =
     (case v of
        JList [JStr t, JBool b] \<Rightarrow> Inr None
      | JList [JStr t, n] \<Rightarrow>
          (case py_int n of
             Inr i \<Rightarrow> Inr (Some (t, i))
           | Inl e \<Rightarrow> if e \<in> {TypeError, ValueError} then Inr None else Inl e)
      | _ \<Rightarrow> Inr None)"

record crm_context =
  cx_type :: string
  cx_id :: int
  cx_keys :: "json list"
  cx_activities :: "int list"

definition crm_match_clause :: "crm_context \<Rightarrow> string \<Rightarrow> int \<Rightarrow> (py_error, call_predicate) result" where
  "crm_match_clause ctx own_type own_id =
     rbind (rmap entity_clause (cx_keys ctx)) (\<lambda>keys.
       Inr (\<lambda>row.
         list_ex (\<lambda>k. case k of None \<Rightarrow> False
                      | Some (t, i) \<Rightarrow> crm_entity_type row = Some t \<and> crm_entity_id row = Some i) keys \<or>
         (case crm_activity_id row of None \<Rightarrow> False | Some a \<Rightarrow> a \<in> set (cx_activities ctx)) \<or>
         (crm_entity_type row = Some own_type \<and> crm_entity_id row = Some own_id)))"

section \<open>What a grant in the table says\<close>

definition grant_sound :: "grant \<Rightarrow> bool" where
  "grant_sound g \<longleftrightarrow>
     gr_user g \<noteq> gr_by g \<and> (gr_crm g \<or> gr_calls g) \<and> length (gr_note g) \<le> max_note_chars \<and>
     sorted (gr_departments g) \<and> distinct (gr_departments g) \<and> length (gr_departments g) \<le> max_departments \<and>
     (gr_kind g = kind_portal \<and> gr_departments g = [] \<or> gr_kind g = kind_departments \<and> gr_departments g \<noteq> [])"

definition grant_audited :: "int \<Rightarrow> grant \<Rightarrow> portal_event list \<Rightarrow> bool" where
  "grant_audited pid g es \<longleftrightarrow>
     (\<exists>e \<in> set es. event_portal e = pid \<and> event_kind e = ''crm_grant_set'' \<and> event_user e = Some (gr_by g) \<and>
        event_details e = grant_details g)"

definition grants_inv :: "'a viewer_store_scheme \<Rightarrow> bool" where
  "grants_inv st \<longleftrightarrow> (\<forall>pid user g. map_of (vs_grants st) (pid, user) = Some g \<longrightarrow>
     gr_user g = user \<and> grant_sound g \<and> grant_audited pid g (portal_events (cs_base (vs_crm st))))"

text \<open>Everything that writes the table, in any order; the events only grow elsewhere.\<close>

inductive grant_step :: "viewer_store \<Rightarrow> viewer_store \<Rightarrow> bool" where
  give: "grant_step st (snd (set_grant pid user kind ids crm calls_too by_user note st))"
| clear: "grant_step st (snd (clear_grant pid user by_user st))"
| elsewhere: "vs_grants st' = vs_grants st \<Longrightarrow>
    set (portal_events (cs_base (vs_crm st))) \<subseteq> set (portal_events (cs_base (vs_crm st'))) \<Longrightarrow> grant_step st st'"

lemma check_grant_sound:
  assumes "check_grant user kind ids crm calls_too by_user = Inr ds"
  shows "user \<noteq> by_user \<and> (crm \<or> calls_too) \<and> sorted ds \<and> distinct ds \<and> length ds \<le> max_departments \<and>
    (kind = kind_portal \<and> ds = [] \<or> kind = kind_departments \<and> ds \<noteq> []) \<and> set ds = set ids"
proof -
  have ids: "set (sorted_ids ids) = set ids" "sorted (sorted_ids ids)" "distinct (sorted_ids ids)"
    by (simp_all add: sorted_ids_def)
  have kinds: "kind_portal \<noteq> kind_departments"
    by (simp add: kind_portal_def kind_departments_def)
  have "ds = sorted_ids ids"
    using assms by (simp add: check_grant_def Let_def split: if_splits)
  with assms ids kinds show ?thesis
    by (auto simp: check_grant_def grant_kinds_def Let_def split: if_splits)
qed

lemma audit_frame [simp]:
  "vs_grants (audit user pid kind details st) = vs_grants st"
  "portal_events (cs_base (vs_crm (audit user pid kind details st))) =
     portal_events (cs_base (vs_crm st)) @
       [\<lparr>event_portal = pid, event_kind = kind, event_details = details, event_user = Some user\<rparr>]"
  by (simp_all add: audit_def record_event_by_def)

lemma grant_audited_mono: "grant_audited pid g es \<Longrightarrow> set es \<subseteq> set es' \<Longrightarrow> grant_audited pid g es'"
  by (auto simp: grant_audited_def)

lemma set_grant_inv:
  assumes "grants_inv st"
  shows "grants_inv (snd (set_grant pid user kind ids crm calls_too by_user note st))"
proof (cases "\<exists>ds. check_grant user kind ids crm calls_too by_user = Inr ds \<and>
    list_all int32_ok (user # by_user # ds) \<and> CHR 0x00 \<notin> set (take max_note_chars (strip note))")
  case False
  then have "snd (set_grant pid user kind ids crm calls_too by_user note st) = st"
    by (auto simp: set_grant_def split: sum.splits)
  with assms show ?thesis by simp
next
  case True
  then obtain ds where ds: "check_grant user kind ids crm calls_too by_user = Inr ds" "list_all int32_ok (user # by_user # ds)"
    "CHR 0x00 \<notin> set (take max_note_chars (strip note))"
    by blast
  define g where "g = \<lparr>gr_user = user, gr_kind = kind, gr_departments = ds, gr_crm = crm, gr_calls = calls_too,
    gr_by = by_user, gr_at = db_now (cs_base (vs_crm st)), gr_note = take max_note_chars (strip note)\<rparr>"
  have run: "snd (set_grant pid user kind ids crm calls_too by_user note st) =
    audit by_user pid ''crm_grant_set'' (grant_details g) (st\<lparr>vs_grants := dict_set (pid, user) g (vs_grants st)\<rparr>)"
    using ds by (simp add: set_grant_def g_def Let_def)
  have "grant_sound g"
    using check_grant_sound [OF ds(1)] by (simp add: grant_sound_def g_def)
  moreover have "gr_user g = user" "gr_by g = by_user" by (simp_all add: g_def)
  ultimately show ?thesis
    using assms unfolding grants_inv_def run
    by (auto simp: map_of_dict_set grant_audited_def split: if_splits)
qed

lemma clear_grant_lookup:
  "map_of (vs_grants (snd (clear_grant pid user by_user st))) k =
     (if k = (pid, user) then None else map_of (vs_grants st) k)"
proof -
  have "map_of (filter (\<lambda>(k', g). k' \<noteq> k0) t) k = (if k = k0 then None else map_of t k)" for t :: "(int \<times> int, grant) dict" and k0
    by (induction t) auto
  then show ?thesis by (auto simp: clear_grant_def)
qed

lemma clear_grant_events:
  "set (portal_events (cs_base (vs_crm st))) \<subseteq> set (portal_events (cs_base (vs_crm (snd (clear_grant pid user by_user st)))))"
  by (auto simp: clear_grant_def)

lemma grant_step_inv:
  assumes "grant_step st st'" and "grants_inv st"
  shows "grants_inv st'"
  using assms(1)
proof cases
  case (give pid user kind ids crm calls_too by_user remark)
  with assms(2) show ?thesis by (simp add: set_grant_inv)
next
  case (clear pid user by_user)
  have "gr_user g = u \<and> grant_sound g \<and> grant_audited p g (portal_events (cs_base (vs_crm st')))"
    if "map_of (vs_grants st') (p, u) = Some g" for p u g
  proof -
    have "map_of (vs_grants st) (p, u) = Some g"
      using that unfolding clear clear_grant_lookup by (simp split: if_splits)
    with assms(2) clear_grant_events [of st pid user by_user] show ?thesis
      unfolding grants_inv_def clear by (blast intro: grant_audited_mono)
  qed
  then show ?thesis by (simp add: grants_inv_def)
next
  case elsewhere
  with assms(2) show ?thesis
    unfolding grants_inv_def elsewhere(1) by (blast intro: grant_audited_mono)
qed

section \<open>What a principal may read\<close>

text \<open>The rule, row by row: everything, one's own, or what a stored grant opens.\<close>

definition may_read :: "principal \<Rightarrow> 'a viewer_store_scheme \<Rightarrow> call_row \<Rightarrow> bool" where
  "may_read p st row \<longleftrightarrow>
     pr_access p = ''all'' \<or>
     (pr_access p = ''own'' \<and>
       (case pr_grant p of
          Some g \<Rightarrow> if gr_calls g then gr_kind g = kind_portal \<or> department_member (pr_portal p) g st (portal_user_id row)
                    else portal_user_id row = Some (pr_user p)
        | None \<Rightarrow> portal_user_id row = Some (pr_user p)))"

lemma scope_filter_reads:
  "scope_filter p st = Inr scope \<Longrightarrow> (case scope of None \<Rightarrow> True | Some f \<Rightarrow> f row) = may_read p st row"
  by (auto simp: scope_filter_def may_read_def calls_scope_def split: option.splits if_splits)

lemma scope_filter_total: "(\<exists>scope. scope_filter p st = Inr scope) \<longleftrightarrow> pr_access p \<in> {''all'', ''own''}"
  by (auto simp: scope_filter_def split: option.split)

lemma base_select_Inr:
  "base_select p st = Inr rs \<longleftrightarrow> pr_access p \<in> {''all'', ''own''} \<and>
     rs = filter (may_read p st) (map (\<lambda>(k, c). call_data c)
       (filter (\<lambda>((pid, i), c). pid = pr_portal p) (calls (cs_base (vs_crm st)))))"
proof (cases "scope_filter p st")
  case (Inl e)
  with scope_filter_total [of p st] show ?thesis by (simp add: base_select_def)
next
  case (Inr scope)
  have "(\<lambda>row. case scope of None \<Rightarrow> True | Some f \<Rightarrow> f row) = may_read p st"
    using scope_filter_reads [OF Inr] by (rule ext)
  with Inr scope_filter_total [of p st] show ?thesis by (auto simp: base_select_def)
qed

lemma principal_of_Inr:
  assumes "principal_of c st = Inr p"
  shows "pr_portal p = cl_pid c \<and> pr_user p = cl_sub c \<and> pr_access p = cl_acc c \<and> pr_admin p = cl_adm c \<and>
    pr_grant p = (if cl_adm c \<or> cl_acc c = ''all'' then None else load_grant (cl_pid c) (cl_sub c) st) \<and>
    (\<exists>v. map_of (vs_portals st) (cl_pid c) = Some v \<and> vp_member v = cl_mid c \<and> vp_status v = ''active'')"
  using assms by (auto simp: principal_of_def Let_def rbind_Inr_iff split: option.splits if_splits)

lemma get_principal_Inr:
  assumes "get_principal j now header st = Inr p"
  obtains token c where "bearer_token header = Inr token" "verify_session j now token False = Inr c" "principal_of c st = Inr p"
proof -
  obtain token where token: "bearer_token header = Inr token"
    and rest: "(case verify_session j now token False of Inl _ \<Rightarrow> Inl (PrincipalError ''invalid_session'' 401)
       | Inr claims \<Rightarrow> principal_of claims st) = Inr p"
    using assms by (auto simp: get_principal_def rbind_Inr_iff)
  then obtain c where "verify_session j now token False = Inr c" "principal_of c st = Inr p"
    by (cases "verify_session j now token False") simp_all
  with token show thesis by (rule that)
qed

end
