(* ===== verification/Crm_Scope.thy ===== *)
theory Crm_Scope
  imports Viewer Crm_Fetch
begin

text \<open>
  \<open>services/crm_scope.py\<close>: what Bitrix24 itself proves one viewer may read. The portal's grid of
  funnels and assignees is asked about with the viewer's own token, the answers are kept as a
  positive list of cells, and a predicate serves those cells and nothing else.
\<close>

section \<open>State\<close>

definition verdict_ok :: string where "verdict_ok = ''ok''"
definition verdict_empty :: string where "verdict_empty = ''empty''"
definition verdict_unprovable :: string where "verdict_unprovable = ''unprovable''"
definition sentinel_user_id :: int where "sentinel_user_id = 2147483647"

record viewer_scope =
  sv_user :: int
  sv_resolved_at :: rat
  sv_generation :: int
  sv_deal_verdict :: string
  sv_lead_verdict :: string
  sv_deal_reason :: string
  sv_lead_reason :: string
  sv_cells :: "(int \<times> int) list"
  sv_leads :: "int list"
  sv_truncated :: bool
  sv_commands :: int

definition measured_nothing :: "viewer_scope \<Rightarrow> bool" where
  "measured_nothing v \<longleftrightarrow> sv_deal_verdict v = verdict_unprovable \<and> sv_lead_verdict v = verdict_unprovable"

record scope_store = viewer_store +
  st_scopes :: "(int \<times> int, viewer_scope) dict"

record scope_settings =
  sg_enabled :: bool
  sg_ttl :: rat
  sg_max_cells :: nat
  sg_per_batch :: nat

section \<open>What is asked\<close>

datatype census_entity = CensusDeal | CensusLead

definition entity_name :: "census_entity \<Rightarrow> string" where
  "entity_name e = (case e of CensusDeal \<Rightarrow> ''deal'' | CensusLead \<Rightarrow> ''lead'')"

definition scope_dialect :: "census_entity \<Rightarrow> string \<Rightarrow> mirror_dialect" where
  "scope_dialect e name =
     (case e of
        CensusDeal \<Rightarrow> if name = dialect_legacy then deal_legacy else deal_item
      | CensusLead \<Rightarrow> if name = dialect_legacy then lead_legacy else lead_item)"

definition learned_dialect ::
  "int \<Rightarrow> census_entity \<Rightarrow> 'a scope_store_scheme \<Rightarrow> (py_error, mirror_dialect) result" where
  "learned_dialect pid e st =
     (case map_of (cs_lanes (vs_crm st)) (pid, entity_name e @ ''.backfill'') of
        None \<Rightarrow> Inr (scope_dialect e dialect_item)
      | Some l \<Rightarrow> rbind (backfill_from_json (ln_cursor l)) (\<lambda>c. Inr (scope_dialect e (bc_dialect c))))"

text \<open>
  The rows the grid is made of, and the moment a group was last touched; PostgreSQL puts an
  unknown moment first in a descending order.
\<close>

definition grid_row :: "int \<Rightarrow> int \<Rightarrow> (int \<times> int \<times> int) \<times> stored_item \<Rightarrow> bool" where
  "grid_row pid entity = (\<lambda>((p, e, i), r).
     p = pid \<and> e = entity \<and> si_deleted_at r = None \<and> si_unreadable_since r = None \<and>
     cd_assigned_by_id (si_data r) \<noteq> None)"

definition touched_at :: "stored_item \<Rightarrow> rat option" where
  "touched_at r = (case cd_updated_time (si_data r) of None \<Rightarrow> cd_created_time (si_data r) | Some t \<Rightarrow> Some t)"

definition recent_first ::
  "((int \<times> int \<times> int) \<times> stored_item \<Rightarrow> 'g option) \<Rightarrow> item_table \<Rightarrow> 'g list" where
  "recent_first key_of t =
     sort_key (\<lambda>g. case max_opt (List.map_filter (\<lambda>kr. if key_of kr = Some g then touched_at (snd kr) else None) t) of
                     None \<Rightarrow> (0 :: nat, 0 :: rat) | Some m \<Rightarrow> (1, - m))
       (remdups (List.map_filter key_of t))"

definition deal_cell :: "int \<Rightarrow> (int \<times> int \<times> int) \<times> stored_item \<Rightarrow> (int \<times> int) option" where
  "deal_cell pid kr =
     (if grid_row pid entity_deal kr
      then (case (cd_category_id (si_data (snd kr)), cd_assigned_by_id (si_data (snd kr))) of
              (Some cat, Some uid) \<Rightarrow> Some (cat, uid) | _ \<Rightarrow> None)
      else None)"

definition lead_cell :: "int \<Rightarrow> (int \<times> int \<times> int) \<times> stored_item \<Rightarrow> int option" where
  "lead_cell pid kr =
     (if grid_row pid entity_lead kr then cd_assigned_by_id (si_data (snd kr)) else None)"

definition candidate_grid :: "nat \<Rightarrow> int \<Rightarrow> item_table \<Rightarrow> (int \<times> int) list \<times> int list \<times> bool" where
  "candidate_grid cap pid t =
     (let cells = take (cap + 1) (recent_first (deal_cell pid) t);
          leads = take (cap + 1) (recent_first (lead_cell pid) t)
      in (take cap cells, take cap leads, cap < length cells \<or> cap < length leads))"

definition sentinel_key :: "census_entity \<Rightarrow> string" where
  "sentinel_key e = ''s.'' @ entity_name e"

definition deal_commands :: "mirror_dialect \<Rightarrow> (int \<times> int) list \<Rightarrow> (py_error, command list) result" where
  "deal_commands d cells =
     (if cells = [] then Inr []
      else rbind (census_command d (sentinel_key CensusDeal) sentinel_user_id (Some (fst (hd cells)))) (\<lambda>s.
           rbind (rmap (\<lambda>(cat, uid). census_command d (census_key d uid (Some cat)) uid (Some cat)) cells) (\<lambda>cs.
             Inr (s # cs))))"

definition lead_commands :: "mirror_dialect \<Rightarrow> int list \<Rightarrow> (py_error, command list) result" where
  "lead_commands d leads =
     (if leads = [] then Inr []
      else rbind (census_command d (sentinel_key CensusLead) sentinel_user_id None) (\<lambda>s.
           rbind (rmap (\<lambda>uid. census_command d (census_key d uid None) uid None) leads) (\<lambda>cs.
             Inr (s # cs))))"

definition census_commands ::
  "mirror_dialect \<Rightarrow> mirror_dialect \<Rightarrow> (int \<times> int) list \<Rightarrow> int list \<Rightarrow> (py_error, command list) result" where
  "census_commands deal lead cells leads =
     rbind (deal_commands deal cells) (\<lambda>ds. rbind (lead_commands lead leads) (\<lambda>ls. Inr (ds @ ls)))"

section \<open>What is read back\<close>

record census_acc =
  ca_cells :: "(int \<times> int) list"
  ca_leads :: "int list"
  ca_deal_reason :: "string option"
  ca_lead_reason :: "string option"
  ca_sent :: int

text \<open>A reason stands for the broken flag that is set with it.\<close>

definition no_census :: census_acc where
  "no_census = \<lparr>ca_cells = [], ca_leads = [], ca_deal_reason = None, ca_lead_reason = None, ca_sent = 0\<rparr>"

definition break_entity :: "census_entity \<Rightarrow> string \<Rightarrow> census_acc \<Rightarrow> census_acc" where
  "break_entity e reason acc =
     (case e of CensusDeal \<Rightarrow> acc\<lparr>ca_deal_reason := Some reason\<rparr> | CensusLead \<Rightarrow> acc\<lparr>ca_lead_reason := Some reason\<rparr>)"

definition entity_of_key :: "string \<Rightarrow> census_entity" where
  "entity_of_key key =
     (if starts_with ''d.'' key \<or> starts_with ''s.deal'' key then CensusDeal else CensusLead)"

definition batch_error :: "batch_result \<Rightarrow> string \<Rightarrow> bitrix_error option" where
  "batch_error b key = (case find_command b key of None \<Rightarrow> None | Some c \<Rightarrow> cmd_error c)"

definition asked_int :: "(string, json) dict \<Rightarrow> string \<Rightarrow> (py_error, int) result" where
  "asked_int params name =
     rbind (lookup_key params ''filter'') (\<lambda>f.
       case f of JDict d \<Rightarrow> rbind (lookup_key d name) py_int | _ \<Rightarrow> Inl TypeError)"

text \<open>The assignee a command asked about, and its funnel where it is one of deals.\<close>

definition asked_cell :: "mirror_dialect \<Rightarrow> census_entity \<Rightarrow> command \<Rightarrow> (py_error, int \<times> int option) result" where
  "asked_cell d e cmd =
     (let params = snd (snd cmd)
      in rbind (wire_at d ''assigned_by_id'') (\<lambda>who.
         rbind (asked_int params who) (\<lambda>uid.
         case e of
           CensusLead \<Rightarrow> Inr (uid, None)
         | CensusDeal \<Rightarrow> rbind (wire_at d ''category_id'') (\<lambda>fname.
                          rbind (asked_int params fname) (\<lambda>cat. Inr (uid, Some cat))))))"

definition count_cell ::
  "census_entity \<Rightarrow> census_acc \<Rightarrow> int option \<Rightarrow> int \<Rightarrow> bool option \<Rightarrow> (py_error, census_acc) result" where
  "count_cell e acc cat uid proven =
     (case proven of
        None \<Rightarrow> Inr (break_entity e ''shape'' acc)
      | Some False \<Rightarrow> Inr acc
      | Some True \<Rightarrow> (case cat of
            Some n \<Rightarrow> Inr (acc\<lparr>ca_cells := ca_cells acc @ [(n, uid)]\<rparr>)
          | None \<Rightarrow> Inr (acc\<lparr>ca_leads := ca_leads acc @ [uid]\<rparr>)))"

definition census_reply ::
  "(census_entity \<Rightarrow> mirror_dialect) \<Rightarrow> batch_result \<Rightarrow> command \<Rightarrow> census_acc \<Rightarrow> (py_error, census_acc) result" where
  "census_reply ds b cmd acc =
     (let key = fst cmd; e = entity_of_key key; d = ds e; v = batch_get b key
      in if batch_error b key \<noteq> None then Inr acc
         else if key = sentinel_key e
         then (if mirror_page_rows d v = Some [] then Inr acc else Inr (break_entity e ''sentinel'' acc))
         else rbind (asked_cell d e cmd) (\<lambda>(uid, cat).
              rbind (census_proven d v uid cat) (count_cell e acc cat uid)))"

function chunks_of :: "nat \<Rightarrow> 'a list \<Rightarrow> 'a list list" where
  "chunks_of n [] = []"
| "chunks_of n (x # xs) = take (max 1 n) (x # xs) # chunks_of n (drop (max 1 n) (x # xs))"
  by pat_completeness auto

termination
  by (relation "measure (\<lambda>(n, xs). length xs)") auto

declare chunks_of.simps [simp del]

definition exn_name :: "exn \<Rightarrow> string" where
  "exn_name e =
     (case e of
        Bitrix b \<Rightarrow> class_name (err_class b)
      | Py ValueError \<Rightarrow> ''ValueError'' | Py OverflowError \<Rightarrow> ''OverflowError''
      | Py KeyError \<Rightarrow> ''KeyError'' | Py TypeError \<Rightarrow> ''TypeError''
      | Py UnicodeError \<Rightarrow> ''UnicodeEncodeError'' | Py InvalidOperation \<Rightarrow> ''InvalidOperation''
      | Py IndexError \<Rightarrow> ''IndexError'' | FenceLost \<Rightarrow> ''FenceLost'' | DatabaseError \<Rightarrow> ''DBAPIError'')"

text \<open>A batch that fails is a verdict on both entities and ends the census; it is never raised.\<close>

fun census_batches ::
  "'o outside_scheme \<Rightarrow> client \<Rightarrow> (census_entity \<Rightarrow> mirror_dialect) \<Rightarrow> command list list \<Rightarrow> census_acc \<Rightarrow>
   ('n net_scheme, exn, census_acc) prog" where
  "census_batches c cl ds [] acc w = (Inr acc, w)"
| "census_batches c cl ds (chunk # rest) acc w =
     (case batch c cl chunk False w of
        (Inl e, w') \<Rightarrow>
          (Inr (acc\<lparr>ca_deal_reason := Some (''batch:'' @ exn_name e),
                    ca_lead_reason := Some (''batch:'' @ exn_name e)\<rparr>), w')
      | (Inr b, w') \<Rightarrow>
          (case rfold (census_reply ds b) chunk (acc\<lparr>ca_sent := ca_sent acc + int (length chunk)\<rparr>) of
             Inl e \<Rightarrow> (Inl (Py e), w')
           | Inr acc' \<Rightarrow> census_batches c cl ds rest acc' w'))"

definition entity_verdict :: "string option \<Rightarrow> bool \<Rightarrow> string" where
  "entity_verdict why nothing =
     (if why \<noteq> None then verdict_unprovable else if nothing then verdict_empty else verdict_ok)"

definition census_scope ::
  "int \<Rightarrow> rat \<Rightarrow> int \<Rightarrow> (int \<times> int) list \<times> int list \<times> bool \<Rightarrow> census_acc \<Rightarrow> viewer_scope" where
  "census_scope user now gen grid acc =
     (let (cells, leads, truncated) = grid
      in \<lparr>sv_user = user, sv_resolved_at = now, sv_generation = gen,
          sv_deal_verdict = entity_verdict (ca_deal_reason acc) (cells = []),
          sv_lead_verdict = entity_verdict (ca_lead_reason acc) (leads = []),
          sv_deal_reason = take 40 (case ca_deal_reason acc of None \<Rightarrow> [] | Some r \<Rightarrow> r),
          sv_lead_reason = take 40 (case ca_lead_reason acc of None \<Rightarrow> [] | Some r \<Rightarrow> r),
          sv_cells = (if ca_deal_reason acc \<noteq> None then [] else ca_cells acc),
          sv_leads = (if ca_lead_reason acc \<noteq> None then [] else ca_leads acc),
          sv_truncated = truncated, sv_commands = min (ca_sent acc) 32767\<rparr>)"

definition generation_of :: "int \<Rightarrow> 'a scope_store_scheme \<Rightarrow> int" where
  "generation_of pid st =
     (case map_of (sync (cs_base (vs_crm st))) pid of None \<Rightarrow> 0 | Some r \<Rightarrow> sync_generation r)"

definition store_scope :: "int \<Rightarrow> viewer_scope \<Rightarrow> 'a scope_store_scheme \<Rightarrow> 'a scope_store_scheme" where
  "store_scope pid v st = st\<lparr>st_scopes := dict_set (pid, sv_user v) v (st_scopes st)\<rparr>"

definition run_census ::
  "'o outside_scheme \<Rightarrow> scope_settings \<Rightarrow> int \<Rightarrow> int \<Rightarrow> client \<Rightarrow> 'a scope_store_scheme \<Rightarrow> 'n net_scheme \<Rightarrow>
   (exn, viewer_scope) result \<times> 'a scope_store_scheme \<times> 'n net_scheme" where
  "run_census c sg pid user cl st w =
     (case rbind (learned_dialect pid CensusDeal st) (\<lambda>deal.
           rbind (learned_dialect pid CensusLead st) (\<lambda>lead.
           let grid = candidate_grid (sg_max_cells sg) pid (cs_items (vs_crm st))
           in rbind (census_commands deal lead (fst grid) (fst (snd grid))) (\<lambda>cmds.
              Inr (deal, lead, grid, cmds)))) of
        Inl e \<Rightarrow> (Inl (Py e), st, w)
      | Inr (deal, lead, grid, cmds) \<Rightarrow>
          (case census_batches c cl (case_census_entity deal lead)
                  (chunks_of (min (sg_per_batch sg) max_batch_commands) cmds) no_census w of
             (Inl e, w') \<Rightarrow> (Inl e, st, w')
           | (Inr acc, w') \<Rightarrow>
               (let v = census_scope user (db_now (cs_base (vs_crm st))) (generation_of pid st) grid acc
                in (Inr v, store_scope pid v st, w'))))"

section \<open>Reading a census back\<close>

definition load_scope :: "scope_settings \<Rightarrow> int \<Rightarrow> int \<Rightarrow> rat \<Rightarrow> 'a scope_store_scheme \<Rightarrow> viewer_scope option" where
  "load_scope sg pid user now st =
     (case map_of (st_scopes st) (pid, user) of
        None \<Rightarrow> None
      | Some v \<Rightarrow>
          if sv_generation v \<noteq> generation_of pid st then None
          else if sg_ttl sg < now - sv_resolved_at v then None
          else if measured_nothing v then None
          else Some v)"

type_synonym item_predicate = "(int \<times> int \<times> int) \<times> stored_item \<Rightarrow> bool"

definition deal_term :: "viewer_scope \<Rightarrow> stored_item \<Rightarrow> bool" where
  "deal_term v r \<longleftrightarrow>
     sv_deal_verdict v = verdict_ok \<and> sv_cells v \<noteq> [] \<and>
     (case (cd_category_id (si_data r), cd_assigned_by_id (si_data r)) of
        (Some cat, Some uid) \<Rightarrow> uid \<in> snd ` set (sv_cells v) \<and> (cat, uid) \<in> set (sv_cells v)
      | _ \<Rightarrow> False)"

definition lead_term :: "viewer_scope \<Rightarrow> stored_item \<Rightarrow> bool" where
  "lead_term v r \<longleftrightarrow>
     sv_lead_verdict v = verdict_ok \<and> sv_leads v \<noteq> [] \<and>
     (case cd_assigned_by_id (si_data r) of Some uid \<Rightarrow> uid \<in> set (sv_leads v) | None \<Rightarrow> False)"

definition scope_predicate :: "viewer_scope \<Rightarrow> item_predicate" where
  "scope_predicate v = (\<lambda>((p, e, i), r).
     si_unreadable_since r = None \<and>
     (e = entity_deal \<and> deal_term v r \<or> e = entity_lead \<and> lead_term v r))"

definition scope_json :: "viewer_scope option \<Rightarrow> (rat \<Rightarrow> string) \<Rightarrow> (string, json) dict" where
  "scope_json v fmt =
     (case v of
        None \<Rightarrow> [(''state'', JStr ''none'')]
      | Some v \<Rightarrow> [(''state'', JStr ''ready''), (''deal_verdict'', JStr (sv_deal_verdict v)),
                   (''lead_verdict'', JStr (sv_lead_verdict v)), (''truncated'', JBool (sv_truncated v)),
                   (''resolved_at'', JStr (fmt (sv_resolved_at v)))])"

section \<open>A proven cell was shown\<close>

text \<open>
  The viewer's client was shown a record of a cell: a command that filtered on it came back with
  rows, and every one of them carries the assignee and, for a deal, the funnel asked about.
\<close>

definition echoes :: "mirror_dialect \<Rightarrow> int \<Rightarrow> int option \<Rightarrow> json \<Rightarrow> bool" where
  "echoes d uid cat raw \<longleftrightarrow>
     (\<exists>row who. raw = JDict row \<and> wire_at d ''assigned_by_id'' = Inr who \<and>
        as_int_crm (get_field row who) = Inr (Some uid) \<and>
        (\<forall>n. cat = Some n \<longrightarrow> (\<exists>fname. wire_at d ''category_id'' = Inr fname \<and>
           as_int_crm (get_field row fname) = Inr (Some n))))"

definition shown ::
  "'o outside_scheme \<Rightarrow> client \<Rightarrow> 'n itself \<Rightarrow> mirror_dialect \<Rightarrow> census_entity \<Rightarrow> int \<Rightarrow> int option \<Rightarrow> bool" where
  "shown c cl t d e uid cat \<longleftrightarrow>
     (\<exists>cmds (w :: 'n net_scheme) b w' cmd page.
        batch c cl cmds False w = (Inr b, w') \<and> cmd \<in> set cmds \<and> asked_cell d e cmd = Inr (uid, cat) \<and>
        batch_error b (fst cmd) = None \<and> mirror_page_rows d (batch_get b (fst cmd)) = Some page \<and> page \<noteq> [] \<and>
        (\<forall>raw \<in> set page. echoes d uid cat raw))"

lemma census_rows_echo:
  assumes "census_rows who fname uid cat page = Inr (Some True)" and "wire_at d ''assigned_by_id'' = Inr who"
    and "\<forall>n. cat = Some n \<longrightarrow> wire_at d ''category_id'' = Inr fname"
  shows "\<forall>raw \<in> set page. echoes d uid cat raw"
  using assms(1)
proof (induction page)
  case (Cons raw page)
  obtain row where raw: "raw = JDict row"
    using Cons.prems by (cases raw) simp_all
  from Cons.prems raw obtain a where a: "as_int_crm (get_field row who) = Inr a"
    by (auto simp: rbind_Inr_iff)
  with Cons.prems raw have "a = Some uid" by (auto split: if_splits)
  show ?case
  proof (cases cat)
    case None
    with Cons.prems raw a \<open>a = Some uid\<close> have "census_rows who fname uid cat page = Inr (Some True)" by simp
    with Cons.IH raw a \<open>a = Some uid\<close> None assms(2) show ?thesis by (auto simp: echoes_def)
  next
    case (Some n)
    with Cons.prems raw a \<open>a = Some uid\<close> obtain x where x: "as_int_crm (get_field row fname) = Inr x"
      by (auto simp: rbind_Inr_iff)
    with Cons.prems raw a \<open>a = Some uid\<close> Some have "x = Some n" "census_rows who fname uid cat page = Inr (Some True)"
      by (auto split: if_splits)
    with Cons.IH raw a \<open>a = Some uid\<close> Some x assms(2,3) show ?thesis by (auto simp: echoes_def)
  qed
qed simp

lemma census_proven_echo:
  assumes "census_proven d v uid cat = Inr (Some True)"
  shows "\<exists>page. mirror_page_rows d v = Some page \<and> page \<noteq> [] \<and> (\<forall>raw \<in> set page. echoes d uid cat raw)"
proof -
  obtain raw page where page: "mirror_page_rows d v = Some (raw # page)"
    using assms by (auto simp: census_proven_def split: option.splits list.splits)
  with assms obtain who fname where who: "wire_at d ''assigned_by_id'' = Inr who"
    and fname: "(case cat of None \<Rightarrow> Inr [] | Some _ \<Rightarrow> wire_at d ''category_id'') = Inr fname"
    and rows: "census_rows who fname uid cat (raw # page) = Inr (Some True)"
    by (auto simp: census_proven_def rbind_Inr_iff)
  have "\<forall>n. cat = Some n \<longrightarrow> wire_at d ''category_id'' = Inr fname"
    using fname by auto
  from census_rows_echo [OF rows who this] page show ?thesis by blast
qed

lemma shownI:
  fixes w :: "'n net_scheme"
  assumes "batch c cl cmds False w = (Inr b, w')" and "cmd \<in> set cmds" and "asked_cell d e cmd = Inr (uid, cat)"
    and "batch_error b (fst cmd) = None" and "mirror_page_rows d (batch_get b (fst cmd)) = Some page" and "page \<noteq> []"
    and "\<forall>raw \<in> set page. echoes d uid cat raw"
  shows "shown c cl TYPE('n) d e uid cat"
  unfolding shown_def using assms by (intro exI conjI)

definition acc_shown ::
  "'o outside_scheme \<Rightarrow> client \<Rightarrow> 'n itself \<Rightarrow> (census_entity \<Rightarrow> mirror_dialect) \<Rightarrow> census_acc \<Rightarrow> bool" where
  "acc_shown c cl t ds acc \<longleftrightarrow>
     (\<forall>(cat, uid) \<in> set (ca_cells acc). shown c cl t (ds CensusDeal) CensusDeal uid (Some cat)) \<and>
     (\<forall>uid \<in> set (ca_leads acc). shown c cl t (ds CensusLead) CensusLead uid None)"

lemma asked_cell_kind:
  "asked_cell d e cmd = Inr (uid, cat) \<Longrightarrow> (cat = None \<longleftrightarrow> e = CensusLead)"
  by (cases e) (auto simp: asked_cell_def Let_def rbind_Inr_iff)

lemma census_reply_shown:
  fixes w :: "'n net_scheme"
  assumes reply: "census_reply ds b cmd acc = Inr acc'" and before: "acc_shown c cl TYPE('n) ds acc"
    and run: "batch c cl cmds False w = (Inr b, w')" and mem: "cmd \<in> set cmds"
  shows "acc_shown c cl TYPE('n) ds acc'"
proof -
  define e where "e = entity_of_key (fst cmd)"
  have same: "acc_shown c cl TYPE('n) ds acc'" if "ca_cells acc' = ca_cells acc" "ca_leads acc' = ca_leads acc"
    using before that by (simp add: acc_shown_def)
  have kept: "ca_cells (break_entity e' reason acc) = ca_cells acc" "ca_leads (break_entity e' reason acc) = ca_leads acc"
    for e' reason by (simp_all add: break_entity_def split: census_entity.split)
  show ?thesis
  proof (cases "batch_error b (fst cmd) \<noteq> None \<or> fst cmd = sentinel_key e")
    case True
    with reply kept show ?thesis
      by (intro same) (auto simp: census_reply_def Let_def e_def split: if_splits)
  next
    case False
    then have "census_reply ds b cmd acc =
      rbind (asked_cell (ds e) e cmd) (\<lambda>(uid, cat). rbind (census_proven (ds e) (batch_get b (fst cmd)) uid cat) (count_cell e acc cat uid))"
      by (simp add: census_reply_def Let_def e_def)
    with reply obtain uid cat proven where asked: "asked_cell (ds e) e cmd = Inr (uid, cat)"
      and proven: "census_proven (ds e) (batch_get b (fst cmd)) uid cat = Inr proven"
      and acc': "count_cell e acc cat uid proven = Inr acc'"
      by (auto simp: rbind_Inr_iff)
    show ?thesis
    proof (cases "proven = Some True")
      case False
      with acc' kept show ?thesis
        by (intro same) (auto simp: count_cell_def split: option.splits bool.splits)
    next
      case True
      obtain page where page: "mirror_page_rows (ds e) (batch_get b (fst cmd)) = Some page" "page \<noteq> []"
        "\<forall>raw \<in> set page. echoes (ds e) uid cat raw"
        using census_proven_echo [OF proven [unfolded True]] by blast
      have "batch_error b (fst cmd) = None"
        using \<open>\<not> (batch_error b (fst cmd) \<noteq> None \<or> fst cmd = sentinel_key e)\<close> by simp
      from shownI [OF run mem asked this page] have "shown c cl TYPE('n) (ds e) e uid cat" .
      with acc' True before asked_cell_kind [OF asked] show ?thesis
        by (cases e) (auto simp: acc_shown_def count_cell_def split: option.splits)
    qed
  qed
qed

lemma census_batches_shown:
  fixes w :: "'n net_scheme"
  assumes "census_batches c cl ds chunks acc w = (Inr acc', w')" and "acc_shown c cl TYPE('n) ds acc"
  shows "acc_shown c cl TYPE('n) ds acc'"
  using assms
proof (induction c cl ds chunks acc w rule: census_batches.induct)
  case (2 c cl ds chunk rest acc w)
  obtain res w1 where run: "batch c cl chunk False w = (res, w1)" by fastforce
  show ?case
  proof (cases res)
    case (Inl e)
    with 2(2,3) run show ?thesis by (auto simp: acc_shown_def)
  next
    case (Inr b)
    define acc0 where "acc0 = acc\<lparr>ca_sent := ca_sent acc + int (length chunk)\<rparr>"
    from 2(2) run Inr obtain acc1 where fold: "rfold (census_reply ds b) chunk acc0 = Inr acc1"
      and rest: "census_batches c cl ds rest acc1 w1 = (Inr acc', w')"
      by (auto simp: acc0_def split: sum.splits)
    have "acc_shown c cl TYPE('n) ds acc0"
      using 2(3) by (simp add: acc_shown_def acc0_def)
    with fold have "acc_shown c cl TYPE('n) ds acc1"
      by (rule rfold_invariant) (rule census_reply_shown [OF _ _ run [unfolded Inr]])
    with 2(1) [OF run [unfolded Inr, symmetric] refl fold [unfolded acc0_def] rest] show ?thesis by simp
  qed
qed simp

section \<open>What a census opens\<close>

lemma acc_shown_none: "acc_shown c cl t ds no_census"
  by (simp add: acc_shown_def no_census_def)

lemma entity_verdict_ok: "entity_verdict why nothing = verdict_ok \<Longrightarrow> why = None \<and> \<not> nothing"
  by (auto simp: entity_verdict_def verdict_ok_def verdict_empty_def verdict_unprovable_def split: if_splits)

lemma run_census_outcome:
  assumes "run_census c sg pid user cl st w = (Inr v, st', w')"
  obtains deal lead grid acc cmds where "learned_dialect pid CensusDeal st = Inr deal" "learned_dialect pid CensusLead st = Inr lead"
    "grid = candidate_grid (sg_max_cells sg) pid (cs_items (vs_crm st))"
    "census_commands deal lead (fst grid) (fst (snd grid)) = Inr cmds"
    "census_batches c cl (case_census_entity deal lead) (chunks_of (min (sg_per_batch sg) max_batch_commands) cmds) no_census w = (Inr acc, w')"
    "v = census_scope user (db_now (cs_base (vs_crm st))) (generation_of pid st) grid acc"
    "st' = store_scope pid v st"
  using assms by (auto simp: run_census_def Let_def rbind_Inr_iff split: sum.splits prod.splits)

lemma census_scope_served:
  fixes acc :: census_acc
  assumes v: "v = census_scope user now gen grid acc" and acc: "acc_shown c cl t ds acc"
    and row: "scope_predicate v ((p, e, i), r)"
  shows "si_unreadable_since r = None \<and>
    (e = entity_deal \<and> (\<exists>cat uid. cd_category_id (si_data r) = Some cat \<and> cd_assigned_by_id (si_data r) = Some uid \<and>
       shown c cl t (ds CensusDeal) CensusDeal uid (Some cat)) \<or>
     e = entity_lead \<and> (\<exists>uid. cd_assigned_by_id (si_data r) = Some uid \<and>
       shown c cl t (ds CensusLead) CensusLead uid None))"
proof -
  have cells: "set (sv_cells v) \<subseteq> set (ca_cells acc)" "set (sv_leads v) \<subseteq> set (ca_leads acc)"
    by (auto simp: v census_scope_def split: prod.splits)
  show ?thesis
  proof (cases "e = entity_deal \<and> deal_term v r")
    case True
    then obtain cat uid where "cd_category_id (si_data r) = Some cat" "cd_assigned_by_id (si_data r) = Some uid"
      "(cat, uid) \<in> set (sv_cells v)"
      by (auto simp: deal_term_def split: option.splits)
    with True cells acc row show ?thesis by (fastforce simp: acc_shown_def scope_predicate_def)
  next
    case False
    with row have "e = entity_lead" "lead_term v r" by (auto simp: scope_predicate_def)
    then obtain uid where "cd_assigned_by_id (si_data r) = Some uid" "uid \<in> set (sv_leads v)"
      by (auto simp: lead_term_def split: option.splits)
    with \<open>e = entity_lead\<close> cells acc row show ?thesis by (auto simp: acc_shown_def scope_predicate_def)
  qed
qed

lemma run_census_served:
  fixes w :: "'n net_scheme"
  assumes "run_census c sg pid user cl st w = (Inr v, st', w')" and "scope_predicate v ((p, e, i), r)"
  shows "\<exists>deal lead. learned_dialect pid CensusDeal st = Inr deal \<and> learned_dialect pid CensusLead st = Inr lead \<and>
    si_unreadable_since r = None \<and>
    (e = entity_deal \<and> (\<exists>cat uid. cd_category_id (si_data r) = Some cat \<and> cd_assigned_by_id (si_data r) = Some uid \<and>
       shown c cl TYPE('n) deal CensusDeal uid (Some cat)) \<or>
     e = entity_lead \<and> (\<exists>uid. cd_assigned_by_id (si_data r) = Some uid \<and>
       shown c cl TYPE('n) lead CensusLead uid None))"
proof -
  obtain deal lead grid acc cmds where d: "learned_dialect pid CensusDeal st = Inr deal" "learned_dialect pid CensusLead st = Inr lead"
    and batches: "census_batches c cl (case_census_entity deal lead) (chunks_of (min (sg_per_batch sg) max_batch_commands) cmds) no_census w = (Inr acc, w')"
    and v: "v = census_scope user (db_now (cs_base (vs_crm st))) (generation_of pid st) grid acc"
    using run_census_outcome [OF assms(1)] by metis
  have "acc_shown c cl TYPE('n) (case_census_entity deal lead) acc"
    using census_batches_shown [OF batches acc_shown_none] .
  from census_scope_served [OF v this assms(2)] d show ?thesis by auto
qed

lemma census_batches_caught:
  "census_batches c cl ds chunks acc w = (Inl e, w') \<Longrightarrow> \<exists>p. e = Py p"
  by (induction c cl ds chunks acc w rule: census_batches.induct)
     (auto split: sum.splits prod.splits)

lemma run_census_stored:
  assumes "run_census c sg pid user cl st w = (Inr v, st', w')"
  shows "map_of (st_scopes st') (pid, user) = Some v \<and> sv_user v = user"
proof -
  obtain grid acc where "v = census_scope user (db_now (cs_base (vs_crm st))) (generation_of pid st) grid acc"
    "st' = store_scope pid v st"
    using run_census_outcome [OF assms] by metis
  moreover from this have "sv_user v = user" by (simp add: census_scope_def split: prod.split)
  ultimately show ?thesis by (simp add: store_scope_def map_of_dict_set)
qed

lemma load_scope_Some:
  "load_scope sg pid user now st = Some v \<longleftrightarrow>
     map_of (st_scopes st) (pid, user) = Some v \<and> sv_generation v = generation_of pid st \<and>
     now - sv_resolved_at v \<le> sg_ttl sg \<and> \<not> measured_nothing v"
  by (auto simp: load_scope_def split: option.splits if_splits)

end
