(* ===== verification/Crm_Dict.thy ===== *)
theory Crm_Dict
  imports Crm_Scope Crm_Refresh
begin

text \<open>
  \<open>sync/crm_dict.py\<close>: the funnels, their stages and the statuses of leads as one read lists them,
  the tables that keep them, and when a row a read no longer lists is marked and removed.
\<close>

section \<open>The read\<close>

definition lead_statuses_key :: string where "lead_statuses_key = ''lst''"
definition crm_settings_mode_get :: string where "crm_settings_mode_get = ''crm.settings.mode.get''"
definition crm_mode_key :: string where "crm_mode_key = ''mode''"
definition crm_mode_classic :: int where "crm_mode_classic = 1"
definition crm_mode_simple :: int where "crm_mode_simple = 2"
definition crm_mode_capability :: string where "crm_mode_capability = ''crm_bitrix_mode''"
definition remove_after :: rat where "remove_after = 24 * 3600"

record dictionary =
  dc_funnels :: "(int \<times> funnel) list"
  dc_stages :: "(int \<times> stage) list"
  dc_errors :: "bitrix_error list"
  dc_complete :: "int list"
  dc_batches :: nat
  dc_universal :: bool
  dc_time :: "block option"
  dc_mode :: "int option"
  dc_mode_answered :: bool

definition no_dictionary :: dictionary where
  "no_dictionary =
     \<lparr>dc_funnels = [], dc_stages = [], dc_errors = [], dc_complete = [], dc_batches = 0,
      dc_universal = True, dc_time = None, dc_mode = None, dc_mode_answered = False\<rparr>"

definition dictionary_complete :: "dictionary \<Rightarrow> bool" where
  "dictionary_complete dic \<longleftrightarrow> {entity_deal, entity_lead} \<subseteq> set (dc_complete dic)"

definition first_commands :: "bool \<Rightarrow> command list" where
  "first_commands universal =
     category_commands universal @
     [(lead_statuses_key, crm_status_list,
         [(''order'', JDict [(''SORT'', JStr ''ASC'')]), (''filter'', JDict [(''ENTITY_ID'', JStr ''STATUS'')])]),
      (crm_mode_key, crm_settings_mode_get, [])]"

definition error_of :: "batch_result \<Rightarrow> string \<Rightarrow> bitrix_error option" where
  "error_of b key =
     (if batch_ok b key then None
      else case batch_error b key of
             Some e \<Rightarrow> Some e
           | None \<Rightarrow> Some (classify None None (''batch answered no '' @ key) []))"

definition mode_of_value :: "json \<Rightarrow> (py_error, int option) result" where
  "mode_of_value raw =
     (case raw of
        JBool _ \<Rightarrow> Inr None
      | JInt n \<Rightarrow> Inr (if n = crm_mode_classic \<or> n = crm_mode_simple then Some n else None)
      | JStr s \<Rightarrow>
          (case py_int (JStr s) of
             Inl e \<Rightarrow> if e = ValueError then Inr None else Inl e
           | Inr n \<Rightarrow> Inr (if n = crm_mode_classic \<or> n = crm_mode_simple then Some n else None))
      | _ \<Rightarrow> Inr None)"

definition crm_mode :: "batch_result \<Rightarrow> (py_error, int option) result" where
  "crm_mode b = (if batch_ok b crm_mode_key then mode_of_value (batch_get b crm_mode_key) else Inr None)"

definition merged_time ::
  "(string \<Rightarrow> (rat \<times> rat option) option) \<Rightarrow> batch_result \<Rightarrow> (py_error, block option) result" where
  "merged_time isod b = merge_time_blocks isod (batch_time b # map cmd_time (commands b))"

definition default_funnel :: funnel where
  "default_funnel = \<lparr>fn_id = 0, fn_name = [], fn_sort = 0, fn_is_default = True\<rparr>"

definition read_leads :: "batch_result \<Rightarrow> dictionary \<Rightarrow> (py_error, dictionary) result" where
  "read_leads b out =
     (case error_of b lead_statuses_key of
        Some e \<Rightarrow> Inr (out\<lparr>dc_errors := dc_errors out @ [e]\<rparr>)
      | None \<Rightarrow>
          rbind (parse_stages 0 (batch_get b lead_statuses_key)) (\<lambda>ss.
            Inr (out\<lparr>dc_funnels := dc_funnels out @ [(entity_lead, default_funnel)],
                     dc_stages := dc_stages out @ map (Pair entity_lead) ss,
                     dc_complete := dc_complete out @ [entity_lead]\<rparr>)))"

definition with_default :: "funnel list \<Rightarrow> funnel list" where
  "with_default fs = (if list_ex (\<lambda>f. fn_id f = 0) fs then fs else default_funnel # fs)"

text \<open>One funnel's stages from a batch; the flag says that every funnel so far answered cleanly.\<close>

definition read_funnel_stages ::
  "batch_result \<Rightarrow> int \<Rightarrow> dictionary \<times> bool \<Rightarrow> (py_error, dictionary \<times> bool) result" where
  "read_funnel_stages b cid acc =
     (let (out, tidy) = acc
      in case error_of b (status_key cid) of
           Some e \<Rightarrow> Inr (out\<lparr>dc_errors := dc_errors out @ [e]\<rparr>, False)
         | None \<Rightarrow>
             rbind (parse_stages cid (batch_get b (status_key cid))) (\<lambda>ss.
               Inr (out\<lparr>dc_stages := dc_stages out @ map (Pair entity_deal) ss\<rparr>, tidy)))"

text \<open>A visit that may not make its next request ends the read with what it has, and incomplete.\<close>

fun read_stage_batches ::
  "'o fetch_outside_scheme \<Rightarrow> (nat \<Rightarrow> block option \<Rightarrow> bool) \<Rightarrow> client \<Rightarrow> int list list \<Rightarrow> batch_result \<Rightarrow>
   dictionary \<times> bool \<Rightarrow> ('n net_scheme, exn, dictionary) prog" where
  "read_stage_batches c pace_ok cl [] previous (out, tidy) =
     ret (if tidy then out\<lparr>dc_complete := dc_complete out @ [entity_deal]\<rparr> else out)"
| "read_stage_batches c pace_ok cl (chunk # rest) previous (out, tidy) =
     andThen (lift_result (lift_py (merged_time (iso_date c) previous))) (\<lambda>blk.
     andThen (reads (\<lambda>w. pace_ok (length (requests w)) blk)) (\<lambda>go.
       if \<not> go then ret out
       else andThen (batch c cl (status_commands chunk (dc_universal out)) False) (\<lambda>b.
            andThen (lift_result (lift_py (merged_time (iso_date c) b))) (\<lambda>after.
            andThen (lift_result (lift_py (rfold (read_funnel_stages b) chunk
                (out\<lparr>dc_batches := dc_batches out + 1, dc_time := after\<rparr>, tidy)))) (\<lambda>acc.
            read_stage_batches c pace_ok cl rest b acc)))))"

definition read_funnels_and_stages ::
  "'o fetch_outside_scheme \<Rightarrow> (nat \<Rightarrow> block option \<Rightarrow> bool) \<Rightarrow> client \<Rightarrow> batch_result \<Rightarrow> dictionary \<Rightarrow>
   ('n net_scheme, exn, dictionary) prog" where
  "read_funnels_and_stages c pace_ok cl first out =
     andThen (lift_result (lift_py (merged_time (iso_date c) first))) (\<lambda>blk.
     andThen (lift_result (lift_py (crm_mode first))) (\<lambda>mode.
     andThen (lift_result (lift_py (read_leads first
         (out\<lparr>dc_time := blk, dc_mode := mode, dc_mode_answered := batch_ok first crm_mode_key\<rparr>)))) (\<lambda>out'.
       case error_of first categories_key of
         Some e \<Rightarrow> ret (out'\<lparr>dc_errors := dc_errors out' @ [e]\<rparr>)
       | None \<Rightarrow>
           andThen (lift_result (lift_py (parse_funnels (batch_get first categories_key) (dc_universal out')))) (\<lambda>parsed.
             let fs = with_default parsed
             in read_stage_batches c pace_ok cl (chunks_of max_batch_commands (map fn_id fs)) first
                  (out'\<lparr>dc_funnels := dc_funnels out' @ map (Pair entity_deal) fs\<rparr>, True)))))"

definition read_dictionary ::
  "'o fetch_outside_scheme \<Rightarrow> (nat \<Rightarrow> block option \<Rightarrow> bool) \<Rightarrow> client \<Rightarrow> ('n net_scheme, exn, dictionary) prog" where
  "read_dictionary c pace_ok cl =
     andThen (batch c cl (first_commands True) False) (\<lambda>first.
       if (case batch_error first categories_key of None \<Rightarrow> False | Some e \<Rightarrow> err_class e = MethodNotFound)
       then andThen (lift_result (lift_py (merged_time (iso_date c) first))) (\<lambda>blk.
            andThen (reads (\<lambda>w. pace_ok (length (requests w)) blk)) (\<lambda>go.
              if \<not> go then ret (no_dictionary\<lparr>dc_batches := 1\<rparr>)
              else andThen (batch c cl (first_commands False) False) (\<lambda>again.
                   read_funnels_and_stages c pace_ok cl again (no_dictionary\<lparr>dc_batches := 2, dc_universal := False\<rparr>))))
       else read_funnels_and_stages c pace_ok cl first (no_dictionary\<lparr>dc_batches := 1\<rparr>))"

section \<open>The tables\<close>

record 'v listed =
  ls_values :: 'v
  ls_seen_at :: rat
  ls_missing :: "rat option"

type_synonym ('k, 'v) listed_table = "(int \<times> int \<times> 'k, 'v listed) dict"

record funnel_values =
  fr_name :: string
  fr_sort :: int
  fr_default :: bool

record stage_values =
  sr_name :: string
  sr_sort :: int
  sr_semantic :: string

record dict_tables =
  dt_funnels :: "(int, funnel_values) listed_table"
  dt_stages :: "(int \<times> string, stage_values) listed_table"

definition funnel_rows :: "(int \<times> funnel) list \<Rightarrow> (int \<times> int, funnel_values) dict" where
  "funnel_rows fs =
     fold (\<lambda>(e, f). dict_set (e, fn_id f)
        \<lparr>fr_name = fn_name f, fr_sort = fn_sort f, fr_default = fn_is_default f\<rparr>) fs []"

definition stage_rows :: "(int \<times> stage) list \<Rightarrow> (int \<times> int \<times> string, stage_values) dict" where
  "stage_rows ss =
     fold (\<lambda>(e, s) d. if st_status_id s = [] then d
        else dict_set (e, st_category_id s, st_status_id s)
          \<lparr>sr_name = st_name s, sr_sort = st_sort s, sr_semantic = st_semantic s\<rparr> d) ss []"

text \<open>What the columns hold.\<close>

definition no_nul :: "string \<Rightarrow> bool" where
  "no_nul s \<longleftrightarrow> list_all (\<lambda>c. code c \<noteq> 0) s"

definition funnel_fits :: "(int \<times> int) \<times> funnel_values \<Rightarrow> bool" where
  "funnel_fits = (\<lambda>((e, cid), v). int32_ok cid \<and> int32_ok (fr_sort v) \<and> no_nul (fr_name v))"

definition stage_fits :: "(int \<times> int \<times> string) \<times> stage_values \<Rightarrow> bool" where
  "stage_fits = (\<lambda>((e, cid, sid), v). int32_ok cid \<and> text_fits 128 sid \<and> int32_ok (sr_sort v) \<and>
     no_nul (sr_name v) \<and> text_fits 1 (sr_semantic v))"

definition put_listed :: "int \<Rightarrow> rat \<Rightarrow> (int \<times> 'k, 'v) dict \<Rightarrow> ('k, 'v) listed_table \<Rightarrow> ('k, 'v) listed_table" where
  "put_listed pid now new t =
     fold (\<lambda>((e, k), v). dict_set (pid, e, k) \<lparr>ls_values = v, ls_seen_at = now, ls_missing = None\<rparr>) new t"

definition forget_row :: "rat \<Rightarrow> 'v listed \<Rightarrow> 'v listed option" where
  "forget_row now r =
     (case ls_missing r of
        None \<Rightarrow> Some (r\<lparr>ls_missing := Some now\<rparr>)
      | Some since \<Rightarrow> if since \<le> now - remove_after then None else Some r)"

definition forget_missing ::
  "int \<Rightarrow> 'k set \<Rightarrow> rat \<Rightarrow> int \<Rightarrow> ('k, 'v) listed_table \<Rightarrow> ('k, 'v) listed_table" where
  "forget_missing pid seen now entity t =
     List.map_filter (\<lambda>((p, e, k), r).
       if p = pid \<and> e = entity \<and> k \<notin> seen then map_option (Pair (p, e, k)) (forget_row now r)
       else Some ((p, e, k), r)) t"

definition keys_of_entity :: "int \<Rightarrow> (int \<times> 'k, 'v) dict \<Rightarrow> 'k set" where
  "keys_of_entity entity new = set (List.map_filter (\<lambda>((e, k), v). if e = entity then Some k else None) new)"

definition refresh_table ::
  "int \<Rightarrow> rat \<Rightarrow> int list \<Rightarrow> (int \<times> 'k, 'v) dict \<Rightarrow> ('k, 'v) listed_table \<Rightarrow> ('k, 'v) listed_table" where
  "refresh_table pid now full new t =
     fold (\<lambda>e. forget_missing pid (keys_of_entity e new) now e) (sorted_ids full) (put_listed pid now new t)"

definition store_dictionary ::
  "fence \<Rightarrow> dictionary \<Rightarrow> rat \<Rightarrow> lane list \<Rightarrow> dict_tables \<times> crm_store \<Rightarrow>
   (exn, unit) result \<times> dict_tables \<times> crm_store" where
  "store_dictionary f dic now lanes st =
     (let (t, s) = st;
          funnels = funnel_rows (dc_funnels dic);
          stages = stage_rows (dc_stages dic)
      in if \<not> list_all funnel_fits funnels \<or> \<not> list_all stage_fits stages then (Inl DatabaseError, t, s)
         else case rbind (store_lanes (portal_id f) lanes (cs_lanes s)) (\<lambda>ls.
                   rbind (fenced_update f (\<lambda>_ r. r) (cs_base s)) (\<lambda>base.
                     Inr (s\<lparr>cs_lanes := ls, cs_base := base\<rparr>))) of
                Inl e \<Rightarrow> (Inl e, t, s)
              | Inr s' \<Rightarrow>
                  (Inr (),
                   \<lparr>dt_funnels = refresh_table (portal_id f) now (dc_complete dic) funnels (dt_funnels t),
                    dt_stages = refresh_table (portal_id f) now (dc_complete dic) stages (dt_stages t)\<rparr>, s'))"

section \<open>A row is forgotten by two reads a day apart\<close>

definition table_ok :: "('k, 'v) listed_table \<Rightarrow> bool" where
  "table_ok t \<longleftrightarrow> distinct (map fst t)"

lemma forget_missing_keys: "set (map fst (forget_missing pid seen now e t)) \<subseteq> set (map fst t)"
proof (induction t)
  case (Cons kr t)
  then show ?case
    by (cases kr) (auto simp: forget_missing_def List.map_filter_simps forget_row_def split: option.splits if_splits)
qed (simp add: forget_missing_def List.map_filter_simps)

lemma forget_missing_ok:
  assumes "table_ok t"
  shows "table_ok (forget_missing pid seen now e t)"
  using assms
proof (induction t)
  case (Cons kr t)
  obtain p e' k r where kr: "kr = ((p, e', k), r)" by (metis surj_pair)
  have "(p, e', k) \<notin> set (map fst (forget_missing pid seen now e t))"
    using Cons.prems kr forget_missing_keys [of pid seen now e t] by (auto simp: table_ok_def)
  with Cons kr show ?case
    by (auto simp: table_ok_def forget_missing_def List.map_filter_simps split: option.splits)
qed (simp add: table_ok_def forget_missing_def)

lemma map_of_map_filter:
  assumes "distinct (map fst t)"
  shows "map_of (List.map_filter (\<lambda>(k, r). map_option (Pair k) (f k r)) t) k = Option.bind (map_of t k) (f k)"
  using assms
proof (induction t)
  case (Cons kr t)
  obtain k' r where kr: "kr = (k', r)" by (cases kr)
  have absent: "map_of t k' = None"
    using Cons.prems kr by (simp add: map_of_eq_None_iff)
  show ?case
  proof (cases "k' = k")
    case True
    with Cons absent kr show ?thesis
      by (cases "f k r") (simp_all add: List.map_filter_simps)
  next
    case False
    with Cons kr show ?thesis
      by (cases "f k' r") (simp_all add: List.map_filter_simps)
  qed
qed (simp add: List.map_filter_simps)

lemma forget_missing_lookup:
  fixes t :: "('k, 'v) listed_table"
  assumes "table_ok t"
  shows "map_of (forget_missing pid seen now entity t) (p, e, k) =
    (if p = pid \<and> e = entity \<and> k \<notin> seen
     then Option.bind (map_of t (p, e, k)) (forget_row now) else map_of t (p, e, k))"
proof -
  define f :: "int \<times> int \<times> 'k \<Rightarrow> 'v listed \<Rightarrow> 'v listed option" where
    "f = (\<lambda>(p, e, k) r. if p = pid \<and> e = entity \<and> k \<notin> seen then forget_row now r else Some r)"
  have "forget_missing pid seen now entity t = List.map_filter (\<lambda>(k, r). map_option (Pair k) (f k r)) t"
    unfolding forget_missing_def by (rule arg_cong [where f = "\<lambda>g. List.map_filter g t"]) (auto simp: f_def fun_eq_iff)
  then have "map_of (forget_missing pid seen now entity t) (p, e, k) = Option.bind (map_of t (p, e, k)) (f (p, e, k))"
    using map_of_map_filter [of t f "(p, e, k)"] assms by (simp add: table_ok_def)
  moreover have "f (p, e, k) = (if p = pid \<and> e = entity \<and> k \<notin> seen then forget_row now else Some)"
    by (auto simp: f_def fun_eq_iff)
  ultimately show ?thesis by simp
qed

lemma put_listed_ok: "table_ok t \<Longrightarrow> table_ok (put_listed pid now new t)"
  by (induction new arbitrary: t) (auto simp: put_listed_def table_ok_def distinct_dict_set)

lemma put_listed_lookup:
  "map_of (put_listed pid now new t) (p, e, k) =
     (if p = pid \<and> (e, k) \<in> fst ` set new
      then Some \<lparr>ls_values = the (map_of (rev new) (e, k)), ls_seen_at = now, ls_missing = None\<rparr>
      else map_of t (p, e, k))"
proof (induction new arbitrary: t)
  case (Cons ekv new)
  obtain e' k' v where ekv: "ekv = ((e', k'), v)" by (metis surj_pair)
  have step: "put_listed pid now (ekv # new) t =
    put_listed pid now new (dict_set (pid, e', k') \<lparr>ls_values = v, ls_seen_at = now, ls_missing = None\<rparr> t)"
    by (simp add: put_listed_def ekv)
  have "(e, k) \<in> fst ` set new \<longleftrightarrow> map_of (rev new) (e, k) \<noteq> None"
    by (simp add: map_of_eq_None_iff)
  then show ?case
    unfolding step Cons.IH by (auto simp: ekv map_of_dict_set map_add_def split: option.splits)
qed (simp add: put_listed_def)

lemma keys_of_entity_mem: "k \<in> keys_of_entity e new \<longleftrightarrow> (e, k) \<in> fst ` set new"
  by (induction new) (auto simp: keys_of_entity_def List.map_filter_simps split: if_splits)

lemma forget_all_lookup:
  assumes "table_ok t" and "distinct es"
  shows "table_ok (fold (\<lambda>e. forget_missing pid (seen e) now e) es t) \<and>
    map_of (fold (\<lambda>e. forget_missing pid (seen e) now e) es t) (p, e, k) =
      (if p = pid \<and> e \<in> set es \<and> k \<notin> seen e then Option.bind (map_of t (p, e, k)) (forget_row now)
       else map_of t (p, e, k))"
  using assms
proof (induction es arbitrary: t)
  case (Cons e' es)
  from Cons.IH [OF forget_missing_ok [OF Cons.prems(1)], of pid "seen e'" now e'] Cons.prems
  show ?case by (auto simp: forget_missing_lookup)
qed simp

lemma refresh_table_lookup:
  assumes "table_ok t"
  shows "table_ok (refresh_table pid now full new t) \<and>
    map_of (refresh_table pid now full new t) (p, e, k) =
      (if p \<noteq> pid then map_of t (p, e, k)
       else if (e, k) \<in> fst ` set new
       then Some \<lparr>ls_values = the (map_of (rev new) (e, k)), ls_seen_at = now, ls_missing = None\<rparr>
       else if e \<in> set full then Option.bind (map_of t (p, e, k)) (forget_row now)
       else map_of t (p, e, k))"
proof -
  have "distinct (sorted_ids full)" "set (sorted_ids full) = set full"
    by (simp_all add: sorted_ids_def)
  with forget_all_lookup [OF put_listed_ok [OF assms], where es = "sorted_ids full" and seen = "\<lambda>e. keys_of_entity e new"]
  show ?thesis
    by (auto simp: refresh_table_def put_listed_lookup keys_of_entity_mem)
qed

text \<open>
  The reads stored so far, newest first, with the portal and the time of each. A marked row was
  marked by a complete read of its entity, and no read since has listed it.
\<close>

type_synonym read_history = "(int \<times> rat \<times> dictionary) list"

definition unlisted_since ::
  "(dictionary \<Rightarrow> (int \<times> 'k) set) \<Rightarrow> read_history \<Rightarrow> int \<Rightarrow> int \<times> 'k \<Rightarrow> rat \<Rightarrow> bool" where
  "unlisted_since keys h pid ek since \<longleftrightarrow>
     (\<exists>newer_reads dic older_reads. h = newer_reads @ (pid, since, dic) # older_reads \<and>
        fst ek \<in> set (dc_complete dic) \<and> ek \<notin> keys dic \<and>
        (\<forall>(p, now, d) \<in> set newer_reads. p = pid \<longrightarrow> ek \<notin> keys d))"

definition marks_justified ::
  "(dictionary \<Rightarrow> (int \<times> 'k) set) \<Rightarrow> read_history \<Rightarrow> ('k, 'v) listed_table \<Rightarrow> bool" where
  "marks_justified keys h t \<longleftrightarrow>
     table_ok t \<and> (\<forall>pid e k r since. map_of t (pid, e, k) = Some r \<longrightarrow> ls_missing r = Some since \<longrightarrow>
       unlisted_since keys h pid (e, k) since)"

definition funnel_keys :: "dictionary \<Rightarrow> (int \<times> int) set" where
  "funnel_keys dic = fst ` set (funnel_rows (dc_funnels dic))"

definition stage_keys_of :: "dictionary \<Rightarrow> (int \<times> int \<times> string) set" where
  "stage_keys_of dic = fst ` set (stage_rows (dc_stages dic))"

inductive dict_run :: "read_history \<Rightarrow> dict_tables \<Rightarrow> bool" where
  dict_empty: "dict_run [] \<lparr>dt_funnels = [], dt_stages = []\<rparr>"
| dict_stored: "dict_run h t \<Longrightarrow> store_dictionary f dic now lanes (t, s) = (Inr (), t', s') \<Longrightarrow>
    dict_run ((portal_id f, now, dic) # h) t'"

lemma unlisted_since_older:
  "unlisted_since keys h pid ek since \<Longrightarrow> (p = pid \<longrightarrow> ek \<notin> keys dic) \<Longrightarrow>
     unlisted_since keys ((p, now, dic) # h) pid ek since"
  unfolding unlisted_since_def
  by (elim exE conjE, rule_tac x = "(p, now, dic) # newer_reads" in exI) auto

lemma refresh_table_justified:
  assumes "marks_justified keys h t" and keys: "keys dic = fst ` set new"
  shows "marks_justified keys ((p, now, dic) # h) (refresh_table p now (dc_complete dic) new t)"
proof -
  have ok: "table_ok t" using assms(1) by (simp add: marks_justified_def)
  note lookup = refresh_table_lookup [OF ok, of p now "dc_complete dic" new]
  have "unlisted_since keys ((p, now, dic) # h) pid (e, k) since"
    if row: "map_of (refresh_table p now (dc_complete dic) new t) (pid, e, k) = Some r" and since: "ls_missing r = Some since"
    for pid e k r since
  proof -
    have old: "unlisted_since keys ((p, now, dic) # h) pid (e, k) since"
      if "map_of t (pid, e, k) = Some r" "p = pid \<longrightarrow> (e, k) \<notin> keys dic"
      using assms(1) since that by (intro unlisted_since_older) (auto simp: marks_justified_def)
    show ?thesis
    proof (cases "pid = p \<and> (e, k) \<notin> fst ` set new \<and> e \<in> set (dc_complete dic)")
      case False
      with row since lookup old keys show ?thesis by (auto split: if_splits)
    next
      case True
      with row lookup obtain r0 where r0: "map_of t (pid, e, k) = Some r0" "forget_row now r0 = Some r"
        by (auto simp: bind_eq_Some_conv)
      show ?thesis
      proof (cases "ls_missing r0")
        case (Some m)
        with r0 True keys old show ?thesis by (auto simp: forget_row_def split: if_splits)
      next
        case None
        with r0 since have "since = now" by (auto simp: forget_row_def)
        with True keys show ?thesis by (auto simp: unlisted_since_def intro!: exI [of _ "[]"])
      qed
    qed
  qed
  with lookup show ?thesis by (auto simp: marks_justified_def)
qed

lemma store_dictionary_Inr:
  assumes "store_dictionary f dic now lanes (t, s) = (Inr (), t', s')"
  shows "dt_funnels t' = refresh_table (portal_id f) now (dc_complete dic) (funnel_rows (dc_funnels dic)) (dt_funnels t)"
    and "dt_stages t' = refresh_table (portal_id f) now (dc_complete dic) (stage_rows (dc_stages dic)) (dt_stages t)"
  using assms by (auto simp: store_dictionary_def Let_def split: if_splits sum.splits)

lemma dict_run_justified:
  "dict_run h t \<Longrightarrow> marks_justified funnel_keys h (dt_funnels t) \<and> marks_justified stage_keys_of h (dt_stages t)"
proof (induction rule: dict_run.induct)
  case dict_empty
  show ?case by (simp add: marks_justified_def table_ok_def)
next
  case (dict_stored h t f dic now lanes s t' s')
  from store_dictionary_Inr [OF dict_stored(2)] dict_stored(3) show ?case
    by (simp add: refresh_table_justified funnel_keys_def stage_keys_of_def)
qed

lemma removed_unlisted:
  assumes "marks_justified keys h t" and "map_of t (pid, e, k) = Some r"
    and "map_of (refresh_table p now (dc_complete dic) new t) (pid, e, k) = None" and "keys dic = fst ` set new"
  shows "p = pid \<and> e \<in> set (dc_complete dic) \<and> (e, k) \<notin> keys dic \<and>
    (\<exists>since. since + remove_after \<le> now \<and> unlisted_since keys h pid (e, k) since)"
proof -
  have ok: "table_ok t" using assms(1) by (simp add: marks_justified_def)
  note lookup = refresh_table_lookup [OF ok, of p now "dc_complete dic" new pid e k]
  have cond: "pid = p" "(e, k) \<notin> fst ` set new" "e \<in> set (dc_complete dic)" "forget_row now r = None"
    using lookup assms(2,3) by (auto split: if_splits)
  then obtain since where "ls_missing r = Some since" "since \<le> now - remove_after"
    by (auto simp: forget_row_def split: option.splits if_splits)
  with assms cond show ?thesis by (auto simp: marks_justified_def le_diff_eq)
qed

section \<open>Every stage has its funnel\<close>

definition good_dictionary :: "dictionary \<Rightarrow> bool" where
  "good_dictionary dic \<longleftrightarrow> (\<forall>(e, s) \<in> set (dc_stages dic).
     st_semantic s \<in> {''S'', ''F'', ''P''} \<and> (e, st_category_id s) \<in> (\<lambda>(e, f). (e, fn_id f)) ` set (dc_funnels dic))"

lemma good_dictionary_mono:
  "good_dictionary b \<Longrightarrow> dc_stages a = dc_stages b \<Longrightarrow> set (dc_funnels b) \<subseteq> set (dc_funnels a) \<Longrightarrow> good_dictionary a"
  unfolding good_dictionary_def by (auto dest!: bspec elim!: image_mono [THEN subsetD])

lemma read_stages_semantic:
  "read_stages cid n seen vs = Inr ss \<Longrightarrow> \<forall>s \<in> set ss. st_semantic s \<in> {''S'', ''F'', ''P''}"
proof (induction vs arbitrary: n seen ss)
  case (Cons v vs)
  show ?case
  proof (cases v)
    case (JDict d)
    define sid where "sid = crm_text (first_present d [''STATUS_ID'', ''statusId'', ''status_id''])"
    show ?thesis
    proof (cases "sid \<in> set seen")
      case True
      with Cons JDict show ?thesis by (simp add: sid_def Let_def)
    next
      case False
      with Cons.prems JDict obtain s ts where tail: "read_stages cid (Suc n) (sid # seen) vs = Inr ts" and ss: "ss = s # ts"
        and s: "st_semantic s = normalise_semantic (first_present d [''SEMANTICS'', ''semantics''])"
        by (auto simp: sid_def Let_def rbind_Inr_iff)
      from Cons.IH [OF tail] normalise_semantic_values show ?thesis by (simp add: ss s)
    qed
  qed (use Cons in simp_all)
qed simp

lemma parse_stages_good:
  assumes "parse_stages cid v = Inr ss" and "s \<in> set ss"
  shows "st_semantic s \<in> {''S'', ''F'', ''P''} \<and> st_category_id s = cid"
proof -
  obtain ts where ts: "read_stages cid 0 [] (crm_result_rows v) = Inr ts" "set ss = set ts"
    using assms(1) by (auto simp: parse_stages_def rbind_Inr_iff)
  with assms(2) read_stages_semantic [OF ts(1)] read_stages_ids [OF ts(1)] show ?thesis by blast
qed

definition funnels_include :: "int list \<Rightarrow> dictionary \<Rightarrow> bool" where
  "funnels_include cids dic \<longleftrightarrow> (\<forall>cid \<in> set cids. (entity_deal, cid) \<in> (\<lambda>(e, f). (e, fn_id f)) ` set (dc_funnels dic))"

lemma read_funnel_stages_good:
  assumes "read_funnel_stages b cid (out, tidy) = Inr (out', tidy')" and "good_dictionary out"
    and "(entity_deal, cid) \<in> (\<lambda>(e, f). (e, fn_id f)) ` set (dc_funnels out)"
  shows "good_dictionary out' \<and> dc_funnels out' = dc_funnels out"
proof (cases "error_of b (status_key cid)")
  case (Some e)
  with assms show ?thesis by (auto simp: read_funnel_stages_def good_dictionary_def)
next
  case None
  with assms(1) obtain ss where ss: "parse_stages cid (batch_get b (status_key cid)) = Inr ss"
    and out': "out' = out\<lparr>dc_stages := dc_stages out @ map (Pair entity_deal) ss\<rparr>"
    by (auto simp: read_funnel_stages_def rbind_Inr_iff)
  from assms(2,3) parse_stages_good [OF ss] show ?thesis by (auto simp: good_dictionary_def out')
qed

lemma read_funnels_stages_good:
  assumes "rfold (read_funnel_stages b) cids acc = Inr acc'" and "good_dictionary (fst acc)"
    and "funnels_include cids (fst acc)"
  shows "good_dictionary (fst acc') \<and> dc_funnels (fst acc') = dc_funnels (fst acc)"
  using assms(1)
proof (rule rfold_invariant)
  show "good_dictionary (fst acc) \<and> dc_funnels (fst acc) = dc_funnels (fst acc)" using assms(2) by simp
  fix cid a a'
  assume cid: "cid \<in> set cids" and a: "good_dictionary (fst a) \<and> dc_funnels (fst a) = dc_funnels (fst acc)"
    and step: "read_funnel_stages b cid a = Inr a'"
  obtain out tidy out' tidy' where eq: "a = (out, tidy)" "a' = (out', tidy')" by (cases a; cases a')
  show "good_dictionary (fst a') \<and> dc_funnels (fst a') = dc_funnels (fst acc)"
    using read_funnel_stages_good [of b cid out tidy out' tidy'] step a cid assms(3) by (simp add: eq funnels_include_def)
qed

lemma andThen_Inr:
  "andThen m f w = (Inr x, w') \<longleftrightarrow> (\<exists>a w1. m w = (Inr a, w1) \<and> f a w1 = (Inr x, w'))"
  by (auto simp: andThen_def split: prod.splits sum.splits)

lemma lift_result_Inr: "lift_result r w = (Inr x, w') \<longleftrightarrow> r = Inr x \<and> w' = w"
  by (auto simp: lift_result_def)

lemma reads_Inr: "reads f w = (Inr x, w') \<longleftrightarrow> x = f w \<and> w' = w"
  by (auto simp: reads_def)

lemma ret_Inr: "ret a w = (Inr x, w') \<longleftrightarrow> x = a \<and> w' = w"
  by (auto simp: ret_def)

lemmas prog_Inr = andThen_Inr lift_result_Inr reads_Inr ret_Inr lift_py_Inr

lemma read_stage_batches_good:
  assumes "read_stage_batches c pace_ok cl chunks previous (out, tidy) w = (Inr dic, w')" and "good_dictionary out"
    and "funnels_include (concat chunks) out"
  shows "good_dictionary dic"
  using assms
proof (induction chunks arbitrary: previous out tidy w)
  case Nil
  then show ?case by (auto simp: ret_Inr good_dictionary_def)
next
  case (Cons chunk rest)
  from Cons.prems(1) obtain blk w1 where run: "(if \<not> pace_ok (length (requests w1)) blk then ret out
       else andThen (batch c cl (status_commands chunk (dc_universal out)) False) (\<lambda>b.
            andThen (lift_result (lift_py (merged_time (iso_date c) b))) (\<lambda>after.
            andThen (lift_result (lift_py (rfold (read_funnel_stages b) chunk
                (out\<lparr>dc_batches := dc_batches out + 1, dc_time := after\<rparr>, tidy)))) (\<lambda>acc.
            read_stage_batches c pace_ok cl rest b acc)))) w1 = (Inr dic, w')"
    by (auto simp: andThen_Inr lift_result_Inr reads_Inr)
  show ?case
  proof (cases "pace_ok (length (requests w1)) blk")
    case False
    with run Cons.prems(2) show ?thesis by (auto simp: ret_Inr)
  next
    case True
    with run obtain b after acc w2 where fold: "rfold (read_funnel_stages b) chunk
        (out\<lparr>dc_batches := dc_batches out + 1, dc_time := after\<rparr>, tidy) = Inr acc"
      and rest: "read_stage_batches c pace_ok cl rest b acc w2 = (Inr dic, w')"
      by (auto simp: prog_Inr)
    have "good_dictionary (out\<lparr>dc_batches := dc_batches out + 1, dc_time := after\<rparr>)"
      using Cons.prems(2) by (rule good_dictionary_mono) simp_all
    moreover have "funnels_include chunk (out\<lparr>dc_batches := dc_batches out + 1, dc_time := after\<rparr>)"
      using Cons.prems(3) by (simp add: funnels_include_def)
    ultimately have "good_dictionary (fst acc) \<and> dc_funnels (fst acc) = dc_funnels out"
      using read_funnels_stages_good [OF fold] by simp
    moreover obtain out' tidy' where acc: "acc = (out', tidy')" by (cases acc)
    ultimately have "good_dictionary out'" "funnels_include (concat rest) out'"
      using Cons.prems(3) by (simp_all add: funnels_include_def)
    with Cons.IH [of b out' tidy' w2] rest acc show ?thesis by simp
  qed
qed

lemma concat_chunks: "concat (chunks_of n xs) = xs"
  by (induction n xs rule: chunks_of.induct) (simp_all only: chunks_of.simps append_take_drop_id concat.simps)

lemma read_leads_good:
  "read_leads b out = Inr out' \<Longrightarrow> good_dictionary out \<Longrightarrow> good_dictionary out'"
  by (auto simp: read_leads_def rbind_Inr_iff good_dictionary_def default_funnel_def dest: parse_stages_good
      split: option.splits)

lemma read_funnels_and_stages_good:
  assumes "read_funnels_and_stages c pace_ok cl first out w = (Inr dic, w')" and "good_dictionary out"
  shows "good_dictionary dic"
proof -
  obtain blk mode out' w1 where leads: "read_leads first
      (out\<lparr>dc_time := blk, dc_mode := mode, dc_mode_answered := batch_ok first crm_mode_key\<rparr>) = Inr out'"
    and rest: "(case error_of first categories_key of
         Some e \<Rightarrow> ret (out'\<lparr>dc_errors := dc_errors out' @ [e]\<rparr>)
       | None \<Rightarrow>
           andThen (lift_result (lift_py (parse_funnels (batch_get first categories_key) (dc_universal out')))) (\<lambda>parsed.
             let fs = with_default parsed
             in read_stage_batches c pace_ok cl (chunks_of max_batch_commands (map fn_id fs)) first
                  (out'\<lparr>dc_funnels := dc_funnels out' @ map (Pair entity_deal) fs\<rparr>, True))) w1 = (Inr dic, w')"
    using assms(1) by (auto simp: read_funnels_and_stages_def prog_Inr)
  have good: "good_dictionary out'"
    using read_leads_good [OF leads] assms(2) by (simp add: good_dictionary_def)
  show ?thesis
  proof (cases "error_of first categories_key")
    case (Some e)
    with rest good show ?thesis by (auto simp: ret_Inr good_dictionary_def)
  next
    case None
    with rest obtain fs w2 where "read_stage_batches c pace_ok cl (chunks_of max_batch_commands (map fn_id fs)) first
        (out'\<lparr>dc_funnels := dc_funnels out' @ map (Pair entity_deal) fs\<rparr>, True) w2 = (Inr dic, w')"
      by (auto simp: prog_Inr Let_def)
    then show ?thesis
    proof (rule read_stage_batches_good)
      show "good_dictionary (out'\<lparr>dc_funnels := dc_funnels out' @ map (Pair entity_deal) fs\<rparr>)"
        using good by (rule good_dictionary_mono) auto
      show "funnels_include (concat (chunks_of max_batch_commands (map fn_id fs)))
        (out'\<lparr>dc_funnels := dc_funnels out' @ map (Pair entity_deal) fs\<rparr>)"
        by (auto simp: concat_chunks funnels_include_def intro: rev_image_eqI)
    qed
  qed
qed

lemma read_dictionary_good:
  assumes "read_dictionary c pace_ok cl w = (Inr dic, w')"
  shows "good_dictionary dic"
proof -
  have none: "good_dictionary (no_dictionary\<lparr>dc_batches := n, dc_universal := u\<rparr>)" for n u
    by (simp add: good_dictionary_def no_dictionary_def)
  have none': "good_dictionary (no_dictionary\<lparr>dc_batches := n\<rparr>)" for n
    by (simp add: good_dictionary_def no_dictionary_def)
  show ?thesis
    using assms none none'
    by (auto simp: read_dictionary_def andThen_Inr lift_result_Inr reads_Inr ret_Inr split: if_splits
        elim!: read_funnels_and_stages_good)
qed

text \<open>So a stage that is not marked missing belongs to a funnel that is not.\<close>

definition stages_filed :: "dict_tables \<Rightarrow> bool" where
  "stages_filed t \<longleftrightarrow> table_ok (dt_funnels t) \<and> table_ok (dt_stages t) \<and>
     (\<forall>pid e cid sid r. map_of (dt_stages t) (pid, e, cid, sid) = Some r \<longrightarrow>
        sr_semantic (ls_values r) \<in> {''S'', ''F'', ''P''} \<and>
        (ls_missing r = None \<longrightarrow> (\<exists>f. map_of (dt_funnels t) (pid, e, cid) = Some f \<and> ls_missing f = None)))"

lemma stage_rows_mem:
  "(k, v) \<in> set (stage_rows ss) \<Longrightarrow> \<exists>(e, s) \<in> set ss. k = (e, st_category_id s, st_status_id s) \<and> sr_semantic v = st_semantic s"
proof (induction ss rule: rev_induct)
  case (snoc es ss)
  then show ?case
    by (cases es) (auto simp: stage_rows_def split: if_splits dest!: dict_set_mem)
qed (simp add: stage_rows_def)

lemma funnel_rows_keys: "fst ` set (funnel_rows fs) = (\<lambda>(e, f). (e, fn_id f)) ` set fs"
proof (induction fs rule: rev_induct)
  case (snoc ef fs)
  have "fst ` set (dict_set k v d) = insert k (fst ` set d)" for k :: "int \<times> int" and v :: funnel_values and d
    by (induction d) auto
  with snoc show ?case by (cases ef) (simp add: funnel_rows_def)
qed (simp add: funnel_rows_def)

lemma good_dictionary_rows:
  assumes "good_dictionary dic" and "((e, cid, sid), v) \<in> set (stage_rows (dc_stages dic))"
  shows "sr_semantic v \<in> {''S'', ''F'', ''P''} \<and> (e, cid) \<in> fst ` set (funnel_rows (dc_funnels dic))"
  using assms stage_rows_mem [OF assms(2)] by (fastforce simp: good_dictionary_def funnel_rows_keys)

lemma store_dictionary_filed:
  assumes store: "store_dictionary f dic now lanes (t, s) = (Inr (), t', s')" and good: "good_dictionary dic" and filed: "stages_filed t"
  shows "stages_filed t'"
proof -
  define p where "p = portal_id f"
  define fr where "fr = funnel_rows (dc_funnels dic)"
  define sr where "sr = stage_rows (dc_stages dic)"
  have t': "dt_funnels t' = refresh_table p now (dc_complete dic) fr (dt_funnels t)"
    "dt_stages t' = refresh_table p now (dc_complete dic) sr (dt_stages t)"
    using store_dictionary_Inr [OF store] by (simp_all add: p_def fr_def sr_def)
  have ok: "table_ok (dt_funnels t)" "table_ok (dt_stages t)" using filed by (simp_all add: stages_filed_def)
  note fl = refresh_table_lookup [OF ok(1), of p now "dc_complete dic" fr]
  note sl = refresh_table_lookup [OF ok(2), of p now "dc_complete dic" sr]
  have old: "sr_semantic (ls_values r) \<in> {''S'', ''F'', ''P''}"
      "ls_missing r = None \<Longrightarrow> \<exists>f. map_of (dt_funnels t) (pid, e, cid) = Some f \<and> ls_missing f = None"
    if "map_of (dt_stages t) (pid, e, cid, sid) = Some r" for pid e cid sid r
    using filed that unfolding stages_filed_def by blast+
  have listed: "sr_semantic (the (map_of (rev sr) (e, cid, sid))) \<in> {''S'', ''F'', ''P''} \<and> (e, cid) \<in> fst ` set fr"
    if "(e, cid, sid) \<in> fst ` set sr" for e cid sid
  proof -
    have "map_of (rev sr) (e, cid, sid) \<noteq> None"
      using that by (simp add: map_of_eq_None_iff)
    then obtain v where v: "map_of (rev sr) (e, cid, sid) = Some v" by blast
    then have "((e, cid, sid), v) \<in> set sr" using map_of_SomeD [OF v] by simp
    with v show ?thesis using good_dictionary_rows [OF good] by (simp add: sr_def fr_def)
  qed
  have "sr_semantic (ls_values r) \<in> {''S'', ''F'', ''P''} \<and>
      (ls_missing r = None \<longrightarrow> (\<exists>f. map_of (dt_funnels t') (pid, e, cid) = Some f \<and> ls_missing f = None))"
    if row: "map_of (dt_stages t') (pid, e, cid, sid) = Some r" for pid e cid sid r
  proof (cases "pid = p \<and> (e, cid, sid) \<notin> fst ` set sr \<and> e \<in> set (dc_complete dic)")
    case True
    with row sl obtain r0 where r0: "map_of (dt_stages t) (pid, e, cid, sid) = Some r0" "forget_row now r0 = Some r"
      by (auto simp: t' bind_eq_Some_conv)
    then have "ls_values r = ls_values r0" "ls_missing r \<noteq> None"
      by (auto simp: forget_row_def split: option.splits if_splits)
    with old [OF r0(1)] show ?thesis by auto
  next
    case False
    show ?thesis
    proof (cases "pid = p \<and> (e, cid, sid) \<in> fst ` set sr")
      case True
      with row sl have "r = \<lparr>ls_values = the (map_of (rev sr) (e, cid, sid)), ls_seen_at = now, ls_missing = None\<rparr>"
        by (auto simp: t')
      moreover have "sr_semantic (the (map_of (rev sr) (e, cid, sid))) \<in> {''S'', ''F'', ''P''}" "(e, cid) \<in> fst ` set fr"
        using listed [of e cid sid] True by simp_all
      ultimately show ?thesis using True fl [of pid e cid] by (simp add: t')
    next
      case unlisted: False
      with False row sl have r: "map_of (dt_stages t) (pid, e, cid, sid) = Some r" "pid \<noteq> p \<or> e \<notin> set (dc_complete dic)"
        by (auto simp: t' split: if_splits)
      with old [OF r(1)] fl [of pid e cid] show ?thesis by (auto simp: t')
    qed
  qed
  with fl sl show ?thesis by (simp add: stages_filed_def t')
qed

lemma dict_run_filed:
  "dict_run h t \<Longrightarrow> (\<forall>(p, now, dic) \<in> set h. good_dictionary dic) \<Longrightarrow> stages_filed t"
proof (induction rule: dict_run.induct)
  case dict_empty
  show ?case by (simp add: stages_filed_def table_ok_def)
next
  case (dict_stored h t f dic now lanes s t' s')
  then show ?case using store_dictionary_filed [OF dict_stored(2)] by auto
qed

end
