(* ===== verification/Grouping.thy ===== *)
theory Grouping
  imports Prelude
begin

text \<open>
  Folding into dictionaries: keys in the order they are first met, the closed form of a fold that
  accumulates by key, and when a weighted list may be replaced by its groups.
\<close>

section \<open>First occurrences\<close>

definition firsts :: "'a list \<Rightarrow> 'a list" where
  "firsts xs = rev (remdups (rev xs))"

lemma set_firsts [simp]: "set (firsts xs) = set xs"
  by (simp add: firsts_def)

lemma distinct_firsts [simp]: "distinct (firsts xs)"
  by (simp add: firsts_def)

lemma firsts_Nil [simp]: "firsts [] = []"
  by (simp add: firsts_def)

lemma firsts_snoc: "firsts (xs @ [x]) = (if x \<in> set xs then firsts xs else firsts xs @ [x])"
  by (simp add: firsts_def)

lemma firsts_distinct: "distinct xs \<Longrightarrow> firsts xs = xs"
  by (simp add: firsts_def distinct_remdups_id)

lemma length_firsts: "length (firsts xs) \<le> length xs"
  by (simp add: firsts_def length_remdups_leq [THEN order_trans])

lemma firsts_map: "firsts (map f xs) = firsts (map f (firsts xs))"
  by (induction xs rule: rev_induct) (auto simp: firsts_snoc)

lemma firsts_filter: "firsts (filter P xs) = filter P (firsts xs)"
  by (induction xs rule: rev_induct) (auto simp: firsts_snoc)

lemma firsts_map_inj: "inj_on f (set xs) \<Longrightarrow> firsts (map f xs) = map f (firsts xs)"
proof (induction xs rule: rev_induct)
  case (snoc x xs)
  then have "f x \<in> f ` set xs \<longleftrightarrow> x \<in> set xs"
    by (auto simp: inj_on_def)
  with snoc show ?case by (auto simp: firsts_snoc inj_on_def)
qed simp

section \<open>Accumulating by key\<close>

lemma dict_set_table:
  assumes "distinct ks"
  shows "dict_set k v (map (\<lambda>k. (k, F k)) ks) =
    (if k \<in> set ks then map (\<lambda>k'. (k', if k' = k then v else F k')) ks else map (\<lambda>k. (k, F k)) ks @ [(k, v)])"
  using assms
proof (induction ks)
  case (Cons k0 ks)
  have same: "map (\<lambda>k. (k, F k)) ks = map (\<lambda>k'. (k', if k' = k0 then v else F k')) ks"
    using Cons.prems by auto
  show ?case
  proof (cases "k = k0")
    case True
    with Cons.prems same show ?thesis by auto
  next
    case False
    with Cons show ?thesis by auto
  qed
qed simp

lemma map_of_table: "map_of (map (\<lambda>k. (k, F k)) ks) k = (if k \<in> set ks then Some (F k) else None)"
  by (induction ks) auto

definition accumulate :: "('k \<Rightarrow> 'x \<Rightarrow> 'a \<Rightarrow> 'a) \<Rightarrow> ('k \<Rightarrow> 'a) \<Rightarrow> 'k \<times> 'x \<Rightarrow> ('k, 'a) dict \<Rightarrow> ('k, 'a) dict" where
  "accumulate f start kx d =
     (let (k, x) = kx in dict_set k (f k x (case map_of d k of None \<Rightarrow> start k | Some a \<Rightarrow> a)) d)"

lemma fold_accumulate:
  "fold (accumulate f start) xs [] =
     map (\<lambda>k. (k, fold (f k) (map snd (filter (\<lambda>p. fst p = k) xs)) (start k))) (firsts (map fst xs))"
proof (induction xs rule: rev_induct)
  case (snoc kx xs)
  obtain k x where kx: "kx = (k, x)" by fastforce
  define F where "F = (\<lambda>k. fold (f k) (map snd (filter (\<lambda>p. fst p = k) xs)) (start k))"
  have IH: "fold (accumulate f start) xs [] = map (\<lambda>k. (k, F k)) (firsts (map fst xs))"
    using snoc by (simp add: F_def)
  have empty: "k \<notin> fst ` set xs \<Longrightarrow> F k = start k"
  proof -
    assume "k \<notin> fst ` set xs"
    then have "filter (\<lambda>p. fst p = k) xs = []" by (auto simp: filter_empty_conv)
    then show "F k = start k" by (simp add: F_def)
  qed
  have val: "(\<lambda>k'. (k', fold (f k') (map snd (filter (\<lambda>p. fst p = k') (xs @ [kx]))) (start k'))) =
    (\<lambda>k'. (k', if k' = k then f k x (F k) else F k'))"
    by (auto simp: F_def kx fun_eq_iff)
  have step: "fold (accumulate f start) (xs @ [kx]) [] = accumulate f start kx (map (\<lambda>k. (k, F k)) (firsts (map fst xs)))"
    by (simp add: IH)
  show ?case
  proof (cases "k \<in> set (map fst xs)")
    case True
    then show ?thesis
      unfolding step val by (simp add: kx accumulate_def dict_set_table map_of_table firsts_snoc)
  next
    case False
    then have "F k = start k" using empty by simp
    with False show ?thesis
      unfolding step val by (auto simp: kx accumulate_def dict_set_table map_of_table firsts_snoc)
  qed
qed simp

section \<open>Weighted lists\<close>

definition weight :: "('k \<Rightarrow> bool) \<Rightarrow> ('k \<times> int) list \<Rightarrow> int" where
  "weight P ws = sum_list (map snd (filter (P \<circ> fst) ws))"

definition same_content :: "('k \<times> int) list \<Rightarrow> ('k \<times> int) list \<Rightarrow> bool" where
  "same_content ws vs \<longleftrightarrow> firsts (map fst ws) = firsts (map fst vs) \<and> (\<forall>k. weight (\<lambda>k'. k' = k) ws = weight (\<lambda>k'. k' = k) vs)"

lemma weight_Nil [simp]: "weight P [] = 0"
  by (simp add: weight_def)

lemma weight_Cons: "weight P (kn # ws) = (if P (fst kn) then snd kn else 0) + weight P ws"
  by (simp add: weight_def)

lemma weight_split:
  assumes "distinct ks" and "fst ` set ws \<subseteq> set ks"
  shows "weight P ws = (\<Sum>k \<leftarrow> filter P ks. weight (\<lambda>k'. k' = k) ws)"
  using assms(2)
proof (induction ws)
  case (Cons kn ws)
  have one: "(\<Sum>k \<in> set (filter P ks). if fst kn = k then snd kn else 0) = (if P (fst kn) then snd kn else 0)"
    using Cons.prems by auto
  have "(\<Sum>k \<leftarrow> filter P ks. weight (\<lambda>k'. k' = k) (kn # ws)) =
    (\<Sum>k \<in> set (filter P ks). (if fst kn = k then snd kn else 0) + weight (\<lambda>k'. k' = k) ws)"
    using assms(1) by (simp only: sum_list_distinct_conv_sum_set distinct_filter weight_Cons)
  also have "\<dots> = (if P (fst kn) then snd kn else 0) + (\<Sum>k \<in> set (filter P ks). weight (\<lambda>k'. k' = k) ws)"
    by (simp only: sum.distrib one)
  finally show ?case
    using Cons assms(1) by (simp add: weight_Cons sum_list_distinct_conv_sum_set)
qed simp

lemma same_content_weight:
  assumes "same_content ws vs"
  shows "weight P ws = weight P vs"
proof -
  have firsts: "firsts (map fst ws) = firsts (map fst vs)" using assms by (simp add: same_content_def)
  have keys: "fst ` set ws = set (firsts (map fst vs))" "fst ` set vs = set (firsts (map fst vs))"
    using arg_cong [OF firsts, of set] by simp_all
  have "weight P ws = (\<Sum>k \<leftarrow> filter P (firsts (map fst vs)). weight (\<lambda>k'. k' = k) ws)"
    by (rule weight_split) (simp_all only: distinct_firsts keys order_refl)
  also have "\<dots> = (\<Sum>k \<leftarrow> filter P (firsts (map fst vs)). weight (\<lambda>k'. k' = k) vs)"
    using assms unfolding same_content_def by (intro arg_cong [where f = sum_list] map_cong refl) blast
  also have "\<dots> = weight P vs"
    by (rule weight_split [symmetric]) (simp_all only: distinct_firsts keys order_refl)
  finally show ?thesis .
qed

text \<open>Narrowing and renaming the keys keeps the content the same.\<close>

definition rekey :: "('k \<Rightarrow> bool) \<Rightarrow> ('k \<Rightarrow> 'j) \<Rightarrow> ('k \<times> int) list \<Rightarrow> ('j \<times> int) list" where
  "rekey P f ws = map (\<lambda>(k, n). (f k, n)) (filter (P \<circ> fst) ws)"

lemma keys_rekey: "map fst (rekey P f ws) = map f (filter P (map fst ws))"
  by (simp add: rekey_def filter_map case_prod_unfold o_def)

lemma weight_rekey: "weight Q (rekey P f ws) = weight (\<lambda>k. P k \<and> Q (f k)) ws"
  by (induction ws) (auto simp: rekey_def weight_def)

lemma same_content_firsts: "same_content ws vs \<Longrightarrow> firsts (map fst ws) = firsts (map fst vs)"
  by (simp add: same_content_def)

lemma same_content_rekey:
  assumes "same_content ws vs"
  shows "same_content (rekey P f ws) (rekey P f vs)"
proof -
  have "firsts (map f (filter P (map fst ws))) = firsts (map f (filter P (map fst vs)))"
    using firsts_map [of f "filter P (map fst ws)"] firsts_map [of f "filter P (map fst vs)"]
      same_content_firsts [OF assms] by (simp only: firsts_filter)
  moreover have "weight Q (rekey P f ws) = weight Q (rekey P f vs)" for Q
    unfolding weight_rekey by (rule same_content_weight [OF assms])
  ultimately show ?thesis by (simp add: same_content_def keys_rekey)
qed

text \<open>Grouping an unweighted list: each key once, in the order first met, with its count.\<close>

lemma same_content_counts:
  "same_content (map (\<lambda>k. (k, int (length (filter (\<lambda>x. x = k) xs)))) (firsts xs)) (map (\<lambda>k. (k, 1)) xs)"
proof -
  have count: "weight P (map (\<lambda>k. (k, 1)) xs) = int (length (filter P xs))" for P and xs :: "'a list"
    by (induction xs) (auto simp: weight_Cons)
  have single: "distinct ks \<Longrightarrow> weight (\<lambda>k'. k' = k) (map (\<lambda>k. (k, F k)) ks) = (if k \<in> set ks then F k else 0)"
    for k and F :: "'a \<Rightarrow> int" and ks
    by (induction ks) (auto simp: weight_Cons)
  have "k \<notin> set xs \<Longrightarrow> filter (\<lambda>x. x = k) xs = []" for k
    by (auto simp: filter_empty_conv)
  then show ?thesis
    by (auto simp: same_content_def o_def count single firsts_distinct)
qed

end
