(* ===== verification/Deal_Period.thy ===== *)
theory Deal_Period
  imports Deals Grouping
begin

text \<open>
  \<open>services/deal_period.py\<close>: the stages an administrator named, whose deals also count in the
  period in which they moved or changed. The rule is stored as a list of column keys.
\<close>

definition rule_key :: string where "rule_key = ''stage_keys''"
definition max_stage_keys :: nat where "max_stage_keys = 100"

text \<open>
  \<open>^(0|[1-9][0-9]{0,8}):(\S{1,128})$\<close> with \<open>re.match\<close>; the final anchor also holds before a
  line feed that ends the text.
\<close>

definition category_digits :: "string \<Rightarrow> bool" where
  "category_digits c \<longleftrightarrow> c = ''0'' \<or> all_digits c \<and> hd c \<noteq> CHR ''0'' \<and> length c \<le> 9"

definition plain_stage_key :: "string \<Rightarrow> bool" where
  "plain_stage_key s \<longleftrightarrow>
     (let c = takeWhile (\<lambda>x. x \<noteq> CHR '':'') s; rest = dropWhile (\<lambda>x. x \<noteq> CHR '':'') s
      in category_digits c \<and> 2 \<le> length rest \<and> length rest \<le> 129 \<and> list_all (\<lambda>x. \<not> is_space x) (tl rest))"

definition stage_key_matches :: "string \<Rightarrow> bool" where
  "stage_key_matches s \<longleftrightarrow>
     plain_stage_key s \<or> (s \<noteq> [] \<and> last s = CHR 0x0A \<and> plain_stage_key (butlast s))"

definition parse_keys :: "json \<Rightarrow> string list option" where
  "parse_keys raw =
     (case raw of
        JList xs \<Rightarrow>
          if max_stage_keys < length xs then None
          else if list_all (\<lambda>v. case v of JStr s \<Rightarrow> stage_key_matches s | _ \<Rightarrow> False) xs
          then Some (firsts (List.map_filter (\<lambda>v. case v of JStr s \<Rightarrow> Some s | _ \<Rightarrow> None) xs))
          else None
      | _ \<Rightarrow> None)"

definition rule_stage_keys :: "json \<Rightarrow> string list" where
  "rule_stage_keys rule =
     (case rule of
        JDict d \<Rightarrow> (case parse_keys (get_field d rule_key) of None \<Rightarrow> [] | Some ks \<Rightarrow> ks)
      | _ \<Rightarrow> [])"

definition rule_of :: "string list \<Rightarrow> json" where
  "rule_of ks = JDict [(rule_key, JList (map JStr ks))]"

type_synonym stage_dict = "(int, stage list) dict"

definition all_stages :: "stage_dict \<Rightarrow> stage list" where
  "all_stages stages = concat (map snd stages)"

definition resolve_rule :: "json \<Rightarrow> stage_dict \<Rightarrow> stage list" where
  "resolve_rule rule stages =
     (let wanted = rule_stage_keys rule
      in if wanted = [] then [] else filter (\<lambda>s. st_key s \<in> set wanted) (all_stages stages))"

definition parse_rule_body :: "json \<Rightarrow> string list option" where
  "parse_rule_body payload =
     (case payload of
        JDict d \<Rightarrow> if map fst d = [rule_key] then parse_keys (get_field d rule_key) else None
      | _ \<Rightarrow> None)"

definition validate_keys :: "string list \<Rightarrow> stage_dict \<Rightarrow> string list option" where
  "validate_keys ks stages =
     (let known = map st_key (all_stages stages)
      in if set ks \<subseteq> set known then Some (filter (\<lambda>k. k \<in> set ks) known) else None)"

section \<open>What was saved is what the reports resolve\<close>

lemma parse_keys_Some:
  assumes "parse_keys raw = Some ks"
  shows "distinct ks \<and> length ks \<le> max_stage_keys \<and> (\<forall>k \<in> set ks. stage_key_matches k)"
proof -
  obtain xs where xs: "raw = JList xs" "length xs \<le> max_stage_keys"
      "list_all (\<lambda>v. case v of JStr s \<Rightarrow> stage_key_matches s | _ \<Rightarrow> False) xs"
      "ks = firsts (List.map_filter (\<lambda>v. case v of JStr s \<Rightarrow> Some s | _ \<Rightarrow> None) xs)"
    using assms by (cases raw) (auto simp: parse_keys_def split: if_splits)
  define ys where "ys = List.map_filter (\<lambda>v. case v of JStr s \<Rightarrow> Some s | _ \<Rightarrow> None) xs"
  have "length ys \<le> length xs" unfolding ys_def
    by (induction xs) (auto simp: List.map_filter_simps split: json.splits)
  moreover have "\<forall>k \<in> set ys. stage_key_matches k" using xs(3) unfolding ys_def
    by (induction xs) (auto simp: List.map_filter_simps split: json.splits)
  ultimately show ?thesis
    using xs length_firsts [of ys] by (simp add: ys_def)
qed

lemma parse_keys_rule:
  assumes "distinct ks" and "length ks \<le> max_stage_keys" and "\<forall>k \<in> set ks. stage_key_matches k"
  shows "parse_keys (JList (map JStr ks)) = Some ks"
proof -
  have "List.map_filter (\<lambda>v. case v of JStr s \<Rightarrow> Some s | _ \<Rightarrow> None) (map JStr ks) = ks"
    by (induction ks) (simp_all add: List.map_filter_simps)
  with assms show ?thesis
    by (simp add: parse_keys_def list_all_iff firsts_distinct)
qed

lemma rule_saved_resolves:
  assumes body: "parse_rule_body payload = Some ks" and valid: "validate_keys ks stages = Some vs"
    and known: "distinct (map st_key (all_stages stages))"
  shows "set vs = set ks \<and> rule_stage_keys (rule_of vs) = vs \<and> map st_key (resolve_rule (rule_of vs) stages) = vs"
proof -
  obtain d where "payload = JDict d" "parse_keys (get_field d rule_key) = Some ks"
    using body by (cases payload) (auto simp: parse_rule_body_def split: if_splits)
  then have ks: "distinct ks" "length ks \<le> max_stage_keys" "\<forall>k \<in> set ks. stage_key_matches k"
    using parse_keys_Some by blast+
  have vs: "vs = filter (\<lambda>k. k \<in> set ks) (map st_key (all_stages stages))" "set ks \<subseteq> set (map st_key (all_stages stages))"
    using valid by (auto simp: validate_keys_def Let_def split: if_splits)
  then have "set vs = set ks" "distinct vs" using known by auto
  then have "length vs = length ks" using ks(1) by (metis distinct_card)
  with \<open>set vs = set ks\<close> \<open>distinct vs\<close> ks have stored: "rule_stage_keys (rule_of vs) = vs"
    by (simp add: rule_stage_keys_def rule_of_def get_field_def parse_keys_rule)
  have "map st_key (filter (\<lambda>s. st_key s \<in> set vs) (all_stages stages)) = vs"
    using vs \<open>set vs = set ks\<close> by (simp add: filter_map o_def)
  with stored have "map st_key (resolve_rule (rule_of vs) stages) = vs"
    by (simp add: resolve_rule_def Let_def)
  with stored \<open>set vs = set ks\<close> show ?thesis by simp
qed

end
