(* ===== verification/Crm_Repo.thy ===== *)
theory Crm_Repo
  imports Crm_Dict Deal_Period
begin

text \<open>
  \<open>services/crm_repo.py\<close> and the half of \<open>services/crm_grants.py\<close> it calls: who reads the CRM mirror,
  the rows each report counts, and what the lanes let a report promise. An aggregate query is
  written as the groups of the rows its inner query selects.
\<close>

section \<open>Who may read what\<close>

record repo_store = scope_store +
  rp_tables :: dict_tables

record viewer_access =
  va_grant :: "grant option"
  va_scope :: "viewer_scope option"

definition no_access :: viewer_access where
  "no_access = \<lparr>va_grant = None, va_scope = None\<rparr>"

definition widens_crm :: "viewer_access \<Rightarrow> bool" where
  "widens_crm a = (case va_grant a of Some g \<Rightarrow> gr_crm g | None \<Rightarrow> va_scope a \<noteq> None)"

definition widens_calls :: "viewer_access \<Rightarrow> bool" where
  "widens_calls a = (case va_grant a of Some g \<Rightarrow> gr_calls g | None \<Rightarrow> False)"

definition viewer_access ::
  "scope_settings \<Rightarrow> rat \<Rightarrow> principal \<Rightarrow> 'a scope_store_scheme \<Rightarrow> viewer_access" where
  "viewer_access sg now p st =
     (if pr_access p = ''all'' then no_access
      else if pr_grant p \<noteq> None then no_access\<lparr>va_grant := pr_grant p\<rparr>
      else if \<not> sg_enabled sg then no_access
      else no_access\<lparr>va_scope := load_scope sg (pr_portal p) (pr_user p) now st\<rparr>)"

definition mirror_readable :: "viewer_portal \<Rightarrow> bool" where
  "mirror_readable p \<longleftrightarrow> vp_crm_mode p \<noteq> ''off'' \<and> vp_opt_out p = None \<and> \<not> vp_purge p"

definition simple_crm :: "viewer_portal \<Rightarrow> bool" where
  "simple_crm p =
     (case get_field (vp_capabilities p) crm_mode_capability of
        JInt n \<Rightarrow> n = crm_mode_simple
      | JFloat (Fin q) \<Rightarrow> q = of_int crm_mode_simple
      | _ \<Rightarrow> False)"

definition linked_lead_cap :: nat where "linked_lead_cap = 250"

definition linked_lead_ids :: "int \<Rightarrow> string \<Rightarrow> int \<Rightarrow> item_table \<Rightarrow> int list" where
  "linked_lead_ids pid kind the_id t =
     (if kind \<noteq> ''CONTACT'' \<and> kind \<noteq> ''COMPANY'' then []
      else take linked_lead_cap (rev (sort (List.map_filter (\<lambda>((p, e, i), r).
             if p = pid \<and> e = entity_lead \<and> si_deleted_at r = None \<and>
                (if kind = ''CONTACT''
                 then (case cd_contact_ids (si_data r) of None \<Rightarrow> False | Some cs \<Rightarrow> the_id \<in> set cs)
                 else cd_company_id (si_data r) = Some the_id)
             then Some i else None) t))))"

definition serves_mirror :: "viewer_portal \<Rightarrow> principal \<Rightarrow> viewer_access option \<Rightarrow> bool" where
  "serves_mirror vp p access =
     (if vp_opt_out vp \<noteq> None \<or> vp_crm_mode vp \<noteq> ''mirror'' then False
      else if pr_access p = ''all'' then True
      else pr_access p = ''own'' \<and> (case access of None \<Rightarrow> False | Some a \<Rightarrow> widens_crm a))"

definition grant_scope :: "int \<Rightarrow> grant \<Rightarrow> 'a viewer_store_scheme \<Rightarrow> item_predicate option" where
  "grant_scope pid g st =
     (if gr_kind g = kind_portal then None
      else Some (\<lambda>(k, r). department_member pid g st (cd_assigned_by_id (si_data r))))"

definition crm_scope ::
  "principal \<Rightarrow> viewer_access option \<Rightarrow> 'a viewer_store_scheme \<Rightarrow> (principal_error, item_predicate option) result" where
  "crm_scope p access st =
     (if pr_access p = ''all'' then Inr None
      else if pr_access p = ''denied'' then Inl (PrincipalError ''no_stats_permission'' 403)
      else case access of
             None \<Rightarrow> Inl (PrincipalError ''crm_mirror_unavailable'' 409)
           | Some a \<Rightarrow>
               (case va_grant a of
                  Some g \<Rightarrow>
                    if gr_crm g then Inr (grant_scope (pr_portal p) g st)
                    else (case va_scope a of
                            Some v \<Rightarrow> Inr (Some (scope_predicate v))
                          | None \<Rightarrow> Inl (PrincipalError ''crm_mirror_unavailable'' 409))
                | None \<Rightarrow>
                    (case va_scope a of
                       Some v \<Rightarrow> Inr (Some (scope_predicate v))
                     | None \<Rightarrow> Inl (PrincipalError ''crm_mirror_unavailable'' 409))))"

section \<open>The rows of a report\<close>

record call_filters =
  cf_start :: rat
  cf_end :: rat
  cf_employees :: "int list"

definition in_period :: "call_filters \<Rightarrow> rat option \<Rightarrow> bool" where
  "in_period f t = (case t of None \<Rightarrow> False | Some x \<Rightarrow> cf_start f \<le> x \<and> x < cf_end f)"

definition live_row :: "int \<Rightarrow> int list \<Rightarrow> item_predicate" where
  "live_row pid entities = (\<lambda>((p, e, i), r). p = pid \<and> e \<in> set entities \<and> si_deleted_at r = None)"

definition assigned_to :: "int list \<Rightarrow> item_predicate" where
  "assigned_to users = (\<lambda>(k, r). users = [] \<or>
     (case cd_assigned_by_id (si_data r) of None \<Rightarrow> False | Some uid \<Rightarrow> uid \<in> set users))"

definition in_scope :: "item_predicate option \<Rightarrow> item_predicate" where
  "in_scope scope kr = (case scope of None \<Rightarrow> True | Some f \<Rightarrow> f kr)"

definition on_leg :: "(int \<times> string) list \<Rightarrow> stored_item \<Rightarrow> bool" where
  "on_leg legs r =
     (case (cd_category_id (si_data r), cd_stage_id (si_data r)) of
        (Some cat, Some stg) \<Rightarrow> (cat, stg) \<in> set legs | _ \<Rightarrow> False)"

definition deal_counted ::
  "int \<Rightarrow> call_filters \<Rightarrow> item_predicate option \<Rightarrow> int list \<Rightarrow> (int \<times> string) list \<Rightarrow> item_predicate" where
  "deal_counted pid f scope users legs = (\<lambda>(k, r).
     live_row pid [entity_deal] (k, r) \<and>
     (in_period f (cd_created_time (si_data r)) \<or>
      on_leg legs r \<and> (in_period f (cd_moved_time (si_data r)) \<or> in_period f (cd_updated_time (si_data r)))) \<and>
     in_scope scope (k, r) \<and> assigned_to users (k, r))"

text \<open>A deal that says won or lost is believed; any other takes its stage's outcome.\<close>

definition won_or_lost :: "string option \<Rightarrow> bool" where
  "won_or_lost s \<longleftrightarrow> s = Some ''S'' \<or> s = Some ''F''"

definition joined_stage :: "int \<Rightarrow> dict_tables \<Rightarrow> stored_item \<Rightarrow> stage_values option" where
  "joined_stage pid t r =
     (case (cd_category_id (si_data r), cd_stage_id (si_data r)) of
        (Some cat, Some stg) \<Rightarrow>
          (case map_of (dt_stages t) (pid, entity_deal, cat, stg) of
             Some row \<Rightarrow> if ls_missing row = None then Some (ls_values row) else None
           | None \<Rightarrow> None)
      | _ \<Rightarrow> None)"

definition deal_outcome :: "int \<Rightarrow> dict_tables \<Rightarrow> stored_item \<Rightarrow> string" where
  "deal_outcome pid t r =
     (if won_or_lost (cd_stage_semantic (si_data r)) then the (cd_stage_semantic (si_data r))
      else if won_or_lost (map_option sr_semantic (joined_stage pid t r))
      then the (map_option sr_semantic (joined_stage pid t r))
      else ''P'')"

record deal_group =
  dg_category :: "int option"
  dg_assigned :: "int option"
  dg_stage :: string
  dg_semantic :: string

definition deal_group_of :: "int \<Rightarrow> dict_tables \<Rightarrow> stored_item \<Rightarrow> deal_group" where
  "deal_group_of pid t r =
     \<lparr>dg_category = cd_category_id (si_data r), dg_assigned = cd_assigned_by_id (si_data r),
      dg_stage = (case cd_stage_id (si_data r) of None \<Rightarrow> [] | Some s \<Rightarrow> s),
      dg_semantic = deal_outcome pid t r\<rparr>"

record stage_count =
  sc_group :: deal_group
  sc_deals :: nat
  sc_first_id :: int

text \<open>\<open>GROUP BY\<close> with a count and the least id, in the order of the least ids.\<close>

definition group_counts :: "(int \<times> deal_group) list \<Rightarrow> stage_count list" where
  "group_counts xs =
     sort_key sc_first_id
       (map (\<lambda>g. \<lparr>sc_group = g, sc_deals = length (filter (\<lambda>(i, g'). g' = g) xs),
                  sc_first_id = Min (set (map fst (filter (\<lambda>(i, g'). g' = g) xs)))\<rparr>)
          (firsts (map snd xs)))"

definition selected_deals ::
  "int \<Rightarrow> call_filters \<Rightarrow> item_predicate option \<Rightarrow> int list \<Rightarrow> (int \<times> string) list \<Rightarrow> dict_tables \<Rightarrow> item_table \<Rightarrow>
   (int \<times> deal_group) list" where
  "selected_deals pid f scope users legs tables t =
     List.map_filter (\<lambda>((p, e, i), r).
       if deal_counted pid f scope users legs ((p, e, i), r) then Some (i, deal_group_of pid tables r) else None) t"

definition deal_stage_counts ::
  "int \<Rightarrow> call_filters \<Rightarrow> item_predicate option \<Rightarrow> int list \<Rightarrow> (int \<times> string) list \<Rightarrow> dict_tables \<Rightarrow> item_table \<Rightarrow>
   stage_count list" where
  "deal_stage_counts pid f scope users legs tables t = group_counts (selected_deals pid f scope users legs tables t)"

section \<open>The dictionary\<close>

definition mirrored_funnels :: "int \<Rightarrow> dict_tables \<Rightarrow> funnel list" where
  "mirrored_funnels pid t =
     sort_key (\<lambda>f. (fn_sort f, fn_id f)) (List.map_filter (\<lambda>((p, e, cid), r).
       if p = pid \<and> e = entity_deal \<and> ls_missing r = None
       then Some \<lparr>fn_id = cid, fn_name = fr_name (ls_values r), fn_sort = fr_sort (ls_values r),
                  fn_is_default = fr_default (ls_values r)\<rparr>
       else None) (dt_funnels t))"

definition mirrored_stages :: "int \<Rightarrow> dict_tables \<Rightarrow> stage list" where
  "mirrored_stages pid t =
     List.map_filter (\<lambda>((p, e, cid, sid), r).
       if p = pid \<and> e = entity_deal \<and> ls_missing r = None
       then Some \<lparr>st_key = stage_key cid sid, st_category_id = cid, st_status_id = sid,
                  st_name = sr_name (ls_values r),
                  st_semantic = normalise_semantic (JStr (sr_semantic (ls_values r))),
                  st_sort = sr_sort (ls_values r), st_known = True\<rparr>
       else None) (dt_stages t)"

definition deal_dictionary :: "int \<Rightarrow> dict_tables \<Rightarrow> funnel list \<times> stage_dict" where
  "deal_dictionary pid t =
     (let funnels = mirrored_funnels pid t
      in (funnels,
          map (\<lambda>f. (fn_id f, sort_key (\<lambda>s. (st_sort s, st_status_id s))
                     (filter (\<lambda>s. st_category_id s = fn_id f) (mirrored_stages pid t)))) funnels))"

section \<open>The Sources report\<close>

definition utm_counted ::
  "int \<Rightarrow> call_filters \<Rightarrow> int list \<Rightarrow> item_predicate option \<Rightarrow> int list \<Rightarrow> item_predicate" where
  "utm_counted pid f entities scope users = (\<lambda>(k, r).
     live_row pid entities (k, r) \<and> in_period f (cd_created_time (si_data r)) \<and>
     in_scope scope (k, r) \<and> assigned_to users (k, r))"

record utm_group =
  ug_entity :: int
  ug_utm :: "string list"
  ug_semantic :: string

definition utm_group_of :: "(int \<times> int \<times> int) \<times> stored_item \<Rightarrow> utm_group" where
  "utm_group_of = (\<lambda>((p, e, i), r).
     \<lparr>ug_entity = e, ug_utm = map (\<lambda>v. case v of None \<Rightarrow> [] | Some s \<Rightarrow> s) (cd_utm (si_data r)),
      ug_semantic = (if won_or_lost (cd_stage_semantic (si_data r)) then the (cd_stage_semantic (si_data r)) else ''P'')\<rparr>)"

record utm_count =
  uc_group :: utm_group
  uc_records :: nat
  uc_from_lead :: nat
  uc_amount_rows :: nat
  uc_amount :: rat
  uc_currencies :: "string list"

text \<open>\<open>collate\<close> is the sort key of a text under the database's collation.\<close>

definition utm_count_of ::
  "(string \<Rightarrow> 'c::linorder) \<Rightarrow> ((int \<times> int \<times> int) \<times> stored_item) list \<Rightarrow> utm_group \<Rightarrow> utm_count" where
  "utm_count_of collate rs g =
     (let mine = map (si_data \<circ> snd) (filter (\<lambda>kr. utm_group_of kr = g) rs);
          amounts = List.map_filter cd_opportunity mine
      in \<lparr>uc_group = g, uc_records = length mine,
          uc_from_lead = length (filter (\<lambda>d. case cd_lead_id d of None \<Rightarrow> False | Some n \<Rightarrow> 0 < n) mine),
          uc_amount_rows = length amounts, uc_amount = sum_list amounts,
          uc_currencies = sort_key collate (remdups (List.map_filter (\<lambda>d.
            if cd_opportunity d \<noteq> None then cd_currency_id d else None) mine))\<rparr>)"

definition utm_counts ::
  "(string \<Rightarrow> 'c::linorder) \<Rightarrow> int \<Rightarrow> call_filters \<Rightarrow> int list \<Rightarrow> item_predicate option \<Rightarrow> int list \<Rightarrow>
   item_table \<Rightarrow> utm_count list" where
  "utm_counts collate pid f entities scope users t =
     (let rs = filter (utm_counted pid f entities scope users) t
      in map (utm_count_of collate rs)
           (sort_key (\<lambda>g. (ug_entity g, map collate (ug_utm g), collate (ug_semantic g)))
             (remdups (map utm_group_of rs))))"

text \<open>\<open>local_day\<close> is the day of an instant in the viewer's zone, as the database computes it.\<close>

definition utm_days ::
  "(rat \<Rightarrow> 'd) \<Rightarrow> int \<Rightarrow> call_filters \<Rightarrow> int list \<Rightarrow> item_predicate option \<Rightarrow> int list \<Rightarrow> item_table \<Rightarrow>
   ('d \<times> int \<times> nat) list" where
  "utm_days local_day pid f entities scope users t =
     (let keys = List.map_filter (\<lambda>((p, e, i), r).
            if utm_counted pid f entities scope users ((p, e, i), r)
            then map_option (\<lambda>c. (local_day c, e)) (cd_created_time (si_data r)) else None) t
      in map (\<lambda>(day, e). (day, e, length (filter (\<lambda>k. k = (day, e)) keys))) (remdups keys))"

section \<open>Coverage\<close>

record coverage =
  cv_deals_available :: bool
  cv_deal_reason :: string
  cv_leads_available :: bool
  cv_lead_reason :: string
  cv_history_complete :: bool
  cv_progress :: int
  cv_data_as_of :: "rat option"

definition lane_readable :: "int \<Rightarrow> lane_table \<Rightarrow> string \<Rightarrow> bool \<times> string" where
  "lane_readable pid t name =
     (case map_of t (pid, name) of
        None \<Rightarrow> (False, ''not_started'')
      | Some l \<Rightarrow>
          (case ln_block_reason l of
             Some reason \<Rightarrow> if reason = [] then (True, []) else (False, reason)
           | None \<Rightarrow> (True, [])))"

definition lanes_named :: "int \<Rightarrow> lane_table \<Rightarrow> string list \<Rightarrow> lane list" where
  "lanes_named pid t names = List.map_filter (\<lambda>name. map_of t (pid, name)) names"

definition backfill_progress_pct :: "lane list \<Rightarrow> int" where
  "backfill_progress_pct backfills =
     (let finished = sum_list (map ln_progress_done backfills);
          all_of_it = sum_list (map (\<lambda>l. case ln_progress_total l of None \<Rightarrow> 0 | Some n \<Rightarrow> n) backfills)
      in if 0 < all_of_it then min 99 ((100 * finished) div all_of_it) else 0)"

definition oldest_clean :: "int \<Rightarrow> lane_table \<Rightarrow> string list \<Rightarrow> rat option" where
  "oldest_clean pid t names =
     (let cleaned = map (\<lambda>name. case map_of t (pid, name) of None \<Rightarrow> None | Some l \<Rightarrow> ln_last_clean_at l) names
      in if None \<in> set cleaned then None else min_opt (List.map_filter id cleaned))"

definition coverage_of :: "int \<Rightarrow> bool \<Rightarrow> lane_table \<Rightarrow> coverage" where
  "coverage_of pid leads t =
     (let (deals_ok, deal_reason) = lane_readable pid t ''deal.backfill'';
          (lb_ok, lb_reason) = lane_readable pid t ''lead.backfill'';
          (leads_ok, lead_reason) = (if lb_ok then lane_readable pid t ''lead.sweep'' else (lb_ok, lb_reason));
          counted = leads \<and> leads_ok;
          backfills = lanes_named pid t ((if deals_ok then [''deal.backfill''] else []) @ (if counted then [''lead.backfill''] else []));
          history = (backfills \<noteq> [] \<and> list_all (\<lambda>l. ln_status l = lane_done) backfills)
      in \<lparr>cv_deals_available = deals_ok, cv_deal_reason = deal_reason, cv_leads_available = leads_ok,
          cv_lead_reason = lead_reason, cv_history_complete = history,
          cv_progress = (if history then 100 else backfill_progress_pct backfills),
          cv_data_as_of = oldest_clean pid t (''deal.sweep'' # (if counted then [''lead.sweep''] else []))\<rparr>)"

definition coverage_wire :: "(rat \<Rightarrow> string) \<Rightarrow> rat \<Rightarrow> rat \<Rightarrow> coverage \<Rightarrow> (string, json) dict" where
  "coverage_wire fmt stale_after now cv =
     (let as_of = (case cv_data_as_of cv of None \<Rightarrow> JNone | Some t \<Rightarrow> JStr (fmt t));
          stale = (case cv_data_as_of cv of
                     None \<Rightarrow> JDict [(''since'', JNone), (''reason'', JStr ''never_synced'')]
                   | Some t \<Rightarrow> if stale_after < now - t
                               then JDict [(''since'', JStr (fmt t)), (''reason'', JStr ''sync_delayed'')] else JNone)
      in [(''data_as_of'', as_of),
          (''coverage'', JDict [(''window_from'', JNone), (''history_complete'', JBool (cv_history_complete cv)),
                               (''progress_pct'', JInt (cv_progress cv))]),
          (''stale'', stale)])"

section \<open>What the gates promise\<close>

text \<open>The page that is told to read the mirror is never refused by the mirror's own scope.\<close>

lemma serves_mirror_scoped:
  "serves_mirror vp p access \<Longrightarrow> \<exists>scope. crm_scope p access st = Inr scope"
  by (auto simp: serves_mirror_def crm_scope_def widens_crm_def split: if_splits option.splits)

text \<open>Row by row, who may read a mirrored record.\<close>

definition may_read_item :: "principal \<Rightarrow> viewer_access option \<Rightarrow> 'a viewer_store_scheme \<Rightarrow> item_predicate" where
  "may_read_item p access st = (\<lambda>(k, r).
     pr_access p = ''all'' \<or>
     (pr_access p \<noteq> ''denied'' \<and> (\<exists>a. access = Some a \<and>
       (case va_grant a of
          Some g \<Rightarrow> if gr_crm g then gr_kind g = kind_portal \<or> department_member (pr_portal p) g st (cd_assigned_by_id (si_data r))
                    else (\<exists>v. va_scope a = Some v \<and> scope_predicate v (k, r))
        | None \<Rightarrow> (\<exists>v. va_scope a = Some v \<and> scope_predicate v (k, r))))))"

lemma crm_scope_reads:
  assumes "crm_scope p access st = Inr scope"
  shows "in_scope scope kr \<longleftrightarrow> may_read_item p access st kr"
  using assms
  by (cases kr) (auto simp: crm_scope_def in_scope_def may_read_item_def grant_scope_def split: if_splits option.splits)

lemma viewer_access_one:
  "va_grant (viewer_access sg now p st) = None \<or> va_scope (viewer_access sg now p st) = None"
  by (simp add: viewer_access_def no_access_def)

section \<open>Every selected deal is counted once\<close>

lemma length_partition:
  assumes "distinct gs" and "f ` set xs \<subseteq> set gs"
  shows "sum_list (map (\<lambda>g. length (filter (\<lambda>x. f x = g) xs)) gs) = length xs"
  using assms(2)
proof (induction xs)
  case (Cons x xs)
  have "sum_list (map (\<lambda>g. length (filter (\<lambda>y. f y = g) (x # xs))) gs) =
    (\<Sum>g \<in> set gs. (if f x = g then 1 else 0) + length (filter (\<lambda>y. f y = g) xs))"
    unfolding sum_list_distinct_conv_sum_set [OF assms(1)] by (rule sum.cong) auto
  also have "\<dots> = (\<Sum>g \<in> set gs. if f x = g then 1 else 0) + (\<Sum>g \<in> set gs. length (filter (\<lambda>y. f y = g) xs))"
    by (rule sum.distrib)
  also have "(\<Sum>g \<in> set gs. if f x = g then 1 else 0) = (1 :: nat)"
    using Cons.prems by simp
  finally show ?case
    using Cons by (simp add: sum_list_distinct_conv_sum_set [OF assms(1)])
qed simp

lemma sum_list_sort:
  fixes f :: "'a \<Rightarrow> nat"
  shows "sum_list (map f (sort_key k xs)) = sum_list (map f xs)"
proof -
  have "sum_mset (mset (map f (sort_key k xs))) = sum_mset (mset (map f xs))" by simp
  then show ?thesis by (simp only: sum_mset_sum_list)
qed

lemma group_counts_total: "sum_list (map sc_deals (group_counts xs)) = length xs"
proof -
  have "sum_list (map sc_deals (group_counts xs)) =
    sum_list (map (\<lambda>g. length (filter (\<lambda>x. snd x = g) xs)) (firsts (map snd xs)))"
    by (simp add: group_counts_def sum_list_sort o_def case_prod_unfold)
  also have "\<dots> = length xs"
    by (rule length_partition) simp_all
  finally show ?thesis .
qed

lemma group_counts_groups:
  "set (map sc_group (group_counts xs)) = set (map snd xs) \<and> distinct (map sc_group (group_counts xs))"
proof -
  define counted where "counted = map (\<lambda>g. \<lparr>sc_group = g, sc_deals = length (filter (\<lambda>(i, g'). g' = g) xs),
    sc_first_id = Min (set (map fst (filter (\<lambda>(i, g'). g' = g) xs)))\<rparr>) (firsts (map snd xs))"
  have eq: "map sc_group counted = firsts (map snd xs)"
    by (simp add: counted_def o_def)
  have "mset (map sc_group (group_counts xs)) = mset (map sc_group counted)"
    unfolding group_counts_def counted_def by (simp only: mset_map mset_sort)
  with eq have ms: "mset (map sc_group (group_counts xs)) = mset (firsts (map snd xs))"
    by simp
  have "set (map sc_group (group_counts xs)) = set (firsts (map snd xs))"
    using ms by (rule mset_eq_setD)
  moreover have "distinct (map sc_group (group_counts xs))"
    using mset_eq_imp_distinct_iff [OF ms] by simp
  ultimately show ?thesis by simp
qed

lemma selected_deals_filter:
  "selected_deals pid f scope users legs tables t =
     map (\<lambda>((p, e, i), r). (i, deal_group_of pid tables r)) (filter (deal_counted pid f scope users legs) t)"
  by (induction t) (auto simp: selected_deals_def List.map_filter_simps)

section \<open>Coverage never promises a history that is still loading\<close>

lemma backfill_progress_below:
  "0 \<le> sum_list (map ln_progress_done ls) \<Longrightarrow> backfill_progress_pct ls \<in> {0..99}"
  by (auto simp: backfill_progress_pct_def Let_def pos_imp_zdiv_nonneg_iff)

end
