(* ===== verification/Deal_Report.thy ===== *)
theory Deal_Report
  imports Crm_Repo
begin

text \<open>
  \<open>services/deal_stats.py\<close>: the accumulators of the deal report, the fold of the deals a live read
  pages through, the fold of the counts the mirror groups, and the response both write. The two
  folds build the same accumulators.
\<close>

section \<open>Accumulators\<close>

record measures =
  tl_total :: int
  tl_progress :: int
  tl_won :: int
  tl_lost :: int
  tl_unknown :: int
  tl_cells :: "(string, int) dict"

definition no_measures :: measures where
  "no_measures = \<lparr>tl_total = 0, tl_progress = 0, tl_won = 0, tl_lost = 0, tl_unknown = 0, tl_cells = []\<rparr>"

definition add_cell :: "string \<Rightarrow> int \<Rightarrow> (string, int) dict \<Rightarrow> (string, int) dict" where
  "add_cell column n cells =
     dict_set column ((case map_of cells column of None \<Rightarrow> 0 | Some m \<Rightarrow> m) + n) cells"

definition measures_add :: "string \<Rightarrow> string option \<Rightarrow> int \<Rightarrow> measures \<Rightarrow> measures" where
  "measures_add semantic column n m =
     m\<lparr>tl_total := tl_total m + n,
       tl_won := (if semantic = ''S'' then tl_won m + n else tl_won m),
       tl_lost := (if semantic = ''F'' then tl_lost m + n else tl_lost m),
       tl_progress := (if semantic \<noteq> ''S'' \<and> semantic \<noteq> ''F'' then tl_progress m + n else tl_progress m),
       tl_unknown := (if column = None then tl_unknown m + n else tl_unknown m),
       tl_cells := (case column of None \<Rightarrow> tl_cells m | Some c \<Rightarrow> add_cell c n (tl_cells m))\<rparr>"

definition measures_merge :: "measures \<Rightarrow> measures \<Rightarrow> measures" where
  "measures_merge m other =
     \<lparr>tl_total = tl_total m + tl_total other, tl_progress = tl_progress m + tl_progress other,
      tl_won = tl_won m + tl_won other, tl_lost = tl_lost m + tl_lost other,
      tl_unknown = tl_unknown m + tl_unknown other,
      tl_cells = fold (\<lambda>(c, n). add_cell c n) (tl_cells other) (tl_cells m)\<rparr>"

definition measures_wire :: "bool \<Rightarrow> measures \<Rightarrow> (string, json) dict" where
  "measures_wire with_cells m =
     [(''total'', JInt (tl_total m)), (''in_progress'', JInt (tl_progress m)), (''won'', JInt (tl_won m)),
      (''lost'', JInt (tl_lost m)), (''unknown_stage'', JInt (tl_unknown m))] @
     (if with_cells then [(''cells'', JDict (map (\<lambda>(c, n). (c, JInt n)) (tl_cells m)))] else [])"

record funnel_block =
  fb_category :: "int option"
  fb_rows :: "(int option, measures) dict"
  fb_subtotal :: measures
  fb_extra :: "(string, string) dict"

definition fresh_block :: "int option \<Rightarrow> funnel_block" where
  "fresh_block cat = \<lparr>fb_category = cat, fb_rows = [], fb_subtotal = no_measures, fb_extra = []\<rparr>"

type_synonym report_groups = "(int option, funnel_block) dict"
type_synonym stage_index = "(string, stage) dict"

definition index_stages :: "stage_dict \<Rightarrow> stage_index" where
  "index_stages stages = fold (\<lambda>s. dict_set (st_key s) s) (all_stages stages) []"

section \<open>The folds\<close>

definition column_of :: "int option \<Rightarrow> string \<Rightarrow> string option" where
  "column_of cat status_id = map_option (\<lambda>c. stage_key c status_id) cat"

text \<open>What both folds do with one deal, or with \<open>n\<close> that agree on everything shown.\<close>

definition add_extra :: "stage_index \<Rightarrow> int option \<Rightarrow> string \<Rightarrow> (string, string) dict \<Rightarrow> (string, string) dict" where
  "add_extra known cat status_id extra =
     (case column_of cat status_id of
        None \<Rightarrow> extra
      | Some c \<Rightarrow> if map_of known c = None \<and> map_of extra c = None then dict_set c status_id extra else extra)"

definition add_row ::
  "int option \<Rightarrow> string \<Rightarrow> string option \<Rightarrow> int \<Rightarrow> (int option, measures) dict \<Rightarrow> (int option, measures) dict" where
  "add_row who semantic column n table =
     dict_set who (measures_add semantic column n
       (case map_of table who of None \<Rightarrow> no_measures | Some m \<Rightarrow> m)) table"

definition block_add :: "stage_index \<Rightarrow> int option \<Rightarrow> string \<Rightarrow> string \<Rightarrow> int option \<Rightarrow> int \<Rightarrow> funnel_block \<Rightarrow> funnel_block" where
  "block_add known cat status_id semantic who n b =
     b\<lparr>fb_extra := add_extra known cat status_id (fb_extra b),
       fb_rows := add_row (positive who) semantic (column_of cat status_id) n (fb_rows b),
       fb_subtotal := measures_add semantic (column_of cat status_id) n (fb_subtotal b)\<rparr>"

definition count_deals ::
  "stage_index \<Rightarrow> int option \<Rightarrow> string \<Rightarrow> string \<Rightarrow> int option \<Rightarrow> int \<Rightarrow> report_groups \<Rightarrow> report_groups" where
  "count_deals known cat status_id semantic who n groups =
     dict_set cat (block_add known cat status_id semantic who n
       (case map_of groups cat of None \<Rightarrow> fresh_block cat | Some b \<Rightarrow> b)) groups"

text \<open>The outcome a live row is counted under: its own, or its stage's where it says in progress.\<close>

definition live_semantic :: "stage_index \<Rightarrow> string option \<Rightarrow> json \<Rightarrow> string" where
  "live_semantic known column raw =
     (let s = normalise_semantic raw
      in if s = ''P''
         then (case column of
                 None \<Rightarrow> s
               | Some c \<Rightarrow> (case map_of known c of None \<Rightarrow> s | Some stg \<Rightarrow> st_semantic stg))
         else s)"

definition fold_row ::
  "deal_dialect \<Rightarrow> stage_index \<Rightarrow> string list option \<Rightarrow> (string, json) dict \<Rightarrow> report_groups \<times> int set \<Rightarrow>
   (py_error, report_groups \<times> int set) result" where
  "fold_row d known only row acc =
     (let (groups, seen) = acc
      in rbind (as_int_crm (get_field row (dl_id d))) (\<lambda>ident.
         case ident of
           None \<Rightarrow> Inr acc
         | Some i \<Rightarrow>
             if i \<in> seen then Inr acc
             else rbind (as_int_crm (get_field row (dl_category_id d))) (\<lambda>cat.
                  let status_id = crm_text (get_field row (dl_stage_id d));
                      column = column_of cat status_id
                  in if (case only of None \<Rightarrow> False
                         | Some cs \<Rightarrow> (case column of None \<Rightarrow> True | Some c \<Rightarrow> c \<notin> set cs)) then Inr acc
                     else rbind (as_int_crm (get_field row (dl_assigned_by_id d))) (\<lambda>who.
                       Inr (count_deals known cat status_id
                              (live_semantic known column (get_field row (dl_semantic d))) who 1 groups,
                            insert i seen)))))"

definition fold_page ::
  "deal_dialect \<Rightarrow> stage_index \<Rightarrow> string list option \<Rightarrow> (string, json) dict list \<Rightarrow> report_groups \<times> int set \<Rightarrow>
   (py_error, report_groups \<times> int set) result" where
  "fold_page d known only = rfold (fold_row d known only)"

definition fold_counts :: "stage_index \<Rightarrow> stage_count list \<Rightarrow> report_groups" where
  "fold_counts known counts =
     fold (\<lambda>c. count_deals known (dg_category (sc_group c)) (dg_stage (sc_group c)) (dg_semantic (sc_group c))
                 (dg_assigned (sc_group c)) (int (sc_deals c))) counts []"

section \<open>The selections of a live read\<close>

record deal_stream =
  dm_filter :: "(string, json) dict"
  dm_only :: "string list option"

definition deal_streams :: "deal_dialect \<Rightarrow> string \<Rightarrow> string \<Rightarrow> stage list \<Rightarrow> deal_stream list" where
  "deal_streams d start_iso end_iso legs =
     (let created = \<lparr>dm_filter = deal_period_filter d start_iso end_iso, dm_only = None\<rparr>
      in if legs = [] then [created]
         else (let columns = map st_key legs;
                   (moved_leg, updated_leg) = stage_leg_filters d (sort (remdups (map st_status_id legs))) start_iso end_iso
               in [created, \<lparr>dm_filter = moved_leg, dm_only = Some columns\<rparr>,
                   \<lparr>dm_filter = updated_leg, dm_only = Some columns\<rparr>]))"

definition first_pages :: "deal_dialect \<Rightarrow> deal_stream list \<Rightarrow> int list \<Rightarrow> (py_error, command list) result" where
  "first_pages d streams users =
     rbind (rmap (\<lambda>(index, s). deal_page_commands d (dm_filter s) [0] users (int index)) (enumerate 0 streams))
       (\<lambda>css. Inr (concat css))"

section \<open>The response\<close>

record employee_row =
  em_last_name :: "string option"
  em_name :: "string option"
  em_second_name :: "string option"
  em_phone :: "string option"
  em_active :: bool
  em_found :: bool

record employee_label =
  el_name :: "string option"
  el_phone :: "string option"
  el_active :: bool

definition operator_lookup_cap :: nat where "operator_lookup_cap = 200"
definition row_cap :: nat where "row_cap = 200"

definition label_of :: "employee_row \<Rightarrow> employee_label" where
  "label_of e =
     (let parts = List.map_filter (\<lambda>p. case p of None \<Rightarrow> None | Some s \<Rightarrow> if strip s = [] then None else Some (strip s))
                    [em_last_name e, em_name e, em_second_name e];
          joined = join_with '' '' parts
      in \<lparr>el_name = (if joined = [] then None else Some joined), el_phone = em_phone e,
          el_active = (em_active e \<and> em_found e)\<rparr>)"

definition employee_labels :: "int \<Rightarrow> int list \<Rightarrow> (int \<times> int, employee_row) dict \<Rightarrow> (int, employee_label) dict" where
  "employee_labels pid users t =
     (let capped = take operator_lookup_cap (sorted_ids users)
      in List.map_filter (\<lambda>((p, uid), e). if p = pid \<and> uid \<in> set capped then Some (uid, label_of e) else None) t)"

record report_dictionary =
  rd_funnels :: "funnel list"
  rd_stages :: stage_dict
  rd_failed :: "int list"
  rd_truncated :: "int list"
  rd_dialect :: string

definition read_status_answers :: "batch_result \<Rightarrow> funnel list \<Rightarrow> string \<Rightarrow> (py_error, report_dictionary) result" where
  "read_status_answers b funnels name =
     rfold (\<lambda>f out.
       let key = status_key (fn_id f)
       in if \<not> batch_ok b key
          then Inr (out\<lparr>rd_failed := rd_failed out @ [fn_id f], rd_stages := dict_set (fn_id f) [] (rd_stages out)\<rparr>)
          else rbind (parse_stages (fn_id f) (batch_get b key)) (\<lambda>parsed.
               let short = (case find_command b key of
                              None \<Rightarrow> False
                            | Some c \<Rightarrow> (case cmd_total c of None \<Rightarrow> False | Some n \<Rightarrow> int (length parsed) < n))
               in Inr (out\<lparr>rd_truncated := (if short then rd_truncated out @ [fn_id f] else rd_truncated out),
                           rd_stages := dict_set (fn_id f) parsed (rd_stages out)\<rparr>)))
       funnels \<lparr>rd_funnels = funnels, rd_stages = [], rd_failed = [], rd_truncated = [], rd_dialect = name\<rparr>"

definition stage_wire :: "stage \<Rightarrow> json" where
  "stage_wire s = JDict
     [(''key'', JStr (st_key s)), (''category_id'', JInt (st_category_id s)), (''status_id'', JStr (st_status_id s)),
      (''name'', JStr (st_name s)), (''semantic'', JStr (st_semantic s)), (''sort'', JInt (st_sort s)),
      (''known'', JBool (st_known s))]"

definition synthesised :: "string \<Rightarrow> string \<Rightarrow> int \<Rightarrow> nat \<Rightarrow> stage" where
  "synthesised column status_id cat index =
     \<lparr>st_key = column, st_category_id = cat, st_status_id = status_id, st_name = [], st_semantic = ''P'',
      st_sort = 1000000 + int index, st_known = False\<rparr>"

definition block_columns :: "stage_dict \<Rightarrow> funnel_block \<Rightarrow> stage list" where
  "block_columns stages b =
     (case fb_category b of
        None \<Rightarrow> []
      | Some cat \<Rightarrow>
          (case map_of stages cat of None \<Rightarrow> [] | Some ss \<Rightarrow> ss) @
          map (\<lambda>(index, column, status_id). synthesised column status_id cat index) (enumerate 0 (fb_extra b)))"

definition opt_json :: "('a \<Rightarrow> json) \<Rightarrow> 'a option \<Rightarrow> json" where
  "opt_json f v = (case v of None \<Rightarrow> JNone | Some a \<Rightarrow> f a)"

definition row_wire :: "(int, employee_label) dict \<Rightarrow> int option \<times> measures \<Rightarrow> json" where
  "row_wire labels r =
     (let (who, m) = r; l = (case who of None \<Rightarrow> None | Some uid \<Rightarrow> map_of labels uid)
      in JDict ([(''user_id'', opt_json JInt who), (''name'', opt_json JStr (Option.bind l el_name)),
                 (''phone_inner'', opt_json JStr (Option.bind l el_phone)),
                 (''active'', opt_json (\<lambda>x. JBool (el_active x)) l)] @ measures_wire True m))"

definition sorted_rows :: "funnel_block \<Rightarrow> (int option \<times> measures) list" where
  "sorted_rows b =
     sort_key (\<lambda>(who, m). (- tl_total m, case who of None \<Rightarrow> 0 | Some uid \<Rightarrow> uid))
       (filter (\<lambda>(who, m). who \<noteq> None) (fb_rows b)) @
     (case map_of (fb_rows b) None of None \<Rightarrow> [] | Some m \<Rightarrow> [(None, m)])"

definition block_rank :: "funnel list \<Rightarrow> int option \<Rightarrow> int \<times> int" where
  "block_rank funnels cat =
     (case cat of
        None \<Rightarrow> (2, 0)
      | Some c \<Rightarrow>
          (case map_of (rev (map (\<lambda>(index, f). (fn_id f, int index)) (enumerate 0 funnels))) c of
             Some index \<Rightarrow> (0, index)
           | None \<Rightarrow> (1, c)))"

definition block_wire :: "report_dictionary \<Rightarrow> (int, employee_label) dict \<Rightarrow> funnel_block \<Rightarrow> json" where
  "block_wire dic labels b =
     (let own = (case fb_category b of None \<Rightarrow> None
                 | Some c \<Rightarrow> map_of (rev (map (\<lambda>f. (fn_id f, f)) (rd_funnels dic))) c);
          columns = block_columns (rd_stages dic) b; all_rows = sorted_rows b
      in JDict [(''category_id'', opt_json JInt (fb_category b)),
                (''name'', JStr (case own of None \<Rightarrow> [] | Some f \<Rightarrow> fn_name f)),
                (''is_default'', JBool (case own of None \<Rightarrow> False | Some f \<Rightarrow> fn_is_default f)),
                (''stage_keys'', JList (map (\<lambda>s. JStr (st_key s)) columns)),
                (''rows'', JList (map (row_wire labels) (take row_cap all_rows))),
                (''subtotal'', JDict (measures_wire True (fb_subtotal b))),
                (''total_rows'', JInt (int (length all_rows))), (''truncated'', JBool (row_cap < length all_rows))])"

record scan_facts =
  sn_range :: json
  sn_list_dialect :: string
  sn_folded :: int
  sn_deals_total :: int
  sn_deal_cap :: int
  sn_requests :: int
  sn_from_cache :: bool
  sn_assigned :: "int list"
  sn_legs :: "stage list"

definition report_blocks :: "report_dictionary \<Rightarrow> report_groups \<Rightarrow> funnel_block list" where
  "report_blocks dic groups = map snd (sort_key (\<lambda>(cat, b). block_rank (rd_funnels dic) cat) groups)"

definition report_totals :: "report_dictionary \<Rightarrow> report_groups \<Rightarrow> measures" where
  "report_totals dic groups = fold (\<lambda>b m. measures_merge m (fb_subtotal b)) (report_blocks dic groups) no_measures"

definition build_response ::
  "scan_facts \<Rightarrow> report_dictionary \<Rightarrow> report_groups \<Rightarrow> (int, employee_label) dict \<Rightarrow> (string, json) dict" where
  "build_response sn dic groups labels =
     (let blocks = report_blocks dic groups
      in [(''range'', sn_range sn),
          (''filters'', JDict [(''employees'', JList (map JInt (sn_assigned sn)))]),
          (''stages'', JList (concat (map (\<lambda>b. map stage_wire (block_columns (rd_stages dic) b)) blocks))),
          (''groups'', JList (map (block_wire dic labels) blocks)),
          (''totals'', JDict (measures_wire False (report_totals dic groups))),
          (''period_rule'', JDict [(''stage_keys'', JList (map (\<lambda>s. JStr (st_key s)) (sn_legs sn)))]),
          (''scan'', JDict
             [(''deals'', JInt (sn_folded sn)), (''deals_total'', JInt (sn_deals_total sn)),
              (''deal_cap'', JInt (sn_deal_cap sn)),
              (''stage_dictionary_failed'', JList (map JInt (rd_failed dic))),
              (''stage_dictionary_truncated'', JList (map JInt (rd_truncated dic))),
              (''funnels_hidden'', JInt (int (length (filter (\<lambda>f. map_of groups (Some (fn_id f)) = None) (rd_funnels dic))))),
              (''list_dialect'', JStr (sn_list_dialect sn)), (''dictionary_dialect'', JStr (rd_dialect dic)),
              (''rest_requests'', JInt (sn_requests sn)), (''from_cache'', JBool (sn_from_cache sn))])])"

section \<open>The report from the mirror\<close>

datatype report_error = Refused principal_error | ReportError string int string

definition mirror_dialect_name :: string where "mirror_dialect_name = ''mirror''"

text \<open>\<open>admitted\<close>: the gate in front of the database was free in time.\<close>

definition load_deal_report_mirror ::
  "principal \<Rightarrow> int \<Rightarrow> json \<Rightarrow> json \<Rightarrow> call_filters \<Rightarrow> viewer_access option \<Rightarrow> bool \<Rightarrow> int \<Rightarrow> (rat \<Rightarrow> string) \<Rightarrow> rat \<Rightarrow> rat \<Rightarrow>
   (int \<times> int, employee_row) dict \<Rightarrow> 'a repo_store_scheme \<Rightarrow> (report_error, (string, json) dict) result" where
  "load_deal_report_mirror p pid rule wanted f access admitted cap fmt stale_after now staff st =
     (case crm_scope p access st of
        Inl e \<Rightarrow> Inl (Refused e)
      | Inr scope \<Rightarrow>
          if \<not> admitted then Inl (ReportError ''retry'' 503 [])
          else
            (let cv = coverage_of pid False (cs_lanes (vs_crm st))
             in if \<not> cv_deals_available cv then Inl (ReportError ''crm_mirror_unavailable'' 409 (cv_deal_reason cv))
                else
                  (let (funnels, stages) = deal_dictionary pid (rp_tables st);
                       legs = resolve_rule rule stages;
                       counts = deal_stage_counts pid f scope (cf_employees f)
                                  (map (\<lambda>s. (st_category_id s, st_status_id s)) legs) (rp_tables st) (cs_items (vs_crm st));
                       dic = \<lparr>rd_funnels = funnels, rd_stages = stages, rd_failed = [], rd_truncated = [],
                              rd_dialect = mirror_dialect_name\<rparr>;
                       groups = fold_counts (index_stages stages) counts;
                       n = int (sum_list (map sc_deals counts));
                       who = concat (map (\<lambda>(c, b). List.map_filter fst (fb_rows b)) groups);
                       body = build_response
                         \<lparr>sn_range = wanted, sn_list_dialect = mirror_dialect_name, sn_folded = n, sn_deals_total = n,
                          sn_deal_cap = cap, sn_requests = 0, sn_from_cache = False, sn_assigned = cf_employees f,
                          sn_legs = legs\<rparr> dic groups (employee_labels pid who staff)
                   in Inr (dict_update body (coverage_wire fmt stale_after now cv)))))"

section \<open>Every report adds up\<close>

lemma sum_dict_set:
  fixes F :: "'v \<Rightarrow> int"
  shows "sum_list (map (F \<circ> snd) (dict_set k v d)) =
    sum_list (map (F \<circ> snd) d) + F v - (case map_of d k of None \<Rightarrow> 0 | Some u \<Rightarrow> F u)"
  by (induction d) (auto split: option.split)

text \<open>A row is the sum of its outcomes and of its cells, a funnel the sum of its rows.\<close>

definition measures_ok :: "measures \<Rightarrow> bool" where
  "measures_ok m \<longleftrightarrow> tl_total m = tl_won m + tl_lost m + tl_progress m \<and>
     tl_total m = tl_unknown m + sum_list (map (id \<circ> snd) (tl_cells m))"

definition block_ok :: "funnel_block \<Rightarrow> bool" where
  "block_ok b \<longleftrightarrow> measures_ok (fb_subtotal b) \<and> (\<forall>(who, m) \<in> set (fb_rows b). measures_ok m) \<and>
     sum_list (map (tl_total \<circ> snd) (fb_rows b)) = tl_total (fb_subtotal b)"

definition report_ok :: "report_groups \<Rightarrow> bool" where
  "report_ok groups \<longleftrightarrow> (\<forall>(cat, b) \<in> set groups. fb_category b = cat \<and> block_ok b)"

definition report_deals :: "report_groups \<Rightarrow> int" where
  "report_deals groups = sum_list (map ((\<lambda>b. tl_total (fb_subtotal b)) \<circ> snd) groups)"

lemma measures_add_ok: "measures_ok m \<Longrightarrow> measures_ok (measures_add semantic column n m)"
  by (auto simp: measures_ok_def measures_add_def add_cell_def sum_dict_set [of id, simplified] split: option.split)

lemma measures_add_total [simp]: "tl_total (measures_add semantic column n m) = tl_total m + n"
  by (simp add: measures_add_def)

lemma no_measures_ok [simp]: "measures_ok no_measures" "tl_total no_measures = 0"
  by (simp_all add: measures_ok_def no_measures_def)

lemma block_add_ok:
  assumes "block_ok b"
  shows "block_ok (block_add known cat status_id semantic who n b)"
proof -
  define m where "m = (case map_of (fb_rows b) (positive who) of None \<Rightarrow> no_measures | Some m \<Rightarrow> m)"
  have "measures_ok m"
    using assms by (auto simp: m_def block_ok_def dest!: map_of_SomeD split: option.split)
  moreover have "(case map_of (fb_rows b) (positive who) of None \<Rightarrow> 0 | Some u \<Rightarrow> tl_total u) = tl_total m"
    by (simp add: m_def split: option.split)
  ultimately show ?thesis
    using assms by (auto simp: block_ok_def block_add_def add_row_def sum_dict_set measures_add_ok m_def [symmetric] dest!: dict_set_mem)
qed

lemma count_deals_ok:
  assumes "report_ok groups"
  shows "report_ok (count_deals known cat status_id semantic who n groups) \<and>
    report_deals (count_deals known cat status_id semantic who n groups) = report_deals groups + n"
proof -
  define b where "b = (case map_of groups cat of None \<Rightarrow> fresh_block cat | Some b \<Rightarrow> b)"
  have "fb_category b = cat \<and> block_ok b"
    using assms by (auto simp: b_def report_ok_def fresh_block_def block_ok_def dest!: map_of_SomeD split: option.split)
  moreover have "(case map_of groups cat of None \<Rightarrow> 0 | Some u \<Rightarrow> tl_total (fb_subtotal u)) = tl_total (fb_subtotal b)"
    by (simp add: b_def fresh_block_def split: option.split)
  moreover have "fb_category (block_add known cat status_id semantic who n b) = fb_category b"
    "tl_total (fb_subtotal (block_add known cat status_id semantic who n b)) = tl_total (fb_subtotal b) + n"
    by (simp_all add: block_add_def)
  ultimately show ?thesis
    using assms block_add_ok [of b known cat status_id semantic who n]
    by (auto simp: report_ok_def report_deals_def count_deals_def sum_dict_set b_def [symmetric] dest!: dict_set_mem)
qed

lemma fold_counts_ok:
  "report_ok (fold_counts known counts) \<and> report_deals (fold_counts known counts) = int (sum_list (map sc_deals counts))"
proof (induction counts rule: rev_induct)
  case Nil
  show ?case by (simp add: fold_counts_def report_ok_def report_deals_def)
next
  case (snoc c counts)
  have "fold_counts known (counts @ [c]) = count_deals known (dg_category (sc_group c)) (dg_stage (sc_group c))
    (dg_semantic (sc_group c)) (dg_assigned (sc_group c)) (int (sc_deals c)) (fold_counts known counts)"
    by (simp add: fold_counts_def)
  with snoc count_deals_ok show ?case by simp
qed

lemma fold_row_ok:
  assumes "fold_row d known only row (groups, seen) = Inr (groups', seen')" and "report_ok groups" and "finite seen"
  shows "report_ok groups' \<and> finite seen' \<and> report_deals groups' - report_deals groups = int (card seen') - int (card seen)"
proof -
  have "(groups', seen') = (groups, seen) \<or>
    (\<exists>i cat status_id semantic who. i \<notin> seen \<and> groups' = count_deals known cat status_id semantic who 1 groups \<and> seen' = insert i seen)"
  proof -
    obtain ident where ident: "as_int_crm (get_field row (dl_id d)) = Inr ident"
      using assms(1) by (auto simp: fold_row_def rbind_Inr_iff)
    show ?thesis
    proof (cases "\<exists>i. ident = Some i \<and> i \<notin> seen")
      case False
      with assms(1) ident show ?thesis by (auto simp: fold_row_def split: option.splits)
    next
      case True
      then obtain i where i: "ident = Some i" "i \<notin> seen" by blast
      with assms(1) ident obtain cat where cat: "as_int_crm (get_field row (dl_category_id d)) = Inr cat"
        by (auto simp: fold_row_def rbind_Inr_iff)
      define skipped where "skipped = (case only of None \<Rightarrow> False
        | Some cs \<Rightarrow> (case column_of cat (crm_text (get_field row (dl_stage_id d))) of None \<Rightarrow> True | Some c \<Rightarrow> c \<notin> set cs))"
      show ?thesis
      proof (cases skipped)
        case True
        with assms(1) ident i cat show ?thesis by (simp add: fold_row_def Let_def flip: skipped_def)
      next
        case False
        with assms(1) ident i cat obtain status_id semantic who where
          "groups' = count_deals known cat status_id semantic who 1 groups" "seen' = insert i seen"
          by (auto simp: fold_row_def Let_def rbind_Inr_iff simp flip: skipped_def)
        with i show ?thesis by blast
      qed
    qed
  qed
  then show ?thesis
    using assms(2,3) count_deals_ok [OF assms(2)] by auto
qed

lemma fold_page_ok:
  assumes "fold_page d known only page (groups, seen) = Inr (groups', seen')" and "report_ok groups" and "finite seen"
  shows "report_ok groups' \<and> finite seen' \<and> report_deals groups' - report_deals groups = int (card seen') - int (card seen)"
proof -
  define P where "P = (\<lambda>(gs, sn :: int set). report_ok gs \<and> finite sn \<and> report_deals gs - report_deals groups = int (card sn) - int (card seen))"
  have "P (groups', seen')"
    using assms(1) unfolding fold_page_def
  proof (rule rfold_invariant)
    show "P (groups, seen)" using assms by (simp add: P_def)
    show "P c" if "x \<in> set page" "P b" "fold_row d known only x b = Inr c" for x b c
      using that fold_row_ok [of d known only x "fst b" "snd b" "fst c" "snd c"] by (auto simp: P_def)
  qed
  then show ?thesis by (simp add: P_def)
qed

lemma fold_pages_ok:
  assumes "rfold (\<lambda>(only, page). fold_page d known only page) pages ([], {}) = Inr (groups, seen)"
  shows "report_ok groups \<and> report_deals groups = int (card seen)"
proof -
  define P where "P = (\<lambda>(gs, sn :: int set). report_ok gs \<and> finite sn \<and> report_deals gs = int (card sn))"
  have "P (groups, seen)"
    using assms
  proof (rule rfold_invariant)
    show "P ([], {})" by (simp add: P_def report_ok_def report_deals_def)
    show "P c" if "x \<in> set pages" "P b" "(case x of (only, page) \<Rightarrow> fold_page d known only page) b = Inr c" for x b c
      using that fold_page_ok [of d known "fst x" "snd x" "fst b" "snd b" "fst c" "snd c"] by (auto simp: P_def case_prod_unfold)
  qed
  then show ?thesis by (simp add: P_def)
qed

lemma report_totals_deals: "tl_total (report_totals dic groups) = report_deals groups"
proof -
  have "tl_total (fold (\<lambda>b m. measures_merge m (fb_subtotal b)) bs m) = tl_total m + sum_list (map (\<lambda>b. tl_total (fb_subtotal b)) bs)"
    for bs :: "funnel_block list" and m by (induction bs arbitrary: m) (simp_all add: measures_merge_def)
  then have "tl_total (report_totals dic groups) = sum_list (map (\<lambda>b. tl_total (fb_subtotal b)) (report_blocks dic groups))"
    by (simp add: report_totals_def)
  also have "\<dots> = report_deals groups"
  proof -
    have "sum_mset (mset (map (\<lambda>b. tl_total (fb_subtotal b)) (report_blocks dic groups))) =
      sum_mset (mset (map (\<lambda>b. tl_total (fb_subtotal b)) (map snd groups)))"
      by (simp only: report_blocks_def mset_map mset_sort)
    then show ?thesis by (simp only: sum_mset_sum_list report_deals_def map_map)
  qed
  finally show ?thesis .
qed

lemma report_totals_split:
  assumes "report_ok groups"
  shows "tl_total (report_totals dic groups) =
    tl_won (report_totals dic groups) + tl_lost (report_totals dic groups) + tl_progress (report_totals dic groups)"
proof -
  define split :: "measures \<Rightarrow> bool" where "split = (\<lambda>m. tl_total m = tl_won m + tl_lost m + tl_progress m)"
  have blocks: "\<forall>b \<in> set (report_blocks dic groups). split (fb_subtotal b)"
    using assms by (auto simp: report_blocks_def report_ok_def block_ok_def measures_ok_def split_def)
  have "split m \<Longrightarrow> \<forall>b \<in> set bs. split (fb_subtotal b) \<Longrightarrow> split (fold (\<lambda>b m. measures_merge m (fb_subtotal b)) bs m)" for bs m
    by (induction bs arbitrary: m) (simp_all add: split_def measures_merge_def)
  from this [of no_measures, OF _ blocks] show ?thesis
    by (simp add: report_totals_def split_def no_measures_def)
qed

lemma load_deal_report_mirror_totals:
  assumes "load_deal_report_mirror p pid rule wanted f access admitted cap fmt stale_after now staff st = Inr body"
  shows "\<exists>scope groups dic counts. crm_scope p access st = Inr scope \<and>
    groups = fold_counts (index_stages (rd_stages dic)) counts \<and>
    counts = deal_stage_counts pid f scope (cf_employees f)
      (map (\<lambda>s. (st_category_id s, st_status_id s)) (resolve_rule rule (snd (deal_dictionary pid (rp_tables st)))))
      (rp_tables st) (cs_items (vs_crm st)) \<and>
    map_of body ''totals'' = Some (JDict (measures_wire False (report_totals dic groups)))"
proof -
  obtain funnels stages where dict: "deal_dictionary pid (rp_tables st) = (funnels, stages)"
    by (cases "deal_dictionary pid (rp_tables st)")
  have kept: "map_of (dict_update d (coverage_wire fmt stale_after now cv)) ''totals'' = map_of d ''totals''" for d cv
    by (simp add: dict_update_def coverage_wire_def map_of_dict_set Let_def)
  obtain scope where scope: "crm_scope p access st = Inr scope"
    using assms by (auto simp: load_deal_report_mirror_def split: sum.splits)
  define counts where "counts = deal_stage_counts pid f scope (cf_employees f)
      (map (\<lambda>s. (st_category_id s, st_status_id s)) (resolve_rule rule stages)) (rp_tables st) (cs_items (vs_crm st))"
  define dic where "dic = \<lparr>rd_funnels = funnels, rd_stages = stages, rd_failed = [], rd_truncated = [], rd_dialect = mirror_dialect_name\<rparr>"
  have "map_of body ''totals'' =
      Some (JDict (measures_wire False (report_totals dic (fold_counts (index_stages (rd_stages dic)) counts))))"
    using assms unfolding load_deal_report_mirror_def scope dict
    by (auto simp: kept build_response_def counts_def dic_def Let_def split: if_splits)
  with scope show ?thesis by (auto simp: dict counts_def)
qed

end
