(* ===== verification/Deal_Parity.thy ===== *)
theory Deal_Parity
  imports Deal_Report
begin

text \<open>
  The deal report drawn from the mirror is the one the live read draws: groups of counts fold to
  the same accumulators as the deals themselves, met in the order of their ids.
\<close>

section \<open>The groups decide the report\<close>

definition count_group :: "stage_index \<Rightarrow> deal_group \<Rightarrow> int \<Rightarrow> report_groups \<Rightarrow> report_groups" where
  "count_group known g = count_deals known (dg_category g) (dg_stage g) (dg_semantic g) (dg_assigned g)"

definition count_weighted :: "stage_index \<Rightarrow> (deal_group \<times> int) list \<Rightarrow> report_groups" where
  "count_weighted known ws = fold (\<lambda>(g, n). count_group known g n) ws []"

lemma weight_append: "weight P (xs @ ys) = weight P xs + weight P ys"
  by (simp add: weight_def)

text \<open>One row's counters, in closed form.\<close>

definition measures_of :: "((string \<times> string option) \<times> int) list \<Rightarrow> measures" where
  "measures_of ws = fold (\<lambda>((semantic, column), n). measures_add semantic column n) ws no_measures"

definition shown_columns :: "('a \<times> string option) list \<Rightarrow> string list" where
  "shown_columns ks = map the (filter (\<lambda>c. c \<noteq> None) (firsts (map snd ks)))"

lemma shown_columns_distinct: "distinct (shown_columns ks)"
  by (auto simp: shown_columns_def distinct_map inj_on_def)

lemma shown_columns_mem: "c \<in> set (shown_columns ks) \<longleftrightarrow> Some c \<in> snd ` set ks"
  by (force simp: shown_columns_def)

lemma shown_columns_snoc:
  "shown_columns (ks @ [k]) =
     (case snd k of None \<Rightarrow> shown_columns ks
      | Some c \<Rightarrow> if c \<in> set (shown_columns ks) then shown_columns ks else shown_columns ks @ [c])"
proof (cases "snd k")
  case None
  then show ?thesis by (auto simp: shown_columns_def firsts_snoc)
next
  case (Some c)
  then show ?thesis
    unfolding shown_columns_mem by (auto simp: shown_columns_def firsts_snoc)
qed

lemma measures_of_closed:
  "measures_of ws =
     \<lparr>tl_total = weight (\<lambda>_. True) ws, tl_progress = weight (\<lambda>(s, c). s \<noteq> ''S'' \<and> s \<noteq> ''F'') ws,
      tl_won = weight (\<lambda>(s, c). s = ''S'') ws, tl_lost = weight (\<lambda>(s, c). s = ''F'') ws,
      tl_unknown = weight (\<lambda>(s, c). c = None) ws,
      tl_cells = map (\<lambda>c. (c, weight (\<lambda>(s, c'). c' = Some c) ws)) (shown_columns (map fst ws))\<rparr>"
proof (induction ws rule: rev_induct)
  case Nil
  show ?case by (simp add: measures_of_def no_measures_def shown_columns_def)
next
  case (snoc w ws)
  obtain semantic column n where w: "w = ((semantic, column), n)" by (metis surj_pair)
  have step: "measures_of (ws @ [w]) = measures_add semantic column n (measures_of ws)"
    by (simp add: measures_of_def w)
  have zero: "weight (\<lambda>(s, c'). c' = Some c) ws = 0" if "c \<notin> set (shown_columns (map fst ws))" for c
  proof -
    have "filter ((\<lambda>(s, c'). c' = Some c) \<circ> fst) ws = []"
      using that by (force simp: shown_columns_mem filter_empty_conv)
    then show ?thesis by (simp add: weight_def)
  qed
  show ?case
  proof (cases column)
    case None
    then show ?thesis
      unfolding step snoc by (simp add: measures_add_def weight_append weight_Cons shown_columns_snoc w)
  next
    case (Some c)
    have "map (\<lambda>c. (c, weight (\<lambda>(s, c'). c' = Some c) (ws @ [w]))) (shown_columns (map fst (ws @ [w]))) =
      add_cell c n (map (\<lambda>c. (c, weight (\<lambda>(s, c'). c' = Some c) ws)) (shown_columns (map fst ws)))"
      using zero [of c] Some
      by (auto simp: add_cell_def dict_set_table map_of_table shown_columns_distinct shown_columns_snoc w weight_append
          weight_Cons)
    with Some show ?thesis
      unfolding step snoc by (simp add: measures_add_def weight_append weight_Cons w)
  qed
qed

lemma measures_of_same:
  assumes "same_content ws vs"
  shows "measures_of ws = measures_of vs"
proof -
  have "shown_columns (map fst ws) = shown_columns (map fst vs)"
    using firsts_map [of snd "map fst ws"] firsts_map [of snd "map fst vs"] same_content_firsts [OF assms]
    by (simp add: shown_columns_def)
  then show ?thesis
    by (simp add: measures_of_closed same_content_weight [OF assms])
qed

text \<open>The rows of a funnel, by operator.\<close>

definition group_column :: "deal_group \<Rightarrow> string option" where
  "group_column g = column_of (dg_category g) (dg_stage g)"

definition rows_of :: "(deal_group \<times> int) list \<Rightarrow> (int option, measures) dict" where
  "rows_of ws = fold (\<lambda>(g, n). add_row (positive (dg_assigned g)) (dg_semantic g) (group_column g) n) ws []"

lemma measures_of_fold:
  "fold (\<lambda>(g, n). measures_add (dg_semantic g) (group_column g) n) ws no_measures =
     measures_of (rekey (\<lambda>_. True) (\<lambda>g. (dg_semantic g, group_column g)) ws)"
proof -
  have "fold (\<lambda>(g, n). measures_add (dg_semantic g) (group_column g) n) ws m =
    fold (\<lambda>((semantic, column), n). measures_add semantic column n)
      (rekey (\<lambda>_. True) (\<lambda>g. (dg_semantic g, group_column g)) ws) m" for m
    by (induction ws arbitrary: m) (auto simp: rekey_def)
  then show ?thesis by (simp add: measures_of_def)
qed

lemma rekey_filter: "rekey (\<lambda>_. True) f (filter (\<lambda>(g, n). P g) ws) = rekey P f ws"
  by (simp add: rekey_def case_prod_unfold o_def)

lemma rekey_id: "rekey P id ws = filter (\<lambda>(g, n). P g) ws"
  by (simp add: rekey_def case_prod_unfold o_def)

lemma rows_of_closed:
  "rows_of ws =
     map (\<lambda>who. (who, measures_of (rekey (\<lambda>g. positive (dg_assigned g) = who) (\<lambda>g. (dg_semantic g, group_column g)) ws)))
       (firsts (map (\<lambda>(g, n). positive (dg_assigned g)) ws))"
proof -
  define F where "F = (\<lambda>(_ :: int option) gn. case gn of (g, n) \<Rightarrow> measures_add (dg_semantic g) (group_column g) n)"
  have "rows_of ws = fold (accumulate F (\<lambda>_. no_measures)) (map (\<lambda>(g, n). (positive (dg_assigned g), (g, n))) ws) []"
    by (simp add: rows_of_def fold_map o_def case_prod_unfold accumulate_def [abs_def] add_row_def [abs_def] F_def Let_def)
  also have "\<dots> = map (\<lambda>who. (who, fold (F who) (filter (\<lambda>(g, n). positive (dg_assigned g) = who) ws) no_measures))
       (firsts (map (\<lambda>(g, n). positive (dg_assigned g)) ws))"
    unfolding fold_accumulate by (simp add: filter_map o_def case_prod_unfold)
  also have "\<dots> = map (\<lambda>who. (who, measures_of (rekey (\<lambda>g. positive (dg_assigned g) = who) (\<lambda>g. (dg_semantic g, group_column g)) ws)))
       (firsts (map (\<lambda>(g, n). positive (dg_assigned g)) ws))"
    by (simp only: F_def prod.case measures_of_fold rekey_filter)
  finally show ?thesis .
qed

lemma rows_of_same:
  assumes "same_content ws vs"
  shows "rows_of ws = rows_of vs"
proof -
  have "firsts (map (\<lambda>(g, n). positive (dg_assigned g)) ws) = firsts (map (\<lambda>(g, n). positive (dg_assigned g)) vs)"
    using firsts_map [of "\<lambda>g. positive (dg_assigned g)" "map fst ws"] firsts_map [of "\<lambda>g. positive (dg_assigned g)" "map fst vs"]
      same_content_firsts [OF assms] by (simp add: o_def case_prod_unfold)
  moreover have "measures_of (rekey P f ws) = measures_of (rekey P f vs)" for P and f :: "deal_group \<Rightarrow> string \<times> string option"
    by (rule measures_of_same [OF same_content_rekey [OF assms]])
  ultimately show ?thesis by (simp add: rows_of_closed)
qed

text \<open>The columns a funnel discovers.\<close>

lemma fold_absorbed:
  assumes "\<And>x d. Q x (e x d)" and "\<And>x y d. Q x d \<Longrightarrow> Q x (e y d)" and "\<And>x d. Q x d \<Longrightarrow> e x d = d"
  shows "fold e (firsts xs) a = fold e xs a \<and> (\<forall>x \<in> set xs. Q x (fold e xs a))"
  by (induction xs rule: rev_induct) (use assms in \<open>auto simp: firsts_snoc\<close>)

definition extra_of :: "stage_index \<Rightarrow> (int option \<times> string) list \<Rightarrow> (string, string) dict" where
  "extra_of known ks = fold (\<lambda>(cat, status_id). add_extra known cat status_id) ks []"

lemma extra_of_firsts: "extra_of known (firsts ks) = extra_of known ks"
proof -
  define Q where "Q = (\<lambda>(cat, status_id) extra. case column_of cat status_id of None \<Rightarrow> True
    | Some c \<Rightarrow> map_of known c \<noteq> None \<or> map_of (extra :: (string, string) dict) c \<noteq> None)"
  have grows: "map_of extra c \<noteq> None \<Longrightarrow> map_of (add_extra known cat s extra) c \<noteq> None" for extra c cat s
    by (auto simp: add_extra_def map_of_dict_set split: option.split)
  have "Q x (case_prod (add_extra known) x d)" for x d
    by (cases x) (auto simp: Q_def add_extra_def map_of_dict_set split: option.split)
  moreover have "Q x d \<Longrightarrow> Q x (case_prod (add_extra known) y d)" for x y d
    using grows by (cases x; cases y) (auto simp: Q_def split: option.splits)
  moreover have "Q x d \<Longrightarrow> case_prod (add_extra known) x d = d" for x d
    by (cases x) (auto simp: Q_def add_extra_def split: option.splits)
  ultimately have "fold (case_prod (add_extra known)) (firsts ks) [] = fold (case_prod (add_extra known)) ks []"
    using fold_absorbed [of Q "case_prod (add_extra known)"] by blast
  then show ?thesis by (simp add: extra_of_def)
qed

text \<open>A whole funnel, and the report.\<close>

lemma fold_block_add:
  "fold (\<lambda>(g, n). block_add known (dg_category g) (dg_stage g) (dg_semantic g) (dg_assigned g) n) ws b =
     b\<lparr>fb_extra := fold (\<lambda>(cat, status_id). add_extra known cat status_id) (map (\<lambda>(g, n). (dg_category g, dg_stage g)) ws) (fb_extra b),
       fb_rows := fold (\<lambda>(g, n). add_row (positive (dg_assigned g)) (dg_semantic g) (group_column g) n) ws (fb_rows b),
       fb_subtotal := fold (\<lambda>(g, n). measures_add (dg_semantic g) (group_column g) n) ws (fb_subtotal b)\<rparr>"
  by (induction ws arbitrary: b) (auto simp: block_add_def group_column_def)

definition block_of :: "stage_index \<Rightarrow> int option \<Rightarrow> (deal_group \<times> int) list \<Rightarrow> funnel_block" where
  "block_of known cat ws =
     \<lparr>fb_category = cat, fb_rows = rows_of ws,
      fb_subtotal = measures_of (rekey (\<lambda>_. True) (\<lambda>g. (dg_semantic g, group_column g)) ws),
      fb_extra = extra_of known (map (\<lambda>(g, n). (dg_category g, dg_stage g)) ws)\<rparr>"

lemma block_of_same:
  assumes "same_content ws vs"
  shows "block_of known cat ws = block_of known cat vs"
proof -
  define f :: "deal_group \<Rightarrow> int option \<times> string" where "f = (\<lambda>g. (dg_category g, dg_stage g))"
  have "firsts (map f (map fst ws)) = firsts (map f (map fst vs))"
    using firsts_map [of f "map fst ws"] firsts_map [of f "map fst vs"] same_content_firsts [OF assms] by simp
  then have "extra_of known (map f (map fst ws)) = extra_of known (map f (map fst vs))"
    by (metis extra_of_firsts)
  then have "extra_of known (map (\<lambda>(g, n). (dg_category g, dg_stage g)) ws) =
    extra_of known (map (\<lambda>(g, n). (dg_category g, dg_stage g)) vs)"
    by (simp add: f_def o_def case_prod_unfold)
  then show ?thesis
    using rows_of_same [OF assms] measures_of_same [OF same_content_rekey [OF assms]] by (simp add: block_of_def)
qed

lemma count_weighted_closed:
  "count_weighted known ws =
     map (\<lambda>cat. (cat, block_of known cat (rekey (\<lambda>g. dg_category g = cat) id ws))) (firsts (map (\<lambda>(g, n). dg_category g) ws))"
proof -
  define F :: "int option \<Rightarrow> deal_group \<times> int \<Rightarrow> funnel_block \<Rightarrow> funnel_block" where "F = (\<lambda>_ (g, n).
    block_add known (dg_category g) (dg_stage g) (dg_semantic g) (dg_assigned g) n)"
  have "count_weighted known ws = fold (accumulate F fresh_block) (map (\<lambda>(g, n). (dg_category g, (g, n))) ws) []"
    unfolding count_weighted_def fold_map
    by (rule fold_cong) (auto simp: count_group_def count_deals_def accumulate_def F_def fun_eq_iff)
  also have "\<dots> = map (\<lambda>cat. (cat, fold (F cat) (filter (\<lambda>(g, n). dg_category g = cat) ws) (fresh_block cat)))
      (firsts (map (\<lambda>(g, n). dg_category g) ws))"
    unfolding fold_accumulate by (simp add: filter_map o_def case_prod_unfold)
  also have "\<dots> = map (\<lambda>cat. (cat, block_of known cat (rekey (\<lambda>g. dg_category g = cat) id ws)))
      (firsts (map (\<lambda>(g, n). dg_category g) ws))"
    by (simp add: F_def fold_block_add fresh_block_def block_of_def measures_of_fold rows_of_def extra_of_def rekey_id)
  finally show ?thesis .
qed

lemma count_weighted_same:
  assumes "same_content ws vs"
  shows "count_weighted known ws = count_weighted known vs"
proof -
  have "firsts (map (\<lambda>(g, n). dg_category g) ws) = firsts (map (\<lambda>(g, n). dg_category g) vs)"
    using firsts_map [of dg_category "map fst ws"] firsts_map [of dg_category "map fst vs"] same_content_firsts [OF assms]
    by (simp add: o_def case_prod_unfold)
  then show ?thesis
    by (simp add: count_weighted_closed block_of_same [OF same_content_rekey [OF assms]])
qed

section \<open>The mirror's groups are those of its deals\<close>

text \<open>Ordering the groups by their least id is meeting the deals in the order of their ids.\<close>

lemma least_ids_sorted:
  assumes "sorted_wrt (<) (map fst xs)"
  shows "sorted_wrt (<) (map (\<lambda>g. Min (set (map fst (filter (\<lambda>(i, g'). g' = g) xs)))) (firsts (map snd xs)))"
  using assms
proof (induction xs rule: rev_induct)
  case (snoc x xs)
  obtain i g where x: "x = (i, g)" by (cases x)
  have less: "\<And>j g'. (j, g') \<in> set xs \<Longrightarrow> j < i"
    using snoc.prems by (auto simp: x sorted_wrt_append)
  define m where "m = (\<lambda>g. Min (set (map fst (filter (\<lambda>(i, g'). g' = g) xs))))"
  have m_less: "m g' < i" if "g' \<in> snd ` set xs" for g'
  proof -
    have "set (map fst (filter (\<lambda>(i, g''). g'' = g') xs)) \<noteq> {}" using that by (auto simp: filter_empty_conv)
    then have "m g' \<in> set (map fst (filter (\<lambda>(i, g''). g'' = g') xs))" unfolding m_def by (intro Min_in) simp_all
    with less show ?thesis by auto
  qed
  have same: "Min (set (map fst (filter (\<lambda>(i, g''). g'' = g') (xs @ [x])))) = (if g' \<in> snd ` set xs then m g' else i)"
    if "g' \<in> snd ` set xs \<or> g' = g" for g'
  proof (cases "g' \<in> snd ` set xs")
    case False
    with that have "filter (\<lambda>(i, g''). g'' = g') xs = []" "g' = g" by (force simp: filter_empty_conv)+
    with False show ?thesis by (simp add: x)
  next
    case True
    then have "set (map fst (filter (\<lambda>(i, g''). g'' = g') xs)) \<noteq> {}" by (auto simp: filter_empty_conv)
    then have "Min (insert i (set (map fst (filter (\<lambda>(i, g''). g'' = g') xs)))) = min i (m g')"
      unfolding m_def by (intro Min_insert) simp_all
    with m_less [OF True] have "Min (insert i (set (map fst (filter (\<lambda>(i, g''). g'' = g') xs)))) = m g'" by simp
    with True show ?thesis by (simp add: x m_def)
  qed
  have IH: "sorted_wrt (<) (map m (firsts (map snd xs)))"
    using snoc by (simp add: m_def sorted_wrt_append)
  have eq: "map (\<lambda>g'. Min (set (map fst (filter (\<lambda>(i, g''). g'' = g') (xs @ [x]))))) (firsts (map snd xs)) = map m (firsts (map snd xs))"
    using same by (intro map_cong) auto
  show ?case
  proof (cases "g \<in> snd ` set xs")
    case True
    then have keys: "firsts (map snd (xs @ [x])) = firsts (map snd xs)" by (simp add: firsts_snoc x)
    show ?thesis unfolding keys eq by (rule IH)
  next
    case False
    then have keys: "firsts (map snd (xs @ [x])) = firsts (map snd xs) @ [g]" by (simp add: firsts_snoc x)
    have "map (\<lambda>g'. Min (set (map fst (filter (\<lambda>(i, g''). g'' = g') (xs @ [x]))))) (firsts (map snd xs) @ [g]) =
      map m (firsts (map snd xs)) @ [i]"
      unfolding map_append eq using same [of g] False by simp
    with IH m_less show ?thesis unfolding keys by (simp only:) (auto simp: sorted_wrt_append)
  qed
qed simp

lemma group_counts_sorted:
  assumes "sorted_wrt (<) (map fst xs)"
  shows "map (\<lambda>c. (sc_group c, int (sc_deals c))) (group_counts xs) =
    map (\<lambda>g. (g, int (length (filter (\<lambda>g'. g' = g) (map snd xs))))) (firsts (map snd xs))"
proof -
  define counted where "counted = map (\<lambda>g. \<lparr>sc_group = g, sc_deals = length (filter (\<lambda>(i, g'). g' = g) xs),
    sc_first_id = Min (set (map fst (filter (\<lambda>(i, g'). g' = g) xs)))\<rparr>) (firsts (map snd xs))"
  have "map sc_first_id counted = map (\<lambda>g. Min (set (map fst (filter (\<lambda>(i, g'). g' = g) xs)))) (firsts (map snd xs))"
    by (simp add: counted_def)
  then have "sorted (map sc_first_id counted)"
    using least_ids_sorted [OF assms] by (simp add: strict_sorted_iff)
  then have "group_counts xs = counted"
    unfolding group_counts_def counted_def [symmetric] by (rule sort_key_id_if_sorted)
  then show ?thesis by (simp add: counted_def filter_map o_def case_prod_unfold)
qed

text \<open>The groups do not depend on the order the rows lie in the table.\<close>

lemma group_counts_perm:
  assumes "distinct (map fst xs)"
  shows "group_counts xs = group_counts (sort_key fst xs)"
proof -
  define ys where "ys = sort_key fst xs"
  define c where "c = (\<lambda>g. \<lparr>sc_group = g, sc_deals = length (filter (\<lambda>(i, g'). g' = g) xs),
    sc_first_id = Min (set (map fst (filter (\<lambda>(i, g'). g' = g) xs)))\<rparr>)"
  have lens: "length (filter P ys) = length (filter P xs)" for P
    by (metis mset_filter mset_sort size_mset ys_def)
  have sets: "set (filter P ys) = set (filter P xs)" for P by (simp add: ys_def)
  have ys: "group_counts ys = sort_key sc_first_id (map c (firsts (map snd ys)))"
    by (simp only: group_counts_def c_def lens list.set_map sets)
  have "mset (firsts (map snd xs)) = mset (firsts (map snd ys))"
    by (rule set_eq_iff_mset_eq_distinct [THEN iffD1]) (simp_all add: ys_def)
  then have ms: "mset (map c (firsts (map snd xs))) = mset (map c (firsts (map snd ys)))" by simp
  have same: "g = g'" if "g \<in> snd ` set xs" "g' \<in> snd ` set xs" "sc_first_id (c g) = sc_first_id (c g')" for g g'
  proof -
    have mem: "(Min (set (map fst (filter (\<lambda>(i, g''). g'' = g) xs))), g) \<in> set xs" if "g \<in> snd ` set xs" for g
    proof -
      have "set (map fst (filter (\<lambda>(i, g''). g'' = g) xs)) \<noteq> {}" using that by (auto simp: filter_empty_conv)
      from Min_in [OF _ this] show ?thesis by auto
    qed
    have "sc_first_id (c g) = Min (set (map fst (filter (\<lambda>(i, g''). g'' = g) xs)))" for g by (simp add: c_def)
    with mem [OF that(1)] mem [OF that(2)] that(3) obtain m where "(m, g) \<in> set xs" "(m, g') \<in> set xs" by metis
    with assms show ?thesis by (metis eq_key_imp_eq_value)
  qed
  have inj: "inj_on sc_first_id (set (map c (firsts (map snd xs))))"
  proof (intro inj_onI)
    fix a b
    assume mem: "a \<in> set (map c (firsts (map snd xs)))" "b \<in> set (map c (firsts (map snd xs)))" and eq: "sc_first_id a = sc_first_id b"
    obtain g where g: "a = c g" "g \<in> snd ` set xs" using mem(1) by auto
    obtain g' where g': "b = c g'" "g' \<in> snd ` set xs" using mem(2) by auto
    have "g = g'" using eq unfolding g(1) g'(1) by (rule same [OF g(2) g'(2)])
    then show "a = b" by (simp only: g(1) g'(1))
  qed
  have "group_counts xs = sort_key sc_first_id (map c (firsts (map snd xs)))"
    by (simp only: group_counts_def c_def)
  also have "\<dots> = sort_key sc_first_id (map c (firsts (map snd ys)))"
    by (rule sort_key_inj_key_eq) (use ms inj in simp_all)
  finally have "group_counts xs = group_counts ys" by (simp only: ys)
  then show ?thesis by (simp only: ys_def)
qed

lemma fold_counts_weighted:
  "fold_counts known counts = count_weighted known (map (\<lambda>c. (sc_group c, int (sc_deals c))) counts)"
  by (simp add: fold_counts_def count_weighted_def count_group_def fold_map o_def)

lemma fold_counts_deals:
  assumes "distinct (map fst xs)"
  shows "fold_counts known (group_counts xs) = count_weighted known (map (\<lambda>(i, g). (g, 1)) (sort_key fst xs))"
proof -
  define ys where "ys = sort_key fst xs"
  have "sorted_wrt (<) (map fst ys)"
    using assms by (simp add: ys_def strict_sorted_iff distinct_map)
  from group_counts_sorted [OF this]
  have "fold_counts known (group_counts ys) =
    count_weighted known (map (\<lambda>g. (g, int (length (filter (\<lambda>g'. g' = g) (map snd ys))))) (firsts (map snd ys)))"
    by (simp only: fold_counts_weighted)
  also have "\<dots> = count_weighted known (map (\<lambda>g. (g, 1)) (map snd ys))"
    by (rule count_weighted_same [OF same_content_counts])
  finally show ?thesis
    using group_counts_perm [OF assms] by (simp add: ys_def o_def case_prod_unfold)
qed

section \<open>The live read\<close>

text \<open>What one row of the live read is counted as.\<close>

definition read_deal :: "deal_dialect \<Rightarrow> stage_index \<Rightarrow> (string, json) dict \<Rightarrow> (py_error, (int \<times> deal_group) option) result" where
  "read_deal d known row =
     rbind (as_int_crm (get_field row (dl_id d))) (\<lambda>ident.
       case ident of
         None \<Rightarrow> Inr None
       | Some i \<Rightarrow>
           rbind (as_int_crm (get_field row (dl_category_id d))) (\<lambda>cat.
           rbind (as_int_crm (get_field row (dl_assigned_by_id d))) (\<lambda>who.
             let status_id = crm_text (get_field row (dl_stage_id d))
             in Inr (Some (i, \<lparr>dg_category = cat, dg_assigned = who, dg_stage = status_id,
                  dg_semantic = live_semantic known (column_of cat status_id) (get_field row (dl_semantic d))\<rparr>)))))"

lemma fold_row_counts:
  assumes "read_deal d known row = Inr (Some (i, g))" and "i \<notin> seen"
    and "case only of None \<Rightarrow> True | Some cs \<Rightarrow> (case group_column g of None \<Rightarrow> False | Some c \<Rightarrow> c \<in> set cs)"
  shows "fold_row d known only row (groups, seen) = Inr (count_group known g 1 groups, insert i seen)"
proof -
  obtain cat who where fields_read: "as_int_crm (get_field row (dl_id d)) = Inr (Some i)"
      "as_int_crm (get_field row (dl_category_id d)) = Inr cat" "as_int_crm (get_field row (dl_assigned_by_id d)) = Inr who"
    and g: "g = \<lparr>dg_category = cat, dg_assigned = who, dg_stage = crm_text (get_field row (dl_stage_id d)),
      dg_semantic = live_semantic known (column_of cat (crm_text (get_field row (dl_stage_id d)))) (get_field row (dl_semantic d))\<rparr>"
    using assms(1) by (auto simp: read_deal_def rbind_Inr_iff Let_def split: option.splits)
  have "\<not> (case only of None \<Rightarrow> False
     | Some cs \<Rightarrow> (case column_of cat (crm_text (get_field row (dl_stage_id d))) of None \<Rightarrow> True | Some c \<Rightarrow> c \<notin> set cs))"
    using assms(3) by (auto simp: g group_column_def split: option.splits)
  with assms(2) fields_read show ?thesis
    by (simp add: fold_row_def Let_def count_group_def g)
qed

lemma fold_page_counts:
  assumes "list_all2 (\<lambda>row (i, g). read_deal d known row = Inr (Some (i, g))) page ds"
    and "distinct (map fst ds)" and "fst ` set ds \<inter> seen = {}"
  shows "fold_page d known None page (groups, seen) =
    Inr (fold (\<lambda>(i, g). count_group known g 1) ds groups, seen \<union> fst ` set ds)"
  using assms
proof (induction page ds arbitrary: groups seen rule: list_all2_induct)
  case (Cons row page dg ds)
  obtain i g where dg: "dg = (i, g)" by (cases dg)
  have "fold_row d known None row (groups, seen) = Inr (count_group known g 1 groups, insert i seen)"
    using Cons.hyps(1) Cons.prems dg by (intro fold_row_counts) auto
  moreover have "fst ` set ds \<inter> insert i seen = {}"
    using Cons.prems dg by auto
  ultimately show ?case
    using Cons.IH [of "insert i seen" "count_group known g 1 groups"] Cons.prems dg
    by (simp add: fold_page_def Un_insert_left)
qed (simp add: fold_page_def)

section \<open>The dictionary both reads hold\<close>

lemma stage_key_inj: "stage_key c1 s1 = stage_key c2 s2 \<longleftrightarrow> c1 = c2 \<and> s1 = s2"
proof -
  have "CHR '':'' \<notin> set (show_int c)" for c
    using show_nat_digits [of "CHR '':''"] by (auto simp: show_int_def is_digit_def code_def)
  then show ?thesis by (auto simp: stage_key_def append_sep_inj)
qed

lemma fold_keyed_lookup:
  "map_of (fold (\<lambda>x. dict_set (key x) x) xs d) k =
     (case find (\<lambda>x. key x = k) (rev xs) of Some x \<Rightarrow> Some x | None \<Rightarrow> map_of d k)"
  by (induction xs arbitrary: d) (auto simp: map_of_dict_set find_append split: option.splits)

lemma find_unique: "\<exists>!x. x \<in> set xs \<and> P x \<Longrightarrow> x \<in> set xs \<Longrightarrow> P x \<Longrightarrow> find P xs = Some x"
  by (induction xs) auto

lemma map_filter_mem: "y \<in> set (List.map_filter f xs) \<longleftrightarrow> (\<exists>x \<in> set xs. f x = Some y)"
  by (induction xs) (auto split: option.split)

lemma mirrored_stages_mem:
  assumes "table_ok (dt_stages t)"
  shows "s \<in> set (mirrored_stages pid t) \<longleftrightarrow> (\<exists>cid sid r. map_of (dt_stages t) (pid, entity_deal, cid, sid) = Some r \<and>
    ls_missing r = None \<and> s = \<lparr>st_key = stage_key cid sid, st_category_id = cid, st_status_id = sid,
      st_name = sr_name (ls_values r), st_semantic = normalise_semantic (JStr (sr_semantic (ls_values r))),
      st_sort = sr_sort (ls_values r), st_known = True\<rparr>)"
proof -
  have "(k, r) \<in> set (dt_stages t) \<longleftrightarrow> map_of (dt_stages t) k = Some r" for k r
    using assms by (simp add: table_ok_def)
  note mem = this
  show ?thesis
  proof
    assume "s \<in> set (mirrored_stages pid t)"
    then obtain cid sid r where "((pid, entity_deal, cid, sid), r) \<in> set (dt_stages t)" "ls_missing r = None"
      "s = \<lparr>st_key = stage_key cid sid, st_category_id = cid, st_status_id = sid,
        st_name = sr_name (ls_values r), st_semantic = normalise_semantic (JStr (sr_semantic (ls_values r))),
        st_sort = sr_sort (ls_values r), st_known = True\<rparr>"
      unfolding mirrored_stages_def map_filter_mem by (auto split: if_splits)
    then show "\<exists>cid sid r. map_of (dt_stages t) (pid, entity_deal, cid, sid) = Some r \<and>
      ls_missing r = None \<and> s = \<lparr>st_key = stage_key cid sid, st_category_id = cid, st_status_id = sid,
        st_name = sr_name (ls_values r), st_semantic = normalise_semantic (JStr (sr_semantic (ls_values r))),
        st_sort = sr_sort (ls_values r), st_known = True\<rparr>"
      unfolding mem by blast
  next
    assume "\<exists>cid sid r. map_of (dt_stages t) (pid, entity_deal, cid, sid) = Some r \<and>
      ls_missing r = None \<and> s = \<lparr>st_key = stage_key cid sid, st_category_id = cid, st_status_id = sid,
        st_name = sr_name (ls_values r), st_semantic = normalise_semantic (JStr (sr_semantic (ls_values r))),
        st_sort = sr_sort (ls_values r), st_known = True\<rparr>"
    then obtain cid sid r where "((pid, entity_deal, cid, sid), r) \<in> set (dt_stages t)" "ls_missing r = None"
      "s = \<lparr>st_key = stage_key cid sid, st_category_id = cid, st_status_id = sid,
        st_name = sr_name (ls_values r), st_semantic = normalise_semantic (JStr (sr_semantic (ls_values r))),
        st_sort = sr_sort (ls_values r), st_known = True\<rparr>"
      unfolding mem by blast
    then show "s \<in> set (mirrored_stages pid t)"
      unfolding mirrored_stages_def map_filter_mem by (intro bexI [of _ "((pid, entity_deal, cid, sid), r)"]) simp_all
  qed
qed

lemma mirrored_funnels_mem:
  assumes "table_ok (dt_funnels t)"
  shows "cid \<in> fn_id ` set (mirrored_funnels pid t) \<longleftrightarrow>
    (\<exists>r. map_of (dt_funnels t) (pid, entity_deal, cid) = Some r \<and> ls_missing r = None)"
proof -
  have "(k, r) \<in> set (dt_funnels t) \<longleftrightarrow> map_of (dt_funnels t) k = Some r" for k r
    using assms by (simp add: table_ok_def)
  note mem = this
  show ?thesis
  proof
    assume "cid \<in> fn_id ` set (mirrored_funnels pid t)"
    then obtain r where "((pid, entity_deal, cid), r) \<in> set (dt_funnels t)" "ls_missing r = None"
      by (auto simp: mirrored_funnels_def map_filter_mem split: if_splits)
    then show "\<exists>r. map_of (dt_funnels t) (pid, entity_deal, cid) = Some r \<and> ls_missing r = None"
      unfolding mem by blast
  next
    assume "\<exists>r. map_of (dt_funnels t) (pid, entity_deal, cid) = Some r \<and> ls_missing r = None"
    then obtain r where r: "((pid, entity_deal, cid), r) \<in> set (dt_funnels t)" "ls_missing r = None"
      unfolding mem by blast
    define f where "f = \<lparr>fn_id = cid, fn_name = fr_name (ls_values r), fn_sort = fr_sort (ls_values r), fn_is_default = fr_default (ls_values r)\<rparr>"
    have "f \<in> set (mirrored_funnels pid t)"
      unfolding mirrored_funnels_def set_sort map_filter_mem
      using r by (intro bexI [of _ "((pid, entity_deal, cid), r)"]) (simp_all add: f_def)
    moreover have "fn_id f = cid" by (simp add: f_def)
    ultimately show "cid \<in> fn_id ` set (mirrored_funnels pid t)" by blast
  qed
qed

lemma all_stages_mem:
  "s \<in> set (all_stages (snd (deal_dictionary pid t))) \<longleftrightarrow>
     s \<in> set (mirrored_stages pid t) \<and> st_category_id s \<in> fn_id ` set (mirrored_funnels pid t)"
  by (auto simp: all_stages_def deal_dictionary_def Let_def)

text \<open>A column is known exactly when its stage is listed and not marked missing.\<close>

lemma known_stage:
  assumes filed: "stages_filed t"
  shows "map_of (index_stages (snd (deal_dictionary pid t))) (stage_key cid sid) =
    (case map_of (dt_stages t) (pid, entity_deal, cid, sid) of
       Some r \<Rightarrow> if ls_missing r = None
         then Some \<lparr>st_key = stage_key cid sid, st_category_id = cid, st_status_id = sid,
           st_name = sr_name (ls_values r), st_semantic = normalise_semantic (JStr (sr_semantic (ls_values r))),
           st_sort = sr_sort (ls_values r), st_known = True\<rparr>
         else None
     | None \<Rightarrow> None)"
proof -
  define L where "L = all_stages (snd (deal_dictionary pid t))"
  have ok: "table_ok (dt_stages t)" "table_ok (dt_funnels t)" using filed by (simp_all add: stages_filed_def)
  have L: "s \<in> set L \<and> st_key s = stage_key cid sid \<longleftrightarrow> (\<exists>r. map_of (dt_stages t) (pid, entity_deal, cid, sid) = Some r \<and>
    ls_missing r = None \<and> s = \<lparr>st_key = stage_key cid sid, st_category_id = cid, st_status_id = sid,
      st_name = sr_name (ls_values r), st_semantic = normalise_semantic (JStr (sr_semantic (ls_values r))),
      st_sort = sr_sort (ls_values r), st_known = True\<rparr>)" for s
  proof
    assume "s \<in> set L \<and> st_key s = stage_key cid sid"
    then show "\<exists>r. map_of (dt_stages t) (pid, entity_deal, cid, sid) = Some r \<and>
      ls_missing r = None \<and> s = \<lparr>st_key = stage_key cid sid, st_category_id = cid, st_status_id = sid,
        st_name = sr_name (ls_values r), st_semantic = normalise_semantic (JStr (sr_semantic (ls_values r))),
        st_sort = sr_sort (ls_values r), st_known = True\<rparr>"
      unfolding L_def all_stages_mem mirrored_stages_mem [OF ok(1)] by (auto simp: stage_key_inj)
  next
    assume "\<exists>r. map_of (dt_stages t) (pid, entity_deal, cid, sid) = Some r \<and>
      ls_missing r = None \<and> s = \<lparr>st_key = stage_key cid sid, st_category_id = cid, st_status_id = sid,
        st_name = sr_name (ls_values r), st_semantic = normalise_semantic (JStr (sr_semantic (ls_values r))),
        st_sort = sr_sort (ls_values r), st_known = True\<rparr>"
    then obtain r where r: "map_of (dt_stages t) (pid, entity_deal, cid, sid) = Some r" "ls_missing r = None"
      and s: "s = \<lparr>st_key = stage_key cid sid, st_category_id = cid, st_status_id = sid,
        st_name = sr_name (ls_values r), st_semantic = normalise_semantic (JStr (sr_semantic (ls_values r))),
        st_sort = sr_sort (ls_values r), st_known = True\<rparr>"
      by blast
    have "\<exists>f. map_of (dt_funnels t) (pid, entity_deal, cid) = Some f \<and> ls_missing f = None"
      using filed r unfolding stages_filed_def by blast
    then have "cid \<in> fn_id ` set (mirrored_funnels pid t)" by (simp only: mirrored_funnels_mem [OF ok(2)])
    moreover have "s \<in> set (mirrored_stages pid t)"
      unfolding mirrored_stages_mem [OF ok(1)] using r s by blast
    ultimately show "s \<in> set L \<and> st_key s = stage_key cid sid"
      by (simp add: L_def all_stages_mem s)
  qed
  have lookup: "map_of (index_stages (snd (deal_dictionary pid t))) (stage_key cid sid) =
    find (\<lambda>s. st_key s = stage_key cid sid) (rev L)"
    by (simp add: index_stages_def L_def fold_keyed_lookup split: option.split)
  show ?thesis
  proof (cases "\<exists>r. map_of (dt_stages t) (pid, entity_deal, cid, sid) = Some r \<and> ls_missing r = None")
    case True
    then obtain r where r: "map_of (dt_stages t) (pid, entity_deal, cid, sid) = Some r" "ls_missing r = None" by blast
    define s where "s = \<lparr>st_key = stage_key cid sid, st_category_id = cid, st_status_id = sid,
      st_name = sr_name (ls_values r), st_semantic = normalise_semantic (JStr (sr_semantic (ls_values r))),
      st_sort = sr_sort (ls_values r), st_known = True\<rparr>"
    have only: "s' \<in> set L \<and> st_key s' = stage_key cid sid \<longleftrightarrow> s' = s" for s'
      unfolding L using r by (auto simp: s_def)
    have "find (\<lambda>s. st_key s = stage_key cid sid) (rev L) = Some s"
    proof (rule find_unique)
      show "\<exists>!x. x \<in> set (rev L) \<and> st_key x = stage_key cid sid" using only by auto
      show "s \<in> set (rev L)" "st_key s = stage_key cid sid" using only [of s] by simp_all
    qed
    with r lookup show ?thesis by (simp add: s_def)
  next
    case False
    have "st_key s \<noteq> stage_key cid sid" if "s \<in> set (rev L)" for s
    proof
      assume "st_key s = stage_key cid sid"
      with that L [of s] False show False by (simp only: set_rev) blast
    qed
    then have "find (\<lambda>s. st_key s = stage_key cid sid) (rev L) = None"
      by (auto simp: find_None_iff)
    with False lookup show ?thesis by (auto split: option.splits)
  qed
qed

section \<open>A mirrored deal as the live read shows it\<close>

definition row_shows :: "deal_dialect \<Rightarrow> (string, json) dict \<Rightarrow> int \<Rightarrow> stored_item \<Rightarrow> bool" where
  "row_shows d row i r \<longleftrightarrow>
     as_int_crm (get_field row (dl_id d)) = Inr (Some i) \<and>
     as_int_crm (get_field row (dl_category_id d)) = Inr (cd_category_id (si_data r)) \<and>
     as_int_crm (get_field row (dl_assigned_by_id d)) = Inr (cd_assigned_by_id (si_data r)) \<and>
     crm_text (get_field row (dl_stage_id d)) = (case cd_stage_id (si_data r) of None \<Rightarrow> [] | Some s \<Rightarrow> s) \<and>
     normalise_semantic (get_field row (dl_semantic d)) =
       (if won_or_lost (cd_stage_semantic (si_data r)) then the (cd_stage_semantic (si_data r)) else ''P'')"

text \<open>Stages of the dictionary have a name: no deal without a stage is joined to one.\<close>

definition no_blank_stage :: "dict_tables \<Rightarrow> bool" where
  "no_blank_stage t \<longleftrightarrow> (\<forall>pid e cid. map_of (dt_stages t) (pid, e, cid, []) = None)"

lemma outcome_read:
  assumes "stages_filed t" and "no_blank_stage t" and "row_shows d row i r"
  shows "read_deal d (index_stages (snd (deal_dictionary pid t))) row = Inr (Some (i, deal_group_of pid t r))"
proof -
  define known where "known = index_stages (snd (deal_dictionary pid t))"
  define sid where "sid = (case cd_stage_id (si_data r) of None \<Rightarrow> [] | Some s \<Rightarrow> s)"
  have norm: "normalise_semantic (JStr ''S'') = ''S''" "normalise_semantic (JStr ''F'') = ''F''" "normalise_semantic (JStr ''P'') = ''P''"
    by code_simp+
  have vals: "sr_semantic (ls_values row') \<in> {''S'', ''F'', ''P''}"
    if "map_of (dt_stages t) (pid, entity_deal, cid, s) = Some row'" for cid s row'
    using assms(1) that unfolding stages_filed_def by blast
  have blank: "map_of (dt_stages t) (pid, entity_deal, cid, []) = None" for cid
    using assms(2) by (simp add: no_blank_stage_def)
  have "live_semantic known (column_of (cd_category_id (si_data r)) sid) (get_field row (dl_semantic d)) = deal_outcome pid t r"
  proof (cases "won_or_lost (cd_stage_semantic (si_data r))")
    case True
    with assms(3) show ?thesis
      by (auto simp: live_semantic_def row_shows_def deal_outcome_def won_or_lost_def Let_def)
  next
    case False
    with assms(3) have P: "normalise_semantic (get_field row (dl_semantic d)) = ''P''" by (simp add: row_shows_def)
    show ?thesis
    proof (cases "cd_category_id (si_data r)")
      case None
      with False P show ?thesis
        by (simp add: live_semantic_def deal_outcome_def joined_stage_def column_of_def won_or_lost_def)
    next
      case (Some cid)
      show ?thesis
      proof (cases "map_of (dt_stages t) (pid, entity_deal, cid, sid)")
        case None
        with False P Some known_stage [OF assms(1), of pid cid sid] show ?thesis
          by (auto simp: live_semantic_def deal_outcome_def joined_stage_def column_of_def won_or_lost_def known_def sid_def
              split: option.splits)
      next
        case row': (Some row')
        then have "cd_stage_id (si_data r) = Some sid"
          using blank [of cid] by (auto simp: sid_def split: option.splits)
        with False P Some row' known_stage [OF assms(1), of pid cid sid] vals [OF row'] norm show ?thesis
          by (auto simp: live_semantic_def deal_outcome_def joined_stage_def column_of_def won_or_lost_def known_def)
      qed
    qed
  qed
  with assms(3) show ?thesis
    by (simp add: read_deal_def row_shows_def deal_group_of_def known_def sid_def)
qed

lemma insort_key_map: "map f (insort_key (k \<circ> f) x xs) = insort_key k (f x) (map f xs)"
  by (induction xs) auto

lemma sort_key_map: "sort_key k (map f xs) = map f (sort_key (k \<circ> f) xs)"
  by (induction xs) (simp_all add: insort_key_map [unfolded o_def] o_def)

text \<open>
  The deals the mirror selects, shown to a live read a page in the order of their ids, fold to the
  groups the mirror counts.
\<close>

lemma live_read_equals_mirror:
  fixes selected :: item_table
  assumes filed: "stages_filed tables" "no_blank_stage tables"
    and ids: "distinct (map (\<lambda>(p, e, i). i) (map fst selected))"
    and page: "list_all2 (\<lambda>row ((p, e, i), r). row_shows d row i r) page (sort_key (\<lambda>((p, e, i), r). i) selected)"
  shows "fold_page d (index_stages (snd (deal_dictionary pid tables))) None page ([], {}) =
    Inr (fold_counts (index_stages (snd (deal_dictionary pid tables)))
           (group_counts (map (\<lambda>((p, e, i), r). (i, deal_group_of pid tables r)) selected)),
         {i. \<exists>p e r. ((p, e, i), r) \<in> set selected})"
proof -
  define known where "known = index_stages (snd (deal_dictionary pid tables))"
  define f :: "(int \<times> int \<times> int) \<times> stored_item \<Rightarrow> int \<times> deal_group" where "f = (\<lambda>((p, e, i), r). (i, deal_group_of pid tables r))"
  define ds where "ds = map f (sort_key (\<lambda>((p, e, i), r). i) selected)"
  have sorted: "ds = sort_key fst (map f selected)"
  proof -
    have "(\<lambda>((p, e, i), r). i) = fst \<circ> f" by (auto simp: f_def fun_eq_iff)
    then show ?thesis unfolding ds_def by (simp add: sort_key_map)
  qed
  have dist: "distinct (map fst (map f selected))"
    using ids by (simp add: f_def o_def case_prod_unfold)
  have "list_all2 (\<lambda>row (i, g). read_deal d known row = Inr (Some (i, g))) page ds"
    unfolding ds_def list_all2_map2
    by (rule list_all2_mono [OF page]) (auto simp: f_def known_def outcome_read [OF filed])
  moreover have "distinct (map fst ds)"
  proof -
    have "mset (map fst ds) = mset (map fst (map f selected))" unfolding sorted by (simp only: mset_map mset_sort)
    from mset_eq_imp_distinct_iff [OF this] dist show ?thesis by simp
  qed
  ultimately have "fold_page d known None page ([], {}) =
    Inr (fold (\<lambda>(i, g). count_group known g 1) ds [], fst ` set ds)"
    using fold_page_counts [of d known page ds "{}" "[]"] by simp
  moreover have "fold (\<lambda>(i, g). count_group known g 1) ds [] = fold_counts known (group_counts (map f selected))"
    unfolding fold_counts_deals [OF dist] sorted [symmetric]
    by (simp add: count_weighted_def fold_map o_def case_prod_unfold)
  moreover have "fst ` set ds = {i. \<exists>p e r. ((p, e, i), r) \<in> set selected}"
    by (force simp: ds_def f_def)
  ultimately show ?thesis by (simp add: known_def f_def)
qed

section \<open>From the reads that filled the dictionary\<close>

lemma stage_rows_named: "((e, cid, sid), v) \<in> set (stage_rows ss) \<Longrightarrow> sid \<noteq> []"
proof (induction ss rule: rev_induct)
  case (snoc es ss)
  then show ?case by (cases es) (auto simp: stage_rows_def split: if_splits dest!: dict_set_mem)
qed (simp add: stage_rows_def)

lemma dict_run_named:
  "dict_run h t \<Longrightarrow> no_blank_stage t"
proof (induction rule: dict_run.induct)
  case (dict_stored h t f dic now lanes s t' s')
  have ok: "table_ok (dt_stages t)"
    using dict_run_justified [OF dict_stored(1)] by (simp add: marks_justified_def)
  have blank: "(e, cid, []) \<notin> fst ` set (stage_rows (dc_stages dic))" for e cid
    using stage_rows_named by fastforce
  have "map_of (dt_stages t') (pid, e, cid, []) = None" for pid e cid
    unfolding store_dictionary_Inr(2) [OF dict_stored(2)]
    using refresh_table_lookup [OF ok, of "portal_id f" now "dc_complete dic" "stage_rows (dc_stages dic)" pid e "(cid, [])"]
      dict_stored(3) blank [of e cid] by (simp add: no_blank_stage_def)
  then show ?case by (simp add: no_blank_stage_def)
qed (simp add: no_blank_stage_def)

lemma rfold_concat: "rfold f (concat xss) a = rfold (rfold f) xss a"
proof (induction xss arbitrary: a)
  case (Cons xs xss)
  have append: "rfold f (ys @ zs) a = rbind (rfold f ys a) (rfold f zs)" for ys zs a
  proof (induction ys arbitrary: a)
    case (Cons y ys)
    then show ?case by (cases "f y a") simp_all
  qed simp
  from Cons show ?case by (simp add: append) (cases "rfold f xs a"; simp)
qed simp

end
