(* ===== verification/Viewer_Properties.thy ===== *)
theory Viewer_Properties
  imports Demo Deal_Parity "HOL-Library.Countable"
begin

text \<open>
  What a viewer is shown: tokens that carry a session and nothing else, calls and mirrored
  records read within the rights that Bitrix24 or an administrator gave, and every grant on the
  record.
\<close>

section \<open>Sessions\<close>

text \<open>An encoding of claims as text, and the decoder that honours what the library documents.\<close>

instance pyfloat :: countable by countable_datatype
instance json :: countable by countable_datatype

definition unary_jwt :: jwt where
  "unary_jwt =
     \<lparr>jwt_encode = (\<lambda>claims. replicate (Suc (to_nat claims)) CHR ''x''),
      jwt_decode = (\<lambda>now token required verify_exp.
        let claims = from_nat (length token - 1)
        in if jwt_accepts now required verify_exp claims then Inr claims else Inl ''refused'')\<rparr>"

lemma unary_jwt_honest: "honest_jwt unary_jwt"
  by (simp add: honest_jwt_def unary_jwt_def Let_def)

definition demo_claims :: session_claims where
  "demo_claims =
     \<lparr>cl_pid = 1, cl_mid = ''m1'', cl_sub = 7, cl_adm = False, cl_acc = ''own'', cl_tz = ''UTC'', cl_lang = ''ru'',
      cl_plc = ''DEFAULT'', cl_ent = None, cl_iat = 0, cl_exp = 0\<rparr>"

text \<open>
  C22 A session token says exactly what it was issued for, until it expires. Whatever is issued is
  read back with the issue time and the expiry of its clock at every moment of its life, is
  refused from its expiry on unless the caller asks to renew it, and never passes for a play
  token, nor a play token for a session.
\<close>

theorem session_roundtrip:
  assumes jwt: "honest_jwt j" and token: "issue_session j now ttl c = Inr token" and now: "0 \<le> now" "now \<le> t"
  shows "(t < of_int (py_trunc now + ttl) \<or> renewing \<longrightarrow> verify_session j t token renewing = Inr (issued_at now ttl c)) \<and>
    (of_int (py_trunc now + ttl) \<le> t \<longrightarrow> (\<exists>e. verify_session j t token False = Inl e)) \<and>
    (\<exists>e. verify_play_token j t token = Inl e) \<and>
    (\<forall>p play. issue_play_token j now ttl p = Inr play \<longrightarrow>
       (\<exists>e. verify_session j t play renewing = Inl e) \<and>
       (t < of_int (py_trunc now + ttl) \<longrightarrow> verify_play_token j t play = Inr (p\<lparr>pc_exp := py_trunc now + ttl\<rparr>)))"
proof -
  have acc: "cl_acc (issued_at now ttl c) \<in> access_levels" and tok: "token = jwt_encode j (session_payload (issued_at now ttl c))"
    using token by (auto simp: issue_session_def issued_at_def split: if_splits)
  have iat: "of_int (cl_iat (issued_at now ttl c)) \<le> t"
    using trunc_le [OF now(1)] now(2) by (simp add: issued_at_def)
  have read: "verify_session j t token renewing = Inr (issued_at now ttl c)" if "t < of_int (py_trunc now + ttl) \<or> renewing"
    unfolding tok using that iat by (intro verify_issued(1) [OF jwt acc]) (auto simp: session_live_def issued_at_def)
  have gone: "\<exists>e. verify_session j t token False = Inl e" if "of_int (py_trunc now + ttl) \<le> t"
    unfolding tok using that by (intro verify_issued(2) [OF jwt acc]) (simp add: session_live_def issued_at_def not_less)
  have play: "(\<exists>e. verify_session j t play renewing = Inl e) \<and>
      (t < of_int (py_trunc now + ttl) \<longrightarrow> verify_play_token j t play = Inr (p\<lparr>pc_exp := py_trunc now + ttl\<rparr>))"
    if "issue_play_token j now ttl p = Inr play" for p play
  proof -
    have "pc_acc p \<in> access_levels" and [simp]: "play = jwt_encode j (play_payload (p\<lparr>pc_exp := py_trunc now + ttl\<rparr>))"
      using that by (auto simp: issue_play_token_def split: if_splits)
    then show ?thesis using wrong_kind(1) [OF jwt] verify_play_issued [OF jwt] by simp
  qed
  have "\<exists>e. verify_play_token j t token = Inl e"
    unfolding tok by (rule wrong_kind(2) [OF jwt])
  with read gone play show ?thesis by blast
qed

theorem session_roundtrip_witness:
  "\<exists>token. issue_session unary_jwt 100 60 demo_claims = Inr token \<and>
     verify_session unary_jwt 159 token False = Inr (issued_at 100 60 demo_claims) \<and>
     (\<exists>e. verify_session unary_jwt 160 token False = Inl e)"
proof -
  obtain token where token: "issue_session unary_jwt 100 60 demo_claims = Inr token"
    by (simp add: issue_session_def demo_claims_def access_levels_def)
  have "py_trunc 100 = 100" by (simp add: py_trunc_def)
  with session_roundtrip [OF unary_jwt_honest token, of 159 False] session_roundtrip [OF unary_jwt_honest token, of 160 False] token
  show ?thesis by auto
qed

section \<open>Calls\<close>

text \<open>
  C10 A request reads calls only within the rights of its viewer. With a token issued for what the
  open decided, the rows of \<open>base_select\<close> are calls of the token's own portal, which is active and
  still belongs to the same member; they are all its calls only for an administrator, and for
  anyone else the open has had a clean answer to the statistics probe and every row is the
  viewer's own or one that a grant stored at this moment opens.
\<close>

theorem calls_read_within_rights:
  assumes jwt: "honest_jwt j" and token: "issue_session j now ttl c = Inr token"
    and decided: "cl_acc c = ad_level (decide_access (cl_adm c) probe probed method)"
    and header: "bearer_token header = Inr token" and principal: "get_principal j t header st = Inr p"
    and read: "base_select p st = Inr rs" and row: "row \<in> set rs"
  shows "(\<exists>i k. ((cl_pid c, i), k) \<in> set (calls (cs_base (vs_crm st))) \<and> row = call_data k) \<and>
    (\<exists>v. map_of (vs_portals st) (cl_pid c) = Some v \<and> vp_member v = cl_mid c \<and> vp_status v = ''active'') \<and>
    method \<and>
    (cl_adm c \<or>
     (probed \<and> probe = None \<and>
       (portal_user_id row = Some (cl_sub c) \<or>
        (\<exists>g. load_grant (cl_pid c) (cl_sub c) st = Some g \<and> gr_calls g \<and>
           (gr_kind g = kind_portal \<or> department_member (cl_pid c) g st (portal_user_id row))))))"
proof -
  obtain claims where claims: "verify_session j t token False = Inr claims" "principal_of claims st = Inr p"
    using get_principal_Inr [OF principal] header by auto
  have acc: "cl_acc (issued_at now ttl c) \<in> access_levels" and tok: "token = jwt_encode j (session_payload (issued_at now ttl c))"
    using token by (auto simp: issue_session_def issued_at_def split: if_splits)
  have "claims = issued_at now ttl c"
    using claims(1) verify_issued [OF jwt acc, of t False] by (cases "session_live t False (issued_at now ttl c)") (auto simp: tok)
  then have fields: "cl_pid claims = cl_pid c" "cl_sub claims = cl_sub c" "cl_acc claims = cl_acc c" "cl_adm claims = cl_adm c" "cl_mid claims = cl_mid c"
    by (simp_all add: issued_at_def)
  have pr: "pr_portal p = cl_pid c" "pr_user p = cl_sub c" "pr_access p = cl_acc c"
      "pr_grant p = (if cl_adm c \<or> cl_acc c = ''all'' then None else load_grant (cl_pid c) (cl_sub c) st)"
      "\<exists>v. map_of (vs_portals st) (cl_pid c) = Some v \<and> vp_member v = cl_mid c \<and> vp_status v = ''active''"
    using principal_of_Inr [OF claims(2)] by (simp_all add: fields)
  have sel: "pr_access p \<in> {''all'', ''own''}" "may_read p st row"
      "\<exists>i k. ((cl_pid c, i), k) \<in> set (calls (cs_base (vs_crm st))) \<and> row = call_data k"
    using read row by (auto simp: base_select_Inr pr(1))
  have level: "cl_acc c = ''all'' \<Longrightarrow> cl_adm c" "cl_acc c = ''own'' \<Longrightarrow> probed \<and> probe = None" "cl_acc c \<noteq> ''denied'' \<Longrightarrow> method"
    using decided by (auto simp: decide_access_def split: if_splits option.splits)
  have "cl_acc c \<noteq> ''denied''" using sel(1) pr(3) by auto
  with sel level pr show ?thesis
    by (auto simp: may_read_def split: option.splits if_splits)
qed

definition demo_stored_call :: "int \<Rightarrow> stored_call" where
  "demo_stored_call i =
     \<lparr>call_data = (demo_call i)\<lparr>portal_user_id := Some i\<rparr>, record_recheck_count = 0, refresh_requested = False,
      first_seen_at = 0, last_synced_at = 0, content_changed_at = None\<rparr>"

definition demo_portal_row :: viewer_portal where
  "demo_portal_row =
     \<lparr>vp_member = ''m1'', vp_status = ''active'', vp_crm_mode = ''mirror'', vp_opt_out = None, vp_purge = False, vp_capabilities = []\<rparr>"

definition demo_viewer_store :: viewer_store where
  "demo_viewer_store =
     \<lparr>vs_crm = \<lparr>cs_base = demo_store\<lparr>calls := [((1, 5), demo_stored_call 5), ((1, 7), demo_stored_call 7), ((2, 7), demo_stored_call 7)]\<rparr>,
                cs_items = [], cs_dirty = [], cs_lanes = []\<rparr>,
      vs_portals = [(1, demo_portal_row)], vs_departments = [], vs_grants = []\<rparr>"

definition demo_principal :: principal where
  "demo_principal =
     \<lparr>pr_portal = 1, pr_member = ''m1'', pr_user = 7, pr_admin = False, pr_access = ''own'', pr_timezone = ''UTC'',
      pr_lang = ''ru'', pr_placement = ''DEFAULT'', pr_entity = None, pr_issued_at = 100, pr_grant = None\<rparr>"

lemma demo_principal_of: "principal_of (issued_at 100 60 demo_claims) demo_viewer_store = Inr demo_principal"
  by (simp add: principal_of_def issued_at_def demo_claims_def demo_viewer_store_def demo_portal_row_def entity_of_def
      load_grant_def demo_principal_def py_trunc_def)

lemma demo_base_select: "base_select demo_principal demo_viewer_store = Inr [call_data (demo_stored_call 7)]"
  by (simp add: base_select_Inr demo_principal_def demo_viewer_store_def may_read_def demo_stored_call_def)

lemma demo_bearer: "bearer_token (Some (''Bearer '' @ jwt_encode unary_jwt claims)) = Inr (jwt_encode unary_jwt claims)"
proof -
  have "strip (jwt_encode unary_jwt claims) = jwt_encode unary_jwt claims"
    by (rule strip_solid) (simp add: unary_jwt_def list_all_iff is_space_def code_def)
  moreover have "jwt_encode unary_jwt claims \<noteq> []" by (simp add: unary_jwt_def)
  moreover have "lower (strip ''Bearer'') = ''bearer''" by code_simp
  ultimately show ?thesis by (simp add: bearer_token_def)
qed

theorem calls_read_within_rights_witness:
  "\<exists>header. get_principal unary_jwt 120 header demo_viewer_store = Inr demo_principal \<and>
     base_select demo_principal demo_viewer_store = Inr [call_data (demo_stored_call 7)] \<and>
     portal_user_id (call_data (demo_stored_call 7)) = Some 7 \<and> vp_status demo_portal_row = ''active''"
proof -
  define token where "token = jwt_encode unary_jwt (session_payload (issued_at 100 60 demo_claims))"
  have issued: "issue_session unary_jwt 100 60 demo_claims = Inr token"
    by (simp add: issue_session_def demo_claims_def access_levels_def token_def)
  have live: "session_live 120 False (issued_at 100 60 demo_claims)" "cl_acc (issued_at 100 60 demo_claims) \<in> access_levels"
    by (simp_all add: session_live_def issued_at_def py_trunc_def demo_claims_def access_levels_def)
  have header: "bearer_token (Some (''Bearer '' @ token)) = Inr token"
    unfolding token_def by (rule demo_bearer)
  have principal: "get_principal unary_jwt 120 (Some (''Bearer '' @ token)) demo_viewer_store = Inr demo_principal"
    using verify_issued(1) [OF unary_jwt_honest live(2) live(1)] demo_principal_of header
    by (simp add: get_principal_def token_def)
  have "cl_acc demo_claims = ad_level (decide_access (cl_adm demo_claims) None True True)"
    by (simp add: demo_claims_def decide_access_def)
  from calls_read_within_rights [OF unary_jwt_honest issued this header principal demo_base_select, of "call_data (demo_stored_call 7)"]
    principal demo_base_select
  show ?thesis by (auto simp: demo_claims_def demo_viewer_store_def load_grant_def demo_portal_row_def)
qed

section \<open>Grants\<close>

text \<open>
  C13 Every grant in force is on the record. Starting from a table without grants, after any
  sequence of grants given, replaced and withdrawn, each row says whom it opens what for, was
  never given by a person to themselves, opens at least one area, names departments exactly when
  it is for departments, and an audit event names who gave it and what it says; a refused request
  leaves the table and the events alone.
\<close>

theorem grants_audited:
  assumes run: "grant_step\<^sup>*\<^sup>* st0 st" and fresh: "vs_grants st0 = []" and grant: "load_grant pid user st = Some g"
  shows "gr_user g = user \<and> gr_user g \<noteq> gr_by g \<and> (gr_crm g \<or> gr_calls g) \<and>
    (gr_kind g = kind_departments \<longleftrightarrow> gr_departments g \<noteq> []) \<and>
    (\<exists>e \<in> set (portal_events (cs_base (vs_crm st))). event_portal e = pid \<and> event_kind e = ''crm_grant_set'' \<and>
       event_user e = Some (gr_by g) \<and> event_details e = grant_details g) \<and>
    (\<forall>kind ids crm calls_too by_user remark e.
       fst (set_grant pid user kind ids crm calls_too by_user remark st) = Inl e \<longrightarrow>
       snd (set_grant pid user kind ids crm calls_too by_user remark st) = st)"
proof -
  have "grants_inv st"
    using run
  proof (induction rule: rtranclp_induct)
    case base
    show ?case using fresh by (simp add: grants_inv_def)
  next
    case (step y z)
    then show ?case by (simp add: grant_step_inv)
  qed
  with grant have g: "gr_user g = user" "grant_sound g" "grant_audited pid g (portal_events (cs_base (vs_crm st)))"
    by (simp_all add: grants_inv_def load_grant_def)
  have "kind_portal \<noteq> kind_departments" by (simp add: kind_portal_def kind_departments_def)
  moreover have "snd (set_grant pid user kind ids crm calls_too by_user remark st) = st"
    if "fst (set_grant pid user kind ids crm calls_too by_user remark st) = Inl e" for kind ids crm calls_too by_user remark e
    using that by (auto simp: set_grant_def Let_def split: sum.splits if_splits)
  ultimately show ?thesis using g by (auto simp: grant_sound_def grant_audited_def)
qed

definition demo_granted :: viewer_store where
  "demo_granted = snd (set_grant 1 7 kind_portal [] True True 3 ''all'' demo_viewer_store)"

lemma demo_grant: "load_grant 1 7 demo_granted =
  Some \<lparr>gr_user = 7, gr_kind = kind_portal, gr_departments = [], gr_crm = True, gr_calls = True, gr_by = 3,
        gr_at = 1714560000, gr_note = ''all''\<rparr>"
proof -
  have "check_grant 7 kind_portal [] True True 3 = Inr []" "strip ''all'' = ''all''" by code_simp+
  then show ?thesis
    by (simp add: demo_granted_def set_grant_def int32_ok_def load_grant_def Let_def demo_viewer_store_def demo_store_def
        max_note_chars_def)
qed

theorem grants_audited_witness:
  "\<exists>e \<in> set (portal_events (cs_base (vs_crm demo_granted))). event_kind e = ''crm_grant_set'' \<and> event_user e = Some 3"
proof -
  have "grant_step\<^sup>*\<^sup>* demo_viewer_store demo_granted"
    unfolding demo_granted_def by (rule r_into_rtranclp) (rule grant_step.give)
  from grants_audited [OF this _ demo_grant] show ?thesis by (force simp: demo_viewer_store_def)
qed

section \<open>The census\<close>

text \<open>
  C11 What a census opens was shown to the viewer. When a request without a grant is scoped by a
  census, at any later moment, then the census is no older than its time to live and of the
  portal's present generation, and every record the scope lets through is readable for the
  installer too and lies in a funnel and with an assignee (for a lead, with an assignee) of which
  Bitrix24 showed this viewer's own client at least one record while it was filtering on them;
  a census that fails never raises for an answer of the portal.
\<close>

theorem census_serves_only_shown:
  fixes w :: "'n net_scheme"
  assumes census: "run_census c sg pid user cl st w = (Inr v, st1, w')"
    and kept: "map_of (st_scopes st2) (pid, user) = map_of (st_scopes st1) (pid, user)"
    and viewer: "pr_access p \<noteq> ''all''" "pr_grant p = None" "pr_portal p = pid" "pr_user p = user"
    and scoped: "crm_scope p (Some (viewer_access sg now p st2)) st2 = Inr pred" and row: "in_scope pred ((q, e, i), r)"
  shows "now - sv_resolved_at v \<le> sg_ttl sg \<and> generation_of pid st2 = sv_generation v \<and> si_unreadable_since r = None \<and>
    (\<exists>deal lead. learned_dialect pid CensusDeal st = Inr deal \<and> learned_dialect pid CensusLead st = Inr lead \<and>
      (e = entity_deal \<and> (\<exists>cat uid. cd_category_id (si_data r) = Some cat \<and> cd_assigned_by_id (si_data r) = Some uid \<and>
         shown c cl TYPE('n) deal CensusDeal uid (Some cat)) \<or>
       e = entity_lead \<and> (\<exists>uid. cd_assigned_by_id (si_data r) = Some uid \<and>
         shown c cl TYPE('n) lead CensusLead uid None)))"
proof -
  have "va_grant (viewer_access sg now p st2) = None"
    using viewer by (simp add: viewer_access_def no_access_def)
  with scoped viewer(1) obtain v2 where v2: "va_scope (viewer_access sg now p st2) = Some v2" "pred = Some (scope_predicate v2)"
    by (auto simp: crm_scope_def split: if_splits option.splits)
  have load: "load_scope sg pid user now st2 = Some v2"
    using v2(1) viewer by (auto simp: viewer_access_def no_access_def split: if_splits)
  with kept run_census_stored [OF census] have "v2 = v" by (auto simp: load_scope_Some)
  with v2 row have "scope_predicate v ((q, e, i), r)" by (simp add: in_scope_def)
  from run_census_served [OF census this] load \<open>v2 = v\<close> show ?thesis by (auto simp: load_scope_Some)
qed

definition census_payload :: json where
  "census_payload = JDict [(''result'', JDict [(''result'', JDict
     [(''s.deal'', JDict [(''items'', JList [])]),
      (''d.3.7'', JDict [(''items'', JList [JDict [(''id'', JInt 1), (''assignedById'', JInt 7), (''categoryId'', JInt 3)]])])])])]"

definition census_outside :: sync_outside where
  "census_outside = demo_outside\<lparr>portal := (\<lambda>_ _. Answer 200 None (JsonBody census_payload))\<rparr>"

definition demo_deal :: stored_item where
  "demo_deal =
     \<lparr>si_data = no_data\<lparr>cd_category_id := Some 3, cd_stage_id := Some ''WON'', cd_stage_semantic := Some ''P'',
                        cd_assigned_by_id := Some 7, cd_created_time := Some 50\<rparr>,
      si_read_at = 60, si_synced_at = 60, si_content_changed_at = None, si_deleted_at = None, si_delete_reason = None,
      si_unreadable_since = None\<rparr>"

definition census_store :: scope_store where
  "census_store =
     \<lparr>vs_crm = \<lparr>cs_base = demo_store, cs_items = [((1, 2, 1), demo_deal)], cs_dirty = [], cs_lanes = []\<rparr>,
      vs_portals = [(1, demo_portal_row)], vs_departments = [], vs_grants = [], st_scopes = []\<rparr>"

definition census_settings :: scope_settings where
  "census_settings = \<lparr>sg_enabled = True, sg_ttl = 900, sg_max_cells = 60, sg_per_batch = 25\<rparr>"

definition census_net :: net where
  "census_net = \<lparr>requests = [], rest_log = [], last_time = None\<rparr>"

definition demo_scope :: viewer_scope where
  "demo_scope =
     \<lparr>sv_user = 7, sv_resolved_at = 1714560000, sv_generation = 3, sv_deal_verdict = verdict_ok, sv_lead_verdict = verdict_empty,
      sv_deal_reason = [], sv_lead_reason = [], sv_cells = [(3, 7)], sv_leads = [], sv_truncated = False, sv_commands = 2\<rparr>"

definition census_asked :: "command list" where
  "census_asked = (case census_commands (scope_dialect CensusDeal dialect_item) (scope_dialect CensusLead dialect_item) [(3, 7)] [] of
     Inr cmds \<Rightarrow> cmds | Inl _ \<Rightarrow> [])"

definition census_batch :: batch_result where
  "census_batch =
     \<lparr>commands = [\<lparr>cmd_key = ''s.deal'', cmd_result = JDict [(''items'', JList [])], cmd_error = None,
                  cmd_time = None, cmd_next = None, cmd_total = None\<rparr>,
                 \<lparr>cmd_key = ''d.3.7'', cmd_result = JDict [(''items'', JList [JDict
                    [(''id'', JInt 1), (''assignedById'', JInt 7), (''categoryId'', JInt 3)]])], cmd_error = None,
                  cmd_time = None, cmd_next = None, cmd_total = None\<rparr>], batch_time = None\<rparr>"

text \<open>A batch whose commands can be sent is sent, whatever its parameters come to as text.\<close>

fun sendable :: "(json \<Rightarrow> string) \<Rightarrow> command \<Rightarrow> bool" where
  "sendable r (key, rest_method, params) \<longleftrightarrow> cmd_key_ok key \<and>
     (case check_method rest_method of Inr _ \<Rightarrow> True | Inl _ \<Rightarrow> False) \<and>
     (case php_query_pairs r params of Inr _ \<Rightarrow> True | Inl _ \<Rightarrow> False)"

lemma command_map_sendable:
  assumes "list_all (sendable r) cmds" and "distinct (map fst done @ map fst cmds)"
  shows "\<exists>m. command_map r done cmds = Inr m"
  using assms
proof (induction cmds arbitrary: "done")
  case (Cons cmd cmds)
  obtain key rest_method params where cmd: "cmd = (key, rest_method, params)"
    by (cases cmd)
  with Cons.prems have "cmd_key_ok key" "map_of done key = None"
    by (auto simp: map_of_eq_None_iff)
  moreover obtain name query where "check_method rest_method = Inr name" "php_query_string r params = Inr query"
    using Cons.prems(1) by (auto simp: cmd php_query_string_def split: sum.splits)
  moreover have "\<exists>m. command_map r (done @ [(key, if query = [] then name else name @ ''?'' @ query)]) cmds = Inr m"
    using Cons.prems by (intro Cons.IH) (auto simp: cmd)
  ultimately show ?case by (simp add: cmd)
qed simp

definition census_params :: "int \<Rightarrow> (string, json) dict" where
  "census_params user =
     [(''entityTypeId'', JInt 2), (''select'', JList [JStr ''id'', JStr ''assignedById'', JStr ''categoryId'']),
      (''order'', JDict [(''id'', JStr ''ASC'')]),
      (''filter'', JDict [(''assignedById'', JInt user), (''categoryId'', JInt 3)]), (''start'', JInt (- 1))]"

lemma census_asked_eq:
  "census_asked = [(''s.deal'', ''crm.item.list'', census_params 2147483647), (''d.3.7'', ''crm.item.list'', census_params 7)]"
  by code_simp

lemma census_params_text: "case php_query_pairs r (census_params user) of Inr _ \<Rightarrow> True | Inl _ \<Rightarrow> False"
proof -
  obtain n where depth: "max_param_depth = Suc (Suc (Suc n))"
    by (rule that [of 5]) (simp add: max_param_depth_def)
  show ?thesis by (simp add: php_query_pairs_def census_params_def depth)
qed

lemma census_body: obtains body where "batch_body r demo_client False census_asked = Inr body"
proof -
  have keys: "map fst census_asked = [''s.deal'', ''d.3.7'']" by (simp add: census_asked_eq)
  moreover have "list_all (\<lambda>cmd. cmd_key_ok (fst cmd) \<and> (case check_method (fst (snd cmd)) of Inr _ \<Rightarrow> True | Inl _ \<Rightarrow> False)) census_asked"
    by code_simp
  then have "list_all (sendable r) census_asked"
    by (simp add: census_asked_eq census_params_text)
  ultimately obtain m where m: "command_map r [] census_asked = Inr m"
    using command_map_sendable [of r census_asked "[]"] by auto
  with command_map_keys [OF m] keys obtain q1 q2 where "m = [(''s.deal'', q1), (''d.3.7'', q2)]"
    by (auto simp: map_eq_Cons_conv)
  moreover have "length census_asked = 2"
    using arg_cong [OF keys, of length] by simp
  ultimately have "\<exists>body. batch_body r demo_client False census_asked = Inr body"
    by (auto simp: batch_body_def m envelope_pairs form_body_def demo_client_def max_batch_commands_def)
  then show thesis using that by blast
qed

lemma census_batch_ran: "\<exists>w'. batch census_outside demo_client census_asked False census_net = (Inr census_batch, w')"
proof -
  obtain body where body: "batch_body (render census_outside) demo_client False census_asked = Inr body"
    by (rule census_body)
  have answer: "portal census_outside n r = Answer 200 None (JsonBody census_payload)" for n r
    by (simp add: census_outside_def)
  have "envelope_error r census_payload (Some 200) None = None" for r
    by (simp add: envelope_error_def census_payload_def dict_or_empty_def get_field_def Let_def)
  then have "read_answer census_outside t (Answer 200 None (JsonBody census_payload)) = (census_payload, Some 200, None)" for t
    by (simp add: read_answer_def decode_def parse_retry_after_def)
  moreover have "get_field (dict_or_empty census_payload) ''time'' = JNone"
    by (simp add: census_payload_def dict_or_empty_def get_field_def)
  ultimately have sent: "\<exists>w'. send census_outside cl lm path body an w = (Inr (census_payload, Some 200), w')" for cl lm path body an w
    by (simp add: send_def answer Let_def)
  have "map fst census_asked = [''s.deal'', ''d.3.7'']" by (simp add: census_asked_eq)
  moreover have "read_batch (render demo_outside) [''s.deal'', ''d.3.7''] census_payload (Some 200) = Inr census_batch"
    by code_simp
  moreover have "render census_outside = render demo_outside"
    by (simp add: census_outside_def)
  ultimately have "read_batch (render census_outside) (map fst census_asked) census_payload (Some 200) = Inr census_batch"
    by (simp only:)
  moreover obtain w' where "send census_outside demo_client ''batch'' (endpoint demo_client @ ''batch'') body
      (batch_log_code (render census_outside) (map fst census_asked)) census_net = (Inr (census_payload, Some 200), w')"
    using sent by blast
  ultimately have "batch census_outside demo_client census_asked False census_net = (Inr census_batch, w')"
    by (simp add: batch_def prog_defs body lift_py_def)
  then show ?thesis by blast
qed

lemma demo_census:
  obtains w' where "run_census census_outside census_settings 1 7 demo_client census_store census_net =
    (Inr demo_scope, census_store\<lparr>st_scopes := [((1, 7), demo_scope)]\<rparr>, w')"
proof -
  let ?deal = "scope_dialect CensusDeal dialect_item" and ?lead = "scope_dialect CensusLead dialect_item"
  let ?acc = "\<lparr>ca_cells = [(3, 7)], ca_leads = [], ca_deal_reason = None, ca_lead_reason = None, ca_sent = 2\<rparr>"
  have learned: "learned_dialect 1 CensusDeal census_store = Inr ?deal" "learned_dialect 1 CensusLead census_store = Inr ?lead"
    by (simp_all add: learned_dialect_def census_store_def demo_portal_row_def)
  have grid: "candidate_grid (sg_max_cells census_settings) 1 (cs_items (vs_crm census_store)) = ([(3, 7)], [], False)"
    by code_simp
  have "case census_commands ?deal ?lead [(3, 7)] [] of Inr _ \<Rightarrow> True | Inl _ \<Rightarrow> False" by code_simp
  then have cmds: "census_commands ?deal ?lead [(3, 7)] [] = Inr census_asked"
    by (auto simp: census_asked_def split: sum.splits)
  have chunks: "chunks_of (min (sg_per_batch census_settings) max_batch_commands) census_asked = [census_asked]"
    by code_simp
  have replies: "rfold (census_reply (case_census_entity ?deal ?lead) census_batch) census_asked
      (no_census\<lparr>ca_sent := ca_sent no_census + int (length census_asked)\<rparr>) = Inr ?acc"
    by code_simp
  obtain w' where "batch census_outside demo_client census_asked False census_net = (Inr census_batch, w')"
    using census_batch_ran by blast
  with replies have ran: "census_batches census_outside demo_client (case_census_entity ?deal ?lead) [census_asked] no_census census_net =
      (Inr ?acc, w')"
    by simp
  have scope: "census_scope 7 (db_now (cs_base (vs_crm census_store))) (generation_of 1 census_store) ([(3, 7)], [], False) ?acc = demo_scope"
    by (simp add: census_scope_def generation_of_def census_store_def demo_store_def demo_row_def demo_scope_def entity_verdict_def)
  have "run_census census_outside census_settings 1 7 demo_client census_store census_net =
      (Inr demo_scope, store_scope 1 demo_scope census_store, w')"
    unfolding run_census_def learned grid rbind.simps Let_def fst_conv snd_conv cmds sum.case prod.case chunks ran scope ..
  moreover have "store_scope 1 demo_scope census_store = census_store\<lparr>st_scopes := [((1, 7), demo_scope)]\<rparr>"
    by (simp add: store_scope_def demo_scope_def census_store_def)
  ultimately show thesis by (metis that)
qed

theorem census_serves_only_shown_witness:
  "\<exists>pred. crm_scope demo_principal (Some (viewer_access census_settings 1714560000 demo_principal
       (census_store\<lparr>st_scopes := [((1, 7), demo_scope)]\<rparr>))) (census_store\<lparr>st_scopes := [((1, 7), demo_scope)]\<rparr>) = Inr pred \<and>
     in_scope pred ((1, 2, 1), demo_deal) \<and>
     (\<exists>deal. shown census_outside demo_client TYPE(unit) deal CensusDeal 7 (Some 3))"
proof -
  let ?st = "census_store\<lparr>st_scopes := [((1, 7), demo_scope)]\<rparr>"
  have load: "load_scope census_settings 1 7 1714560000 ?st = Some demo_scope"
    by (simp add: load_scope_Some demo_scope_def generation_of_def census_store_def demo_store_def demo_row_def
        measured_nothing_def census_settings_def verdict_ok_def verdict_empty_def verdict_unprovable_def)
  have viewer: "pr_access demo_principal \<noteq> ''all''" "pr_grant demo_principal = None" "pr_portal demo_principal = 1" "pr_user demo_principal = 7"
    by (simp_all add: demo_principal_def)
  have scoped: "crm_scope demo_principal (Some (viewer_access census_settings 1714560000 demo_principal ?st)) ?st =
      Inr (Some (scope_predicate demo_scope))"
  proof -
    have "sg_enabled census_settings \<and> pr_access demo_principal = ''own''"
      by (simp add: census_settings_def demo_principal_def)
    then show ?thesis by (simp add: crm_scope_def viewer_access_def viewer load no_access_def)
  qed
  have row: "in_scope (Some (scope_predicate demo_scope)) ((1, 2, 1), demo_deal)"
    by (simp add: in_scope_def scope_predicate_def demo_deal_def demo_scope_def deal_term_def entity_deal_def no_data_def)
  from demo_census obtain w' where run: "run_census census_outside census_settings 1 7 demo_client census_store census_net =
      (Inr demo_scope, ?st, w')" .
  from census_serves_only_shown [OF run refl viewer scoped row] scoped row show ?thesis
    by (auto simp: demo_deal_def no_data_def entity_deal_def entity_lead_def)
qed

section \<open>The report from the mirror\<close>

text \<open>
  C12 The deal report of the mirror counts what its viewer may read, and nothing else. A viewer for
  whom the mirror is served is not turned away by its scope, and in every report that is built
  the deals of the totals are exactly the mirrored deals that the period, the employees and the
  stages of the rule select and that the viewer may read by role, by grant or by census; they
  add up from the won, the lost and those in progress.
\<close>

theorem mirror_report_counts_readable:
  shows "(serves_mirror vp p access \<longrightarrow> (\<exists>scope. crm_scope p access st = Inr scope)) \<and>
    (load_deal_report_mirror p pid rule wanted f access admitted cap fmt stale_after now staff st = Inr body \<longrightarrow>
     (\<exists>totals won lost progress.
        map_of body ''totals'' = Some (JDict totals) \<and>
        get_field totals ''total'' = JInt (int (length (filter (\<lambda>kr.
          deal_counted pid f None (cf_employees f)
            (map (\<lambda>s. (st_category_id s, st_status_id s)) (resolve_rule rule (snd (deal_dictionary pid (rp_tables st))))) kr \<and>
          may_read_item p access st kr) (cs_items (vs_crm st))))) \<and>
        get_field totals ''won'' = JInt won \<and> get_field totals ''lost'' = JInt lost \<and>
        get_field totals ''in_progress'' = JInt progress \<and>
        get_field totals ''total'' = JInt (won + lost + progress)))"
proof (intro conjI impI)
  show "serves_mirror vp p access \<Longrightarrow> \<exists>scope. crm_scope p access st = Inr scope"
    by (rule serves_mirror_scoped)
  assume load: "load_deal_report_mirror p pid rule wanted f access admitted cap fmt stale_after now staff st = Inr body"
  let ?legs = "map (\<lambda>s. (st_category_id s, st_status_id s)) (resolve_rule rule (snd (deal_dictionary pid (rp_tables st))))"
  obtain scope groups dic counts where scope: "crm_scope p access st = Inr scope"
    and groups: "groups = fold_counts (index_stages (rd_stages dic)) counts"
    and counts: "counts = deal_stage_counts pid f scope (cf_employees f) ?legs (rp_tables st) (cs_items (vs_crm st))"
    and totals: "map_of body ''totals'' = Some (JDict (measures_wire False (report_totals dic groups)))"
    using load_deal_report_mirror_totals [OF load] by blast
  have "report_ok groups" and deals: "report_deals groups = int (sum_list (map sc_deals counts))"
    unfolding groups using fold_counts_ok by simp_all
  then have split: "tl_total (report_totals dic groups) =
      tl_won (report_totals dic groups) + tl_lost (report_totals dic groups) + tl_progress (report_totals dic groups)"
    by (simp add: report_totals_split)
  have "sum_list (map sc_deals counts) = length (filter (deal_counted pid f scope (cf_employees f) ?legs) (cs_items (vs_crm st)))"
    by (simp add: counts deal_stage_counts_def group_counts_total selected_deals_filter)
  moreover have "deal_counted pid f scope users legs = (\<lambda>kr. deal_counted pid f None users legs kr \<and> may_read_item p access st kr)" for users legs
  proof
    show "deal_counted pid f scope users legs kr = (deal_counted pid f None users legs kr \<and> may_read_item p access st kr)" for kr
      using crm_scope_reads [OF scope, of kr] by (cases kr) (auto simp: deal_counted_def in_scope_def)
  qed
  ultimately have "tl_total (report_totals dic groups) = int (length (filter (\<lambda>kr.
      deal_counted pid f None (cf_employees f) ?legs kr \<and> may_read_item p access st kr) (cs_items (vs_crm st))))"
    using deals by (simp add: report_totals_deals)
  with totals split show "\<exists>totals won lost progress.
        map_of body ''totals'' = Some (JDict totals) \<and>
        get_field totals ''total'' = JInt (int (length (filter (\<lambda>kr.
          deal_counted pid f None (cf_employees f) ?legs kr \<and> may_read_item p access st kr) (cs_items (vs_crm st))))) \<and>
        get_field totals ''won'' = JInt won \<and> get_field totals ''lost'' = JInt lost \<and>
        get_field totals ''in_progress'' = JInt progress \<and>
        get_field totals ''total'' = JInt (won + lost + progress)"
    by (simp add: measures_wire_def get_field_def)
qed

definition demo_colleague :: stored_item where
  "demo_colleague = demo_deal\<lparr>si_data := (si_data demo_deal)\<lparr>cd_assigned_by_id := Some 9\<rparr>\<rparr>"

definition demo_repo :: repo_store where
  "demo_repo =
     \<lparr>vs_crm = \<lparr>cs_base = demo_store, cs_items = [((1, 2, 1), demo_deal), ((1, 2, 2), demo_colleague)], cs_dirty = [],
                cs_lanes = [((1, ''deal.backfill''), fresh_lane 0 ''deal.backfill'')]\<rparr>,
      vs_portals = [(1, demo_portal_row)], vs_departments = [], vs_grants = [], st_scopes = [((1, 7), demo_scope)],
      rp_tables = \<lparr>dt_funnels = [], dt_stages = []\<rparr>\<rparr>"

definition demo_filters :: call_filters where
  "demo_filters = \<lparr>cf_start = 0, cf_end = 100, cf_employees = []\<rparr>"

definition demo_access :: viewer_access where
  "demo_access = \<lparr>va_grant = None, va_scope = Some demo_scope\<rparr>"

theorem mirror_report_counts_readable_witness:
  "\<exists>body totals. load_deal_report_mirror demo_principal 1 JNone JNone demo_filters (Some demo_access) True 5000
       (\<lambda>_. []) 900 100 [] demo_repo = Inr body \<and>
     map_of body ''totals'' = Some (JDict totals) \<and> get_field totals ''total'' = JInt 1"
proof -
  have scope: "crm_scope demo_principal (Some demo_access) demo_repo = Inr (Some (scope_predicate demo_scope))"
    by (simp add: crm_scope_def demo_access_def demo_principal_def)
  have available: "cv_deals_available (coverage_of 1 False (cs_lanes (vs_crm demo_repo)))"
    by (simp add: coverage_of_def lane_readable_def demo_repo_def fresh_lane_def Let_def)
  obtain body where load: "load_deal_report_mirror demo_principal 1 JNone JNone demo_filters (Some demo_access) True 5000
       (\<lambda>_. []) 900 100 [] demo_repo = Inr body"
    by (cases "deal_dictionary 1 (rp_tables demo_repo)") (simp add: load_deal_report_mirror_def scope available Let_def)
  have mine: "scope_predicate demo_scope ((1, 2, 1), demo_deal)" and theirs: "\<not> scope_predicate demo_scope ((1, 2, 2), demo_colleague)"
    by (simp_all add: scope_predicate_def demo_deal_def demo_colleague_def demo_scope_def deal_term_def entity_deal_def
        entity_lead_def no_data_def)
  have counted: "deal_counted 1 demo_filters None (cf_employees demo_filters) legs ((1, 2, 1), demo_deal)" for legs
    by (simp add: deal_counted_def live_row_def in_period_def in_scope_def assigned_to_def demo_filters_def demo_deal_def
        entity_deal_def no_data_def)
  have "may_read_item demo_principal (Some demo_access) demo_repo kr = scope_predicate demo_scope kr" for kr
    by (cases kr) (simp add: may_read_item_def demo_principal_def demo_access_def)
  with mine theirs counted have "length (filter (\<lambda>kr. deal_counted 1 demo_filters None (cf_employees demo_filters) legs kr \<and>
      may_read_item demo_principal (Some demo_access) demo_repo kr) (cs_items (vs_crm demo_repo))) = 1" for legs
    by (simp add: demo_repo_def)
  with mirror_report_counts_readable [of demo_portal_row demo_principal "Some demo_access" demo_repo 1 JNone JNone demo_filters] load
  show ?thesis by force
qed

end
