(* ===== verification/Report_Properties.thy ===== *)
theory Report_Properties
  imports Viewer_Properties
begin

text \<open>
  What the deal reports promise: a dictionary that forgets slowly, the same report from the mirror
  as from a live read, sums that add up, the administrator's period rule kept as it was saved, and
  a coverage that promises no more than the lanes have done.
\<close>

section \<open>The dictionary\<close>

text \<open>
  C14 The dictionary forgets slowly. After any history of reads, a stage that a stored read takes out
  of the tables (and a funnel likewise) was missing from that read, which read its kind completely,
  and had been missing for a day: an earlier read of the same portal, at least a day before, read
  the kind completely without it, and no read of the portal in between listed it.
\<close>

theorem dictionary_forgets_slowly:
  assumes run: "dict_run h t" and stored: "store_dictionary f dic now lanes (t, s) = (Inr (), t', s')"
  shows "(\<forall>pid e k. map_of (dt_stages t) (pid, e, k) \<noteq> None \<and> map_of (dt_stages t') (pid, e, k) = None \<longrightarrow>
      pid = portal_id f \<and> e \<in> set (dc_complete dic) \<and> (e, k) \<notin> stage_keys_of dic \<and>
      (\<exists>since. since + remove_after \<le> now \<and> unlisted_since stage_keys_of h pid (e, k) since)) \<and>
    (\<forall>pid e k. map_of (dt_funnels t) (pid, e, k) \<noteq> None \<and> map_of (dt_funnels t') (pid, e, k) = None \<longrightarrow>
      pid = portal_id f \<and> e \<in> set (dc_complete dic) \<and> (e, k) \<notin> funnel_keys dic \<and>
      (\<exists>since. since + remove_after \<le> now \<and> unlisted_since funnel_keys h pid (e, k) since))"
proof -
  note tables = store_dictionary_Inr [OF stored] and marks = dict_run_justified [OF run]
  have "portal_id f = pid \<and> e \<in> set (dc_complete dic) \<and> (e, k) \<notin> stage_keys_of dic \<and>
      (\<exists>since. since + remove_after \<le> now \<and> unlisted_since stage_keys_of h pid (e, k) since)"
    if "map_of (dt_stages t) (pid, e, k) = Some r" "map_of (dt_stages t') (pid, e, k) = None" for pid e k r
    using removed_unlisted [OF conjunct2 [OF marks] that(1) that(2) [unfolded tables]] by (simp add: stage_keys_of_def)
  moreover have "portal_id f = pid \<and> e \<in> set (dc_complete dic) \<and> (e, k) \<notin> funnel_keys dic \<and>
      (\<exists>since. since + remove_after \<le> now \<and> unlisted_since funnel_keys h pid (e, k) since)"
    if "map_of (dt_funnels t) (pid, e, k) = Some r" "map_of (dt_funnels t') (pid, e, k) = None" for pid e k r
    using removed_unlisted [OF conjunct1 [OF marks] that(1) that(2) [unfolded tables]] by (simp add: funnel_keys_def)
  ultimately show ?thesis by auto
qed

definition demo_funnel :: funnel where
  "demo_funnel = \<lparr>fn_id = 3, fn_name = ''Sales'', fn_sort = 10, fn_is_default = False\<rparr>"

definition demo_stage :: stage where
  "demo_stage =
     \<lparr>st_key = ''3:WON'', st_category_id = 3, st_status_id = ''WON'', st_name = ''Won'', st_semantic = ''S'', st_sort = 20,
      st_known = True\<rparr>"

definition demo_dictionary :: "(int \<times> stage) list \<Rightarrow> dictionary" where
  "demo_dictionary stages =
     \<lparr>dc_funnels = [(2, demo_funnel)], dc_stages = stages, dc_errors = [], dc_complete = [2], dc_batches = 1,
      dc_universal = True, dc_time = None, dc_mode = None, dc_mode_answered = False\<rparr>"

definition demo_tables :: "(int \<times> int \<times> int \<times> string \<times> stage_values listed) option \<Rightarrow> rat \<Rightarrow> dict_tables" where
  "demo_tables won seen =
     \<lparr>dt_funnels = [((1, 2, 3), \<lparr>ls_values = \<lparr>fr_name = ''Sales'', fr_sort = 10, fr_default = False\<rparr>,
                                 ls_seen_at = seen, ls_missing = None\<rparr>)],
      dt_stages = (case won of None \<Rightarrow> [] | Some (p, e, c, s, r) \<Rightarrow> [((p, e, c, s), r)])\<rparr>"

definition demo_won :: "rat option \<Rightarrow> int \<times> int \<times> int \<times> string \<times> stage_values listed" where
  "demo_won missing =
     (1, 2, 3, ''WON'', \<lparr>ls_values = \<lparr>sr_name = ''Won'', sr_sort = 20, sr_semantic = ''S''\<rparr>, ls_seen_at = 0, ls_missing = missing\<rparr>)"

definition demo_crm_store :: crm_store where
  "demo_crm_store = \<lparr>cs_base = demo_store, cs_items = [], cs_dirty = [], cs_lanes = []\<rparr>"

definition stores :: "dictionary \<Rightarrow> rat \<Rightarrow> dict_tables \<Rightarrow> dict_tables \<Rightarrow> bool" where
  "stores dic now t t' =
     (case store_dictionary demo_fence dic now [] (t, demo_crm_store) of
        (Inr (), t1, s1) \<Rightarrow> dt_funnels t1 = dt_funnels t' \<and> dt_stages t1 = dt_stages t'
      | _ \<Rightarrow> False)"

lemma stores_D:
  assumes "stores dic now t t'"
  obtains s' where "store_dictionary demo_fence dic now [] (t, demo_crm_store) = (Inr (), t', s')"
  using assms by (auto simp: stores_def split: prod.splits sum.splits unit.splits)

lemma demo_stores:
  "stores (demo_dictionary [(2, demo_stage)]) 0 \<lparr>dt_funnels = [], dt_stages = []\<rparr> (demo_tables (Some (demo_won None)) 0)"
  "stores (demo_dictionary []) 100 (demo_tables (Some (demo_won None)) 0) (demo_tables (Some (demo_won (Some 100))) 100)"
  "stores (demo_dictionary []) 86500 (demo_tables (Some (demo_won (Some 100))) 100) (demo_tables None 86500)"
  by code_simp+

lemma demo_dict_run:
  "dict_run [(1, 0, demo_dictionary [(2, demo_stage)])] (demo_tables (Some (demo_won None)) 0)"
  "dict_run [(1, 100, demo_dictionary []), (1, 0, demo_dictionary [(2, demo_stage)])] (demo_tables (Some (demo_won (Some 100))) 100)"
proof -
  have pid: "portal_id demo_fence = 1" by (simp add: demo_fence_def)
  obtain s1 where "store_dictionary demo_fence (demo_dictionary [(2, demo_stage)]) 0 [] (\<lparr>dt_funnels = [], dt_stages = []\<rparr>, demo_crm_store) =
    (Inr (), demo_tables (Some (demo_won None)) 0, s1)" using demo_stores(1) by (rule stores_D)
  from dict_stored [OF dict_empty this]
  show first: "dict_run [(1, 0, demo_dictionary [(2, demo_stage)])] (demo_tables (Some (demo_won None)) 0)" by (simp add: pid)
  obtain s2 where "store_dictionary demo_fence (demo_dictionary []) 100 [] (demo_tables (Some (demo_won None)) 0, demo_crm_store) =
    (Inr (), demo_tables (Some (demo_won (Some 100))) 100, s2)" using demo_stores(2) by (rule stores_D)
  from dict_stored [OF first this]
  show "dict_run [(1, 100, demo_dictionary []), (1, 0, demo_dictionary [(2, demo_stage)])] (demo_tables (Some (demo_won (Some 100))) 100)"
    by (simp add: pid)
qed

theorem dictionary_forgets_slowly_witness:
  "\<exists>since. since + remove_after \<le> 86500 \<and>
    unlisted_since stage_keys_of [(1, 100, demo_dictionary []), (1, 0, demo_dictionary [(2, demo_stage)])] 1 (2, 3, ''WON'') since"
proof -
  obtain s' where stored: "store_dictionary demo_fence (demo_dictionary []) 86500 [] (demo_tables (Some (demo_won (Some 100))) 100, demo_crm_store) =
    (Inr (), demo_tables None 86500, s')" using demo_stores(3) by (rule stores_D)
  have "map_of (dt_stages (demo_tables (Some (demo_won (Some 100))) 100)) (1, 2, 3, ''WON'') \<noteq> None"
    and "map_of (dt_stages (demo_tables None 86500)) (1, 2, 3, ''WON'') = None"
    by (simp_all add: demo_tables_def demo_won_def)
  with dictionary_forgets_slowly [OF demo_dict_run(2) stored] show ?thesis by blast
qed

section \<open>The mirror and the live read\<close>

text \<open>
  C9 The report from the mirror is the report of a live read. When the dictionary has been filled by
  stored reads whose stages lie in listed funnels and end in one of the three outcomes, as every
  dictionary of \<open>read_dictionary\<close> does, and the pages of a live read show the deals that the mirror
  selects in the order of their ids, then folding the pages gives the very accumulators that the
  counts of the mirror fold to, whatever the order and the split of the pages' rows into groups, and
  every deal is met once.
\<close>

theorem mirror_report_equals_live:
  fixes items :: item_table
  assumes run: "dict_run h tables" and reads: "\<forall>(p, now, dic) \<in> set h. good_dictionary dic"
    and key: "distinct (map fst items)"
    and pages: "list_all2 (\<lambda>row ((p, e, i), r). row_shows d row i r) (concat pages)
      (sort_key (\<lambda>((p, e, i), r). i) (filter (deal_counted pid f scope users []) items))"
  shows "rfold (fold_page d (index_stages (snd (deal_dictionary pid tables))) None) pages ([], {}) =
    Inr (fold_counts (index_stages (snd (deal_dictionary pid tables))) (deal_stage_counts pid f scope users [] tables items),
         {i. \<exists>p e r. ((p, e, i), r) \<in> set (filter (deal_counted pid f scope users []) items)})"
proof -
  let ?known = "index_stages (snd (deal_dictionary pid tables))"
  let ?selected = "filter (deal_counted pid f scope users []) items"
  have mine: "fst x = (pid, entity_deal, snd (snd (fst x)))" if "x \<in> set ?selected" for x
  proof -
    obtain q e i r where "x = ((q, e, i), r)" by (metis surj_pair)
    with that show ?thesis by (auto simp: deal_counted_def live_row_def)
  qed
  have "distinct (map fst ?selected)" using key by (rule distinct_map_filter)
  moreover have "map fst ?selected = map (\<lambda>i. (pid, entity_deal, i)) (map (\<lambda>(p, e, i). i) (map fst ?selected))"
    using mine by (simp add: o_def case_prod_unfold)
  ultimately have "distinct (map (\<lambda>(p, e, i). i) (map fst ?selected))"
    by (metis distinct_map)
  from live_read_equals_mirror [OF dict_run_filed [OF run reads] dict_run_named [OF run] this pages, of pid]
  have "fold_page d ?known None (concat pages) ([], {}) =
      Inr (fold_counts ?known (deal_stage_counts pid f scope users [] tables items), {i. \<exists>p e r. ((p, e, i), r) \<in> set ?selected})"
    by (simp add: deal_stage_counts_def selected_deals_filter)
  then show ?thesis by (simp add: fold_page_def rfold_concat)
qed

definition demo_row_wire :: "int \<Rightarrow> (string, json) dict" where
  "demo_row_wire i =
     [(''id'', JInt i), (''categoryId'', JInt 3), (''stageId'', JStr ''WON''), (''assignedById'', JInt 7), (''stageSemanticId'', JStr ''P'')]"

theorem mirror_report_equals_live_witness:
  "\<exists>groups. rfold (fold_page item_dialect (index_stages (snd (deal_dictionary 1 (demo_tables (Some (demo_won None)) 0)))) None)
      [[demo_row_wire 1], [demo_row_wire 2]] ([], {}) = Inr (groups, {1, 2}) \<and> report_deals groups = 2"
proof -
  let ?items = "[((1, 2, 2), demo_deal), ((1, 2, 1), demo_deal)] :: item_table"
  have shown_row: "row_shows item_dialect (demo_row_wire i) i demo_deal" for i
    by (simp add: row_shows_def demo_row_wire_def item_dialect_def demo_deal_def no_data_def get_field_def won_or_lost_def) code_simp
  have counted: "deal_counted 1 demo_filters None [] [] ((1, 2, i), demo_deal)" for i
    by (simp add: deal_counted_def live_row_def in_period_def in_scope_def assigned_to_def demo_filters_def demo_deal_def
        entity_deal_def no_data_def)
  have "\<forall>(p, now, dic) \<in> set [(1 :: int, 0 :: rat, demo_dictionary [(2, demo_stage)])]. good_dictionary dic"
    by (simp add: good_dictionary_def demo_dictionary_def demo_stage_def demo_funnel_def)
  moreover have "list_all2 (\<lambda>row ((p, e, i), r). row_shows item_dialect row i r) (concat [[demo_row_wire 1], [demo_row_wire 2]])
      (sort_key (\<lambda>((p, e, i), r). i) (filter (deal_counted 1 demo_filters None [] []) ?items))"
    by (simp add: counted shown_row)
  ultimately have fold: "rfold (fold_page item_dialect (index_stages (snd (deal_dictionary 1 (demo_tables (Some (demo_won None)) 0)))) None)
      [[demo_row_wire 1], [demo_row_wire 2]] ([], {}) =
    Inr (fold_counts (index_stages (snd (deal_dictionary 1 (demo_tables (Some (demo_won None)) 0))))
           (deal_stage_counts 1 demo_filters None [] [] (demo_tables (Some (demo_won None)) 0) ?items),
         {i. \<exists>p e r. ((p, e, i), r) \<in> set (filter (deal_counted 1 demo_filters None [] []) ?items)})"
    by (intro mirror_report_equals_live [OF demo_dict_run(1)]) simp_all
  have "{i. \<exists>p e r. ((p, e, i), r) \<in> set (filter (deal_counted 1 demo_filters None [] []) ?items)} = {1, 2}"
    by (auto simp: counted)
  moreover have "report_deals (fold_counts known (deal_stage_counts 1 demo_filters None [] [] tables ?items)) = 2" for known tables
    using fold_counts_ok by (simp add: deal_stage_counts_def group_counts_total selected_deals_filter counted)
  ultimately show ?thesis using fold by auto
qed

text \<open>
  C21 The live report adds up. Whatever pages Bitrix24 answers with, however its records repeat among
  them and over the streams of the created and of the moved, in every accumulator that the fold
  returns each row of an operator is the sum of its outcomes and of its columns, each funnel the
  sum of its rows, and the totals count every deal that was folded exactly once.
\<close>

theorem live_report_adds_up:
  assumes "rfold (\<lambda>(only, page). fold_page d known only page) pages ([], {}) = Inr (groups, seen)"
  shows "report_ok groups \<and> tl_total (report_totals dic groups) = int (card seen) \<and>
    tl_total (report_totals dic groups) =
      tl_won (report_totals dic groups) + tl_lost (report_totals dic groups) + tl_progress (report_totals dic groups)"
  using fold_pages_ok [OF assms] report_totals_split [of groups dic] by (simp add: report_totals_deals)

theorem live_report_adds_up_witness:
  "\<exists>groups. rfold (\<lambda>(only, page). fold_page item_dialect [] only page)
      [(None, [demo_row_wire 1, demo_row_wire 2]), (Some [''3:WON''], [demo_row_wire 2, demo_row_wire 4])] ([], {}) =
        Inr (groups, {1, 2, 4}) \<and> report_ok groups \<and>
     tl_total (report_totals \<lparr>rd_funnels = [], rd_stages = [], rd_failed = [], rd_truncated = [], rd_dialect = []\<rparr> groups) = 3"
proof -
  have row: "as_int_crm (get_field (demo_row_wire i) ''id'') = Inr (Some i)" "as_int_crm (get_field (demo_row_wire i) ''categoryId'') = Inr (Some 3)"
    "as_int_crm (get_field (demo_row_wire i) ''assignedById'') = Inr (Some 7)" "crm_text (get_field (demo_row_wire i) ''stageId'') = ''WON''" for i
    by (simp_all add: demo_row_wire_def get_field_def) code_simp
  have "column_of (Some 3) ''WON'' = Some ''3:WON''" by code_simp
  with row obtain groups where fold: "rfold (\<lambda>(only, page). fold_page item_dialect [] only page)
      [(None, [demo_row_wire 1, demo_row_wire 2]), (Some [''3:WON''], [demo_row_wire 2, demo_row_wire 4])] ([], {}) =
        Inr (groups, {4, 2, 1})"
    by (simp add: fold_page_def fold_row_def item_dialect_def Let_def)
  moreover have "{4, 2, 1} = {1, 2, 4 :: int}" by auto
  ultimately show ?thesis using live_report_adds_up [OF fold] by auto
qed

section \<open>The period rule\<close>

text \<open>
  C23 The rule an administrator saves is the rule the reports apply. A body that passes its parse and
  the check against the dictionary is stored with exactly the keys asked for, is read back
  unchanged, and resolves to exactly the stages of those keys, in the order of the dictionary.
\<close>

theorem deal_rule_roundtrip:
  assumes "parse_rule_body payload = Some ks" and "validate_keys ks stages = Some vs"
    and "distinct (map st_key (all_stages stages))"
  shows "set vs = set ks \<and> rule_stage_keys (rule_of vs) = vs \<and> map st_key (resolve_rule (rule_of vs) stages) = vs"
  using assms by (rule rule_saved_resolves)

theorem deal_rule_roundtrip_witness:
  "map st_key (resolve_rule (rule_of [''3:WON'']) [(3, [demo_stage])]) = [''3:WON'']"
proof -
  have "parse_rule_body (JDict [(rule_key, JList [JStr ''3:WON'', JStr ''3:WON''])]) = Some [''3:WON'']"
    and "validate_keys [''3:WON''] [(3, [demo_stage])] = Some [''3:WON'']"
    by code_simp+
  from deal_rule_roundtrip [OF this] show ?thesis by (simp add: all_stages_def demo_stage_def)
qed

section \<open>Coverage\<close>

lemma backfills_done:
  assumes "list_all (\<lambda>l. ln_status l = lane_done) (lanes_named pid t names)" and "name \<in> set names"
    and "map_of t (pid, name) = Some l"
  shows "ln_status l = lane_done"
  using assms by (induction names) (auto simp: lanes_named_def List.map_filter_simps split: option.splits)

lemma lane_readable_found: "fst (lane_readable pid t name) \<Longrightarrow> \<exists>l. map_of t (pid, name) = Some l"
  by (auto simp: lane_readable_def split: option.splits)

lemma oldest_clean_Some:
  assumes "oldest_clean pid t names = Some since" and "name \<in> set names"
  shows "\<exists>l c. map_of t (pid, name) = Some l \<and> ln_last_clean_at l = Some c \<and> since \<le> c"
proof -
  define clean_of where "clean_of = (\<lambda>name. case map_of t (pid, name) of None \<Rightarrow> None | Some l \<Rightarrow> ln_last_clean_at l)"
  have dated: "None \<notin> clean_of ` set names" "min_opt (List.map_filter clean_of names) = Some since"
    using assms(1) by (auto simp: oldest_clean_def clean_of_def Let_def List.map_filter_def filter_map o_def split: if_splits)
  with assms(2) obtain c where c: "clean_of name = Some c" by (metis image_eqI not_None_eq)
  then have "c \<in> set (List.map_filter clean_of names)"
    using assms(2) by (force simp: List.map_filter_def)
  then have "since \<le> c" using dated(2) by (auto simp: min_opt_eq split: if_splits)
  with c show ?thesis by (auto simp: clean_of_def split: option.splits)
qed

text \<open>
  C24 The coverage promises no more than the lanes have done. The progress stays within a hundred and
  reaches it only when the history is complete; complete means that every backfill the report
  draws on has finished, at least one of them; and a report that dates its data has seen each of
  its sweeps end cleanly at that moment or later.
\<close>

theorem coverage_honest:
  assumes "\<forall>(k, l) \<in> set t. 0 \<le> ln_progress_done l"
  shows "cv_progress (coverage_of pid leads t) \<in> {0..100} \<and>
    (cv_progress (coverage_of pid leads t) = 100 \<longleftrightarrow> cv_history_complete (coverage_of pid leads t)) \<and>
    (cv_history_complete (coverage_of pid leads t) \<longrightarrow>
      (cv_deals_available (coverage_of pid leads t) \<or> leads \<and> cv_leads_available (coverage_of pid leads t)) \<and>
      (cv_deals_available (coverage_of pid leads t) \<longrightarrow>
        (\<exists>l. map_of t (pid, ''deal.backfill'') = Some l \<and> ln_status l = lane_done)) \<and>
      (leads \<and> cv_leads_available (coverage_of pid leads t) \<longrightarrow>
        (\<exists>l. map_of t (pid, ''lead.backfill'') = Some l \<and> ln_status l = lane_done))) \<and>
    (\<forall>since. cv_data_as_of (coverage_of pid leads t) = Some since \<longrightarrow>
      (\<exists>l c. map_of t (pid, ''deal.sweep'') = Some l \<and> ln_last_clean_at l = Some c \<and> since \<le> c) \<and>
      (leads \<and> cv_leads_available (coverage_of pid leads t) \<longrightarrow>
        (\<exists>l c. map_of t (pid, ''lead.sweep'') = Some l \<and> ln_last_clean_at l = Some c \<and> since \<le> c)))"
proof -
  obtain deals_ok reason where deals: "lane_readable pid t ''deal.backfill'' = (deals_ok, reason)" by (metis surj_pair)
  obtain lb_ok lb_reason where lb: "lane_readable pid t ''lead.backfill'' = (lb_ok, lb_reason)" by (metis surj_pair)
  obtain ls_ok ls_reason where ls: "lane_readable pid t ''lead.sweep'' = (ls_ok, ls_reason)" by (metis surj_pair)
  define counted where "counted \<longleftrightarrow> leads \<and> lb_ok \<and> ls_ok"
  define names where "names = (if deals_ok then [''deal.backfill''] else []) @ (if counted then [''lead.backfill''] else [])"
  define bs where "bs = lanes_named pid t names"
  have cv: "cv_deals_available (coverage_of pid leads t) = deals_ok"
      "leads \<and> cv_leads_available (coverage_of pid leads t) \<longleftrightarrow> counted"
      "cv_history_complete (coverage_of pid leads t) \<longleftrightarrow> bs \<noteq> [] \<and> list_all (\<lambda>l. ln_status l = lane_done) bs"
      "cv_progress (coverage_of pid leads t) =
        (if bs \<noteq> [] \<and> list_all (\<lambda>l. ln_status l = lane_done) bs then 100 else backfill_progress_pct bs)"
      "cv_data_as_of (coverage_of pid leads t) = oldest_clean pid t (''deal.sweep'' # (if counted then [''lead.sweep''] else []))"
    by (auto simp: coverage_of_def deals lb ls counted_def bs_def names_def Let_def)
  have found: "l \<in> set (lanes_named pid t ns) \<Longrightarrow> \<exists>k. map_of t k = Some l" for l ns
    by (induction ns) (auto simp: lanes_named_def List.map_filter_simps split: option.splits)
  have "l \<in> set bs \<Longrightarrow> 0 \<le> ln_progress_done l" for l
    using assms found [of l names] by (auto simp: bs_def dest!: map_of_SomeD)
  then have "backfill_progress_pct bs \<in> {0..99}"
    by (intro backfill_progress_below sum_list_nonneg) auto
  moreover have "\<exists>l. map_of t (pid, name) = Some l \<and> ln_status l = lane_done"
    if "list_all (\<lambda>l. ln_status l = lane_done) bs" "name \<in> set names" "fst (lane_readable pid t name)" for name
    using backfills_done [of pid t names name] lane_readable_found [OF that(3)] that by (auto simp: bs_def)
  moreover have "bs \<noteq> [] \<Longrightarrow> deals_ok \<or> counted"
    by (auto simp: bs_def names_def lanes_named_def List.map_filter_simps split: if_splits)
  moreover have "\<exists>l c. map_of t (pid, name) = Some l \<and> ln_last_clean_at l = Some c \<and> since \<le> c"
    if "oldest_clean pid t ns = Some since" "name \<in> set ns" for name ns since
    using oldest_clean_Some [OF that] .
  ultimately show ?thesis
    unfolding cv using deals lb by (auto simp: names_def counted_def)
qed

theorem coverage_honest_witness:
  "cv_progress (coverage_of 1 True [((1, ''deal.backfill''), (fresh_lane 0 ''deal.backfill'')\<lparr>ln_progress_done := 50, ln_progress_total := Some 50\<rparr>)]) \<noteq> 100 \<and>
   \<not> cv_history_complete (coverage_of 1 True [((1, ''deal.backfill''), (fresh_lane 0 ''deal.backfill'')\<lparr>ln_progress_done := 50, ln_progress_total := Some 50\<rparr>)])"
proof -
  let ?t = "[((1, ''deal.backfill''), (fresh_lane 0 ''deal.backfill'')\<lparr>ln_progress_done := 50, ln_progress_total := Some 50\<rparr>)]"
  have "\<forall>(k, l) \<in> set ?t. 0 \<le> ln_progress_done l" by simp
  moreover have "\<not> cv_history_complete (coverage_of 1 True ?t)"
    by (simp add: coverage_of_def lane_readable_def lanes_named_def List.map_filter_simps fresh_lane_def lane_pending_def
        lane_done_def Let_def)
  ultimately show ?thesis using coverage_honest [of ?t 1 True] by simp
qed

end
