(* ===== verification/Spec2Isabelle.thy ===== *)
theory Spec2Isabelle
  imports Client_Properties Store_Properties Limit_Properties Visit_Properties Mirror_Properties
    Crm_Properties Crm_Sync_Properties Viewer_Properties Report_Properties
begin

text \<open>
  The synchronisation core of the call analytics backend (\<open>api/app\<close>): a worker leases a portal,
  asks its REST API for pages of call records, parses them, stores them together with the
  portal's cursors, and lets itself be throttled by what the portal answers. Beside it, what a
  viewer is shown of the stored data: sessions, permissions, and the deal report.

  \<^bold>\<open>The parts, bottom up, and the theory of each.\<close>

  \<^item> \<open>Prelude\<close>: results as sums, programs as state passing with exceptions, triples for them,
    the bounded loop \<open>for_else\<close>, insertion-ordered dictionaries, \<open>max\<close> and \<open>min\<close> of a list.
  \<^item> \<open>Py_Value\<close>: JSON values and the standard library functions the source calls on them
    (string methods, \<open>int\<close>, \<open>float\<close> and \<open>Decimal\<close> literals, rounding).
  \<^item> \<open>Bitrix_Errors\<close>: \<open>bitrix/errors.py\<close>, the error classes and \<open>classify\<close>.
  \<^item> \<open>Rest_Client\<close>: \<open>bitrix/client.py\<close>; one request per \<open>call\<close> or \<open>batch\<close>, the PHP query encoding,
    the reading of an answer, the log row written for each exchange.
  \<^item> \<open>Statistic\<close>: \<open>bitrix/statistic.py\<close>; raw call record to row of \<open>calls\<close>, rejections, parameters.
  \<^item> \<open>Time_Block\<close>, \<open>Throttle\<close>, \<open>Budgets\<close>: \<open>sync/throttle.py\<close> and \<open>sync/budgets.py\<close>; what the portal says
    about its load, the decisions taken from it, the pacing of requests, the method budgets.
  \<^item> \<open>Fetch\<close>: \<open>sync/fetch.py\<close>; a batch of pages, its error-free prefix, the guard of the filter.
  \<^item> \<open>Store\<close>: the tables of \<open>db/models.py\<close> the sync reads and writes, transactions with rollback of
    \<open>db/session.py\<close>, the writers of \<open>services/portals.py\<close> and \<open>services/employees.py\<close>.
  \<^item> \<open>Lease\<close>: \<open>sync/lease.py\<close>; the tick, the fenced update every write passes, the release.
  \<^item> \<open>Upsert\<close>: \<open>sync/upsert.py\<close>; rows, rejections and cursor in one transaction.
  \<^item> \<open>Head_Fetch\<close>, \<open>Incremental\<close>, \<open>Backfill\<close>, \<open>Rescan\<close>: the passes of a visit, one theory for each file.
  \<^item> \<open>Deals\<close>, \<open>Utm\<close>: \<open>bitrix/deals.py\<close> and \<open>bitrix/utm.py\<close>; what the two reports ask and how they read the
    answers.
  \<^item> \<open>Crm_Items\<close>, \<open>Crm_Ranges\<close>: \<open>bitrix/crm_items.py\<close> and \<open>sync/crm_ranges.py\<close>; the vocabulary of the CRM
    mirror, its row parser, and the guarded reading of id ranges.
  \<^item> \<open>Crm_Lanes\<close>, \<open>Crm_Clock\<close>, \<open>Crm_Sweep\<close>, \<open>Crm_Backfill\<close>, \<open>Crm_Fetch\<close>, \<open>Crm_Dirty\<close>, \<open>Crm_Upsert\<close>, \<open>Crm_Refresh\<close>,
    \<open>Crm_Reconcile\<close>: the files of the same names under \<open>sync/\<close> (\<open>Crm_Dirty\<close>: \<open>services/crm_dirty.py\<close>;
    \<open>Crm_Upsert\<close> also \<open>sync/crm_deletes.py\<close>). Lanes schedule the work; the sweep follows edits, the
    backfill history, the refresh re-reads marked ids, the reconciliation compares; all write
    \<open>crm_items\<close>, \<open>crm_dirty\<close> and \<open>crm_lanes\<close> in fenced transactions.
  \<^item> \<open>Crm_Dict\<close>: \<open>sync/crm_dict.py\<close>; the funnels and stages of the portal, read in batches and stored
    with marks of absence.
  \<^item> \<open>Session_Token\<close>: \<open>security/session_token.py\<close>; the claims of the two signed tokens.
  \<^item> \<open>Viewer\<close>: \<open>services/access.py\<close>, \<open>security/principal.py\<close>, \<open>services/crm_grants.py\<close> and
    \<open>services/calls_repo.py\<close>; who a request comes from and which calls it reads.
  \<^item> \<open>Crm_Scope\<close>: \<open>services/crm_scope.py\<close>; the census that asks Bitrix24, with the viewer's own token,
    which cells of funnel and assignee the viewer may read.
  \<^item> \<open>Crm_Repo\<close>: \<open>services/crm_repo.py\<close>; the scope of every read of the mirror, the counts behind both
    reports, the dictionary as a report reads it, and the coverage.
  \<^item> \<open>Deal_Period\<close>, \<open>Deal_Report\<close>: \<open>services/deal_period.py\<close> and \<open>services/deal_stats.py\<close>; the rule of the
    administrator, the fold of deals or of counts into the report, and the report from the mirror.
  \<^item> \<open>Grouping\<close>, \<open>Deal_Parity\<close>: folds by group, and the equality of the two ways to the report.
  \<^item> \<open>Demo\<close>: a small portal, client and store on which the witnesses evaluate.

  \<^bold>\<open>State.\<close> A \<open>world\<close> is the network side (requests made, log rows, the last time block) extended by
  the store, the number of transactions so far and the process's resume points. What the program
  cannot decide is a parameter in the record \<open>sync_outside\<close>: the portal's answer to the \<open>n\<close>-th
  request, the ISO date parser, the URL host check, the rendering of floats, what other processes
  did to the store before the \<open>n\<close>-th transaction (\<open>interfere\<close>), which rows the database refuses
  (\<open>refuses\<close>), the worker's clock and the pacing hook. A program is a function from a world to a
  result and a world; an exception is the left of the sum, and every raise, early return and
  rollback is a branch.

  \<^bold>\<open>What the lemmas show.\<close> \<open>Client_Properties\<close>: what is sent arrives, what is answered is read in
  order and logged, what is parsed fits its columns and is accounted for. \<open>Store_Properties\<close>: fences
  exclude each other, the upsert is atomic, total and idempotent, and its chunking is invisible.
  \<open>Limit_Properties\<close>: limits park a portal, are learnt only from its own use, and are forgotten after
  clean visits. \<open>Visit_Properties\<close>, on \<open>No_Hole\<close>: no record below a cursor is lost, each pass reports
  what it stored and ends within its budget. \<open>Mirror_Properties\<close>, on \<open>Mirror\<close>: against a portal that serves
  its journal page by page, a whole pass stores every usable record its cursor moved over, and knows
  when nothing is left. \<open>Crm_Properties\<close> and \<open>Crm_Sync_Properties\<close>: the mirror's walk over history reads
  everything and ends, the sweep loses no edit, the stored reads converge to the newest whatever
  their order, deletions are proven, guarded and final, late marks survive, lanes wake when due.
  \<open>Viewer_Properties\<close>: tokens say what they were issued for, calls and mirrored records are read
  within the rights that Bitrix24 or a recorded grant gave, and a census opens only what was
  shown. \<open>Report_Properties\<close>: the dictionary forgets only after a day, the mirror draws the report of
  the live read, sums add up, the period rule is kept, and the coverage promises no more than was
  done.
  The locale \<open>fenced_op\<close> states once what every fenced write of the call sync promises; the heartbeat,
  the release, the cursor commit and the upsert interpret it. The locale \<open>crm_write\<close> does the same
  for the mirror; the upsert of items, the store of a refresh and the marks of a comparison
  interpret it.

  \<^bold>\<open>Bounds.\<close> A \<open>for ... else\<close> loop of the source is \<open>for_else\<close> with the source's own iteration count
  (ten incremental loops, the visit's batch budget elsewhere), so no fuel is chosen by the model.
  Recursion over JSON is bounded by the source's depth limit of eight. Chunks hold 500 rows, a
  batch 50 commands, as in the source.

  \<^bold>\<open>Where the model abstracts.\<close> A finite float is an exact rational, and the product with the
  attribution ratio is exact. The database clock is constant within a transaction, the
  worker's clock is read once per transaction or request. Strings are sequences of the first 256
  characters. An aware datetime is its instant and its offset, and the \<open>fromisoformat\<close> parser a
  parameter. The ceiling of deletions, two in a hundred as a float product, is the exact quotient.
  A dictionary keeps insertion order. SQL statements are functions on the tables, and
  the uniqueness and range rules a statement can violate are in \<open>refuses\<close>. The JWT library is a record
  of an encoder and a decoder; \<open>honest_jwt\<close> states its documentation, that a token it signed decodes
  to its claims exactly when the required claims are there and the times allow it. An SQL
  predicate is a truth-valued function of a row, a missing one \<open>None\<close>; the day of an instant in a
  zone, the rendering of a date, the database's order of texts and the admission of a report are
  parameters.

  \<^bold>\<open>Not modelled.\<close> Log lines; the HTTP library, TLS and time-outs (an answer or a transport error is
  a parameter); the process-wide registry of pacers; endpoint normalisation; the web handlers, the
  browser API, the statistics of calls and the fold of the sources report, the budget, caches and scan
  loop of the live deal report, the context of a CRM tab, the encryption of credentials and the token
  refresh, the jobs that schedule the visits, and the other REST readers. The manifest lists each with its reason.
\<close>

end
